(* ===== verification/Prelude.thy ===== *)
theory Prelude
  imports Main "HOL-Library.Word" "HOL-Library.Signed_Division"
begin

text \<open>
  The types and the pieces of the C library that every component of the development uses:
  \<open>storage_t\<close> (\<^verbatim>\<open>storage.h\<close>), addresses, \<open>time_t\<close>, NUL terminated strings, ASCII case
  folding, \<open>strtoll\<close>, \<open>atoi\<close>, \<open>snprintf\<close> truncation and network byte order, with the
  lemmas about them that the component proofs share.

  A C string is the \<open>string\<close> of the characters before its NUL; a raw buffer is a \<open>char list\<close> in
  which NUL may occur and \<open>c_str\<close> reads the string that starts at its front. A \<open>char\<close> is a
  byte.
\<close>

section \<open>Types\<close>

type_synonym storage_t = "64 word"
type_synonym addr = nat
type_synonym time_t = int

abbreviation NUL :: char where
  "NUL \<equiv> CHR 0x00"

text \<open>
  \<open>(storage_t)-1\<close>, the value the daemon answers for a record it does not monitor.
\<close>

definition no_usage :: storage_t where
  "no_usage = - 1"

named_theorems cstring_simps \<open>rewriting of C string operations\<close>

section \<open>C strings\<close>

definition c_str :: "char list \<Rightarrow> string" where
  "c_str bs = takeWhile (\<lambda>c. c \<noteq> NUL) bs"

definition nul_free :: "string \<Rightarrow> bool" where
  "nul_free s \<longleftrightarrow> NUL \<notin> set s"

definition tolower_c :: "char \<Rightarrow> char" where
  "tolower_c c = (let n = (of_char c :: nat) in
     if 65 \<le> n \<and> n \<le> 90 then char_of (n + 32) else c)"

definition lowercase :: "string \<Rightarrow> string" where
  "lowercase s = map tolower_c s"

definition strcasecmp_eq :: "string \<Rightarrow> string \<Rightarrow> bool" where
  "strcasecmp_eq a b \<longleftrightarrow> lowercase a = lowercase b"

text \<open>\<open>snprintf(b, n, "%s", s)\<close>: at most \<open>n - 1\<close> characters, then the NUL.\<close>

definition snprintf_str :: "nat \<Rightarrow> string \<Rightarrow> string" where
  "snprintf_str n s = take (n - 1) s"

lemma c_str_nul [cstring_simps, simp]: "nul_free s \<Longrightarrow> c_str (s @ NUL # t) = s"
  unfolding c_str_def nul_free_def by (induction s) auto

lemma nul_free_c_str [simp]: "nul_free (c_str bs)"
  unfolding c_str_def nul_free_def by (auto dest: set_takeWhileD)

lemma nul_free_simps [simp]:
  "nul_free []"
  "nul_free (c # s) \<longleftrightarrow> c \<noteq> NUL \<and> nul_free s"
  "nul_free (s @ t) \<longleftrightarrow> nul_free s \<and> nul_free t"
  by (auto simp: nul_free_def)

lemma of_char_lt_256 [simp]: "(of_char c :: nat) < 256"
  by simp

lemma of_char_char_of_nat: "(of_char (char_of n) :: nat) = n mod 256"
  by simp

lemma tolower_c_code: "(of_char (tolower_c c) :: nat) =
   (if 65 \<le> (of_char c :: nat) \<and> (of_char c :: nat) \<le> 90 then of_char c + 32 else of_char c)"
  by (simp add: tolower_c_def Let_def)

lemma tolower_c_bits [code]:
  "tolower_c (Char b0 b1 b2 b3 b4 b5 b6 b7) =
     (if \<not> b7 \<and> b6 \<and> \<not> b5 \<and> (b0 \<or> b1 \<or> b2 \<or> b3 \<or> b4) \<and> \<not> (b4 \<and> b3 \<and> (b2 \<or> b1 \<and> b0))
      then Char b0 b1 b2 b3 b4 True b6 b7 else Char b0 b1 b2 b3 b4 b5 b6 b7)"
  by (cases b0; cases b1; cases b2; cases b3; cases b4; cases b5; cases b6; cases b7)
    (simp_all add: tolower_c_def char_of_def bit_0)

lemma tolower_c_idem [simp]: "tolower_c (tolower_c c) = tolower_c c"
proof (cases "65 \<le> (of_char c :: nat) \<and> (of_char c :: nat) \<le> 90")
  case True
  then have "\<not> (of_char (tolower_c c) :: nat) \<le> 90" by (simp add: tolower_c_code)
  then show ?thesis by (simp add: tolower_c_def [of "tolower_c c"] Let_def)
next
  case False
  then have "tolower_c c = c" by (auto simp: tolower_c_def Let_def)
  then show ?thesis by simp
qed

lemma tolower_c_NUL [simp]: "tolower_c c = NUL \<longleftrightarrow> c = NUL"
proof
  assume "tolower_c c = NUL"
  then have "(of_char (tolower_c c) :: nat) = 0" by simp
  then have "(of_char c :: nat) = 0" by (simp add: tolower_c_code split: if_splits)
  then have "char_of (of_char c :: nat) = (char_of (0 :: nat) :: char)" by (rule arg_cong)
  moreover have "char_of (0 :: nat) = NUL" by (simp add: char_of_def)
  ultimately show "c = NUL" by (simp only: char_of_char)
qed (simp add: tolower_c_def)

lemma lowercase_simps [simp]:
  "lowercase [] = []"
  "lowercase (c # s) = tolower_c c # lowercase s"
  "lowercase (s @ t) = lowercase s @ lowercase t"
  by (simp_all add: lowercase_def)

lemma length_lowercase [simp]: "length (lowercase s) = length s"
  by (simp add: lowercase_def)

lemma lowercase_idem [simp]: "lowercase (lowercase s) = lowercase s"
  by (simp add: lowercase_def)

lemma lowercase_take: "lowercase (take n s) = take n (lowercase s)"
  by (simp add: lowercase_def take_map)

lemma nul_free_lowercase [simp]: "nul_free (lowercase s) = nul_free s"
  by (induction s) auto

lemma strcasecmp_eq_refl [simp]: "strcasecmp_eq s s"
  by (simp add: strcasecmp_eq_def)

lemma strcasecmp_eq_sym: "strcasecmp_eq s t = strcasecmp_eq t s"
  by (auto simp: strcasecmp_eq_def)

section \<open>Decimal conversion\<close>

definition is_space :: "char \<Rightarrow> bool" where
  "is_space c \<longleftrightarrow> c = CHR '' '' \<or> (9 \<le> (of_char c :: nat) \<and> (of_char c :: nat) \<le> 13)"

definition is_digit :: "char \<Rightarrow> bool" where
  "is_digit c \<longleftrightarrow> 48 \<le> (of_char c :: nat) \<and> (of_char c :: nat) \<le> 57"

fun digits_val :: "nat \<Rightarrow> string \<Rightarrow> nat" where
  "digits_val acc [] = acc"
| "digits_val acc (c # s) =
     (if is_digit c then digits_val (10 * acc + (of_char c - 48)) s else acc)"

definition strip_sign :: "string \<Rightarrow> bool \<times> string" where
  "strip_sign s =
     (case s of
        [] \<Rightarrow> (False, [])
      | c # t \<Rightarrow> if c = CHR ''-'' then (True, t) else if c = CHR ''+'' then (False, t) else (False, s))"

text \<open>
  \<open>strtoll(s, NULL, 10)\<close>: leading white space, an optional sign, decimal digits; out of range
  values saturate at \<open>LLONG_MIN\<close> and \<open>LLONG_MAX\<close>.
\<close>

definition strtoll :: "string \<Rightarrow> int" where
  "strtoll s =
     (let (neg, t) = strip_sign (dropWhile is_space s);
          n = int (digits_val 0 t);
          v = (if neg then - n else n)
      in max (- (2 ^ 63)) (min (2 ^ 63 - 1) v))"

text \<open>\<open>atoi\<close> converts with \<open>strtol\<close> and keeps the low 32 bits.\<close>

definition atoi :: "string \<Rightarrow> int" where
  "atoi s = sint (word_of_int (strtoll s) :: 32 word)"

lemma strtoll_bounds: "- (2 ^ 63) \<le> strtoll s" "strtoll s \<le> 2 ^ 63 - 1"
  by (simp_all add: strtoll_def Let_def split: prod.split)

lemma atoi_bounds: "- (2 ^ 31) \<le> atoi s" "atoi s < 2 ^ 31"
proof -
  show "- (2 ^ 31) \<le> atoi s"
    using sint_greater_eq [of "word_of_int (strtoll s) :: 32 word"] by (simp add: atoi_def)
  show "atoi s < 2 ^ 31"
    using sint_less [of "word_of_int (strtoll s) :: 32 word"] by (simp add: atoi_def)
qed

section \<open>Network byte order\<close>

text \<open>The \<open>k\<close> low bytes of a number, most significant first, and back.\<close>

fun be_encode :: "nat \<Rightarrow> nat \<Rightarrow> char list" where
  "be_encode 0 n = []"
| "be_encode (Suc k) n = be_encode k (n div 256) @ [char_of n]"

definition be_decode :: "char list \<Rightarrow> nat" where
  "be_decode bs = foldl (\<lambda>acc c. acc * 256 + of_char c) 0 bs"

text \<open>The bytes of \<open>htons(n)\<close> and of \<open>htonll(w)\<close> in memory, and the reverse conversions.\<close>

definition htons_bytes :: "nat \<Rightarrow> char list" where
  "htons_bytes n = be_encode 2 n"

definition htonll_bytes :: "storage_t \<Rightarrow> char list" where
  "htonll_bytes w = be_encode 8 (unat w)"

definition ntohll_bytes :: "char list \<Rightarrow> storage_t" where
  "ntohll_bytes bs = of_nat (be_decode bs)"

lemma length_be_encode [simp]: "length (be_encode k n) = k"
  by (induction k n rule: be_encode.induct) auto

lemma be_decode_snoc [simp]: "be_decode (bs @ [c]) = be_decode bs * 256 + of_char c"
  by (simp add: be_decode_def)

lemma be_decode_encode: "be_decode (be_encode k n) = n mod 256 ^ k"
proof (induction k n rule: be_encode.induct)
  case (1 n)
  then show ?case by (simp add: be_decode_def)
next
  case (2 k n)
  have "n mod 256 ^ Suc k = (n div 256) mod 256 ^ k * 256 + n mod 256"
    using mod_mult2_eq [of n 256 "256 ^ k"] by (simp add: mult.commute)
  with 2 show ?case by (simp add: of_char_char_of_nat)
qed

lemma ntohll_htonll [simp]: "ntohll_bytes (htonll_bytes w) = w"
proof -
  have "unat w < 256 ^ 8" using unsigned_less [of w, where ?'a = nat] by simp
  then show ?thesis by (simp add: ntohll_bytes_def htonll_bytes_def be_decode_encode)
qed

lemma length_htonll_bytes [simp]: "length (htonll_bytes w) = 8"
  by (simp add: htonll_bytes_def)

lemma htons_bytes_expand: "htons_bytes n = [char_of (n div 256), char_of n]"
  by (simp add: htons_bytes_def numeral_2_eq_2)

lemma be_decode_two: "be_decode [a, b] = of_char a * 256 + of_char b"
  by (simp add: be_decode_def)

lemma be_decode_htons: "n < 65536 \<Longrightarrow> be_decode (htons_bytes n) = n"
  by (simp add: htons_bytes_def be_decode_encode)

lemma storage_pred: "0 < n \<Longrightarrow> (of_nat n :: storage_t) - 1 = of_nat (n - 1)"
  by (cases n) simp_all

end
