(* ===== verification/Conf.thy ===== *)
theory Conf
  imports Prelude
begin

text \<open>
  The configuration reader (\<^verbatim>\<open>conf.c\<close>, \<^verbatim>\<open>conf.h\<close>) that the daemon and its clients share: a file
  is a sequence of lines \<^verbatim>\<open>Label: name=data; data; ...\<close>, continued by lines that start with a
  blank, with C style comments, quoted literals and backslash escapes, and \<open>include\<close> labels.

  The labels and their atoms are lists (the code links them with tail pointers); \<open>c_ltail\<close> is the
  index of the label the tail pointer designates. Every caller discards the structure when a parse
  function returns 0, so a failure is \<open>None\<close>; so is an access outside the buffer of the line, which
  \<open>config_strip\<close> describes. Allocation is taken to succeed: each exit for a failed
  \<open>malloc\<close> is a plain \<open>return 0\<close>. The operating system (current directory, \<open>stat\<close>, file
  contents) is the record \<open>world\<close>.
\<close>

section \<open>Model\<close>

subsection \<open>Data\<close>

record config_atom_t =
  a_name :: "string option"
  a_data :: string
  a_ignore :: bool
  a_line :: nat

record config_label_t =
  l_name :: string
  l_filename :: string
  l_line :: nat
  l_atoms :: "config_atom_t list"

record config_t =
  c_filename :: "string option"
  c_comment :: bool
  c_line :: nat
  c_labels :: "config_label_t list"
  c_ltail :: "nat option"

definition CONFIG_MAX_LINE :: nat where
  "CONFIG_MAX_LINE = 255"

definition config_alloc :: config_t where
  "config_alloc = \<lparr>c_filename = None, c_comment = False, c_line = 0, c_labels = [], c_ltail = None\<rparr>"

definition is_blank :: "char \<Rightarrow> bool" where
  "is_blank c \<longleftrightarrow> c = CHR '' '' \<or> c = CHR 0x09"

subsection \<open>Tokens and literals\<close>

text \<open>
  The scan of \<open>config_next_token\<close>: the offset of the first \<open>c\<close> that is neither escaped nor inside
  a literal. At the end of the string, an unterminated literal or escape and a missing token both
  give NULL.
\<close>

fun config_token_from :: "bool \<Rightarrow> bool \<Rightarrow> string \<Rightarrow> char \<Rightarrow> nat option" where
  "config_token_from esc lit [] c = None"
| "config_token_from esc lit (x # xs) c =
     (if esc then map_option Suc (config_token_from False lit xs c)
      else if x = CHR 0x5C \<and> \<not> lit then map_option Suc (config_token_from True lit xs c)
      else if x = CHR 0x22 then map_option Suc (config_token_from esc (\<not> lit) xs c)
      else if lit then map_option Suc (config_token_from esc lit xs c)
      else if x = c then Some 0
      else map_option Suc (config_token_from esc lit xs c))"

definition config_next_token :: "string \<Rightarrow> char \<Rightarrow> nat option" where
  "config_next_token str c = config_token_from False False str c"

text \<open>
  \<open>config_convert_literal\<close> runs over the string twice: \<open>config_literal_len\<close> is the first pass, which
  computes the size of the allocation, \<open>config_literal_out\<close> the second, which returns the bytes it
  stores and the final \<open>lit\<close> and \<open>esc\<close> flags. A backslash before digits stores the number's low
  byte.
\<close>

function config_literal_len :: "bool \<Rightarrow> bool \<Rightarrow> string \<Rightarrow> nat" where
  "config_literal_len esc lit [] = 0"
| "config_literal_len esc lit (x # xs) =
     (if esc then Suc (config_literal_len False lit xs)
      else if x = CHR 0x5C \<and> \<not> lit then
        (if xs \<noteq> [] \<and> is_digit (hd xs)
         then Suc (config_literal_len esc lit (dropWhile is_digit xs))
         else config_literal_len True lit xs)
      else if x = CHR 0x22 then config_literal_len esc (\<not> lit) xs
      else Suc (config_literal_len esc lit xs))"
  by pat_completeness auto
termination
  by (relation "measure (\<lambda>(esc, lit, s). length s)") (auto simp: le_imp_less_Suc length_dropWhile_le)

function config_literal_out :: "bool \<Rightarrow> bool \<Rightarrow> string \<Rightarrow> string \<times> bool \<times> bool" where
  "config_literal_out esc lit [] = ([], lit, esc)"
| "config_literal_out esc lit (x # xs) =
     (if esc then (let (r, f) = config_literal_out False lit xs in (x # r, f))
      else if x = CHR 0x5C \<and> \<not> lit then
        (if xs \<noteq> [] \<and> is_digit (hd xs)
         then (let (r, f) = config_literal_out esc lit (dropWhile is_digit xs)
               in (char_of (nat (atoi (takeWhile is_digit xs) mod 256)) # r, f))
         else config_literal_out True lit xs)
      else if x = CHR 0x22 then config_literal_out esc (\<not> lit) xs
      else (let (r, f) = config_literal_out esc lit xs in (x # r, f)))"
  by pat_completeness auto
termination
  by (relation "measure (\<lambda>(esc, lit, s). length s)") (auto simp: le_imp_less_Suc length_dropWhile_le)

definition config_convert_literal :: "string \<Rightarrow> string option" where
  "config_convert_literal str =
     (case config_literal_out False False str of
        (r, lit, esc) \<Rightarrow> if lit \<or> esc then None else Some (c_str r))"

subsection \<open>Comments\<close>

lemma config_token_from_less: "config_token_from esc lit s c = Some k \<Longrightarrow> k < length s"
  by (induction esc lit s c arbitrary: k rule: config_token_from.induct) (auto split: if_splits)

lemma config_next_token_less: "config_next_token s c = Some k \<Longrightarrow> k < length s"
  by (simp add: config_next_token_def config_token_from_less)

text \<open>
  The loop of \<open>config_remove_comments\<close> on one line: \<open>s\<close>, \<open>p\<close> and \<open>t\<close> are the pointers of the code
  as offsets into \<open>data\<close>, \<open>len\<close> is the length that the line had at first and \<open>comment\<close> is the \<open>CF_COMMENT\<close>
  flag, which survives the line. Closing a comment copies what follows it, \<open>len - (h - t)\<close> bytes from
  \<open>h + 2\<close>, down to \<open>t\<close>. The text that results is the line without the comment: what is copied after the
  terminator of the line is behind it again, and the terminator that is then stored is, too. But the
  number of bytes is counted from \<open>t\<close>, so the copy ends \<open>t + 2\<close> bytes behind the terminator; \<open>None\<close> is a copy that
  reads past the buffer of the line. (The two regions of this \<open>memcpy\<close> overlap; it is taken to copy forwards.)
\<close>

function config_strip ::
    "nat \<Rightarrow> bool \<Rightarrow> nat \<Rightarrow> nat \<Rightarrow> nat option \<Rightarrow> string \<Rightarrow> (bool \<times> string) option" where
  "config_strip len comment s p t data =
     (if \<not> comment then
        (case config_next_token (drop s data) CHR ''/'' of
           None \<Rightarrow> Some (False, data)
         | Some k \<Rightarrow>
             (let t = s + k; next = drop (Suc t) data
              in if next \<noteq> [] \<and> hd next = CHR ''/'' then Some (False, take t data)
                 else if next \<noteq> [] \<and> hd next = CHR ''*''
                 then config_strip len True s (t + 2) (Some t) data
                 else config_strip len False (Suc t) p (Some t) data))
      else
        (case config_next_token (drop p data) CHR ''*'' of
           None \<Rightarrow> Some (True, [])
         | Some k \<Rightarrow>
             (let h = p + k; next = drop (Suc h) data
              in if next \<noteq> [] \<and> hd next = CHR ''/'' then
                   (let u = (case t of None \<Rightarrow> p | Some t \<Rightarrow> t)
                    in if u \<le> h \<and> h + 2 + (len - (h - u)) \<le> CONFIG_MAX_LINE
                       then config_strip len False s p (Some u) (take u data @ drop (h + 2) data)
                       else None)
                 else config_strip len True s (h + 2) t data)))"
  by pat_completeness auto
termination
proof (relation "measures [\<lambda>(len, comment, s, p, t, data). length data,
     \<lambda>(len, comment, s, p, t, data). if comment then 0 else 1,
     \<lambda>(len, comment, s, p, t, data). length data - (if comment then p else s)]")
qed (auto dest!: config_next_token_less)

definition config_remove_comments :: "config_t \<Rightarrow> string \<Rightarrow> (config_t \<times> string) option" where
  "config_remove_comments c data =
     map_option (\<lambda>(comment, data'). (c\<lparr>c_comment := comment\<rparr>, data'))
       (config_strip (length data) (c_comment c) 0 0 None data)"

subsection \<open>Labels and atoms\<close>

text \<open>An atom: \<open>None\<close> is a syntax error, \<open>Some None\<close> an empty atom, which is dropped.\<close>

definition config_make_atom :: "nat \<Rightarrow> string option \<Rightarrow> string \<Rightarrow> config_atom_t option option" where
  "config_make_atom line aname adata =
     (case (case aname of None \<Rightarrow> Some None
                | Some n \<Rightarrow> map_option Some (config_convert_literal n)) of
        None \<Rightarrow> None
      | Some name \<Rightarrow>
          (case (if adata = [] then Some [] else config_convert_literal adata) of
             None \<Rightarrow> None
           | Some d \<Rightarrow>
               if d = [] \<and> (name = None \<or> name = Some []) then Some None
               else Some (Some \<lparr>a_name = name, a_data = d, a_ignore = False, a_line = line\<rparr>)))"

definition rtrim_blank :: "string \<Rightarrow> string" where
  "rtrim_blank s = rev (dropWhile is_blank (rev s))"

definition config_parse_label_atom :: "nat \<Rightarrow> string \<Rightarrow> config_atom_t option option" where
  "config_parse_label_atom line data =
     (case config_next_token data CHR ''='' of
        Some k \<Rightarrow>
          (let name = rtrim_blank (take k data);
               adata = dropWhile is_blank (drop (Suc k) data)
           in if name = [] then None else config_make_atom line (Some name) adata)
      | None \<Rightarrow> config_make_atom line None data)"

text \<open>The loop over the atoms of a line: each ends with a semicolon, only blanks may follow.\<close>

function config_parse_atoms :: "nat \<Rightarrow> string \<Rightarrow> config_atom_t list option" where
  "config_parse_atoms line data =
     (case config_next_token data CHR '';'' of
        None \<Rightarrow> if list_all is_blank data then Some [] else None
      | Some k \<Rightarrow>
          (case config_parse_label_atom line (dropWhile is_blank (take k data)) of
             None \<Rightarrow> None
           | Some r \<Rightarrow>
               (case config_parse_atoms line (drop (Suc k) data) of
                  None \<Rightarrow> None
                | Some as \<Rightarrow> Some (case r of None \<Rightarrow> as | Some a \<Rightarrow> a # as))))"
  by pat_completeness auto
termination
  by (relation "measure (\<lambda>(line, data). length data)") (auto dest: config_next_token_less)

declare config_literal_len.simps [simp del] config_literal_out.simps [simp del]
  config_strip.simps [simp del] config_parse_atoms.simps [simp del]

definition config_add_atoms :: "config_label_t list \<Rightarrow> nat \<Rightarrow> config_atom_t list \<Rightarrow> config_label_t list" where
  "config_add_atoms ls i as =
     (if i < length ls then ls[i := (ls ! i)\<lparr>l_atoms := l_atoms (ls ! i) @ as\<rparr>] else ls)"

text \<open>
  \<open>config_parse_label\<close>. A new label is linked behind the tail label and becomes the tail, or becomes
  the only label; with a NULL tail and existing labels it is linked nowhere. A continuation line
  goes to the tail label.
\<close>

definition config_parse_label :: "config_t \<Rightarrow> string option \<Rightarrow> string \<Rightarrow> config_t option" where
  "config_parse_label c newlabel labeldata =
     (case newlabel of
        None \<Rightarrow>
          (case c_ltail c of
             None \<Rightarrow> None
           | Some i \<Rightarrow>
               (case config_parse_atoms (c_line c) labeldata of
                  None \<Rightarrow> None
                | Some as \<Rightarrow> Some (c\<lparr>c_labels := config_add_atoms (c_labels c) i as\<rparr>)))
      | Some n \<Rightarrow>
          (case config_convert_literal n of
             None \<Rightarrow> None
           | Some name \<Rightarrow>
               (case config_parse_atoms (c_line c) labeldata of
                  None \<Rightarrow> None
                | Some as \<Rightarrow>
                    (let l = \<lparr>l_name = name,
                              l_filename = (case c_filename c of None \<Rightarrow> [] | Some f \<Rightarrow> f),
                              l_line = c_line c, l_atoms = as\<rparr>
                     in case c_ltail c of
                          Some i \<Rightarrow>
                            Some (c\<lparr>c_labels := take (Suc i) (c_labels c) @ [l],
                                     c_ltail := Some (Suc i)\<rparr>)
                        | None \<Rightarrow>
                            if c_labels c = [] then Some (c\<lparr>c_labels := [l], c_ltail := Some 0\<rparr>)
                            else Some c))))"

definition config_parse :: "config_t \<Rightarrow> string \<Rightarrow> config_t option" where
  "config_parse c data =
     (case config_remove_comments c data of
        None \<Rightarrow> None
      | Some (c, data) \<Rightarrow>
         if data = [] then Some c
         else if is_blank (hd data) then
           (if c_labels c = [] then None
            else let data = dropWhile is_blank data
                 in if data = [] then Some c else config_parse_label c None data)
         else
           (case config_next_token data CHR '':'' of
              None \<Rightarrow> None
            | Some k \<Rightarrow>
                if k = 0 then None
                else config_parse_label c (Some (take k data)) (dropWhile is_blank (drop (Suc k) data))))"

subsection \<open>Files\<close>

text \<open>
  \<open>fgets\<close> with a buffer of \<open>n\<close> bytes: \<open>None\<close> when it meets the end of the file (also after some
  bytes without a newline, where \<open>feof\<close> holds), otherwise the bytes read and the rest.
\<close>

definition fgets :: "nat \<Rightarrow> char list \<Rightarrow> (char list \<times> char list) option" where
  "fgets n bs =
     (let pre = takeWhile (\<lambda>c. c \<noteq> CHR 0x0A) bs
      in if length pre < length bs \<and> length pre < n - 1
         then Some (pre @ [CHR 0x0A], drop (Suc (length pre)) bs)
         else if n - 1 \<le> length bs then Some (take (n - 1) bs, drop (n - 1) bs)
         else None)"

lemma fgets_shorter: "fgets n bs = Some (l, rest) \<Longrightarrow> 1 < n \<Longrightarrow> length rest < length bs"
  by (auto simp: fgets_def Let_def split: if_splits)

text \<open>The line before its first newline or carriage return; \<open>None\<close> when there is neither.\<close>

definition config_chop_line :: "char list \<Rightarrow> string option" where
  "config_chop_line b =
     (let s = c_str b; l = takeWhile (\<lambda>c. c \<noteq> CHR 0x0A \<and> c \<noteq> CHR 0x0D) s
      in if length l < length s then Some l else None)"

function config_contents_loop :: "config_t \<Rightarrow> char list \<Rightarrow> config_t option" where
  "config_contents_loop c bs =
     (case fgets (CONFIG_MAX_LINE - 1) bs of
        None \<Rightarrow> Some c
      | Some (b, rest) \<Rightarrow>
          (let c = c\<lparr>c_line := c_line c + 1\<rparr>
           in case config_chop_line b of
                None \<Rightarrow> None
              | Some [] \<Rightarrow> config_contents_loop c rest
              | Some l \<Rightarrow>
                  (case config_parse c l of
                     None \<Rightarrow> None
                   | Some c' \<Rightarrow> config_contents_loop c' rest)))"
  by pat_completeness auto
termination
  by (relation "measure (\<lambda>(c, bs). length bs)")
    (auto simp: CONFIG_MAX_LINE_def dest: fgets_shorter)

declare config_contents_loop.simps [simp del]

definition config_contents :: "config_t \<Rightarrow> char list \<Rightarrow> config_t option" where
  "config_contents c bs = config_contents_loop (c\<lparr>c_line := 0\<rparr>) bs"

text \<open>
  What the reader asks of the system: the current directory, whether the file exists and has its
  sticky bit set at the \<open>i\<close>-th try, and the contents of a file that can be opened.
\<close>

record world =
  w_cwd :: "string option"
  w_sticky :: "string \<Rightarrow> nat \<Rightarrow> bool option"
  w_open :: "string \<Rightarrow> char list option"
  w_etc :: string

definition config_fullpath :: "world \<Rightarrow> string \<Rightarrow> nat \<Rightarrow> string option" where
  "config_fullpath w filename sz =
     (if filename \<noteq> [] \<and> hd filename = CHR ''/''
      then Some (if length filename \<ge> sz then take (sz - 1) filename else filename)
      else case w_cwd w of
             None \<Rightarrow> None
           | Some cwd \<Rightarrow>
               if length cwd + length filename \<ge> sz - 1 then None
               else Some (snprintf_str (sz - 1) (cwd @ ''/'' @ filename)))"

text \<open>\<open>config_wait\<close>: up to 60 looks at the file, until its sticky bit is clear.\<close>

fun config_wait_from :: "world \<Rightarrow> string \<Rightarrow> nat \<Rightarrow> nat \<Rightarrow> bool" where
  "config_wait_from w f tries 0 = False"
| "config_wait_from w f tries (Suc left) =
     (case w_sticky w f tries of
        None \<Rightarrow> False
      | Some sticky \<Rightarrow> if sticky then config_wait_from w f (Suc tries) left else True)"

definition config_wait :: "world \<Rightarrow> string \<Rightarrow> bool" where
  "config_wait w f = config_wait_from w f 0 60"

definition config_begin_read :: "world \<Rightarrow> config_t \<Rightarrow> string \<Rightarrow> config_t option" where
  "config_begin_read w c filename =
     (case config_fullpath w filename 255 of
        None \<Rightarrow> None
      | Some b \<Rightarrow>
          if \<not> config_wait w b then None
          else case w_open w b of
                 None \<Rightarrow> None
               | Some bs \<Rightarrow> config_contents (c\<lparr>c_filename := Some b\<rparr>) bs)"

subsection \<open>Includes\<close>

text \<open>
  The first atom of an \<open>include\<close> label that has not been read yet: label index, atom index, file.
\<close>

fun config_pending_atom :: "nat \<Rightarrow> config_atom_t list \<Rightarrow> (nat \<times> string) option" where
  "config_pending_atom j [] = None"
| "config_pending_atom j (a # as) =
     (if a_ignore a then config_pending_atom (Suc j) as else Some (j, a_data a))"

fun config_pending_include :: "nat \<Rightarrow> config_label_t list \<Rightarrow> (nat \<times> nat \<times> string) option" where
  "config_pending_include i [] = None"
| "config_pending_include i (l # ls) =
     (if strcasecmp_eq (l_name l) ''include''
      then (case config_pending_atom 0 (l_atoms l) of
              Some (j, f) \<Rightarrow> Some (i, j, f)
            | None \<Rightarrow> config_pending_include (Suc i) ls)
      else config_pending_include (Suc i) ls)"

definition config_ignore :: "config_label_t list \<Rightarrow> nat \<Rightarrow> nat \<Rightarrow> config_label_t list" where
  "config_ignore ls i j =
     (if i < length ls \<and> j < length (l_atoms (ls ! i))
      then ls[i := (ls ! i)\<lparr>l_atoms := (l_atoms (ls ! i))
             [j := (l_atoms (ls ! i) ! j)\<lparr>a_ignore := True\<rparr>]\<rparr>]
      else ls)"

text \<open>\<open>config_parse_includes\<close> reads one included file: 0 none left, 1 read, 2 failure.\<close>

definition config_parse_includes :: "world \<Rightarrow> config_t \<Rightarrow> nat \<times> config_t" where
  "config_parse_includes w c =
     (case config_pending_include 0 (c_labels c) of
        None \<Rightarrow> (0, c)
      | Some (i, j, f) \<Rightarrow>
          (case config_begin_read w c f of
             None \<Rightarrow> (2, c)
           | Some c' \<Rightarrow> (1, c'\<lparr>c_labels := config_ignore (c_labels c') i j\<rparr>)))"

text \<open>
  The loop of \<open>config_read\<close> over the included files. It ends only when no include is pending, so
  it takes fuel: \<open>None\<close> is a loop that has not ended, \<open>Some None\<close> a failed read.
\<close>

fun config_includes_loop :: "nat \<Rightarrow> world \<Rightarrow> config_t \<Rightarrow> config_t option option" where
  "config_includes_loop 0 w c = None"
| "config_includes_loop (Suc fuel) w c =
     (case config_parse_includes w c of
        (r, c') \<Rightarrow>
          if r = 2 then Some None
          else if r = 0 then Some (Some c')
          else config_includes_loop fuel w c')"

definition config_read :: "nat \<Rightarrow> world \<Rightarrow> string \<Rightarrow> config_t option option" where
  "config_read fuel w filename =
     (case config_begin_read w config_alloc filename of
        None \<Rightarrow> Some None
      | Some c \<Rightarrow>
          (case config_includes_loop fuel w c of
             None \<Rightarrow> None
           | Some None \<Rightarrow> Some None
           | Some (Some c') \<Rightarrow> if c_comment c' then Some None else Some (Some c')))"

text \<open>\<open>config_begin\<close>: the first of the four places where the file can be read.\<close>

fun config_first :: "nat \<Rightarrow> world \<Rightarrow> string list \<Rightarrow> config_t option option" where
  "config_first fuel w [] = Some None"
| "config_first fuel w (f # fs) =
     (case config_read fuel w f of
        None \<Rightarrow> None
      | Some (Some c) \<Rightarrow> Some (Some c)
      | Some None \<Rightarrow> config_first fuel w fs)"

definition config_begin :: "nat \<Rightarrow> world \<Rightarrow> string \<Rightarrow> config_t option option" where
  "config_begin fuel w filename =
     config_first fuel w
       [snprintf_str 255 (w_etc w @ ''/'' @ filename), filename,
        snprintf_str 255 (''etc/'' @ filename), snprintf_str 255 (''.//'' @ filename)]"

subsection \<open>Queries\<close>

fun config_atom_by_name :: "config_atom_t list \<Rightarrow> string \<Rightarrow> string option" where
  "config_atom_by_name [] aname = None"
| "config_atom_by_name (a # as) aname =
     (case a_name a of
        None \<Rightarrow> config_atom_by_name as aname
      | Some n \<Rightarrow> if strcasecmp_eq n aname then Some (a_data a) else config_atom_by_name as aname)"

fun config_label_by_name :: "config_label_t list \<Rightarrow> string \<Rightarrow> string \<Rightarrow> string option" where
  "config_label_by_name [] label aname = None"
| "config_label_by_name (l # ls) label aname =
     (if strcasecmp_eq (l_name l) label
      then (case config_atom_by_name (l_atoms l) aname of
              Some d \<Rightarrow> Some d
            | None \<Rightarrow> config_label_by_name ls label aname)
      else config_label_by_name ls label aname)"

definition config_fetch_by_name :: "config_t \<Rightarrow> string \<Rightarrow> string \<Rightarrow> string option" where
  "config_fetch_by_name c label aname = config_label_by_name (c_labels c) label aname"

fun config_label_by_num :: "config_label_t list \<Rightarrow> string \<Rightarrow> int \<Rightarrow> string option" where
  "config_label_by_num [] label num = None"
| "config_label_by_num (l # ls) label num =
     (if strcasecmp_eq (l_name l) label \<and> 1 \<le> num \<and> num \<le> int (length (l_atoms l))
      then Some (a_data (l_atoms l ! nat (num - 1)))
      else config_label_by_num ls label num)"

definition config_fetch_by_num :: "config_t \<Rightarrow> string \<Rightarrow> int \<Rightarrow> string option" where
  "config_fetch_by_num c label num = config_label_by_num (c_labels c) label num"

fun config_find_label :: "nat \<Rightarrow> config_label_t list \<Rightarrow> string \<Rightarrow> nat option" where
  "config_find_label i [] label = None"
| "config_find_label i (l # ls) label =
     (if strcasecmp_eq (l_name l) label then Some i else config_find_label (Suc i) ls label)"

definition config_reference :: "config_t \<Rightarrow> string \<Rightarrow> bool \<times> config_t" where
  "config_reference c label =
     (case config_find_label 0 (c_labels c) label of
        Some i \<Rightarrow> (True, c\<lparr>c_ltail := Some i\<rparr>)
      | None \<Rightarrow> (False, c\<lparr>c_ltail := None\<rparr>))"

text \<open>
  \<open>config_fetch\<close> compares the name of every atom it has not ignored, so an atom without a name is a
  read through NULL: \<open>None\<close>.
\<close>

fun config_fetch_atom :: "config_atom_t list \<Rightarrow> string \<Rightarrow> string option option" where
  "config_fetch_atom [] name = Some None"
| "config_fetch_atom (a # as) name =
     (if a_ignore a then config_fetch_atom as name
      else case a_name a of
             None \<Rightarrow> None
           | Some n \<Rightarrow>
               if strcasecmp_eq n name then Some (Some (a_data a)) else config_fetch_atom as name)"

definition config_fetch :: "config_t \<Rightarrow> string \<Rightarrow> string option option" where
  "config_fetch c name =
     (case c_ltail c of
        Some i \<Rightarrow> if i < length (c_labels c) then config_fetch_atom (l_atoms (c_labels c ! i)) name
                  else None
      | None \<Rightarrow> Some None)"

definition config_next_reference :: "config_t \<Rightarrow> bool \<times> config_t" where
  "config_next_reference c =
     (case c_ltail c of
        None \<Rightarrow> (False, c)
      | Some i \<Rightarrow>
          (case config_find_label (Suc i) (drop (Suc i) (c_labels c)) (l_name (c_labels c ! i)) of
             Some j \<Rightarrow> (True, c\<lparr>c_ltail := Some j\<rparr>)
           | None \<Rightarrow> (False, c\<lparr>c_ltail := None\<rparr>)))"

section \<open>Tokens\<close>

text \<open>
  The reference reading of the scanner: the state (escape, literal) it is in after a prefix.
\<close>

definition token_step :: "bool \<times> bool \<Rightarrow> char \<Rightarrow> bool \<times> bool" where
  "token_step st x =
     (case st of (esc, lit) \<Rightarrow>
        if esc then (False, lit)
        else if x = CHR 0x5C \<and> \<not> lit then (True, lit)
        else if x = CHR 0x22 then (False, \<not> lit)
        else (False, lit))"

definition token_state :: "bool \<times> bool \<Rightarrow> string \<Rightarrow> bool \<times> bool" where
  "token_state st s = foldl token_step st s"

definition token_at :: "bool \<times> bool \<Rightarrow> string \<Rightarrow> char \<Rightarrow> nat \<Rightarrow> bool" where
  "token_at st s c j \<longleftrightarrow> j < length s \<and> s ! j = c \<and> token_state st (take j s) = (False, False)"

lemma token_at_Nil [simp]: "\<not> token_at st [] c j"
  by (simp add: token_at_def)

lemma token_at_0: "token_at st (x # xs) c 0 \<longleftrightarrow> x = c \<and> st = (False, False)"
  by (simp add: token_at_def token_state_def)

lemma token_at_Suc: "token_at st (x # xs) c (Suc j) = token_at (token_step st x) xs c j"
  by (simp add: token_at_def token_state_def)

lemma first_token_Suc:
  assumes "\<not> token_at st (x # xs) c 0"
  shows "(token_at st (x # xs) c k \<and> (\<forall>j<k. \<not> token_at st (x # xs) c j)) \<longleftrightarrow>
    (\<exists>k'. k = Suc k' \<and> token_at (token_step st x) xs c k' \<and>
          (\<forall>j<k'. \<not> token_at (token_step st x) xs c j))"
  using assms by (cases k) (auto simp: token_at_Suc less_Suc_eq_0_disj)

lemma config_token_from_first:
  assumes "c \<noteq> CHR 0x5C" "c \<noteq> CHR 0x22"
  shows "config_token_from esc lit s c = Some k \<longleftrightarrow>
    (token_at (esc, lit) s c k \<and> (\<forall>j<k. \<not> token_at (esc, lit) s c j))"
  using assms
proof (induction esc lit s c arbitrary: k rule: config_token_from.induct)
  case (1 esc lit c)
  then show ?case by simp
next
  case (2 esc lit x xs c)
  show ?case
  proof (cases "token_at (esc, lit) (x # xs) c 0")
    case True
    with 2 show ?thesis by (cases k) (auto simp: token_at_0)
  next
    case False
    with 2 show ?thesis
      unfolding first_token_Suc [OF False] by (auto simp: token_at_0 token_step_def)
  qed
qed

text \<open>Text a search for \<open>c\<close> passes over: it neither holds \<open>c\<close> outside a literal nor opens one.\<close>

definition token_skips :: "char \<Rightarrow> string \<Rightarrow> bool" where
  "token_skips c xs \<longleftrightarrow>
     (\<forall>ys. config_next_token (xs @ ys) c = map_option (\<lambda>k. k + length xs) (config_next_token ys c))"

lemma token_skipsD:
  "token_skips c xs \<Longrightarrow>
   config_next_token (xs @ ys) c = map_option (\<lambda>k. k + length xs) (config_next_token ys c)"
  by (simp add: token_skips_def)

lemma token_skips_end: "token_skips c xs \<Longrightarrow> config_next_token xs c = None"
  using token_skipsD [of c xs "[]"] by (simp add: config_next_token_def)

lemma token_skips_hit:
  "token_skips c xs \<Longrightarrow> c \<noteq> CHR 0x5C \<Longrightarrow> c \<noteq> CHR 0x22 \<Longrightarrow> config_next_token (xs @ c # ys) c = Some (length xs)"
  using token_skipsD [of c xs "c # ys"] by (simp add: config_next_token_def)

lemma token_skips_Nil: "token_skips c []"
  by (simp add: token_skips_def option.map_ident)

lemma token_skips_append: "token_skips c xs \<Longrightarrow> token_skips c ys \<Longrightarrow> token_skips c (xs @ ys)"
  by (auto simp: token_skips_def option.map_comp o_def ac_simps)

lemma token_skips_plain:
  "c \<notin> set xs \<Longrightarrow> CHR 0x5C \<notin> set xs \<Longrightarrow> CHR 0x22 \<notin> set xs \<Longrightarrow> token_skips c xs"
proof (induction xs)
  case Nil
  show ?case by (rule token_skips_Nil)
next
  case (Cons x xs)
  then have "token_skips c [x]"
    by (auto simp: token_skips_def config_next_token_def)
  with Cons show ?case using token_skips_append [of c "[x]" xs] by simp
qed

lemma config_token_from_literal:
  "CHR 0x22 \<notin> set d \<Longrightarrow> config_token_from False True (d @ CHR 0x22 # ys) c =
     map_option (\<lambda>k. k + Suc (length d)) (config_token_from False False ys c)"
  by (induction d) (auto simp: option.map_comp o_def)

lemma token_skips_quoted: "CHR 0x22 \<notin> set d \<Longrightarrow> token_skips c (CHR 0x22 # d @ [CHR 0x22])"
  by (auto simp: token_skips_def config_next_token_def config_token_from_literal option.map_comp o_def)

lemma token_skips_concat: "(\<And>x. x \<in> set xs \<Longrightarrow> token_skips c x) \<Longrightarrow> token_skips c (concat xs)"
  by (induction xs) (auto simp: token_skips_Nil intro: token_skips_append)

section \<open>Literals\<close>

lemma config_literal_length: "length (fst (config_literal_out esc lit s)) = config_literal_len esc lit s"
proof (induction esc lit s rule: config_literal_len.induct)
  case (2 esc lit x xs)
  then show ?case
    by (simp add: config_literal_len.simps config_literal_out.simps split_beta Let_def)
qed (simp add: config_literal_len.simps config_literal_out.simps)

lemma config_literal_out_plain:
  "CHR 0x5C \<notin> set xs \<Longrightarrow> CHR 0x22 \<notin> set xs \<Longrightarrow> config_literal_out False False xs = (xs, False, False)"
  by (induction xs) (auto simp: config_literal_out.simps)

lemma config_literal_out_quoted:
  "CHR 0x22 \<notin> set d \<Longrightarrow> config_literal_out False True (d @ [CHR 0x22]) = (d, False, False)"
  by (induction d) (auto simp: config_literal_out.simps)

lemma c_str_nul_free: "nul_free s \<Longrightarrow> c_str s = s"
  by (auto simp: c_str_def nul_free_def takeWhile_eq_all_conv)

lemma config_convert_plain:
  "CHR 0x5C \<notin> set xs \<Longrightarrow> CHR 0x22 \<notin> set xs \<Longrightarrow> nul_free xs \<Longrightarrow> config_convert_literal xs = Some xs"
  by (simp add: config_convert_literal_def config_literal_out_plain c_str_nul_free)

lemma config_convert_quoted:
  "CHR 0x22 \<notin> set d \<Longrightarrow> nul_free d \<Longrightarrow> config_convert_literal (CHR 0x22 # d @ [CHR 0x22]) = Some d"
  by (simp add: config_convert_literal_def config_literal_out.simps config_literal_out_quoted
      c_str_nul_free)

section \<open>Printing and reading back\<close>

text \<open>
  An abstract configuration is a list of labels with their named values; \<open>print_config\<close> writes one
  line per label with every value quoted. Names are free of the characters the syntax uses, values
  of quotes, NUL and line ends, and a line fits the reader's buffer.
\<close>

type_synonym config_spec = "(string \<times> (string \<times> string) list) list"

definition print_atom :: "string \<times> string \<Rightarrow> string" where
  "print_atom nd = fst nd @ ''='' @ (CHR 0x22 # snd nd @ [CHR 0x22]) @ '';''"

definition print_label :: "string \<times> (string \<times> string) list \<Rightarrow> string" where
  "print_label l = fst l @ '':'' @ '' '' @ concat (map print_atom (snd l))"

definition print_config :: "config_spec \<Rightarrow> char list" where
  "print_config cfg = concat (map (\<lambda>l. print_label l @ [CHR 0x0A]) cfg)"

definition wf_name :: "string \<Rightarrow> bool" where
  "wf_name n \<longleftrightarrow> n \<noteq> [] \<and> \<not> is_blank (hd n) \<and> \<not> is_blank (last n) \<and> nul_free n \<and>
     list_all (\<lambda>c. c \<notin> {CHR 0x5C, CHR 0x22, CHR ''/'', CHR '':'', CHR ''='', CHR '';'', CHR 0x0A, CHR 0x0D}) n"

definition wf_value :: "string \<Rightarrow> bool" where
  "wf_value d \<longleftrightarrow> nul_free d \<and> list_all (\<lambda>c. c \<notin> {CHR 0x22, CHR 0x0A, CHR 0x0D}) d"

definition wf_label :: "string \<times> (string \<times> string) list \<Rightarrow> bool" where
  "wf_label l \<longleftrightarrow> wf_name (fst l) \<and> list_all (\<lambda>a. wf_name (fst a) \<and> wf_value (snd a)) (snd l) \<and>
     length (print_label l) < 253"

definition label_view :: "config_label_t \<Rightarrow> string \<times> (string \<times> string) list" where
  "label_view l = (l_name l, map (\<lambda>a. (the (a_name a), a_data a)) (l_atoms l))"

definition atom_of :: "nat \<Rightarrow> string \<times> string \<Rightarrow> config_atom_t" where
  "atom_of line nd = \<lparr>a_name = Some (fst nd), a_data = snd nd, a_ignore = False, a_line = line\<rparr>"

lemma wf_nameD:
  assumes "wf_name n"
  shows "n \<noteq> []" "\<not> is_blank (hd n)" "\<not> is_blank (last n)" "nul_free n"
    "CHR 0x5C \<notin> set n" "CHR 0x22 \<notin> set n" "CHR ''/'' \<notin> set n" "CHR '':'' \<notin> set n"
    "CHR ''='' \<notin> set n" "CHR '';'' \<notin> set n" "CHR 0x0A \<notin> set n" "CHR 0x0D \<notin> set n"
  using assms by (auto simp: wf_name_def list_all_iff)

lemma wf_valueD:
  assumes "wf_value d"
  shows "nul_free d" "CHR 0x22 \<notin> set d" "CHR 0x0A \<notin> set d" "CHR 0x0D \<notin> set d"
  using assms by (auto simp: wf_value_def list_all_iff)

lemma rtrim_blank_id: "s \<noteq> [] \<Longrightarrow> \<not> is_blank (last s) \<Longrightarrow> rtrim_blank s = s"
  by (cases s rule: rev_cases) (auto simp: rtrim_blank_def)

lemma dropWhile_blank_id: "(s \<noteq> [] \<Longrightarrow> \<not> is_blank (hd s)) \<Longrightarrow> dropWhile is_blank s = s"
  by (cases s) auto

lemma token_skips_name:
  "wf_name n \<Longrightarrow> c \<in> {CHR ''/'', CHR '':'', CHR ''='', CHR '';''} \<Longrightarrow> token_skips c n"
  using wf_nameD [of n] by (intro token_skips_plain) auto

lemma token_skips_char: "x \<noteq> c \<Longrightarrow> x \<noteq> CHR 0x5C \<Longrightarrow> x \<noteq> CHR 0x22 \<Longrightarrow> token_skips c [x]"
  by (rule token_skips_plain) auto

lemma print_atom_skips_slash:
  "wf_name (fst nd) \<Longrightarrow> wf_value (snd nd) \<Longrightarrow> token_skips CHR ''/'' (print_atom nd)"
  unfolding print_atom_def using wf_valueD [of "snd nd"]
  by (intro token_skips_append token_skips_quoted token_skips_char) (auto intro: token_skips_name)

lemma print_label_no_comment:
  assumes "wf_label l"
  shows "config_strip n False 0 0 None (print_label l) = Some (False, print_label l)"
proof -
  have "token_skips CHR ''/'' (concat (map print_atom (snd l)))"
    using assms by (intro token_skips_concat) (auto simp: wf_label_def list_all_iff print_atom_skips_slash)
  then have "token_skips CHR ''/'' (print_label l)"
    unfolding print_label_def using assms
    by (intro token_skips_append token_skips_char) (auto simp: wf_label_def intro: token_skips_name)
  then show ?thesis by (simp add: config_strip.simps token_skips_end)
qed

lemma parse_print_atom:
  assumes "wf_name n" and "wf_value d"
  shows "config_parse_label_atom line (n @ ''='' @ CHR 0x22 # d @ [CHR 0x22]) =
    Some (Some (atom_of line (n, d)))"
proof -
  note n = wf_nameD [OF assms(1)] and d = wf_valueD [OF assms(2)]
  have "config_next_token (n @ CHR ''='' # CHR 0x22 # d @ [CHR 0x22]) CHR ''='' = Some (length n)"
    using assms(1) by (intro token_skips_hit token_skips_name) auto
  then show ?thesis
    using n d config_convert_plain [of n] config_convert_quoted [of d]
    by (simp add: config_parse_label_atom_def rtrim_blank_id config_make_atom_def atom_of_def
        is_blank_def)
qed

lemma parse_print_atoms:
  assumes "list_all (\<lambda>a. wf_name (fst a) \<and> wf_value (snd a)) as"
  shows "config_parse_atoms line (concat (map print_atom as)) = Some (map (atom_of line) as)"
  using assms
proof (induction as)
  case Nil
  then show ?case by (simp add: config_parse_atoms.simps config_next_token_def)
next
  case (Cons a as)
  obtain n d where a: "a = (n, d)" by (cases a)
  define seg where "seg = n @ ''='' @ CHR 0x22 # d @ [CHR 0x22]"
  define rest where "rest = concat (map print_atom as)"
  from Cons.prems a have wf: "wf_name n" "wf_value d" by auto
  note n = wf_nameD [OF wf(1)] and d = wf_valueD [OF wf(2)]
  have "token_skips CHR '';'' (n @ ''='' @ (CHR 0x22 # d @ [CHR 0x22]))"
    using wf(1) d
    by (intro token_skips_append token_skips_quoted token_skips_char) (auto intro: token_skips_name)
  from token_skips_hit [OF this, of rest]
  have tok: "config_next_token (seg @ CHR '';'' # rest) CHR '';'' = Some (length seg)"
    by (simp add: seg_def)
  have blank: "dropWhile is_blank seg = seg"
    unfolding seg_def using n by (intro dropWhile_blank_id) simp
  have "concat (map print_atom (a # as)) = seg @ CHR '';'' # rest"
    by (simp add: print_atom_def a seg_def rest_def)
  moreover have "config_parse_atoms line rest = Some (map (atom_of line) as)"
    using Cons by (simp add: rest_def)
  moreover have "config_parse_label_atom line seg = Some (Some (atom_of line a))"
    unfolding seg_def a using wf by (rule parse_print_atom)
  ultimately show ?case by (simp add: config_parse_atoms.simps [of line "seg @ _"] tok blank)
qed

text \<open>While a file is read the tail pointer designates the last label.\<close>

definition tail_ok :: "config_t \<Rightarrow> bool" where
  "tail_ok c \<longleftrightarrow> c_ltail c = (if c_labels c = [] then None else Some (length (c_labels c) - 1))"

definition label_of :: "config_t \<Rightarrow> string \<times> (string \<times> string) list \<Rightarrow> config_label_t" where
  "label_of c l = \<lparr>l_name = fst l, l_filename = (case c_filename c of None \<Rightarrow> [] | Some f \<Rightarrow> f),
     l_line = c_line c, l_atoms = map (atom_of (c_line c)) (snd l)\<rparr>"

lemma label_view_of [simp]: "label_view (label_of c l) = l"
  by (simp add: label_view_def label_of_def atom_of_def o_def)

definition add_label :: "config_t \<Rightarrow> config_label_t \<Rightarrow> config_t" where
  "add_label c l = c\<lparr>c_labels := c_labels c @ [l], c_ltail := Some (length (c_labels c))\<rparr>"

lemma add_label_simps [simp]:
  "c_labels (add_label c l) = c_labels c @ [l]" "c_comment (add_label c l) = c_comment c"
  "c_filename (add_label c l) = c_filename c" "c_line (add_label c l) = c_line c" "tail_ok (add_label c l)"
  by (simp_all add: add_label_def tail_ok_def)

lemma config_parse_new_label:
  assumes "tail_ok c" and "config_convert_literal n = Some name"
    and "config_parse_atoms (c_line c) data = Some as"
  shows "config_parse_label c (Some n) data =
    Some (add_label c \<lparr>l_name = name, l_filename = (case c_filename c of None \<Rightarrow> [] | Some f \<Rightarrow> f),
      l_line = c_line c, l_atoms = as\<rparr>)"
  using assms by (auto simp: config_parse_label_def add_label_def tail_ok_def Let_def)

lemma print_atoms_not_blank:
  assumes "list_all (\<lambda>a. wf_name (fst a) \<and> wf_value (snd a)) as"
  shows "dropWhile is_blank (concat (map print_atom as)) = concat (map print_atom as)"
  using assms wf_nameD by (cases as) (auto intro!: dropWhile_blank_id simp: print_atom_def)

lemma parse_print_label:
  assumes wf: "wf_label l" and "tail_ok c" and "\<not> c_comment c"
  shows "config_parse c (print_label l) = Some (add_label c (label_of c l))"
proof -
  obtain n as where l: "l = (n, as)" by (cases l)
  from wf l have n: "wf_name n" and as: "list_all (\<lambda>a. wf_name (fst a) \<and> wf_value (snd a)) as"
    by (auto simp: wf_label_def)
  note nd = wf_nameD [OF n]
  have tok: "config_next_token (n @ CHR '':'' # CHR '' '' # concat (map print_atom as)) CHR '':'' = Some (length n)"
    using n by (intro token_skips_hit token_skips_name) auto
  have "config_remove_comments c (print_label l) = Some (c, print_label l)"
    using print_label_no_comment [OF wf] assms(3)
    by (simp add: config_remove_comments_def)
  moreover have "config_convert_literal n = Some n"
    using nd by (intro config_convert_plain) auto
  ultimately show ?thesis
    using nd tok print_atoms_not_blank [OF as]
      config_parse_new_label [OF assms(2), of n n "concat (map print_atom as)" "map (atom_of (c_line c)) as"]
      parse_print_atoms [OF as, of "c_line c"]
    by (simp add: config_parse_def print_label_def l label_of_def is_blank_def [of "CHR '' ''"])
qed

lemma takeWhile_not_in: "x \<notin> set xs \<Longrightarrow> takeWhile (\<lambda>c. c \<noteq> x) (xs @ x # ys) = xs"
  by (induction xs) auto

lemma fgets_line:
  "CHR 0x0A \<notin> set xs \<Longrightarrow> length xs < n - 1 \<Longrightarrow>
   fgets n (xs @ CHR 0x0A # ys) = Some (xs @ [CHR 0x0A], ys)"
  by (simp add: fgets_def Let_def takeWhile_not_in)

lemma config_chop_newline:
  assumes "nul_free xs" "CHR 0x0A \<notin> set xs" "CHR 0x0D \<notin> set xs"
  shows "config_chop_line (xs @ [CHR 0x0A]) = Some xs"
proof -
  have "c_str (xs @ [CHR 0x0A]) = xs @ [CHR 0x0A]" using assms by (intro c_str_nul_free) simp
  moreover have "takeWhile (\<lambda>c. c \<noteq> CHR 0x0A \<and> c \<noteq> CHR 0x0D) (xs @ [CHR 0x0A]) = xs"
    using assms by (induction xs) auto
  ultimately show ?thesis by (simp add: config_chop_line_def Let_def)
qed

lemma config_contents_line:
  assumes "nul_free xs" "CHR 0x0A \<notin> set xs" "CHR 0x0D \<notin> set xs" "length xs < 253" "xs \<noteq> []"
    and "config_parse (c\<lparr>c_line := c_line c + 1\<rparr>) xs = Some c'"
  shows "config_contents_loop c (xs @ CHR 0x0A # ys) = config_contents_loop c' ys"
  using assms fgets_line [of xs "CONFIG_MAX_LINE - 1" ys] config_chop_newline [of xs]
  by (subst config_contents_loop.simps)
    (auto simp: Let_def CONFIG_MAX_LINE_def split: list.splits)

lemma print_atom_chars:
  assumes "wf_name (fst a)" "wf_value (snd a)"
  shows "nul_free (print_atom a)" "CHR 0x0A \<notin> set (print_atom a)" "CHR 0x0D \<notin> set (print_atom a)"
  using wf_nameD [OF assms(1)] wf_valueD [OF assms(2)] by (auto simp: print_atom_def)

lemma print_label_chars:
  assumes "wf_label l"
  shows "nul_free (print_label l)" "CHR 0x0A \<notin> set (print_label l)"
    "CHR 0x0D \<notin> set (print_label l)" "print_label l \<noteq> []"
proof -
  have as: "wf_name (fst a) \<and> wf_value (snd a)" if "a \<in> set (snd l)" for a
    using assms that by (auto simp: wf_label_def list_all_iff)
  note n = wf_nameD [of "fst l"]
  from assms have "wf_name (fst l)" by (simp add: wf_label_def)
  then show "nul_free (print_label l)" "CHR 0x0A \<notin> set (print_label l)"
    "CHR 0x0D \<notin> set (print_label l)" "print_label l \<noteq> []"
    using n as print_atom_chars by (fastforce simp: print_label_def nul_free_def)+
qed

lemma print_config_loop:
  assumes "list_all wf_label cfg" and "tail_ok c" and "\<not> c_comment c"
  shows "\<exists>c' ks. config_contents_loop c (print_config cfg @ ys) = config_contents_loop c' ys \<and> tail_ok c'
    \<and> \<not> c_comment c' \<and> c_labels c' = c_labels c @ ks \<and> map label_view ks = cfg"
  using assms
proof (induction cfg arbitrary: c)
  case Nil
  then show ?case by (intro exI [of _ c] exI [of _ "[]"]) (simp add: print_config_def)
next
  case (Cons l cfg)
  let ?c = "c\<lparr>c_line := c_line c + 1\<rparr>"
  from Cons.prems have wf: "wf_label l" and t: "tail_ok ?c" and nc: "\<not> c_comment ?c"
    by (simp_all add: tail_ok_def)
  have s: "config_contents_loop c (print_config (l # cfg) @ ys) =
      config_contents_loop (add_label ?c (label_of ?c l)) (print_config cfg @ ys)"
    using config_contents_line [OF print_label_chars(1-3) [OF wf] _ print_label_chars(4) [OF wf]
        parse_print_label [OF wf t nc], of "print_config cfg @ ys"] wf
    by (simp add: print_config_def wf_label_def)
  from Cons.IH [of "add_label ?c (label_of ?c l)"] Cons.prems obtain c' ks where
    "config_contents_loop (add_label ?c (label_of ?c l)) (print_config cfg @ ys) = config_contents_loop c' ys"
    "tail_ok c'" "\<not> c_comment c'" "c_labels c' = c_labels c @ label_of ?c l # ks" "map label_view ks = cfg"
    by auto
  with s show ?case by (intro exI [of _ c'] exI [of _ "label_of ?c l # ks"]) simp
qed

lemma config_contents_end: "config_contents_loop c [] = Some c"
  by (simp add: config_contents_loop.simps fgets_def CONFIG_MAX_LINE_def)

lemma print_config_read:
  assumes "list_all wf_label cfg" and "tail_ok c" and "\<not> c_comment c"
  shows "\<exists>c'. config_contents_loop c (print_config cfg) = Some c' \<and> \<not> c_comment c' \<and>
    map label_view (c_labels c') = map label_view (c_labels c) @ cfg"
  using print_config_loop [OF assms, of "[]"] by (auto simp: config_contents_end)

section \<open>Including a file from itself\<close>

definition include_line :: "string \<Rightarrow> string" where
  "include_line f = ''include: '' @ f @ '';''"

definition pending_at_end :: "string \<Rightarrow> config_t \<Rightarrow> bool" where
  "pending_at_end f c \<longleftrightarrow> tail_ok c \<and> \<not> c_comment c \<and>
     (\<exists>ls l. c_labels c = ls @ [l] \<and> config_pending_include 0 ls = None \<and> l_name l = ''include'' \<and>
        (\<exists>a. l_atoms l = [a] \<and> \<not> a_ignore a \<and> a_data a = f))"

lemma config_pending_append:
  "config_pending_include i (ls @ ks) =
     (case config_pending_include i ls of None \<Rightarrow> config_pending_include (i + length ls) ks | r \<Rightarrow> r)"
  by (induction i ls rule: config_pending_include.induct) (auto split: option.splits)

lemma config_pending_shift:
  "config_pending_include i ls = None \<longleftrightarrow> config_pending_include 0 ls = None"
proof (induction ls arbitrary: i)
  case (Cons l ls)
  from Cons [of "Suc i"] Cons [of "Suc 0"] show ?case by (auto split: option.splits)
qed simp

lemma pending_include_end:
  assumes "c_labels c = ls @ [l]" and "config_pending_include 0 ls = None"
    and "l_name l = ''include''" and "l_atoms l = [a]" and "\<not> a_ignore a"
  shows "config_pending_include 0 (c_labels c) = Some (length ls, 0, a_data a)"
  using assms by (simp add: config_pending_append)

text \<open>
  An absolute path that needs no quoting and in which no comment starts, and its entry in the label list.
\<close>

fun no_comment :: "string \<Rightarrow> bool" where
  "no_comment [] = True"
| "no_comment (c # d) =
     ((c \<noteq> CHR ''/'' \<or> d = [] \<or> hd d \<noteq> CHR ''/'' \<and> hd d \<noteq> CHR ''*'') \<and> no_comment d)"

definition include_path :: "string \<Rightarrow> bool" where
  "include_path f \<longleftrightarrow> f \<noteq> [] \<and> hd f = CHR ''/'' \<and> no_comment f \<and> length f < 243 \<and>
     list_all (\<lambda>c. c \<notin> {NUL, CHR 0x5C, CHR 0x22, CHR '';'', CHR 0x0A, CHR 0x0D, CHR ''=''}) f"

definition include_label :: "config_t \<Rightarrow> string \<Rightarrow> config_label_t" where
  "include_label c f = \<lparr>l_name = ''include'', l_filename = (case c_filename c of None \<Rightarrow> [] | Some f \<Rightarrow> f),
     l_line = c_line c, l_atoms = [\<lparr>a_name = None, a_data = f, a_ignore = False, a_line = c_line c\<rparr>]\<rparr>"

lemma include_pathD:
  assumes "include_path f"
  shows "\<exists>g. f = CHR ''/'' # g" and "length f < 243" and "nul_free f" and "no_comment f"
    "CHR 0x5C \<notin> set f" "CHR 0x22 \<notin> set f" "CHR '';'' \<notin> set f" "CHR 0x0A \<notin> set f"
    "CHR 0x0D \<notin> set f" "CHR ''='' \<notin> set f"
  using assms by (cases f; auto simp: include_path_def list_all_iff nul_free_def)+

lemma config_token_at: "config_token_from esc lit d c = Some k \<Longrightarrow> d ! k = c"
  by (induction esc lit d c arbitrary: k rule: config_token_from.induct) (auto split: if_splits)

lemma no_comment_at:
  "no_comment d \<Longrightarrow> d ! k = CHR ''/'' \<Longrightarrow> Suc k < length d \<Longrightarrow> d ! Suc k \<noteq> CHR ''/'' \<and> d ! Suc k \<noteq> CHR ''*''"
proof (induction d arbitrary: k)
  case (Cons c d)
  then show ?case by (cases k; cases d) auto
qed simp

lemma no_comment_semicolon: "no_comment f \<Longrightarrow> no_comment (f @ '';'')"
proof (induction f)
  case (Cons c f)
  then show ?case by (cases f) auto
qed simp

lemma config_strip_no_comment:
  assumes "no_comment d"
  shows "config_strip n False s p t d = Some (False, d)"
proof (induction "length d - s" arbitrary: s t rule: less_induct)
  case less
  show ?case
  proof (cases "config_next_token (drop s d) CHR ''/''")
    case None
    then show ?thesis by (simp add: config_strip.simps [of n False s])
  next
    case (Some k)
    then have k: "k < length (drop s d)" "drop s d ! k = CHR ''/''"
      by (auto simp: config_next_token_def dest: config_token_from_less config_token_at)
    then have k': "s + k < length d" "d ! (s + k) = CHR ''/''" by auto
    have "drop (Suc (s + k)) d = [] \<or> hd (drop (Suc (s + k)) d) \<notin> {CHR ''/'', CHR ''*''}"
    proof (cases "Suc (s + k) < length d")
      case True
      then show ?thesis using no_comment_at [OF assms k'(2)] by (simp add: hd_drop_conv_nth)
    qed simp
    moreover have "config_strip n False (Suc (s + k)) p (Some (s + k)) d = Some (False, d)"
      using k' by (intro less) simp
    ultimately show ?thesis using Some by (auto simp: config_strip.simps [of n False s] Let_def)
  qed
qed

lemma include_line_no_comment: "include_path f \<Longrightarrow> no_comment (include_line f)"
  using include_pathD(4) [of f] by (simp add: include_line_def no_comment_semicolon)

lemma include_line_atoms:
  assumes "include_path f"
  shows "config_parse_atoms (c_line c) (f @ '';'') = Some (l_atoms (include_label c f))"
proof -
  note ch = include_pathD [OF assms]
  have tk: "config_next_token (f @ '';'') CHR '';'' = Some (length f)"
    using ch by (intro token_skips_hit token_skips_plain) auto
  have te: "config_next_token f CHR ''='' = None"
    using ch by (intro token_skips_end token_skips_plain) auto
  have cv: "config_convert_literal f = Some f" using ch by (intro config_convert_plain) auto
  have bl: "dropWhile is_blank f = f" "f \<noteq> []" using ch(1) by (auto simp: is_blank_def)
  have nl: "config_parse_atoms (c_line c) [] = Some []"
    by (simp add: config_parse_atoms.simps config_next_token_def)
  show ?thesis
    by (subst config_parse_atoms.simps)
      (simp add: tk te cv bl nl [simplified] config_parse_label_atom_def config_make_atom_def include_label_def)
qed

lemma include_line_parse:
  assumes "include_path f" and "tail_ok c" and "\<not> c_comment c"
  shows "config_parse c (include_line f) = Some (add_label c (include_label c f))"
proof -
  have tok: "config_next_token (include_line f) CHR '':'' = Some 7"
    by (simp add: include_line_def config_next_token_def)
  have nb: "dropWhile is_blank f = f" using include_pathD(1) [OF assms(1)] by (auto simp: is_blank_def)
  have "config_convert_literal ''include'' = Some ''include''"
    by (rule config_convert_plain) auto
  from config_parse_new_label [OF assms(2) this, of "f @ '';''"] include_line_atoms [OF assms(1)]
  have "config_parse_label c (Some ''include'') (f @ '';'') = Some (add_label c (include_label c f))"
    by (simp add: include_label_def)
  moreover have "config_remove_comments c (include_line f) = Some (c, include_line f)"
    using config_strip_no_comment [OF include_line_no_comment [OF assms(1)]] assms(3)
    by (simp add: config_remove_comments_def)
  ultimately show ?thesis
    using tok include_pathD(1) [OF assms(1)]
    by (auto simp: config_parse_def include_line_def is_blank_def)
qed

text \<open>The contents: any printed labels other than includes, then the line that includes the file.\<close>

definition self_including :: "config_spec \<Rightarrow> string \<Rightarrow> char list" where
  "self_including cfg f = print_config cfg @ include_line f @ [CHR 0x0A]"

definition no_include :: "config_spec \<Rightarrow> bool" where
  "no_include cfg \<longleftrightarrow> list_all wf_label cfg \<and> list_all (\<lambda>l. \<not> strcasecmp_eq (fst l) ''include'') cfg"

lemma no_include_pending:
  assumes "list_all (\<lambda>l. \<not> strcasecmp_eq (fst l) ''include'') (map label_view ks)"
  shows "config_pending_include i ks = None"
  using assms by (induction ks arbitrary: i) (auto simp: label_view_def)

lemma config_begin_read_include:
  assumes "include_path f" and "config_wait w f" and "no_include cfg"
    and "w_open w f = Some (self_including cfg f)" and "tail_ok c" and "\<not> c_comment c"
  shows "\<exists>c' ks l. config_begin_read w c f = Some c' \<and> c_labels c' = c_labels c @ ks @ [include_label l f]
    \<and> config_pending_include 0 ks = None \<and> tail_ok c' \<and> \<not> c_comment c'"
proof -
  let ?c = "c\<lparr>c_filename := Some f, c_line := 0\<rparr>"
  note ch = include_pathD [OF assms(1)]
  have t: "tail_ok ?c" "\<not> c_comment ?c" using assms(5,6) by (simp_all add: tail_ok_def)
  from assms(3) have "list_all wf_label cfg" by (simp add: no_include_def)
  from print_config_loop [OF this t] obtain c1 ks where
    c1: "config_contents_loop ?c (self_including cfg f) = config_contents_loop c1 (include_line f @ [CHR 0x0A])"
      "tail_ok c1" "\<not> c_comment c1" "c_labels c1 = c_labels ?c @ ks" "map label_view ks = cfg"
    unfolding self_including_def by blast
  let ?d = "c1\<lparr>c_line := c_line c1 + 1\<rparr>"
  have "tail_ok ?d" "\<not> c_comment ?d" using c1 by (simp_all add: tail_ok_def)
  note parse = include_line_parse [OF assms(1) this]
  have "nul_free (include_line f)" "CHR 0x0A \<notin> set (include_line f)" "CHR 0x0D \<notin> set (include_line f)"
    "length (include_line f) < 253" "include_line f \<noteq> []"
    using ch by (auto simp: include_line_def)
  from config_contents_line [OF this parse, of "[]"] c1(1)
  have "config_contents (c\<lparr>c_filename := Some f\<rparr>) (self_including cfg f) = Some (add_label ?d (include_label ?d f))"
    by (simp add: config_contents_def config_contents_end)
  then have "config_begin_read w c f = Some (add_label ?d (include_label ?d f))"
    using assms(2,4) ch(1,2) by (auto simp: config_begin_read_def config_fullpath_def)
  moreover have "config_pending_include 0 ks = None"
    using c1(5) assms(3) by (intro no_include_pending) (simp add: no_include_def)
  ultimately show ?thesis using c1(3,4) by fastforce
qed

lemma config_ignore_end:
  "config_ignore (ls @ [l, k]) (length ls) 0 =
     ls @ [if l_atoms l = [] then l
           else l\<lparr>l_atoms := (hd (l_atoms l))\<lparr>a_ignore := True\<rparr> # tl (l_atoms l)\<rparr>, k]"
  by (cases "l_atoms l") (auto simp: config_ignore_def nth_append list_update_append)

lemma config_includes_pending:
  assumes "include_path f" and "config_wait w f" and "no_include cfg"
    and "w_open w f = Some (self_including cfg f)" and "pending_at_end f c"
  shows "\<exists>c'. config_parse_includes w c = (1, c') \<and> pending_at_end f c'"
proof -
  from assms(5) obtain ls l a where c: "tail_ok c" "\<not> c_comment c" "c_labels c = ls @ [l]"
    "config_pending_include 0 ls = None" "l_name l = ''include''" "l_atoms l = [a]" "\<not> a_ignore a" "a_data a = f"
    by (auto simp: pending_at_end_def)
  from config_begin_read_include [OF assms(1-4) c(1,2)] obtain c1 ks k where
    c1: "config_begin_read w c f = Some c1" "c_labels c1 = c_labels c @ ks @ [include_label k f]"
      "config_pending_include 0 ks = None" "tail_ok c1" "\<not> c_comment c1" by blast
  let ?l' = "l\<lparr>l_atoms := [a\<lparr>a_ignore := True\<rparr>]\<rparr>"
  let ?c' = "c1\<lparr>c_labels := (ls @ ?l' # ks) @ [include_label k f]\<rparr>"
  have "config_parse_includes w c = (1, ?c')"
    using c1 pending_include_end [OF c(3-7)] c
    by (simp add: config_parse_includes_def config_ignore_def nth_append list_update_append)
  moreover have "pending_at_end f ?c'"
    unfolding pending_at_end_def
  proof (intro conjI exI [of _ "ls @ ?l' # ks"] exI [of _ "include_label k f"])
    have "config_pending_include (Suc (length ls)) ks = None" using c1(3) config_pending_shift by blast
    then show "config_pending_include 0 (ls @ ?l' # ks) = None" using c by (simp add: config_pending_append)
    show "tail_ok ?c'" using c1(2,4) c(3) by (simp add: tail_ok_def)
  qed (use c1 in \<open>simp_all add: include_label_def\<close>)
  ultimately show ?thesis by blast
qed

lemma config_includes_diverge:
  assumes "include_path f" and "config_wait w f" and "no_include cfg"
    and "w_open w f = Some (self_including cfg f)"
  shows "pending_at_end f c \<Longrightarrow> config_includes_loop fuel w c = None"
proof (induction fuel arbitrary: c)
  case (Suc fuel)
  from config_includes_pending [OF assms Suc.prems] obtain c'
    where "config_parse_includes w c = (1, c')" "pending_at_end f c'" by blast
  with Suc.IH show ?case by simp
qed simp

section \<open>Properties\<close>

text \<open>
  \<open>config_next_token\<close> returns the first position that holds the separator outside every
  literal and not behind a backslash, and NULL exactly when there is none: the scan agrees with the
  reading of the prefix by the two-flag automaton \<open>token_state\<close>.
\<close>

theorem config_next_token_first:
  assumes "c \<noteq> CHR 0x5C" and "c \<noteq> CHR 0x22"
  shows "config_next_token s c = Some k \<longleftrightarrow>
    token_at (False, False) s c k \<and> (\<forall>j<k. \<not> token_at (False, False) s c j)"
  using config_token_from_first [OF assms] by (simp add: config_next_token_def)

theorem config_next_token_first_witness:
  "config_next_token (CHR 0x22 # '';'' @ CHR 0x22 # ''a;'') CHR '';'' = Some 4 \<longleftrightarrow>
    token_at (False, False) (CHR 0x22 # '';'' @ CHR 0x22 # ''a;'') CHR '';'' 4 \<and>
    (\<forall>j<4. \<not> token_at (False, False) (CHR 0x22 # '';'' @ CHR 0x22 # ''a;'') CHR '';'' j)"
  by (rule config_next_token_first) simp_all

text \<open>
  The second pass of \<open>config_convert_literal\<close> stores exactly the number of bytes the first pass
  counted, so it stays inside the \<open>len + 1\<close> bytes allocated, for every input.
\<close>

theorem config_convert_literal_fits:
  "length (fst (config_literal_out False False str)) = config_literal_len False False str"
  by (rule config_literal_length)

text \<open>
  C33. Reading a printed configuration gives it back: the labels in order, each with its named values,
  and the line comment state closed.
\<close>

theorem config_print_read:
  assumes "list_all wf_label cfg"
  shows "\<exists>c. config_contents config_alloc (print_config cfg) = Some c \<and> \<not> c_comment c \<and>
    map label_view (c_labels c) = cfg"
proof -
  have "tail_ok (config_alloc\<lparr>c_line := 0\<rparr>)" "\<not> c_comment (config_alloc\<lparr>c_line := 0\<rparr>)"
    by (simp_all add: tail_ok_def config_alloc_def)
  from print_config_read [OF assms this] show ?thesis
    by (simp add: config_contents_def config_alloc_def)
qed

theorem config_print_read_witness:
  "\<exists>c. config_contents config_alloc
      (print_config [(''Queue'', [(''Workers'', ''5''), (''Max Queue Size'', ''a;b:c=d//e'')]), (''Polling'', [])]) =
    Some c \<and> \<not> c_comment c \<and> map label_view (c_labels c) =
      [(''Queue'', [(''Workers'', ''5''), (''Max Queue Size'', ''a;b:c=d//e'')]), (''Polling'', [])]"
  by (rule config_print_read)
    (simp add: wf_label_def wf_name_def wf_value_def is_blank_def print_label_def print_atom_def)

text \<open>
  C39. A configuration file with any labels, printed as for the round trip and none of them an include, and
  then a line that includes the file itself by its absolute path is read for ever: no amount of work ends the
  include loop of \<open>config_read\<close>, because each round marks one include as done and adds a new one. The path
  needs no quoting, starts no comment (no two slashes in a row, no \<^verbatim>\<open>/*\<close>) and fits the line; allocation
  succeeds.
\<close>

theorem config_read_self_include:
  assumes "include_path f" and "config_wait w f" and "no_include cfg"
    and "w_open w f = Some (self_including cfg f)"
  shows "config_read fuel w f = None"
proof -
  have t: "tail_ok config_alloc" "\<not> c_comment config_alloc" by (simp_all add: tail_ok_def config_alloc_def)
  from config_begin_read_include [OF assms t] obtain c ks l where
    c: "config_begin_read w config_alloc f = Some c" "c_labels c = ks @ [include_label l f]"
      "config_pending_include 0 ks = None" "tail_ok c" "\<not> c_comment c"
    by (auto simp: config_alloc_def)
  then have "pending_at_end f c"
    unfolding pending_at_end_def
    by (intro conjI exI [of _ ks] exI [of _ "include_label l f"]) (simp_all add: include_label_def)
  from config_includes_diverge [OF assms this] c(1) show ?thesis by (simp add: config_read_def)
qed

theorem config_read_self_include_witness:
  "config_read 1000 \<lparr>w_cwd = None, w_sticky = (\<lambda>_ _. Some False),
     w_open = (\<lambda>_. Some (self_including [(''Queue'', [(''Workers'', ''5'')])] ''/etc/v.conf'')), w_etc = ''/etc''\<rparr> ''/etc/v.conf'' = None"
proof (rule config_read_self_include)
  show "include_path ''/etc/v.conf''" by (simp add: include_path_def)
  show "config_wait \<lparr>w_cwd = None, w_sticky = (\<lambda>_ _. Some False),
     w_open = (\<lambda>_. Some (self_including [(''Queue'', [(''Workers'', ''5'')])] ''/etc/v.conf'')), w_etc = ''/etc''\<rparr> ''/etc/v.conf''"
    by code_simp
  show "no_include [(''Queue'', [(''Workers'', ''5'')])]"
    by (simp add: no_include_def wf_label_def wf_name_def wf_value_def is_blank_def print_label_def
        print_atom_def strcasecmp_eq_def tolower_c_def)
qed simp

text \<open>A comment in the middle of a long line: the copy of what follows it reads past the buffer.\<close>

lemma config_strip_overread:
  "config_strip 220 False 0 0 None (replicate 100 CHR ''a'' @ ''/* */'' @ replicate 115 CHR ''b'') = None"
  by code_simp

end
