(* ===== verification/Cache.thy ===== *)
theory Cache
  imports Prelude
begin

text \<open>
  The lookup table of the usage daemon (\<^verbatim>\<open>vusaged/cache.c\<close>): keys to structures, over the hash
  table of \<^verbatim>\<open>uthash.h\<close>. The table is the list of its items; an item added goes before the items
  with the same hash, so it is the one found among equal keys (as long as the table is not rehashed
  in between; with distinct keys, which \<open>cache_inv\<close> demands, the order does not matter).

  \<open>cache_add\<close> folds its key to lower case and \<open>cache_lookup\<close> and \<open>cache_remove\<close> do not.
  The locale \<open>keyed_store\<close> is the contract that the user and the domain structures rely on.
\<close>

section \<open>Model\<close>

type_synonym cache_t = "(string \<times> addr) list"

definition cache_init :: cache_t where
  "cache_init = []"

text \<open>\<open>ok1\<close> and \<open>ok2\<close> are the allocations of the item and of its key; \<open>None\<close> is the result 0.\<close>

definition cache_add :: "bool \<Rightarrow> bool \<Rightarrow> cache_t \<Rightarrow> string \<Rightarrow> addr \<Rightarrow> cache_t option" where
  "cache_add ok1 ok2 c key p =
     (if \<not> ok1 then None
      else if \<not> ok2 then None
      else Some ((lowercase key, p) # c))"

definition cache_lookup :: "cache_t \<Rightarrow> string \<Rightarrow> addr option" where
  "cache_lookup c key = map_of c key"

fun cache_remove :: "cache_t \<Rightarrow> string \<Rightarrow> cache_t" where
  "cache_remove [] key = []"
| "cache_remove ((k, p) # c) key = (if k = key then c else (k, p) # cache_remove c key)"

section \<open>Contract\<close>

text \<open>
  A store of keyed items: what a lookup returns after an insertion under a key that is not yet
  there, and after a removal.
\<close>

locale keyed_store =
  fixes inv :: "'s \<Rightarrow> bool"
    and look :: "'s \<Rightarrow> 'k \<Rightarrow> 'v option"
    and add :: "'s \<Rightarrow> 'k \<Rightarrow> 'v \<Rightarrow> 's option"
    and remv :: "'s \<Rightarrow> 'k \<Rightarrow> 's"
    and norm :: "'k \<Rightarrow> 'k"
  assumes norm_idem: "norm (norm k) = norm k"
    and look_norm: "inv s \<Longrightarrow> look s k = Some v \<Longrightarrow> norm k = k"
    and add_ok: "inv s \<Longrightarrow> look s (norm k) = None \<Longrightarrow>
      \<exists>s'. add s k v = Some s' \<and> inv s' \<and> look s' = (look s)(norm k \<mapsto> v)"
    and remv_ok: "inv s \<Longrightarrow> inv (remv s k) \<and> look (remv s k) = (look s)(k := None)"
begin

lemma add_remv:
  assumes "inv s" and "look s (norm k) = None" and "add s k v = Some s'"
  shows "look (remv s' (norm k)) = look s"
  using assms add_ok [of s k v] remv_ok [of s' "norm k"] by auto

lemma add_look:
  assumes "inv s" and "look s (norm k) = None" and "add s k v = Some s'"
  shows "look s' (norm k) = Some v" and "norm k' \<noteq> norm k \<Longrightarrow> look s' (norm k') = look s (norm k')"
  using assms add_ok [of s k v] by auto

end

definition cache_inv :: "cache_t \<Rightarrow> bool" where
  "cache_inv c \<longleftrightarrow> distinct (map fst c) \<and> list_all (\<lambda>(k, p). lowercase k = k) c"

lemma cache_inv_init [simp]: "cache_inv cache_init"
  by (simp add: cache_inv_def cache_init_def)

lemma cache_lookup_remove:
  "distinct (map fst c) \<Longrightarrow> cache_lookup (cache_remove c key) = (cache_lookup c)(key := None)"
  by (induction c key rule: cache_remove.induct)
    (auto simp: cache_lookup_def fun_eq_iff map_of_eq_None_iff)

lemma cache_remove_subset: "set (cache_remove c key) \<subseteq> set c"
  by (induction c key rule: cache_remove.induct) auto

lemma cache_remove_distinct: "distinct (map fst c) \<Longrightarrow> distinct (map fst (cache_remove c key))"
proof (induction c key rule: cache_remove.induct)
  case (2 k p c key)
  moreover have "fst ` set (cache_remove c key) \<subseteq> fst ` set c"
    by (rule image_mono [OF cache_remove_subset])
  ultimately show ?case by auto
qed simp

lemma cache_remove_inv: "cache_inv c \<Longrightarrow> cache_inv (cache_remove c key)"
  using cache_remove_subset [of c key] cache_remove_distinct [of c key]
  by (auto simp: cache_inv_def list_all_iff)

lemma cache_lookup_lower: "cache_inv c \<Longrightarrow> cache_lookup c k = Some p \<Longrightarrow> lowercase k = k"
  by (auto simp: cache_inv_def cache_lookup_def list_all_iff dest!: map_of_SomeD)

lemma cache_add_inv:
  "cache_inv c \<Longrightarrow> cache_lookup c (lowercase k) = None \<Longrightarrow> cache_inv ((lowercase k, p) # c)"
  by (auto simp: cache_inv_def cache_lookup_def map_of_eq_None_iff)

interpretation ckeys: keyed_store cache_inv cache_lookup "cache_add True True" cache_remove lowercase
proof unfold_locales
  show "cache_inv s \<Longrightarrow> cache_lookup s (lowercase k) = None \<Longrightarrow>
      \<exists>s'. cache_add True True s k v = Some s' \<and> cache_inv s' \<and>
        cache_lookup s' = (cache_lookup s)(lowercase k \<mapsto> v)" for s k v
    by (auto simp: cache_add_def cache_add_inv) (simp add: cache_lookup_def fun_eq_iff)
  show "cache_inv s \<Longrightarrow> cache_inv (cache_remove s k) \<and>
      cache_lookup (cache_remove s k) = (cache_lookup s)(k := None)" for s k
    using cache_lookup_remove [of s k] cache_remove_inv [of s k] by (auto simp: cache_inv_def)
qed (simp_all add: cache_lookup_lower)

end
