(* ===== verification/Linked.thy ===== *)
theory Linked
  imports Prelude
begin

text \<open>
  The doubly linked lists the usage daemon threads its structures on: the user list
  (\<^verbatim>\<open>vusaged/user.c\<close>), the domain list (\<^verbatim>\<open>vusaged/domain.c\<close>) and the socket list
  (\<^verbatim>\<open>vusaged/socket.c\<close>). The link fields are kept apart from the other fields of a structure:
  \<open>dl_next\<close> and \<open>dl_prev\<close> give the \<open>next\<close> and \<open>prev\<close> pointers by address (\<open>None\<close> is NULL) and
  \<open>dl_head\<close> is the list variable.

  \<open>dll_rep d xs\<close> says that the links of \<open>d\<close> represent the list \<open>xs\<close> of addresses; the locales
  \<open>front_list\<close> and \<open>unlink_list\<close> are the contract the components rely on.
\<close>

section \<open>Model\<close>

record dll =
  dl_head :: "addr option"
  dl_next :: "addr \<Rightarrow> addr option"
  dl_prev :: "addr \<Rightarrow> addr option"

definition dll_empty :: dll where
  "dll_empty = \<lparr>dl_head = None, dl_next = (\<lambda>_. None), dl_prev = (\<lambda>_. None)\<rparr>"

text \<open>
  Insertion of a freshly zeroed structure at the front:
  \<^verbatim>\<open>if (head) head->prev = a; a->next = head; head = a;\<close>
\<close>

definition dll_push_front :: "dll \<Rightarrow> addr \<Rightarrow> dll" where
  "dll_push_front d a =
     (let prev = (dl_prev d)(a := None)
      in \<lparr>dl_head = Some a,
          dl_next = (dl_next d)(a := dl_head d),
          dl_prev = (case dl_head d of None \<Rightarrow> prev | Some h \<Rightarrow> prev(h := Some a))\<rparr>)"

text \<open>
  \<^verbatim>\<open>if (a->next) a->next->prev = a->prev; if (a->prev) a->prev->next = a->next;
  if (a == head) head = a->next;\<close>
\<close>

definition dll_unlink :: "dll \<Rightarrow> addr \<Rightarrow> dll" where
  "dll_unlink d a =
     (let d1 = (case dl_next d a of
                  None \<Rightarrow> d
                | Some n \<Rightarrow> d\<lparr>dl_prev := (dl_prev d)(n := dl_prev d a)\<rparr>);
          d2 = (case dl_prev d1 a of
                  None \<Rightarrow> d1
                | Some p \<Rightarrow> d1\<lparr>dl_next := (dl_next d1)(p := dl_next d1 a)\<rparr>)
      in if dl_head d2 = Some a then d2\<lparr>dl_head := dl_next d2 a\<rparr> else d2)"

text \<open>Following \<open>next\<close> pointers, at most \<open>n\<close> of them.\<close>

fun dll_walk :: "nat \<Rightarrow> dll \<Rightarrow> addr option \<Rightarrow> addr list" where
  "dll_walk 0 d c = []"
| "dll_walk (Suc n) d c = (case c of None \<Rightarrow> [] | Some a \<Rightarrow> a # dll_walk n d (dl_next d a))"

section \<open>Representation\<close>

fun dll_seg :: "dll \<Rightarrow> addr option \<Rightarrow> addr option \<Rightarrow> addr list \<Rightarrow> addr option \<Rightarrow> addr option \<Rightarrow> bool" where
  "dll_seg d p c [] q e \<longleftrightarrow> p = q \<and> c = e"
| "dll_seg d p c (x # xs) q e \<longleftrightarrow>
     c = Some x \<and> dl_prev d x = p \<and> dll_seg d (Some x) (dl_next d x) xs q e"

definition dll_rep :: "dll \<Rightarrow> addr list \<Rightarrow> bool" where
  "dll_rep d xs \<longleftrightarrow> distinct xs \<and> (\<exists>l. dll_seg d None (dl_head d) xs l None)"

lemma dll_seg_append:
  "dll_seg d p c (xs @ ys) q e \<longleftrightarrow> (\<exists>m k. dll_seg d p c xs m k \<and> dll_seg d m k ys q e)"
  by (induction xs arbitrary: p c) auto

lemma dll_seg_cong:
  "(\<And>x. x \<in> set xs \<Longrightarrow> dl_next d' x = dl_next d x \<and> dl_prev d' x = dl_prev d x) \<Longrightarrow>
   dll_seg d p c xs q e \<Longrightarrow> dll_seg d' p c xs q e"
  by (induction xs arbitrary: p c) auto

lemma dll_seg_set_prev:
  assumes "dll_seg d p (Some y) (y # ys) q e" and "y \<notin> set ys"
    and "dl_prev d' y = p'" and "\<And>x. x \<in> set (y # ys) \<Longrightarrow> dl_next d' x = dl_next d x"
    and "\<And>x. x \<in> set ys \<Longrightarrow> dl_prev d' x = dl_prev d x"
  shows "dll_seg d' p' (Some y) (y # ys) q e"
  using assms dll_seg_cong [of ys d' d "Some y" "dl_next d y" q e] by auto

lemma dll_seg_set_next:
  assumes "dll_seg d p c (xs @ [z]) q e" and "z \<notin> set xs"
    and "dl_next d' z = e'" and "\<And>x. x \<in> set (xs @ [z]) \<Longrightarrow> dl_prev d' x = dl_prev d x"
    and "\<And>x. x \<in> set xs \<Longrightarrow> dl_next d' x = dl_next d x"
  shows "dll_seg d' p c (xs @ [z]) q e'"
proof -
  from assms(1) have s: "dll_seg d p c xs (dl_prev d z) (Some z)" and q: "q = Some z"
    by (auto simp: dll_seg_append)
  from assms(4,5) have "dll_seg d' p c xs (dl_prev d z) (Some z)"
    by (intro dll_seg_cong [OF _ s]) auto
  with q assms(3,4) show ?thesis by (auto simp: dll_seg_append)
qed

lemma dll_seg_last: "dll_seg d p c (xs @ [z]) q e \<Longrightarrow> q = Some z"
  by (auto simp: dll_seg_append)

lemma dll_rep_empty [simp]: "dll_rep dll_empty []"
  by (simp add: dll_rep_def dll_empty_def)

lemma dll_rep_head: "dll_rep d xs \<Longrightarrow> dl_head d = (case xs of [] \<Rightarrow> None | x # _ \<Rightarrow> Some x)"
  by (cases xs) (auto simp: dll_rep_def)

lemma dll_rep_push_front:
  assumes rep: "dll_rep d xs" and new: "a \<notin> set xs"
  shows "dll_rep (dll_push_front d a) (a # xs)"
proof -
  from rep obtain l where seg: "dll_seg d None (dl_head d) xs l None" and dist: "distinct xs"
    by (auto simp: dll_rep_def)
  show ?thesis
  proof (cases xs)
    case Nil
    with seg show ?thesis by (simp add: dll_rep_def dll_push_front_def Let_def)
  next
    case (Cons y ys)
    with seg have h: "dl_head d = Some y" by simp
    have "dll_seg (dll_push_front d a) (Some a) (Some y) (y # ys) l None"
    proof (rule dll_seg_set_prev [of d None])
      show "dll_seg d None (Some y) (y # ys) l None" using seg Cons h by simp
    qed (use Cons h new dist in \<open>auto simp: dll_push_front_def Let_def\<close>)
    with Cons h new dist show ?thesis
      by (auto simp: dll_rep_def dll_push_front_def Let_def)
  qed
qed

text \<open>The links around an element in the middle of the list.\<close>

lemma dll_rep_split:
  assumes "dll_rep d (xs @ a # ys)"
  obtains l where "dll_seg d None (dl_head d) xs (dl_prev d a) (Some a)"
    and "dll_seg d (Some a) (dl_next d a) ys l None"
    and "dl_prev d a = (if xs = [] then None else Some (last xs))"
    and "dl_next d a = (case ys of [] \<Rightarrow> None | y # _ \<Rightarrow> Some y)"
proof -
  from assms obtain l where s: "dll_seg d None (dl_head d) xs (dl_prev d a) (Some a)"
    and t: "dll_seg d (Some a) (dl_next d a) ys l None"
    by (auto simp: dll_rep_def dll_seg_append)
  from s have "dl_prev d a = (if xs = [] then None else Some (last xs))"
    by (cases xs rule: rev_cases) (auto dest: dll_seg_last)
  moreover from t have "dl_next d a = (case ys of [] \<Rightarrow> None | y # _ \<Rightarrow> Some y)"
    by (cases ys) auto
  ultimately show ?thesis using that s t by blast
qed

lemma dll_unlink_fields:
  assumes "dl_next d a \<noteq> Some a" and "dl_prev d a \<noteq> Some a"
  shows "dl_head (dll_unlink d a) = (if dl_head d = Some a then dl_next d a else dl_head d)"
    and "dl_next (dll_unlink d a) = (case dl_prev d a of None \<Rightarrow> dl_next d
           | Some p \<Rightarrow> (dl_next d)(p := dl_next d a))"
    and "dl_prev (dll_unlink d a) = (case dl_next d a of None \<Rightarrow> dl_prev d
           | Some n \<Rightarrow> (dl_prev d)(n := dl_prev d a))"
  using assms by (auto simp: dll_unlink_def Let_def split: option.splits)

lemma dll_rep_unlink:
  assumes rep: "dll_rep d (xs @ a # ys)"
  shows "dll_rep (dll_unlink d a) (xs @ ys)"
proof -
  from rep have dist: "distinct xs" "distinct ys" "a \<notin> set xs" "a \<notin> set ys" "set xs \<inter> set ys = {}"
    by (auto simp: dll_rep_def)
  from rep obtain l where s: "dll_seg d None (dl_head d) xs (dl_prev d a) (Some a)"
    and t: "dll_seg d (Some a) (dl_next d a) ys l None"
    and p: "dl_prev d a = (if xs = [] then None else Some (last xs))"
    and n: "dl_next d a = (case ys of [] \<Rightarrow> None | y # _ \<Rightarrow> Some y)"
    by (rule dll_rep_split)
  have "dl_next d a \<noteq> Some a" and "dl_prev d a \<noteq> Some a"
    using p n dist by (auto split: list.splits if_splits)
  note fields = dll_unlink_fields [OF this]
  have lst: "xs \<noteq> [] \<Longrightarrow> last xs \<notin> set ys" using dist last_in_set [of xs] by blast
  have hd: "dl_head (dll_unlink d a) = (if xs = [] then dl_next d a else dl_head d)"
    using s dist fields(1) by (cases xs) auto
  have s': "dll_seg (dll_unlink d a) None (dl_head (dll_unlink d a)) xs (dl_prev d a) (dl_next d a)"
  proof (cases xs rule: rev_cases)
    case Nil
    with p hd show ?thesis by simp
  next
    case (snoc zs z)
    have "dll_seg (dll_unlink d a) None (dl_head d) (zs @ [z]) (dl_prev d a) (dl_next d a)"
    proof (rule dll_seg_set_next [of d _ _ _ _ _ "Some a"])
      show "dll_seg d None (dl_head d) (zs @ [z]) (dl_prev d a) (Some a)" using s snoc by simp
    qed (use snoc p n dist in \<open>auto simp: fields split: list.splits\<close>)
    with snoc hd show ?thesis by simp
  qed
  have "\<exists>l. dll_seg (dll_unlink d a) (dl_prev d a) (dl_next d a) ys l None"
  proof (cases ys)
    case Nil
    with n show ?thesis by simp
  next
    case (Cons z zs)
    have "dll_seg (dll_unlink d a) (dl_prev d a) (Some z) (z # zs) l None"
    proof (rule dll_seg_set_prev [of d "Some a"])
      show "dll_seg d (Some a) (Some z) (z # zs) l None" using t Cons n by simp
    qed (use Cons p n dist lst in \<open>auto simp: fields split: if_splits\<close>)
    with Cons n show ?thesis by auto
  qed
  with s' dist show ?thesis by (auto simp: dll_rep_def dll_seg_append)
qed

lemma dll_walk_seg: "dll_seg d p c xs q None \<Longrightarrow> dll_walk (length xs) d c = xs"
  by (induction xs arbitrary: p c) auto

lemma dll_rep_walk: "dll_rep d xs \<Longrightarrow> dll_walk (length xs) d (dl_head d) = xs"
  by (auto simp: dll_rep_def dest: dll_walk_seg)

section \<open>Contracts\<close>

locale front_list =
  fixes rep :: "'l \<Rightarrow> addr list \<Rightarrow> bool"
    and push :: "'l \<Rightarrow> addr \<Rightarrow> 'l"
  assumes rep_distinct: "rep l xs \<Longrightarrow> distinct xs"
    and rep_push: "rep l xs \<Longrightarrow> a \<notin> set xs \<Longrightarrow> rep (push l a) (a # xs)"
begin

lemma rep_push_all:
  "rep l xs \<Longrightarrow> distinct as \<Longrightarrow> set as \<inter> set xs = {} \<Longrightarrow> rep (foldl push l as) (rev as @ xs)"
proof (induction as arbitrary: l xs)
  case Nil
  then show ?case by simp
next
  case (Cons a as)
  then have "rep (push l a) (a # xs)" by (auto intro: rep_push)
  from Cons.IH [OF this] Cons.prems show ?case by auto
qed

end

locale unlink_list = front_list +
  fixes unlink :: "'a \<Rightarrow> addr \<Rightarrow> 'a"
  assumes rep_unlink: "rep l (xs @ a # ys) \<Longrightarrow> rep (unlink l a) (xs @ ys)"
begin

lemma rep_unlink_remove1: "rep l xs \<Longrightarrow> a \<in> set xs \<Longrightarrow> rep (unlink l a) (remove1 a xs)"
proof -
  assume r: "rep l xs" and "a \<in> set xs"
  then obtain ys zs where xs: "xs = ys @ a # zs" and "a \<notin> set ys" by (meson split_list_first)
  with r show ?thesis by (simp add: remove1_append rep_unlink)
qed

lemma unlink_gone: "rep l xs \<Longrightarrow> a \<in> set xs \<Longrightarrow> \<exists>ys. rep (unlink l a) ys \<and> a \<notin> set ys \<and> set ys = set xs - {a}"
  using rep_unlink_remove1 [of l xs a] rep_distinct [of l xs] by (auto simp: set_remove1_eq)

end

interpretation links: unlink_list dll_rep dll_push_front dll_unlink
proof unfold_locales
  show "dll_rep l xs \<Longrightarrow> distinct xs" for l xs by (simp add: dll_rep_def)
qed (auto intro: dll_rep_push_front dll_rep_unlink)

end
