(* ===== verification/Domain.thy ===== *)
theory Domain
  imports Cache Linked
begin

text \<open>
  The domains the usage daemon accounts for (\<^verbatim>\<open>vusaged/domain.c\<close>): structures on a doubly linked
  list, found through the cache under the key \<open>@name\<close>, each holding the running total of its users.

  The part of the daemon's memory the component works on is the record \<open>domstate\<close>, which
  \<^verbatim>\<open>User.thy\<close> extends. \<open>al\<close> gives the outcome of each allocation of a call in the order the
  call makes them; \<open>None\<close> as the result of a state-changing operation is an invalid memory access.
\<close>

section \<open>Model\<close>

definition DOMAIN_MAX_DOMAIN :: nat where
  "DOMAIN_MAX_DOMAIN = 256"

record domain_t =
  dm_domain :: string
  dm_usage :: storage_t
  dm_count :: storage_t

record domstate =
  ds_cache :: cache_t
  ds_domains :: "addr \<Rightarrow> domain_t option"
  ds_domainlist :: dll
  ds_domainlist_num :: storage_t
  ds_brk :: addr

definition domain_init :: "'a domstate_scheme \<Rightarrow> 'a domstate_scheme" where
  "domain_init st = st\<lparr>ds_domainlist := (ds_domainlist st)\<lparr>dl_head := None\<rparr>, ds_domainlist_num := 0\<rparr>"

definition domain_get :: "'a domstate_scheme \<Rightarrow> string \<Rightarrow> addr option" where
  "domain_get st domain =
     cache_lookup (ds_cache st) (lowercase (snprintf_str (DOMAIN_MAX_DOMAIN + 1) (''@'' @ domain)))"

text \<open>Linking a structure at the front writes to the structure at the head, which has to be live.\<close>

definition domain_link :: "'a domstate_scheme \<Rightarrow> addr \<Rightarrow> 'a domstate_scheme option" where
  "domain_link st a =
     (if (case dl_head (ds_domainlist st) of None \<Rightarrow> True | Some h \<Rightarrow> ds_domains st h \<noteq> None)
      then Some (st\<lparr>ds_domainlist := dll_push_front (ds_domainlist st) a,
                    ds_domainlist_num := ds_domainlist_num st + 1\<rparr>)
      else None)"

definition domain_load :: "(nat \<Rightarrow> bool) \<Rightarrow> 'a domstate_scheme \<Rightarrow> string \<Rightarrow> (addr option \<times> 'a domstate_scheme) option" where
  "domain_load al st domain =
     (case domain_get st domain of
        Some a \<Rightarrow> Some (Some a, st)
      | None \<Rightarrow>
          if \<not> al 0 then Some (None, st)
          else if \<not> al 1 then Some (None, st)
          else
            let a = ds_brk st
            in case cache_add (al 2) (al 3) (ds_cache st)
                      (snprintf_str (DOMAIN_MAX_DOMAIN + 1) (''@'' @ domain)) a of
                 None \<Rightarrow> Some (None, st)
               | Some c \<Rightarrow>
                   map_option (\<lambda>st'. (Some a, st'))
                     (domain_link
                        (st\<lparr>ds_cache := c,
                            ds_domains := (ds_domains st)(a \<mapsto> \<lparr>dm_domain = domain, dm_usage = 0, dm_count = 0\<rparr>),
                            ds_brk := Suc a\<rparr>) a))"

text \<open>
  \<open>domain_free\<close> takes a domain with a neighbour off the list and frees it; the sole element of the
  list is freed but stays on it.
\<close>

definition domain_free :: "'a domstate_scheme \<Rightarrow> addr \<Rightarrow> 'a domstate_scheme option" where
  "domain_free st a =
     (let l = ds_domainlist st;
          live = (\<lambda>p. case p of None \<Rightarrow> True | Some b \<Rightarrow> ds_domains st b \<noteq> None)
      in if ds_domains st a = None \<or> \<not> live (dl_next l a) \<or> \<not> live (dl_prev l a) then None
         else
           let st = (if dl_next l a \<noteq> None \<or> dl_prev l a \<noteq> None
                     then st\<lparr>ds_domainlist := dll_unlink l a,
                             ds_domainlist_num := ds_domainlist_num st - 1\<rparr>
                     else st)
           in Some (st\<lparr>ds_domains := (ds_domains st)(a := None)\<rparr>))"

definition domain_usage :: "'a domstate_scheme \<Rightarrow> addr \<Rightarrow> storage_t option" where
  "domain_usage st a = map_option dm_usage (ds_domains st a)"

definition domain_get_usage :: "'a domstate_scheme \<Rightarrow> string \<Rightarrow> storage_t option" where
  "domain_get_usage st domain =
     (case domain_get st domain of None \<Rightarrow> Some no_usage | Some a \<Rightarrow> domain_usage st a)"

text \<open>The result of \<open>domain_get_use\<close>: 0 (\<open>Some None\<close>), or 1 with the two totals.\<close>

definition domain_get_use :: "'a domstate_scheme \<Rightarrow> string \<Rightarrow> (storage_t \<times> storage_t) option option" where
  "domain_get_use st domain =
     (case domain_get st domain of
        None \<Rightarrow> Some None
      | Some a \<Rightarrow> map_option (\<lambda>d. Some (dm_usage d, dm_count d)) (ds_domains st a))"

definition domain_update ::
    "'a domstate_scheme \<Rightarrow> addr \<Rightarrow> storage_t \<Rightarrow> storage_t \<Rightarrow> storage_t \<Rightarrow> storage_t \<Rightarrow> 'a domstate_scheme option" where
  "domain_update st a before after cbefore cafter =
     (case ds_domains st a of
        None \<Rightarrow> None
      | Some d \<Rightarrow>
          Some (st\<lparr>ds_domains := (ds_domains st)
            (a \<mapsto> d\<lparr>dm_usage := dm_usage d - before + after, dm_count := dm_count d - cbefore + cafter\<rparr>)\<rparr>))"

section \<open>The ledger contract\<close>

text \<open>
  What the users rely on: a domain has a balance, and \<open>update\<close> replaces one contribution to it by
  another. \<open>balanced bal us own con\<close> says that every balance is the sum of the contributions \<open>con\<close>
  of those of the users \<open>us\<close> that belong to the domain.
\<close>

definition owned_sum :: "addr list \<Rightarrow> (addr \<Rightarrow> addr option) \<Rightarrow> addr \<Rightarrow> (addr \<Rightarrow> storage_t) \<Rightarrow> storage_t" where
  "owned_sum us own d con = sum_list (map (\<lambda>p. if own p = Some d then con p else 0) us)"

definition balanced ::
    "(addr \<Rightarrow> (storage_t \<times> storage_t) option) \<Rightarrow> addr list \<Rightarrow> (addr \<Rightarrow> addr option) \<Rightarrow>
     (addr \<Rightarrow> storage_t \<times> storage_t) \<Rightarrow> bool" where
  "balanced bal us own con \<longleftrightarrow>
     (\<forall>d u c. bal d = Some (u, c) \<longrightarrow>
        u = owned_sum us own d (fst \<circ> con) \<and> c = owned_sum us own d (snd \<circ> con))"

lemma owned_sum_Cons:
  "owned_sum (p # us) own d con = (if own p = Some d then con p else 0) + owned_sum us own d con"
  by (simp add: owned_sum_def)

lemma owned_sum_none: "(\<And>p. own p \<noteq> Some d) \<Longrightarrow> owned_sum us own d con = 0"
  by (induction us) (simp_all add: owned_sum_def)

lemma owned_sum_cong:
  "(\<And>p. p \<in> set us \<Longrightarrow> own p = Some d \<Longrightarrow> con p = con' p) \<Longrightarrow>
   (\<And>p. p \<in> set us \<Longrightarrow> (own p = Some d) = (own' p = Some d)) \<Longrightarrow>
   owned_sum us own d con = owned_sum us own' d con'"
  by (auto simp: owned_sum_def intro!: arg_cong [where f = sum_list] map_cong)

lemma owned_sum_remove1:
  "distinct us \<Longrightarrow> p \<in> set us \<Longrightarrow>
   owned_sum us own d con = (if own p = Some d then con p else 0) + owned_sum (remove1 p us) own d con"
  by (induction us) (auto simp: owned_sum_Cons)

lemma owned_sum_update:
  assumes "distinct us" and "p \<in> set us"
  shows "owned_sum us own d (con(p := v)) =
    (if own p = Some d then owned_sum us own d con - con p + v else owned_sum us own d con)"
proof -
  have "owned_sum (remove1 p us) own d (con(p := v)) = owned_sum (remove1 p us) own d con"
    using assms by (intro owned_sum_cong) auto
  then show ?thesis
    using owned_sum_remove1 [OF assms, of own d "con(p := v)"] owned_sum_remove1 [OF assms, of own d con]
    by simp
qed

lemma comp_upd: "f \<circ> con(p := v) = (f \<circ> con)(p := f v)"
  by auto

locale ledger =
  fixes bal :: "'s \<Rightarrow> addr \<Rightarrow> (storage_t \<times> storage_t) option"
    and upd :: "'s \<Rightarrow> addr \<Rightarrow> storage_t \<Rightarrow> storage_t \<Rightarrow> storage_t \<Rightarrow> storage_t \<Rightarrow> 's option"
  assumes upd_ok: "bal s d = Some (u, c) \<Longrightarrow>
    \<exists>s'. upd s d b a cb ca = Some s' \<and> bal s' = (bal s)(d \<mapsto> (u - b + a, c - cb + ca))"
begin

lemma upd_balanced:
  assumes "balanced (bal s) us own con" and "distinct us" and "p \<in> set us" and "own p = Some d"
    and "bal s d = Some (u, c)"
  shows "\<exists>s'. upd s d (fst (con p)) a (snd (con p)) ca = Some s' \<and>
    balanced (bal s') us own (con(p := (a, ca))) \<and> dom (bal s') = dom (bal s)"
proof -
  from upd_ok [OF assms(5)] obtain s' where s': "upd s d (fst (con p)) a (snd (con p)) ca = Some s'"
    "bal s' = (bal s)(d \<mapsto> (u - fst (con p) + a, c - snd (con p) + ca))" by blast
  from assms(1,5) have "u = owned_sum us own d (fst \<circ> con)" "c = owned_sum us own d (snd \<circ> con)"
    by (auto simp: balanced_def)
  then have "bal s' d = Some (owned_sum us own d (fst \<circ> con(p := (a, ca))), owned_sum us own d (snd \<circ> con(p := (a, ca))))"
    using s'(2) assms(4) by (simp only: comp_upd owned_sum_update [OF assms(2,3)]) simp
  moreover have "bal s' d' = bal s d'" and "owned_sum us own d' (f \<circ> con(p := (a, ca))) = owned_sum us own d' (f \<circ> con)"
    if "d' \<noteq> d" for d' and f :: "storage_t \<times> storage_t \<Rightarrow> storage_t"
    using s'(2) assms(4) that by (simp_all only: comp_upd owned_sum_update [OF assms(2,3)]) simp_all
  ultimately have "balanced (bal s') us own (con(p := (a, ca)))"
    using assms(1) unfolding balanced_def by (metis option.inject prod.inject)
  with s' assms(5) show ?thesis by (auto simp: dom_def)
qed

lemma upd_balanced_remove:
  assumes "balanced (bal s) us own con" and "distinct us" and "p \<in> set us" and "own p = Some d"
    and "bal s d = Some (u, c)"
  shows "\<exists>s'. upd s d (fst (con p)) 0 (snd (con p)) 0 = Some s' \<and>
    balanced (bal s') (remove1 p us) own con \<and> dom (bal s') = dom (bal s)"
proof -
  from upd_balanced [OF assms, of 0 0] obtain s' where
    s': "upd s d (fst (con p)) 0 (snd (con p)) 0 = Some s'"
      "balanced (bal s') us own (con(p := (0, 0)))" "dom (bal s') = dom (bal s)" by blast
  have "owned_sum us own d' (f \<circ> con(p := (0, 0))) = owned_sum (remove1 p us) own d' (f \<circ> con)"
    if "f (0, 0) = 0" for d' and f :: "storage_t \<times> storage_t \<Rightarrow> storage_t"
  proof -
    have "owned_sum (remove1 p us) own d' (f \<circ> con(p := (0, 0))) = owned_sum (remove1 p us) own d' (f \<circ> con)"
      using assms(2,3) by (intro owned_sum_cong) auto
    with that show ?thesis
      using owned_sum_remove1 [OF assms(2,3), of own d' "f \<circ> con(p := (0, 0))"] by simp
  qed
  from this [of fst] this [of snd] s' show ?thesis by (auto simp: balanced_def)
qed

end

lemma balanced_Cons_zero:
  "balanced bal us own con \<Longrightarrow> con p = (0, 0) \<Longrightarrow> balanced bal (p # us) own con"
  by (auto simp: balanced_def owned_sum_Cons)

lemma balanced_remove_zero:
  assumes "balanced bal us own con" and "distinct us" and "p \<in> set us" and "con p = (0, 0)"
  shows "balanced bal (remove1 p us) own con"
proof -
  have "owned_sum us own d (fst \<circ> con) = owned_sum (remove1 p us) own d (fst \<circ> con)"
    "owned_sum us own d (snd \<circ> con) = owned_sum (remove1 p us) own d (snd \<circ> con)" for d
    using assms(4) by (simp_all add: owned_sum_remove1 [OF assms(2,3)])
  with assms(1) show ?thesis by (simp add: balanced_def)
qed

definition domain_balance :: "'a domstate_scheme \<Rightarrow> addr \<Rightarrow> (storage_t \<times> storage_t) option" where
  "domain_balance st a = map_option (\<lambda>d. (dm_usage d, dm_count d)) (ds_domains st a)"

interpretation books: ledger domain_balance domain_update
proof unfold_locales
  show "domain_balance s d = Some (u, c) \<Longrightarrow>
      \<exists>s'. domain_update s d b a cb ca = Some s' \<and>
        domain_balance s' = (domain_balance s)(d \<mapsto> (u - b + a, c - cb + ca))"
    for s :: "'a domstate_scheme" and d u c b a cb ca
    by (auto simp: domain_balance_def domain_update_def fun_eq_iff)
qed

section \<open>Invariant\<close>

definition domain_key :: "string \<Rightarrow> string" where
  "domain_key name = ''@'' @ lowercase name"

text \<open>
  The domain list holds exactly the live domains and \<open>domainlist_num\<close> counts them; a domain is
  cached under its key, and every cached key with a leading \<open>@\<close> is that of a live domain.
\<close>

definition domlist_inv :: "'a domstate_scheme \<Rightarrow> bool" where
  "domlist_inv st \<longleftrightarrow> (\<exists>ds. dll_rep (ds_domainlist st) ds \<and> set ds = dom (ds_domains st) \<and>
     ds_domainlist_num st = of_nat (length ds))"

definition domcache_inv :: "'a domstate_scheme \<Rightarrow> bool" where
  "domcache_inv st \<longleftrightarrow> cache_inv (ds_cache st) \<and>
     (\<forall>a d. ds_domains st a = Some d \<longrightarrow> length (dm_domain d) < DOMAIN_MAX_DOMAIN \<and>
        cache_lookup (ds_cache st) (domain_key (dm_domain d)) = Some a) \<and>
     (\<forall>k a. cache_lookup (ds_cache st) (''@'' @ k) = Some a \<longrightarrow>
        (\<exists>d. ds_domains st a = Some d \<and> lowercase (dm_domain d) = k))"

definition domains_inv :: "'a domstate_scheme \<Rightarrow> bool" where
  "domains_inv st \<longleftrightarrow> domlist_inv st \<and> domcache_inv st \<and> (\<forall>a. ds_brk st \<le> a \<longrightarrow> ds_domains st a = None)"

lemma domain_get_key:
  "length name < DOMAIN_MAX_DOMAIN \<Longrightarrow> domain_get st name = cache_lookup (ds_cache st) (domain_key name)"
  by (simp add: domain_get_def domain_key_def snprintf_str_def DOMAIN_MAX_DOMAIN_def lowercase_take tolower_c_def)

lemma domain_add_key:
  "length name < DOMAIN_MAX_DOMAIN \<Longrightarrow>
   lowercase (snprintf_str (DOMAIN_MAX_DOMAIN + 1) (''@'' @ name)) = domain_key name"
  by (simp add: domain_key_def snprintf_str_def DOMAIN_MAX_DOMAIN_def lowercase_take tolower_c_def)

lemma domain_get_live:
  assumes "domains_inv st" and "length name < DOMAIN_MAX_DOMAIN" and "domain_get st name = Some a"
  shows "\<exists>d. ds_domains st a = Some d \<and> lowercase (dm_domain d) = lowercase name"
  using assms by (auto simp: domains_inv_def domcache_inv_def domain_get_key domain_key_def)

lemma domain_link_ok:
  assumes rep: "dll_rep (ds_domainlist st) ds" and "\<forall>h\<in>set ds. ds_domains st h \<noteq> None" and "a \<notin> set ds"
  shows "\<exists>l. domain_link st a = Some (st\<lparr>ds_domainlist := l, ds_domainlist_num := ds_domainlist_num st + 1\<rparr>) \<and>
    dll_rep l (a # ds)"
proof -
  from dll_rep_head [OF rep] assms(2) have
    "case dl_head (ds_domainlist st) of None \<Rightarrow> True | Some h \<Rightarrow> ds_domains st h \<noteq> None"
    by (auto split: list.splits)
  with links.rep_push [OF rep assms(3)] show ?thesis
    by (intro exI [of _ "dll_push_front (ds_domainlist st) a"]) (simp add: domain_link_def)
qed

text \<open>Loading a domain that is not there yet.\<close>

lemma domain_load_new:
  assumes inv: "domains_inv st" and len: "length name < DOMAIN_MAX_DOMAIN" and new: "domain_get st name = None"
    and al: "al 0" "al 1" "al 2" "al 3"
  shows "\<exists>l. domain_load al st name = Some (Some (ds_brk st),
      st\<lparr>ds_cache := (domain_key name, ds_brk st) # ds_cache st,
         ds_domains := (ds_domains st)(ds_brk st \<mapsto> \<lparr>dm_domain = name, dm_usage = 0, dm_count = 0\<rparr>),
         ds_brk := Suc (ds_brk st), ds_domainlist := l, ds_domainlist_num := ds_domainlist_num st + 1\<rparr>) \<and>
    (\<exists>ds. dll_rep l ds \<and> set ds = insert (ds_brk st) (dom (ds_domains st)) \<and>
       ds_domainlist_num st + 1 = of_nat (length ds))"
proof -
  from inv obtain ds where ds: "dll_rep (ds_domainlist st) ds" "set ds = dom (ds_domains st)"
    "ds_domainlist_num st = of_nat (length ds)" by (auto simp: domains_inv_def domlist_inv_def)
  from inv ds(2) have fresh: "ds_brk st \<notin> set ds" by (auto simp: domains_inv_def)
  let ?st = "st\<lparr>ds_cache := (domain_key name, ds_brk st) # ds_cache st,
         ds_domains := (ds_domains st)(ds_brk st \<mapsto> \<lparr>dm_domain = name, dm_usage = 0, dm_count = 0\<rparr>),
         ds_brk := Suc (ds_brk st)\<rparr>"
  have "\<exists>l. domain_link ?st (ds_brk st) = Some (?st\<lparr>ds_domainlist := l, ds_domainlist_num := ds_domainlist_num ?st + 1\<rparr>) \<and>
      dll_rep l (ds_brk st # ds)"
    using ds fresh by (intro domain_link_ok) auto
  then obtain l where l: "domain_link ?st (ds_brk st) =
      Some (?st\<lparr>ds_domainlist := l, ds_domainlist_num := ds_domainlist_num ?st + 1\<rparr>)"
    "dll_rep l (ds_brk st # ds)" by blast
  moreover have "cache_add True True (ds_cache st) (snprintf_str (DOMAIN_MAX_DOMAIN + 1) (''@'' @ name)) (ds_brk st) =
      Some ((domain_key name, ds_brk st) # ds_cache st)"
    using domain_add_key [OF len] by (simp add: cache_add_def)
  ultimately show ?thesis
    using new al ds
    by (intro exI [of _ l] conjI exI [of _ "ds_brk st # ds"]) (simp_all add: domain_load_def Let_def)
qed

lemma domcache_inv_add:
  assumes "domains_inv st" and "length name < DOMAIN_MAX_DOMAIN" and "domain_get st name = None"
    and c: "ds_cache st' = (domain_key name, ds_brk st) # ds_cache st"
    and d: "ds_domains st' = (ds_domains st)(ds_brk st \<mapsto> \<lparr>dm_domain = name, dm_usage = u, dm_count = v\<rparr>)"
  shows "domcache_inv st'"
proof -
  have none: "cache_lookup (ds_cache st) (domain_key name) = None"
    using assms by (simp add: domain_get_key)
  moreover have "lowercase (domain_key name) = domain_key name"
    by (simp add: domain_key_def tolower_c_def)
  moreover have dead: "ds_domains st (ds_brk st) = None" using assms(1) by (simp add: domains_inv_def)
  ultimately have "cache_inv (ds_cache st')"
    using assms cache_add_inv [of "ds_cache st" "domain_key name"]
    by (auto simp: domcache_inv_def domains_inv_def)
  moreover have look: "cache_lookup (ds_cache st') k = (if k = domain_key name then Some (ds_brk st) else cache_lookup (ds_cache st) k)" for k
    by (simp add: c cache_lookup_def)
  moreover have "ds_domains st a = Some x \<Longrightarrow> domain_key (dm_domain x) \<noteq> domain_key name" for a x
    using assms(1) none unfolding domcache_inv_def domains_inv_def by (metis option.distinct(1))
  moreover have "cache_lookup (ds_cache st) (''@'' @ k) = Some a \<Longrightarrow> a \<noteq> ds_brk st" for k a
    using assms(1) dead unfolding domains_inv_def domcache_inv_def by (metis option.distinct(1))
  ultimately show ?thesis
    using assms unfolding domcache_inv_def domains_inv_def d
    by (auto simp: domain_key_def)
qed

lemma domain_load_spec:
  assumes inv: "domains_inv st" and len: "length name < DOMAIN_MAX_DOMAIN" and al: "al 0" "al 1" "al 2" "al 3"
  shows "\<exists>a st'. domain_load al st name = Some (Some a, st') \<and> domains_inv st' \<and> domain_get st' name = Some a \<and>
    (domain_get st name = Some a \<and> st' = st \<or>
     a = ds_brk st \<and> ds_domains st a = None \<and> ds_brk st' = Suc a \<and>
     ds_domains st' = (ds_domains st)(a \<mapsto> \<lparr>dm_domain = name, dm_usage = 0, dm_count = 0\<rparr>) \<and>
     cache_lookup (ds_cache st') = (cache_lookup (ds_cache st))(domain_key name \<mapsto> a) \<and>
     domstate.more st' = domstate.more st)"
proof (cases "domain_get st name")
  case (Some a)
  then show ?thesis using inv by (auto simp: domain_load_def)
next
  case None
  from domain_load_new [where al = al, OF inv len None al] obtain l ds where
    l: "domain_load al st name = Some (Some (ds_brk st),
      st\<lparr>ds_cache := (domain_key name, ds_brk st) # ds_cache st,
         ds_domains := (ds_domains st)(ds_brk st \<mapsto> \<lparr>dm_domain = name, dm_usage = 0, dm_count = 0\<rparr>),
         ds_brk := Suc (ds_brk st), ds_domainlist := l, ds_domainlist_num := ds_domainlist_num st + 1\<rparr>)"
      (is "_ = Some (_, ?st)")
    and ds: "dll_rep l ds" "set ds = insert (ds_brk st) (dom (ds_domains st))"
      "ds_domainlist_num st + 1 = of_nat (length ds)" by blast
  have "domcache_inv ?st" by (rule domcache_inv_add [OF inv len None]) simp_all
  moreover have "domlist_inv ?st" using ds by (auto simp: domlist_inv_def)
  ultimately have "domains_inv ?st" using inv by (simp add: domains_inv_def)
  moreover have "domain_get ?st name = Some (ds_brk st)"
    using len by (simp add: domain_get_key cache_lookup_def)
  moreover have "cache_lookup (ds_cache ?st) = (cache_lookup (ds_cache st))(domain_key name \<mapsto> ds_brk st)"
    by (simp add: cache_lookup_def fun_eq_iff)
  moreover have "ds_domains st (ds_brk st) = None" using inv by (simp add: domains_inv_def)
  ultimately show ?thesis using l by simp
qed

definition domain_name :: "'a domstate_scheme \<Rightarrow> addr \<Rightarrow> string option" where
  "domain_name st a = map_option dm_domain (ds_domains st a)"

lemma domain_name_dom: "domain_name st' = domain_name st \<Longrightarrow> dom (ds_domains st') = dom (ds_domains st)"
  by (auto simp: domain_name_def fun_eq_iff dom_def) (metis map_option_is_None option.distinct(1) not_Some_eq)+

text \<open>The invariant depends on the names of the domains only.\<close>

lemma domcache_inv_alt:
  "domcache_inv st \<longleftrightarrow> cache_inv (ds_cache st) \<and>
     (\<forall>a n. domain_name st a = Some n \<longrightarrow> length n < DOMAIN_MAX_DOMAIN \<and>
        cache_lookup (ds_cache st) (domain_key n) = Some a) \<and>
     (\<forall>k a. cache_lookup (ds_cache st) (''@'' @ k) = Some a \<longrightarrow>
        (\<exists>n. domain_name st a = Some n \<and> lowercase n = k))"
  unfolding domcache_inv_def domain_name_def map_option_eq_Some by blast

lemma domains_inv_cong:
  assumes "ds_cache st' = ds_cache st" and "ds_domainlist st' = ds_domainlist st"
    and "ds_domainlist_num st' = ds_domainlist_num st" and "ds_brk st' = ds_brk st"
    and n: "domain_name st' = domain_name st"
  shows "domains_inv st' = domains_inv st"
proof -
  have "ds_domains st' a = None \<longleftrightarrow> ds_domains st a = None" for a
    using n by (metis domain_name_def map_option_is_None)
  with assms domain_name_dom [OF n] show ?thesis
    by (simp add: domains_inv_def domlist_inv_def domcache_inv_alt)
qed

lemma domain_update_frame:
  assumes "domain_update st d b a cb ca = Some st'"
  shows "ds_cache st' = ds_cache st" and "ds_domainlist st' = ds_domainlist st"
    and "ds_domainlist_num st' = ds_domainlist_num st" and "ds_brk st' = ds_brk st"
    and "domain_name st' = domain_name st"
  using assms by (auto simp: domain_update_def domain_name_def fun_eq_iff split: option.splits)

section \<open>Properties\<close>

text \<open>
  Loading a domain and looking it up, in any spelling of upper and lower case, returns the same
  structure; a domain that was already loaded is returned as it is, a new one starts with empty totals,
  is put on the list and leaves every other domain as it was. While memory lasts the load succeeds and
  the structures stay consistent.
\<close>

theorem domain_load_get:
  assumes "domains_inv st" and "length name < DOMAIN_MAX_DOMAIN" and "al 0" "al 1" "al 2" "al 3"
  shows "\<exists>a st'. domain_load al st name = Some (Some a, st') \<and> domains_inv st' \<and>
    (\<forall>other. lowercase other = lowercase name \<longrightarrow> domain_get st' other = Some a) \<and>
    (domain_get st name = Some a \<and> st' = st \<or>
     domain_get st name = None \<and> ds_domains st a = None \<and>
     ds_domains st' = (ds_domains st)(a \<mapsto> \<lparr>dm_domain = name, dm_usage = 0, dm_count = 0\<rparr>))"
proof -
  from domain_load_spec [where al = al, OF assms] obtain a st' where
    l: "domain_load al st name = Some (Some a, st')" "domains_inv st'" "domain_get st' name = Some a" and
    c: "domain_get st name = Some a \<and> st' = st \<or> ds_domains st a = None \<and>
      ds_domains st' = (ds_domains st)(a \<mapsto> \<lparr>dm_domain = name, dm_usage = 0, dm_count = 0\<rparr>)"
    by blast
  have "domain_get st' other = Some a" if "lowercase other = lowercase name" for other
  proof -
    have "length other = length name" using that length_lowercase by metis
    with that l(3) assms(2) show ?thesis by (simp add: domain_get_key domain_key_def)
  qed
  moreover have "domain_get st name = None \<or> domain_get st name = Some a"
  proof (cases "domain_get st name")
    case (Some b)
    with l show ?thesis by (simp add: domain_load_def)
  qed simp
  moreover have "\<not> (domain_get st name = Some a \<and> ds_domains st a = None)"
    using domain_get_live [OF assms(1,2)] by auto
  ultimately show ?thesis using l c by blast
qed

definition domstate_example :: domstate where
  "domstate_example = \<lparr>ds_cache = cache_init, ds_domains = Map.empty, ds_domainlist = dll_empty,
     ds_domainlist_num = 0, ds_brk = 1\<rparr>"

theorem domain_load_get_witness:
  "domains_inv domstate_example \<and>
   (\<exists>a st'. domain_load (\<lambda>_. True) domstate_example ''Example.com'' = Some (Some a, st') \<and> domains_inv st' \<and>
      domain_get st' ''example.COM'' = Some a)"
proof -
  have i: "domains_inv domstate_example"
    by (auto simp: domains_inv_def domlist_inv_def domcache_inv_def domstate_example_def cache_init_def
        cache_inv_def cache_lookup_def intro!: exI [of _ "[]"])
  have e: "lowercase ''example.COM'' = lowercase ''Example.com''"
    by code_simp
  have n: "length ''Example.com'' < DOMAIN_MAX_DOMAIN" by (simp add: DOMAIN_MAX_DOMAIN_def)
  show ?thesis
    using i e domain_load_get [where al = "\<lambda>_. True", OF i n] by blast
qed

end
