(* ===== verification/Directory.thy ===== *)
theory Directory
  imports Conf
begin

text \<open>
  The monitored mail directories of the usage daemon (\<^verbatim>\<open>vusaged/directory.c\<close>): configuration, the
  size of one file (from a Maildir++ file name or from \<open>stat\<close>) and the poll that sums a directory.

  The file system is the record \<open>fsenv\<close>: \<open>stat\<close> or \<open>lstat\<close> of a path, the entries \<open>readdir\<close>
  returns (\<open>None\<close> when \<open>opendir\<close> fails) and \<open>PATH_MAX\<close>; it is taken not to change during one call.
  Each read of the clock is an argument. Times are unbounded integers; \<open>struct stat\<close> keeps the
  fields the daemon reads.
\<close>

section \<open>Model\<close>

datatype errno = ENOENT | ENOTDIR | EOTHER

record stat_t =
  st_mtime :: time_t
  st_size :: int
  st_isdir :: bool

record fsenv =
  fs_stat :: "bool \<Rightarrow> string \<Rightarrow> errno + stat_t"
  fs_opendir :: "string \<Rightarrow> string list option"
  PATH_MAX :: nat

record dirconf =
  directory_follow_symlinks :: bool
  directory_use_maildirpp_format :: bool
  directory_count_entry_size :: bool
  directory_block_size :: int
  directory_minimum_poll_time :: int

record directory_t =
  d_directory :: string
  d_last_update :: time_t
  d_mtime :: time_t
  d_usage :: storage_t
  d_count :: storage_t

subsection \<open>Configuration\<close>

definition directory_defaults :: dirconf where
  "directory_defaults =
     \<lparr>directory_follow_symlinks = False, directory_use_maildirpp_format = True,
      directory_count_entry_size = False, directory_block_size = 1,
      directory_minimum_poll_time = 15\<rparr>"

text \<open>One \<open>True\<close>/\<open>False\<close> setting: an empty or any other value is an error.\<close>

definition directory_flag :: "config_t \<Rightarrow> string \<Rightarrow> bool \<Rightarrow> bool option" where
  "directory_flag config name dflt =
     (case config_fetch_by_name config ''Polling'' name of
        None \<Rightarrow> Some dflt
      | Some str \<Rightarrow>
          if str = [] then None
          else if strcasecmp_eq str ''True'' then Some True
          else if strcasecmp_eq str ''False'' then Some False
          else None)"

definition directory_number :: "config_t \<Rightarrow> string \<Rightarrow> (int \<Rightarrow> bool) \<Rightarrow> int \<Rightarrow> int option" where
  "directory_number config name bad dflt =
     (case config_fetch_by_name config ''Polling'' name of
        None \<Rightarrow> Some dflt
      | Some str \<Rightarrow> if str = [] then None else if bad (atoi str) then None else Some (atoi str))"

text \<open>\<open>None\<close> is a configuration error. The block size alone keeps its previous value.\<close>

definition directory_init :: "config_t \<Rightarrow> dirconf \<Rightarrow> dirconf option" where
  "directory_init config old =
     (case directory_flag config ''Use Maildir++ format'' True of None \<Rightarrow> None | Some pp \<Rightarrow>
      case directory_number config ''Directory minimum poll time'' (\<lambda>n. n = - 1) 15 of
        None \<Rightarrow> None | Some poll \<Rightarrow>
      case directory_flag config ''Count directory entry size'' False of None \<Rightarrow> None | Some ce \<Rightarrow>
      case directory_flag config ''Follow symlinks'' False of None \<Rightarrow> None | Some fs \<Rightarrow>
      case directory_number config ''Block size'' (\<lambda>n. n = - 1 \<or> n < 1) (directory_block_size old) of
        None \<Rightarrow> None | Some bs \<Rightarrow>
      Some \<lparr>directory_follow_symlinks = fs, directory_use_maildirpp_format = pp,
            directory_count_entry_size = ce, directory_block_size = bs,
            directory_minimum_poll_time = poll\<rparr>)"

subsection \<open>The size of a file\<close>

text \<open>\<open>*(file + i)\<close>, with the terminating NUL.\<close>

definition char_at :: "string \<Rightarrow> nat \<Rightarrow> char" where
  "char_at file i = (if i < length file then file ! i else NUL)"

text \<open>
  The scan for \<^verbatim>\<open>,S=\<close> from the end of the name: \<open>h\<close> runs down to 1, \<open>t\<close> is the code's second
  pointer. The result is the offset of the comma.
\<close>

fun directory_scan :: "string \<Rightarrow> nat \<Rightarrow> nat \<Rightarrow> nat option" where
  "directory_scan file t 0 = None"
| "directory_scan file t (Suc k) =
     (let h = Suc k
      in if char_at file h \<noteq> CHR '','' then directory_scan file t k
         else if t \<le> h then directory_scan file t k
         else if char_at file (h + 1) = NUL \<or> char_at file (h + 1) = CHR '',''
         then directory_scan file (h - 1) k
         else if char_at file (h + 1) \<noteq> CHR ''S'' \<or> char_at file (h + 2) \<noteq> CHR ''=''
         then directory_scan file (h - 1) k
         else Some h)"

text \<open>
  Rounding to the block size: \<open>div\<close> takes \<open>int\<close> arguments, so the size is cut to 32 bits first.
\<close>

definition directory_round :: "int \<Rightarrow> storage_t \<Rightarrow> storage_t" where
  "directory_round bs sz =
     (if bs > 1 then
        (let n = sint (ucast sz :: 32 word);
             r = (word_of_int ((n sdiv bs) * bs) :: storage_t)
         in if n smod bs \<noteq> 0 then r + word_of_int bs else r)
      else sz)"

definition directory_stat_size :: "dirconf \<Rightarrow> fsenv \<Rightarrow> string \<Rightarrow> storage_t" where
  "directory_stat_size cf fs file =
     (case fs_stat fs (directory_follow_symlinks cf) file of
        Inl ENOENT \<Rightarrow> 0
      | Inl _ \<Rightarrow> no_usage
      | Inr st \<Rightarrow> word_of_int (st_size st))"

definition directory_filesize :: "dirconf \<Rightarrow> fsenv \<Rightarrow> string \<Rightarrow> storage_t" where
  "directory_filesize cf fs file =
     (if directory_use_maildirpp_format cf then
        (case directory_scan file (length file) (length file) of
           None \<Rightarrow> directory_stat_size cf fs file
         | Some h \<Rightarrow>
             (let sz = (word_of_int (strtoll (drop (h + 3) file)) :: storage_t)
              in if sz = word_of_int (2 ^ 63 - 1) then directory_stat_size cf fs file
                 else directory_round (directory_block_size cf) sz))
      else directory_stat_size cf fs file)"

subsection \<open>Directories\<close>

definition directory_exists :: "dirconf \<Rightarrow> fsenv \<Rightarrow> string \<Rightarrow> string option \<Rightarrow> bool" where
  "directory_exists cf fs path subdir =
     (case fs_stat fs (directory_follow_symlinks cf) path of
        Inl _ \<Rightarrow> False
      | Inr st \<Rightarrow>
          if \<not> st_isdir st then False
          else case subdir of
                 None \<Rightarrow> True
               | Some sub \<Rightarrow>
                   (case fs_stat fs (directory_follow_symlinks cf)
                           (snprintf_str (PATH_MAX fs) (path @ ''/'' @ sub)) of
                      Inl _ \<Rightarrow> False
                    | Inr st' \<Rightarrow> st_isdir st'))"

definition directory_alloc :: "bool \<Rightarrow> string \<Rightarrow> directory_t option" where
  "directory_alloc ok path =
     (if ok then Some \<lparr>d_directory = path, d_last_update = 0, d_mtime = 0, d_usage = 0, d_count = 0\<rparr>
      else None)"

text \<open>Hidden entries do not count, but for the directory itself when its entry size does.\<close>

definition directory_skips :: "dirconf \<Rightarrow> string \<Rightarrow> bool" where
  "directory_skips cf name \<longleftrightarrow>
     char_at name 0 = CHR ''.'' \<and> (\<not> directory_count_entry_size cf \<or> char_at name 1 \<noteq> NUL)"

text \<open>
  The loop over the entries. The path of an entry is formatted into \<open>PATH_MAX\<close> bytes and scanned
  from the length \<open>snprintf\<close> reports; a longer path makes that scan start outside the buffer
  (\<open>None\<close>).
\<close>

fun directory_sum ::
    "dirconf \<Rightarrow> fsenv \<Rightarrow> string \<Rightarrow> string list \<Rightarrow> storage_t \<Rightarrow> storage_t \<Rightarrow> (storage_t \<times> storage_t) option" where
  "directory_sum cf fs dir [] storage count = Some (storage, count)"
| "directory_sum cf fs dir (e # es) storage count =
     (if directory_skips cf e then directory_sum cf fs dir es storage count
      else
        let b = dir @ ''/'' @ e
        in if length b \<ge> PATH_MAX fs then None
           else
             let sz = directory_filesize cf fs b
             in if sz = no_usage then directory_sum cf fs dir es storage count
                else directory_sum cf fs dir es (storage + sz) (count + 1))"

text \<open>
  \<open>directory_poll\<close>: \<open>now1\<close> is the clock at the test of the minimum poll time, \<open>now2\<close> the recorded
  poll time.
\<close>

definition directory_poll ::
    "dirconf \<Rightarrow> fsenv \<Rightarrow> time_t \<Rightarrow> time_t \<Rightarrow> directory_t \<Rightarrow> (bool \<times> directory_t) option" where
  "directory_poll cf fs now1 now2 d =
     (if now1 - d_last_update d \<le> directory_minimum_poll_time cf then Some (True, d)
      else
        let d = d\<lparr>d_last_update := now2\<rparr>
        in case fs_stat fs (directory_follow_symlinks cf) (d_directory d) of
             Inl _ \<Rightarrow> Some (False, d)
           | Inr st \<Rightarrow>
               if d_mtime d \<noteq> 0 \<and> d_mtime d \<ge> st_mtime st then Some (True, d)
               else
                 (case (case fs_opendir fs (d_directory d) of
                          None \<Rightarrow> Some (0, 0)
                        | Some es \<Rightarrow> directory_sum cf fs (d_directory d) es 0 0) of
                    None \<Rightarrow> None
                  | Some (storage, count) \<Rightarrow>
                      Some (True, d\<lparr>d_mtime := st_mtime st, d_usage := storage, d_count := count\<rparr>)))"

definition directory_load ::
    "bool \<Rightarrow> dirconf \<Rightarrow> fsenv \<Rightarrow> time_t \<Rightarrow> time_t \<Rightarrow> string \<Rightarrow> directory_t option option" where
  "directory_load ok cf fs now1 now2 path =
     (if \<not> directory_exists cf fs path None then Some None
      else case directory_alloc ok path of
             None \<Rightarrow> Some None
           | Some d \<Rightarrow>
               (case directory_poll cf fs now1 now2 d of
                  None \<Rightarrow> None
                | Some (r, d') \<Rightarrow> Some (Some d')))"

section \<open>The Maildir++ size\<close>

text \<open>A \<^verbatim>\<open>,S=\<close> field at offset \<open>i\<close>; the field that counts is the last one not at the very start.\<close>

definition size_field :: "string \<Rightarrow> nat \<Rightarrow> bool" where
  "size_field nm i \<longleftrightarrow>
     0 < i \<and> char_at nm i = CHR '','' \<and> char_at nm (i + 1) = CHR ''S'' \<and> char_at nm (i + 2) = CHR ''=''"

definition last_size_field :: "string \<Rightarrow> nat option" where
  "last_size_field nm =
     (case filter (size_field nm) (rev [0..<length nm]) of [] \<Rightarrow> None | i # _ \<Rightarrow> Some i)"

lemma size_field_bound: "size_field nm i \<Longrightarrow> i < length nm"
  by (auto simp: size_field_def char_at_def split: if_splits)

text \<open>The second pointer only excludes a comma that another comma follows.\<close>

definition scan_ok :: "string \<Rightarrow> nat \<Rightarrow> nat \<Rightarrow> bool" where
  "scan_ok nm t h \<longleftrightarrow> h < t \<or> (t = h \<and> (char_at nm (h + 1) = CHR '','' \<or> char_at nm h \<noteq> CHR '',''))"

lemma directory_scan_filter:
  "scan_ok nm t k \<Longrightarrow> directory_scan nm t k =
     (case filter (size_field nm) (rev [0..<Suc k]) of [] \<Rightarrow> None | i # _ \<Rightarrow> Some i)"
proof (induction nm t k rule: directory_scan.induct)
  case (1 nm t)
  then show ?case by (simp add: size_field_def)
next
  case (2 nm t k)
  let ?h = "Suc k"
  have step: "filter (size_field nm) (rev [0..<Suc ?h]) =
      (if size_field nm ?h then [?h] else []) @ filter (size_field nm) (rev [0..<?h])"
    by simp
  consider (no) "char_at nm ?h \<noteq> CHR '',''" | (skip) "char_at nm ?h = CHR '',''" "t \<le> ?h"
    | (empty) "char_at nm ?h = CHR '',''" "?h < t" "char_at nm (?h + 1) = NUL \<or> char_at nm (?h + 1) = CHR '',''"
    | (other) "char_at nm ?h = CHR '',''" "?h < t" "char_at nm (?h + 1) \<noteq> NUL" "char_at nm (?h + 1) \<noteq> CHR '',''"
        "char_at nm (?h + 1) \<noteq> CHR ''S'' \<or> char_at nm (?h + 2) \<noteq> CHR ''=''"
    | (hit) "size_field nm ?h" "?h < t"
    by (fastforce simp: size_field_def)
  then show ?case
  proof cases
    case no
    then have "scan_ok nm t k" using 2(5) by (auto simp: scan_ok_def)
    with no 2(1) show ?thesis by (simp add: step size_field_def Let_def)
  next
    case skip
    then have "char_at nm (Suc ?h) = CHR '',''" and "scan_ok nm t k"
      using 2(5) by (auto simp: scan_ok_def)
    with skip 2(2) show ?thesis by (simp add: step size_field_def Let_def)
  next
    case empty
    then have "scan_ok nm k k" by (auto simp: scan_ok_def)
    with empty 2(3) show ?thesis by (auto simp: step size_field_def Let_def)
  next
    case other
    then have "scan_ok nm k k" by (auto simp: scan_ok_def)
    with other 2(4) show ?thesis by (auto simp: step size_field_def Let_def)
  next
    case hit
    then show ?thesis by (simp add: step size_field_def Let_def)
  qed
qed

lemma directory_scan_last: "directory_scan nm (length nm) (length nm) = last_size_field nm"
proof -
  have "scan_ok nm (length nm) (length nm)" by (simp add: scan_ok_def char_at_def)
  moreover have "\<not> size_field nm (length nm)" using size_field_bound by blast
  ultimately show ?thesis by (simp add: directory_scan_filter last_size_field_def)
qed

lemma last_size_field_iff:
  "last_size_field nm = Some i \<longleftrightarrow> size_field nm i \<and> (\<forall>j. size_field nm j \<longrightarrow> j \<le> i)"
proof -
  have "(case filter P (rev [0..<n]) of [] \<Rightarrow> None | i # _ \<Rightarrow> Some i) = Some i \<longleftrightarrow>
      i < n \<and> P i \<and> (\<forall>j<n. P j \<longrightarrow> j \<le> i)" for P n
    by (induction n) (auto simp: less_Suc_eq)
  from this [of "size_field nm" "length nm"] show ?thesis
    using size_field_bound [of nm] by (auto simp: last_size_field_def)
qed

section \<open>Block rounding\<close>

lemma sdiv_smod_nonneg:
  fixes n bs :: int
  assumes "0 \<le> n" "0 < bs"
  shows "n sdiv bs = n div bs" "n smod bs = n mod bs"
  using assms by (simp_all add: signed_divide_int_def signed_modulo_int_def sgn_if)

lemma uint_small: "unat (sz :: storage_t) < 2 ^ 31 \<Longrightarrow> uint sz < 2 ^ 31"
proof -
  assume "unat sz < 2 ^ 31"
  then have "int (unat sz) < int (2 ^ 31)" by (simp only: of_nat_less_iff)
  then show ?thesis by (simp only: uint_nat of_nat_power of_nat_numeral)
qed

lemma sint_ucast_small:
  assumes "unat (sz :: storage_t) < 2 ^ 31"
  shows "sint (ucast sz :: 32 word) = int (unat sz)"
proof -
  note small = uint_small [OF assms]
  have "uint (ucast sz :: 32 word) = take_bit 32 (uint sz)" by (simp add: unsigned_ucast_eq)
  also have "\<dots> = uint sz"
    by (rule take_bit_int_eq_self) (use small in simp_all)
  finally have u: "uint (ucast sz :: 32 word) = uint sz" .
  have "signed_take_bit 31 (uint sz) = uint sz"
    by (rule signed_take_bit_int_eq_self) (use small uint_ge_0 [of sz] in linarith)+
  then show ?thesis by (simp add: sint_uint u)
qed

lemma strtoll_word_max:
  assumes "(word_of_int (strtoll s) :: storage_t) = word_of_int (2 ^ 63 - 1)"
  shows "strtoll s = 2 ^ 63 - 1"
proof -
  from assms have "take_bit 64 (strtoll s) = take_bit 64 (2 ^ 63 - 1)"
    by (simp only: word_of_int_eq_iff) simp
  then have "signed_take_bit 63 (strtoll s) = signed_take_bit 63 (2 ^ 63 - 1)"
    by (simp only: signed_take_bit_eq_iff_take_bit_eq) simp
  moreover have "signed_take_bit 63 (strtoll s) = strtoll s"
    using strtoll_bounds [of s] by (intro signed_take_bit_int_eq_self) auto
  moreover have "signed_take_bit 63 (2 ^ 63 - 1 :: int) = 2 ^ 63 - 1"
    by (intro signed_take_bit_int_eq_self) auto
  ultimately show ?thesis by simp
qed

lemma div_round_up: "1 < (b :: nat) \<Longrightarrow> b * ((n + b - 1) div b) = n div b * b + (if n mod b = 0 then 0 else b)"
proof -
  assume b: "1 < b"
  have "n + b - 1 = (n mod b + b - 1) + b * (n div b)" using b mod_mult_div_eq [of n b] by linarith
  then have "(n + b - 1) div b = n div b + (n mod b + b - 1) div b"
    using b div_mult_self2 [of b "n mod b + b - 1" "n div b"] by (metis not_one_less_zero)
  moreover have "(n mod b + b - 1) div b = (if n mod b = 0 then 0 else 1)"
  proof (cases "n mod b = 0")
    case False
    with b have "b \<le> n mod b + b - 1" "n mod b + b - 1 < 2 * b"
      using mod_less_divisor [of b n] by linarith+
    with False show ?thesis by (simp add: div_nat_eqI)
  qed (use b in simp)
  ultimately show ?thesis by (simp add: algebra_simps)
qed

lemma directory_round_small:
  assumes sz: "unat sz < 2 ^ 31" and bs: "1 < bs" "bs < 2 ^ 31"
  shows "unat (directory_round bs sz) = nat bs * ((unat sz + nat bs - 1) div nat bs)"
proof -
  define n b where "n = unat sz" and "b = nat bs"
  have b: "bs = int b" "1 < b" "b < 2 ^ 31" using bs by (auto simp: b_def)
  have q: "int n sdiv bs * bs = int (n div b * b)" and m: "int n smod bs = int (n mod b)"
    using b by (simp_all add: sdiv_smod_nonneg zdiv_int zmod_int)
  note up = div_round_up [OF b(2), of n]
  have le: "n div b * b \<le> n" using div_times_less_eq_dividend [of n b] by simp
  have n: "n < 2 ^ 31" using sz by (simp add: n_def)
  define k where "k = b * ((n + b - 1) div b)"
  have "directory_round bs sz = of_nat k"
    unfolding k_def using bs(1) q m sint_ucast_small [OF sz] b(1) up
    by (simp add: directory_round_def Let_def n_def)
  moreover have "b * ((n + b - 1) div b) \<le> n + b" unfolding up using le by (intro add_mono) auto
  then have "k < 2 ^ 64" unfolding k_def using n b(3) by simp
  ultimately have "unat (directory_round bs sz) = k" by (simp add: unat_of_nat)
  then show ?thesis by (simp only: k_def n_def b_def)
qed

text \<open>A size of 4 GiB is rounded to 0.\<close>

lemma directory_round_4gib: "directory_round 4096 4294967296 = 0"
  by (simp add: directory_round_def Let_def)

section \<open>Polling\<close>

text \<open>What a poll should add up: the sizes of the entries that count and whose size is known.\<close>

definition counted_sizes :: "dirconf \<Rightarrow> fsenv \<Rightarrow> string \<Rightarrow> string list \<Rightarrow> storage_t list" where
  "counted_sizes cf fs dir es =
     filter (\<lambda>sz. sz \<noteq> no_usage)
       (map (\<lambda>e. directory_filesize cf fs (dir @ ''/'' @ e)) (filter (\<lambda>e. \<not> directory_skips cf e) es))"

definition paths_fit :: "fsenv \<Rightarrow> string \<Rightarrow> string list \<Rightarrow> bool" where
  "paths_fit fs dir es \<longleftrightarrow> list_all (\<lambda>e. length dir + 1 + length e < PATH_MAX fs) es"

lemma directory_sum_spec:
  "paths_fit fs dir es \<Longrightarrow> directory_sum cf fs dir es storage count =
     Some (storage + sum_list (counted_sizes cf fs dir es),
           count + of_nat (length (counted_sizes cf fs dir es)))"
  by (induction cf fs dir es storage count rule: directory_sum.induct)
    (auto simp: counted_sizes_def paths_fit_def Let_def)

lemma directory_poll_fields:
  "directory_poll cf fs now1 now2 d = Some (r, d') \<Longrightarrow> d_directory d' = d_directory d"
  by (auto simp: directory_poll_def Let_def split: if_splits sum.splits option.splits)

section \<open>Properties\<close>

text \<open>
  For a file name with a size field that is not saturated, \<open>directory_filesize\<close> is the number in
  the last \<^verbatim>\<open>,S=\<close> field of the path, rounded to the block size, and the file system is not consulted.
\<close>

theorem directory_filesize_field:
  assumes "directory_use_maildirpp_format cf" and "size_field f i"
    and "\<forall>j. size_field f j \<longrightarrow> j \<le> i" and "strtoll (drop (i + 3) f) \<noteq> 2 ^ 63 - 1"
  shows "directory_filesize cf fs f =
    directory_round (directory_block_size cf) (word_of_int (strtoll (drop (i + 3) f)))"
proof -
  from assms(2,3) have "directory_scan f (length f) (length f) = Some i"
    by (simp add: directory_scan_last last_size_field_iff)
  moreover have "(word_of_int (strtoll (drop (i + 3) f)) :: storage_t) \<noteq> word_of_int (2 ^ 63 - 1)"
    using strtoll_word_max assms(4) by blast
  ultimately show ?thesis using assms(1) by (simp add: directory_filesize_def Let_def)
qed

theorem directory_filesize_field_witness:
  "directory_filesize (directory_defaults\<lparr>directory_block_size := 512\<rparr>)
     \<lparr>fs_stat = (\<lambda>_ _. Inl EOTHER), fs_opendir = (\<lambda>_. None), PATH_MAX = 4096\<rparr> ''/m/new/1,S=7,S=600:2,S'' =
   directory_round (directory_block_size (directory_defaults\<lparr>directory_block_size := 512\<rparr>))
     (word_of_int (strtoll (drop (12 + 3) ''/m/new/1,S=7,S=600:2,S'')))"
proof (rule directory_filesize_field)
  have "last_size_field ''/m/new/1,S=7,S=600:2,S'' = Some 12" by code_simp
  then show "size_field ''/m/new/1,S=7,S=600:2,S'' 12"
    and "\<forall>j. size_field ''/m/new/1,S=7,S=600:2,S'' j \<longrightarrow> j \<le> 12"
    unfolding last_size_field_iff by blast+
  show "strtoll (drop (12 + 3) ''/m/new/1,S=7,S=600:2,S'') \<noteq> 2 ^ 63 - 1" by code_simp
qed (simp add: directory_defaults_def)

text \<open>
  Below 2 GiB the block rounding is the least multiple of the block size that is not smaller than
  the size. (At 2 GiB and above \<open>div\<close> works on a truncated \<open>int\<close>.)
\<close>

theorem directory_round_up:
  assumes "unat sz < 2 ^ 31" and "1 < bs" and "bs < 2 ^ 31"
  shows "unat (directory_round bs sz) = nat bs * ((unat sz + nat bs - 1) div nat bs)"
  using assms by (rule directory_round_small)

theorem directory_round_up_witness:
  "unat (directory_round 512 600) = nat 512 * ((unat (600 :: storage_t) + nat 512 - 1) div nat 512)"
  by (rule directory_round_up) simp_all

text \<open>
  C38. A poll of a directory that is due and has changed records exactly the sum of the sizes of its
  visible entries and their number; entries whose size cannot be determined are left out.
\<close>

theorem directory_poll_sums:
  assumes "now1 - d_last_update d > directory_minimum_poll_time cf"
    and "fs_stat fs (directory_follow_symlinks cf) (d_directory d) = Inr st"
    and "d_mtime d = 0 \<or> d_mtime d < st_mtime st"
    and "fs_opendir fs (d_directory d) = Some es" and "paths_fit fs (d_directory d) es"
  shows "directory_poll cf fs now1 now2 d = Some (True, \<lparr>d_directory = d_directory d, d_last_update = now2,
    d_mtime = st_mtime st, d_usage = sum_list (counted_sizes cf fs (d_directory d) es),
    d_count = of_nat (length (counted_sizes cf fs (d_directory d) es))\<rparr>)"
  using assms directory_sum_spec [OF assms(5), of cf 0 0]
  by (cases d) (auto simp: directory_poll_def Let_def)

theorem directory_poll_sums_witness:
  "directory_poll directory_defaults
     \<lparr>fs_stat = (\<lambda>_ _. Inr \<lparr>st_mtime = 5, st_size = 10, st_isdir = True\<rparr>),
      fs_opendir = (\<lambda>_. Some [''.'', ''a'', ''b,S=3'']), PATH_MAX = 4096\<rparr> 100 100
     \<lparr>d_directory = ''/n'', d_last_update = 0, d_mtime = 0, d_usage = 0, d_count = 0\<rparr> =
   Some (True, \<lparr>d_directory = ''/n'', d_last_update = 100, d_mtime = 5, d_usage = 13, d_count = 2\<rparr>)"
  by (subst directory_poll_sums [where es = "[''.'', ''a'', ''b,S=3'']"
        and st = "\<lparr>st_mtime = 5, st_size = 10, st_isdir = True\<rparr>"])
    (simp_all add: directory_defaults_def paths_fit_def counted_sizes_def directory_skips_def char_at_def
      directory_filesize_def directory_stat_size_def Let_def strtoll_def strip_sign_def is_space_def
      is_digit_def directory_round_def no_usage_def)

end
