(* ===== verification/CList.thy ===== *)
theory CList
  imports Prelude
begin

text \<open>
  Arrays of pointers that grow and shrink by one (\<^verbatim>\<open>vusaged/list.c\<close>). An array is \<open>None\<close> for the
  NULL pointer and the list of its allocated cells otherwise; the caller keeps the number of items
  beside it. \<open>None\<close> as a result is an access outside the array. Whether an allocation succeeds is
  the argument \<open>ok\<close>.
\<close>

section \<open>Model\<close>

text \<open>
  \<open>list_add\<close> returns the new array and the new number of items; when \<open>realloc\<close> or \<open>malloc\<close> fails
  it returns NULL and leaves the number of items. The new cell is written at index \<open>items\<close>.
\<close>

definition list_add :: "bool \<Rightarrow> 'a list option \<Rightarrow> nat \<Rightarrow> 'a \<Rightarrow> ('a list option \<times> nat) option" where
  "list_add ok list items ptr =
     (case list of
        Some cells \<Rightarrow>
          if \<not> ok then Some (None, items)
          else if length cells < items then None
          else Some (Some (take items cells @ [ptr]), items + 1)
      | None \<Rightarrow>
          if \<not> ok then Some (None, items)
          else if items \<noteq> 0 then None
          else Some (Some [ptr], items + 1))"

text \<open>The search loop: the first index below \<open>items\<close> that holds \<open>ptr\<close>, or \<open>items\<close>.\<close>

fun list_index :: "'a list \<Rightarrow> nat \<Rightarrow> 'a \<Rightarrow> nat" where
  "list_index [] items ptr = 0"
| "list_index (c # cells) items ptr =
     (if items = 0 then 0 else if c = ptr then 0 else Suc (list_index cells (items - 1) ptr))"

text \<open>
  \<open>list_remove\<close>: the last item frees the array; otherwise the cells behind the removed one move
  down and the array shrinks by one. A failed \<open>realloc\<close> keeps the old block, whose last cell is
  then unused. The item count always drops, also when \<open>ptr\<close> was not found, as then the last cell
  is cut off.
\<close>

definition list_remove :: "bool \<Rightarrow> 'a list option \<Rightarrow> nat \<Rightarrow> 'a \<Rightarrow> ('a list option \<times> nat) option" where
  "list_remove ok list items ptr =
     (case list of
        None \<Rightarrow> None
      | Some cells \<Rightarrow>
          if length cells < items \<or> items = 0 then None
          else
            let i = list_index cells items ptr
            in if items = 1 then Some (None, 0)
               else
                 let kept = take i (take items cells) @ drop (Suc i) (take items cells);
                     moved = kept @ drop (length kept) cells
                 in Some (Some (if ok then take (items - 1) moved else moved), items - 1))"

definition list_free :: "'a list option \<Rightarrow> nat \<Rightarrow> 'a list option \<times> nat" where
  "list_free list items = (None, 0)"

section \<open>Invariant\<close>

definition list_inv :: "'a list option \<Rightarrow> nat \<Rightarrow> bool" where
  "list_inv list items \<longleftrightarrow>
     (case list of None \<Rightarrow> items = 0 | Some cells \<Rightarrow> 0 < items \<and> items \<le> length cells)"

definition list_items :: "'a list option \<Rightarrow> nat \<Rightarrow> 'a list" where
  "list_items list items = (case list of None \<Rightarrow> [] | Some cells \<Rightarrow> take items cells)"

lemma list_inv_length: "list_inv l n \<Longrightarrow> length (list_items l n) = n"
  by (auto simp: list_inv_def list_items_def split: option.splits)

lemma list_add_spec:
  "list_inv l n \<Longrightarrow>
   \<exists>l'. list_add True l n p = Some (l', n + 1) \<and> list_inv l' (n + 1) \<and>
        list_items l' (n + 1) = list_items l n @ [p]"
  by (cases l) (auto simp: list_inv_def list_items_def list_add_def)

lemma list_index_take: "list_index (take n cells) n p = list_index cells n p"
  by (induction cells n p rule: list_index.induct) (auto simp: take_Cons')

lemma list_index_notin: "p \<notin> set xs \<Longrightarrow> list_index xs (length xs) p = length xs"
  by (induction xs) auto

lemma list_index_append: "p \<notin> set xs \<Longrightarrow> list_index (xs @ p # ys) (length (xs @ p # ys)) p = length xs"
  by (induction xs) auto

lemma list_remove_spec:
  assumes inv: "list_inv l n" and split: "list_items l n = xs @ p # ys" and "p \<notin> set xs"
  shows "\<exists>l'. list_remove ok l n p = Some (l', n - 1) \<and> list_inv l' (n - 1) \<and>
              list_items l' (n - 1) = xs @ ys"
proof -
  from inv split obtain cells where l: "l = Some cells" and n: "0 < n" "n \<le> length cells"
    and t: "take n cells = xs @ p # ys"
    by (auto simp: list_inv_def list_items_def split: option.splits)
  have "length (take n cells) = length (xs @ p # ys)" by (simp only: t)
  with n have len: "n = length xs + Suc (length ys)" by simp
  have i: "list_index cells n p = length xs"
    using list_index_take [of n cells p] list_index_append [OF assms(3), of ys] t len by simp
  have xs: "take (length xs) cells = xs"
    using arg_cong [OF t, of "take (length xs)"] len n by simp
  have ys: "drop (Suc (length xs)) (take n cells) = ys"
    using t by simp
  show ?thesis
  proof (cases "n = 1")
    case True
    with l n len show ?thesis by (auto simp: list_remove_def list_inv_def list_items_def)
  next
    case False
    with l n len i xs ys show ?thesis
      by (auto simp: list_remove_def Let_def list_inv_def list_items_def)
  qed
qed

section \<open>The contract of a pointer array\<close>

locale pointer_array =
  fixes invar :: "'l \<Rightarrow> nat \<Rightarrow> bool"
    and items :: "'l \<Rightarrow> nat \<Rightarrow> 'p list"
    and add :: "'l \<Rightarrow> nat \<Rightarrow> 'p \<Rightarrow> ('l \<times> nat) option"
    and remove :: "'l \<Rightarrow> nat \<Rightarrow> 'p \<Rightarrow> ('l \<times> nat) option"
  assumes items_length: "invar l n \<Longrightarrow> length (items l n) = n"
    and add_ok: "invar l n \<Longrightarrow>
      \<exists>l'. add l n p = Some (l', n + 1) \<and> invar l' (n + 1) \<and> items l' (n + 1) = items l n @ [p]"
    and remove_ok: "invar l n \<Longrightarrow> items l n = xs @ p # ys \<Longrightarrow> p \<notin> set xs \<Longrightarrow>
      \<exists>l'. remove l n p = Some (l', n - 1) \<and> invar l' (n - 1) \<and> items l' (n - 1) = xs @ ys"
begin

lemma remove_remove1:
  assumes "invar l n" and "p \<in> set (items l n)"
  shows "\<exists>l'. remove l n p = Some (l', n - 1) \<and> invar l' (n - 1) \<and>
              items l' (n - 1) = remove1 p (items l n)"
proof -
  from assms(2) obtain xs ys where s: "items l n = xs @ p # ys" "p \<notin> set xs"
    by (meson split_list_first)
  with remove_ok [OF assms(1) s] show ?thesis by (simp add: remove1_append)
qed

lemma remove_nth:
  assumes "invar l n" and "distinct (items l n)" and "i < n"
  shows "\<exists>l'. remove l n (items l n ! i) = Some (l', n - 1) \<and> invar l' (n - 1) \<and>
              items l' (n - 1) = take i (items l n) @ drop (Suc i) (items l n)"
proof -
  have i: "i < length (items l n)" using assms items_length by simp
  then have s: "items l n = take i (items l n) @ items l n ! i # drop (Suc i) (items l n)"
    by (rule id_take_nth_drop)
  have "items l n ! i \<notin> set (take i (items l n))"
    using assms(2) i by (auto simp: in_set_conv_nth nth_eq_iff_index_eq)
  with remove_ok [OF assms(1) s] show ?thesis by simp
qed

lemma add_then_remove:
  assumes "invar l n" and "p \<notin> set (items l n)"
  shows "\<exists>l1 l2. add l n p = Some (l1, n + 1) \<and> remove l1 (n + 1) p = Some (l2, n) \<and>
                 invar l2 n \<and> items l2 n = items l n"
proof -
  from add_ok [OF assms(1)] obtain l1 where l1: "add l n p = Some (l1, n + 1)" "invar l1 (n + 1)"
    "items l1 (n + 1) = items l n @ [p]" by blast
  from remove_ok [of l1 "n + 1" "items l n" p "[]"] l1 assms show ?thesis by auto
qed

end

interpretation parray: pointer_array list_inv list_items "list_add True" "list_remove ok"
  by unfold_locales (rule list_inv_length list_add_spec list_remove_spec; assumption)+

section \<open>Properties\<close>

text \<open>
  \<open>list_remove\<close> of the \<open>i\<close>-th pointer of a well-formed array of distinct pointers takes out
  exactly that pointer, keeps the order of the others and lowers the count by one; the array stays
  well formed, whether or not the shrinking \<open>realloc\<close> succeeds.
\<close>

theorem list_remove_nth:
  assumes "list_inv l n" and "distinct (list_items l n)" and "i < n"
  shows "\<exists>l'. list_remove ok l n (list_items l n ! i) = Some (l', n - 1) \<and> list_inv l' (n - 1) \<and>
              list_items l' (n - 1) = take i (list_items l n) @ drop (Suc i) (list_items l n)"
  using assms by (rule parray.remove_nth)

theorem list_remove_nth_witness:
  "\<exists>l'. list_remove False (Some [7 :: nat, 8, 9]) 3 8 = Some (l', 2) \<and> list_inv l' 2 \<and>
        list_items l' 2 = [7, 9]"
  using list_remove_nth [of "Some [7 :: nat, 8, 9]" 3 1 False]
  by (simp add: list_inv_def list_items_def)

end
