(* ===== verification/Userstore.thy ===== *)
theory Userstore
  imports Directory CList
begin

text \<open>
  The usage of one user (\<^verbatim>\<open>vusaged/userstore.c\<close>): the monitored directories below the Maildir of
  the user, the poll that looks for new folders, polls each directory, drops lost ones and sums the
  rest, and the aging that makes slow or idle users be polled less often.

  \<open>us_directory\<close> is the array of directory pointers kept with \<^verbatim>\<open>list.c\<close>, \<open>us_num\<close> its length and
  \<open>us_heap\<close> the directory structures the pointers designate; \<open>us_brk\<close> is the next free address.
  \<open>clk\<close> gives the clock and \<open>al\<close> the success of the allocation at each place that reads the one or
  asks for the other. \<open>None\<close> is an invalid memory access.
\<close>

section \<open>Model\<close>

record userconf =
  userstore_age :: int
  userstore_day_age :: int
  userstore_max_age :: int
  userstore_follow_symlinks :: bool

record userstore_t =
  us_path :: string
  us_mtime :: time_t
  us_last_updated :: time_t
  us_time_taken :: time_t
  us_num :: nat
  us_directory :: "addr list option"
  us_heap :: "addr \<Rightarrow> directory_t option"
  us_brk :: addr
  us_usage :: storage_t
  us_count :: storage_t

subsection \<open>Configuration\<close>

definition userstore_defaults :: userconf where
  "userstore_defaults = \<lparr>userstore_age = 1, userstore_day_age = 3, userstore_max_age = 720,
     userstore_follow_symlinks = False\<rparr>"

definition userstore_number :: "config_t \<Rightarrow> string \<Rightarrow> int \<Rightarrow> int option" where
  "userstore_number config name dflt =
     (case config_fetch_by_name config ''Polling'' name of
        None \<Rightarrow> Some dflt
      | Some str \<Rightarrow> if atoi str = - 1 then None else Some (atoi str))"

definition userstore_init :: "config_t \<Rightarrow> userconf option" where
  "userstore_init config =
     (case userstore_number config ''Age Factor'' 1 of None \<Rightarrow> None | Some age \<Rightarrow>
      case userstore_number config ''Day Age'' 3 of None \<Rightarrow> None | Some day \<Rightarrow>
      case userstore_number config ''Maximum Age'' 720 of None \<Rightarrow> None | Some mx \<Rightarrow>
      case (case config_fetch_by_name config ''Polling'' ''Follow symlinks'' of
              None \<Rightarrow> Some False
            | Some str \<Rightarrow> if strcasecmp_eq str ''True'' then Some True
                          else if strcasecmp_eq str ''False'' then Some False else None) of
        None \<Rightarrow> None | Some fs \<Rightarrow>
      Some \<lparr>userstore_age = age, userstore_day_age = day, userstore_max_age = mx,
            userstore_follow_symlinks = fs\<rparr>)"

subsection \<open>Loading and reading\<close>

definition userstore_load :: "bool \<Rightarrow> time_t \<Rightarrow> string \<Rightarrow> userstore_t option" where
  "userstore_load ok now path =
     (if ok
      then Some \<lparr>us_path = path, us_mtime = 0, us_last_updated = now, us_time_taken = 0,
                 us_num = 0, us_directory = None, us_heap = Map.empty, us_brk = 0,
                 us_usage = 0, us_count = 0\<rparr>
      else None)"

definition userstore_usage :: "userstore_t \<Rightarrow> storage_t" where
  "userstore_usage u = us_usage u"

definition userstore_count :: "userstore_t \<Rightarrow> storage_t" where
  "userstore_count u = us_count u"

definition userstore_use :: "userstore_t \<Rightarrow> storage_t \<times> storage_t" where
  "userstore_use u = (us_usage u, us_count u)"

text \<open>Every directory structure of the array is freed, and the usage reset.\<close>

fun userstore_free_all :: "addr list \<Rightarrow> (addr \<Rightarrow> directory_t option) \<Rightarrow> (addr \<Rightarrow> directory_t option) option" where
  "userstore_free_all [] h = Some h"
| "userstore_free_all (p # ps) h =
     (case h p of None \<Rightarrow> None | Some d \<Rightarrow> userstore_free_all ps (h(p := None)))"

definition userstore_free_directory :: "userstore_t \<Rightarrow> userstore_t option" where
  "userstore_free_directory u =
     (case us_directory u of
        None \<Rightarrow> Some u
      | Some cells \<Rightarrow>
          if length cells < us_num u then None
          else
            (case userstore_free_all (take (us_num u) cells) (us_heap u) of
               None \<Rightarrow> None
             | Some h \<Rightarrow>
                 (case list_free (us_directory u) (us_num u) of
                    (l, n) \<Rightarrow>
                      Some (u\<lparr>us_heap := h, us_directory := l, us_num := n,
                               us_usage := 0, us_count := 0\<rparr>))))"

subsection \<open>Finding folders\<close>

fun userstore_monitored :: "addr list \<Rightarrow> (addr \<Rightarrow> directory_t option) \<Rightarrow> string \<Rightarrow> bool option" where
  "userstore_monitored [] h dir = Some False"
| "userstore_monitored (p # ps) h dir =
     (case h p of
        None \<Rightarrow> None
      | Some d \<Rightarrow> if strcasecmp_eq (d_directory d) dir then Some True else userstore_monitored ps h dir)"

definition userstore_monitors_directory :: "userstore_t \<Rightarrow> string \<Rightarrow> bool option" where
  "userstore_monitors_directory u dir =
     (case us_directory u of
        None \<Rightarrow> Some False
      | Some cells \<Rightarrow>
          if length cells < us_num u then None
          else userstore_monitored (take (us_num u) cells) (us_heap u) dir)"

text \<open>Storing a loaded directory: a new structure, appended to the array.\<close>

definition userstore_add_directory :: "bool \<Rightarrow> userstore_t \<Rightarrow> directory_t \<Rightarrow> userstore_t option" where
  "userstore_add_directory ok u d =
     (case list_add ok (us_directory u) (us_num u) (us_brk u) of
        None \<Rightarrow> None
      | Some (l, n) \<Rightarrow>
          Some (u\<lparr>us_directory := l, us_num := n, us_heap := (us_heap u)(us_brk u \<mapsto> d),
                   us_brk := Suc (us_brk u)\<rparr>))"

text \<open>
  One of the two halves of the loop body, for the \<open>new\<close> and then the \<open>cur\<close> subdirectory of an
  entry.
\<close>

datatype find_result =
    FindNext userstore_t   \<comment> \<open>\<open>continue\<close> with the next entry\<close>
  | FindOn userstore_t     \<comment> \<open>go on in the loop body\<close>
  | FindError              \<comment> \<open>\<open>return 0\<close>\<close>
  | FindFault              \<comment> \<open>invalid memory access\<close>

definition userstore_find_one ::
    "userconf \<Rightarrow> dirconf \<Rightarrow> fsenv \<Rightarrow> bool \<Rightarrow> bool \<Rightarrow> time_t \<Rightarrow> time_t \<Rightarrow> userstore_t \<Rightarrow> string \<Rightarrow> find_result" where
  "userstore_find_one uc cf fs ok1 ok2 now1 now2 u b =
     (case userstore_monitors_directory u b of
        None \<Rightarrow> FindFault
      | Some True \<Rightarrow> FindNext u
      | Some False \<Rightarrow>
          (case fs_stat fs (userstore_follow_symlinks uc) b of
             Inl e \<Rightarrow> if e \<noteq> ENOENT \<and> e \<noteq> ENOTDIR then FindError else FindNext u
           | Inr st \<Rightarrow>
               (case directory_load ok1 cf fs now1 now2 b of
                  None \<Rightarrow> FindFault
                | Some None \<Rightarrow> FindOn u
                | Some (Some d) \<Rightarrow>
                    (case userstore_add_directory ok2 u d of
                       None \<Rightarrow> FindFault
                     | Some u' \<Rightarrow> FindOn u'))))"

fun userstore_find_loop ::
    "userconf \<Rightarrow> dirconf \<Rightarrow> fsenv \<Rightarrow> (nat \<Rightarrow> bool) \<Rightarrow> (nat \<Rightarrow> time_t) \<Rightarrow> nat \<Rightarrow> userstore_t \<Rightarrow> string list \<Rightarrow>
     (bool \<times> userstore_t) option" where
  "userstore_find_loop uc cf fs al clk k u [] = Some (True, u)"
| "userstore_find_loop uc cf fs al clk k u (e # es) =
     (if e = ''..'' then userstore_find_loop uc cf fs al clk k u es
      else
        case userstore_find_one uc cf fs (al k) (al (k + 1)) (clk k) (clk (k + 1)) u
               (snprintf_str (PATH_MAX fs) (us_path u @ ''/'' @ e @ ''/new'')) of
          FindFault \<Rightarrow> None
        | FindError \<Rightarrow> Some (False, u)
        | FindNext u1 \<Rightarrow> userstore_find_loop uc cf fs al clk (k + 4) u1 es
        | FindOn u1 \<Rightarrow>
            (case userstore_find_one uc cf fs (al (k + 2)) (al (k + 3)) (clk (k + 2)) (clk (k + 3)) u1
                    (snprintf_str (PATH_MAX fs) (us_path u1 @ ''/'' @ e @ ''/cur'')) of
               FindFault \<Rightarrow> None
             | FindError \<Rightarrow> Some (False, u1)
             | FindNext u2 \<Rightarrow> userstore_find_loop uc cf fs al clk (k + 4) u2 es
             | FindOn u2 \<Rightarrow> userstore_find_loop uc cf fs al clk (k + 4) u2 es))"

definition userstore_find_directories ::
    "userconf \<Rightarrow> dirconf \<Rightarrow> fsenv \<Rightarrow> (nat \<Rightarrow> bool) \<Rightarrow> (nat \<Rightarrow> time_t) \<Rightarrow> userstore_t \<Rightarrow> (bool \<times> userstore_t) option" where
  "userstore_find_directories uc cf fs al clk u =
     (case fs_opendir fs (us_path u) of
        None \<Rightarrow> Some (False, u)
      | Some es \<Rightarrow> userstore_find_loop uc cf fs (\<lambda>i. al (2 * i)) (\<lambda>i. clk (2 * i)) 0 u es)"

subsection \<open>Polling\<close>

text \<open>
  The loop over the known directories from index \<open>i\<close>: a directory whose poll fails is taken out of
  the array (and not freed), the others are added up. \<open>n\<close> bounds the number of iterations; every
  iteration advances \<open>i\<close> or shortens the array, so \<open>us_num u - i\<close> of them suffice.
\<close>

fun userstore_poll_loop ::
    "nat \<Rightarrow> dirconf \<Rightarrow> fsenv \<Rightarrow> (nat \<Rightarrow> bool) \<Rightarrow> (nat \<Rightarrow> time_t) \<Rightarrow> userstore_t \<Rightarrow> nat \<Rightarrow> storage_t \<Rightarrow> storage_t \<Rightarrow>
     (userstore_t \<times> storage_t \<times> storage_t) option" where
  "userstore_poll_loop n cf fs al clk u i usage count =
     (if i < us_num u then
        (case n of
           0 \<Rightarrow> None
         | Suc m \<Rightarrow>
             (case us_directory u of
                None \<Rightarrow> None
              | Some cells \<Rightarrow>
                  if length cells \<le> i then None
                  else
                    (case us_heap u (cells ! i) of
                       None \<Rightarrow> None
                     | Some d \<Rightarrow>
                         (case directory_poll cf fs (clk (2 * m)) (clk (2 * m + 1)) d of
                            None \<Rightarrow> None
                          | Some (False, d') \<Rightarrow>
                              (case list_remove (al m) (us_directory u) (us_num u) (cells ! i) of
                                 None \<Rightarrow> None
                               | Some (l, k) \<Rightarrow>
                                   userstore_poll_loop m cf fs al clk
                                     (u\<lparr>us_directory := l, us_num := k,
                                        us_heap := (us_heap u)(cells ! i \<mapsto> d')\<rparr>) i usage count)
                          | Some (True, d') \<Rightarrow>
                              userstore_poll_loop m cf fs al clk
                                (u\<lparr>us_heap := (us_heap u)(cells ! i \<mapsto> d')\<rparr>)
                                (Suc i) (usage + d_usage d') (count + d_count d')))))
      else Some (u, usage, count))"

definition userstore_days :: "time_t \<Rightarrow> time_t \<Rightarrow> int" where
  "userstore_days tend mtime = (((tend - mtime) sdiv 60) sdiv 60) sdiv 24"

text \<open>The age after a poll that began at \<open>tstart\<close> and ended at \<open>tend\<close>.\<close>

definition userstore_aged :: "userconf \<Rightarrow> fsenv \<Rightarrow> string \<Rightarrow> time_t \<Rightarrow> time_t \<Rightarrow> int" where
  "userstore_aged uc fs path tstart tend =
     (let taken = (tend - tstart) * userstore_age uc;
          taken = (case fs_stat fs (userstore_follow_symlinks uc) (snprintf_str 255 (path @ ''/../lastauth'')) of
                     Inl _ \<Rightarrow> taken
                   | Inr st \<Rightarrow> taken + userstore_days tend (st_mtime st) * userstore_day_age uc)
      in if userstore_max_age uc \<noteq> 0 \<and> taken > userstore_max_age uc then userstore_max_age uc else taken)"

definition userstore_update ::
    "userconf \<Rightarrow> dirconf \<Rightarrow> fsenv \<Rightarrow> (nat \<Rightarrow> bool) \<Rightarrow> (nat \<Rightarrow> time_t) \<Rightarrow> time_t \<Rightarrow> time_t \<Rightarrow> userstore_t \<Rightarrow> userstore_t option" where
  "userstore_update uc cf fs al clk tstart tend u =
     (case userstore_poll_loop (us_num u) cf fs (\<lambda>i. al (2 * i + 1)) (\<lambda>i. clk (2 * i + 1)) u 0 0 0 of
        None \<Rightarrow> None
      | Some (u, usage, count) \<Rightarrow>
          Some (u\<lparr>us_usage := usage, us_count := count, us_last_updated := tend,
                   us_time_taken := userstore_aged uc fs (us_path u) tstart tend\<rparr>))"

definition userstore_poll ::
    "userconf \<Rightarrow> dirconf \<Rightarrow> fsenv \<Rightarrow> (nat \<Rightarrow> bool) \<Rightarrow> (nat \<Rightarrow> time_t) \<Rightarrow> time_t \<Rightarrow> time_t \<Rightarrow> userstore_t \<Rightarrow>
     (bool \<times> userstore_t) option" where
  "userstore_poll uc cf fs al clk tstart tend u =
     (if us_time_taken u \<noteq> 0 then Some (True, u\<lparr>us_time_taken := us_time_taken u - 1\<rparr>)
      else
        case fs_stat fs (userstore_follow_symlinks uc) (us_path u) of
          Inl _ \<Rightarrow> map_option (\<lambda>u'. (False, u')) (userstore_free_directory u)
        | Inr st \<Rightarrow>
            (case (if us_mtime u < st_mtime st
                   then userstore_find_directories uc cf fs al clk (u\<lparr>us_mtime := st_mtime st\<rparr>)
                   else Some (True, u)) of
               None \<Rightarrow> None
             | Some (False, u1) \<Rightarrow> Some (False, u1)
             | Some (True, u1) \<Rightarrow>
                 map_option (\<lambda>u'. (True, u')) (userstore_update uc cf fs al clk tstart tend u1)))"

declare userstore_poll_loop.simps [simp del]

section \<open>Invariant\<close>

definition us_items :: "userstore_t \<Rightarrow> addr list" where
  "us_items u = list_items (us_directory u) (us_num u)"

text \<open>
  The array is well formed and its pointers are distinct and designate live directories; the heap
  holds nothing at or above the next free address.
\<close>

definition us_inv :: "userstore_t \<Rightarrow> bool" where
  "us_inv u \<longleftrightarrow> list_inv (us_directory u) (us_num u) \<and> distinct (us_items u) \<and>
     (\<forall>p\<in>set (us_items u). us_heap u p \<noteq> None) \<and> (\<forall>p. us_brk u \<le> p \<longrightarrow> us_heap u p = None)"

definition heap_usage :: "(addr \<Rightarrow> directory_t option) \<Rightarrow> addr \<Rightarrow> storage_t" where
  "heap_usage h p = (case h p of None \<Rightarrow> 0 | Some d \<Rightarrow> d_usage d)"

definition heap_count :: "(addr \<Rightarrow> directory_t option) \<Rightarrow> addr \<Rightarrow> storage_t" where
  "heap_count h p = (case h p of None \<Rightarrow> 0 | Some d \<Rightarrow> d_count d)"

text \<open>The totals of the user are the sums over its directories.\<close>

definition us_sums :: "userstore_t \<Rightarrow> bool" where
  "us_sums u \<longleftrightarrow> us_usage u = sum_list (map (heap_usage (us_heap u)) (us_items u)) \<and>
     us_count u = sum_list (map (heap_count (us_heap u)) (us_items u))"

text \<open>Entries whose path fits a \<open>PATH_MAX\<close> buffer, in every directory.\<close>

definition fs_fits :: "fsenv \<Rightarrow> bool" where
  "fs_fits fs \<longleftrightarrow> (\<forall>dir es. fs_opendir fs dir = Some es \<longrightarrow> paths_fit fs dir es)"

lemma directory_poll_total:
  "fs_fits fs \<Longrightarrow> \<exists>r d'. directory_poll cf fs now1 now2 d = Some (r, d')"
  by (auto simp: directory_poll_def fs_fits_def Let_def directory_sum_spec
      split: sum.splits option.splits)

lemma directory_load_total: "fs_fits fs \<Longrightarrow> \<exists>r. directory_load ok cf fs now1 now2 path = Some r"
proof -
  assume f: "fs_fits fs"
  show ?thesis
  proof (cases "directory_alloc ok path")
    case (Some d)
    with directory_poll_total [OF f, of cf now1 now2 d] show ?thesis
      by (auto simp: directory_load_def)
  qed (simp add: directory_load_def)
qed

lemma us_inv_length: "us_inv u \<Longrightarrow> length (us_items u) = us_num u"
  by (simp add: us_inv_def us_items_def list_inv_length)

lemma us_inv_cells:
  assumes "us_inv u" and "i < us_num u"
  obtains cells d where "us_directory u = Some cells" "i < length cells" "cells ! i = us_items u ! i"
    "us_heap u (us_items u ! i) = Some d"
proof -
  from assms have "list_inv (us_directory u) (us_num u)" by (simp add: us_inv_def)
  with assms(2) obtain cells where c: "us_directory u = Some cells" "us_num u \<le> length cells"
    by (auto simp: list_inv_def split: option.splits)
  then have it: "us_items u = take (us_num u) cells" by (simp add: us_items_def list_items_def)
  moreover have "us_items u ! i \<in> set (us_items u)"
    using assms us_inv_length by simp
  ultimately show ?thesis using that c assms by (auto simp: us_inv_def)
qed

lemma us_inv_heap_update:
  "us_inv u \<Longrightarrow> p \<in> set (us_items u) \<Longrightarrow> us_inv (u\<lparr>us_heap := (us_heap u)(p \<mapsto> d)\<rparr>)"
  by (auto simp: us_inv_def us_items_def)

lemma us_items_update [simp]:
  "us_items (u\<lparr>us_heap := h\<rparr>) = us_items u" "us_items (u\<lparr>us_mtime := t\<rparr>) = us_items u"
  "us_items (u\<lparr>us_time_taken := t\<rparr>) = us_items u" "us_items (u\<lparr>us_last_updated := t\<rparr>) = us_items u"
  "us_items (u\<lparr>us_usage := a\<rparr>) = us_items u" "us_items (u\<lparr>us_count := a\<rparr>) = us_items u"
  by (simp_all add: us_items_def)

lemma us_inv_frame [simp]:
  "us_inv (u\<lparr>us_mtime := t\<rparr>) = us_inv u" "us_inv (u\<lparr>us_time_taken := t\<rparr>) = us_inv u"
  "us_inv (u\<lparr>us_usage := a, us_count := b, us_last_updated := t, us_time_taken := s\<rparr>) = us_inv u"
  "us_inv (u\<lparr>us_usage := a, us_count := b, us_last_updated := t\<rparr>) = us_inv u"
  by (simp_all add: us_inv_def us_items_def)

lemma us_remove:
  assumes inv: "us_inv u" and i: "i < us_num u"
  shows "\<exists>l. list_remove ok (us_directory u) (us_num u) (us_items u ! i) = Some (l, us_num u - 1) \<and>
    list_inv l (us_num u - 1) \<and>
    list_items l (us_num u - 1) = take i (us_items u) @ drop (Suc i) (us_items u)"
  using parray.remove_nth [of "us_directory u" "us_num u" i ok] assms
  by (simp add: us_inv_def us_items_def)

lemma us_inv_removed:
  assumes inv: "us_inv u" and "list_inv l n" and "list_items l n = take i (us_items u) @ drop (Suc i) (us_items u)"
    and i: "i < us_num u"
  shows "us_inv (u\<lparr>us_directory := l, us_num := n, us_heap := (us_heap u)(us_items u ! i \<mapsto> d)\<rparr>)"
proof -
  have "set (take i (us_items u) @ drop (Suc i) (us_items u)) \<subseteq> set (us_items u)"
    using set_take_subset set_drop_subset by (metis Un_least set_append)
  moreover have "distinct (take i (us_items u) @ drop (Suc i) (us_items u))"
    using inv id_take_nth_drop [of i "us_items u"] i us_inv_length [OF inv]
    by (metis (no_types) distinct_append distinct.simps(2) inf_sup_absorb Int_insert_right_if0
        list.simps(15) not_distinct_conv_prefix us_inv_def disjoint_insert(1))
  moreover have "us_items u ! i < us_brk u"
    using inv i us_inv_length [OF inv] by (metis linorder_not_le nth_mem us_inv_def)
  ultimately show ?thesis
    using assms by (auto simp: us_inv_def us_items_def)
qed

text \<open>
  The poll loop: from a state in which \<open>usage\<close> and \<open>count\<close> are the sums over the first \<open>i\<close>
  directories it ends with the sums over all that are left.
\<close>

definition sums_upto :: "userstore_t \<Rightarrow> nat \<Rightarrow> storage_t \<Rightarrow> storage_t \<Rightarrow> bool" where
  "sums_upto u i usage count \<longleftrightarrow>
     usage = sum_list (map (heap_usage (us_heap u)) (take i (us_items u))) \<and>
     count = sum_list (map (heap_count (us_heap u)) (take i (us_items u)))"

lemma sums_upto_step:
  assumes inv: "us_inv u" and i: "i < us_num u" and "sums_upto u i usage count"
  shows "sums_upto (u\<lparr>us_heap := (us_heap u)(us_items u ! i \<mapsto> d)\<rparr>) (Suc i) (usage + d_usage d) (count + d_count d)"
proof -
  have len: "i < length (us_items u)" using i us_inv_length [OF inv] by simp
  have "us_items u ! i \<notin> set (take i (us_items u))"
    using inv len by (auto simp: us_inv_def in_set_conv_nth nth_eq_iff_index_eq)
  then show ?thesis
    using assms(3) len
    by (auto simp: sums_upto_def take_Suc_conv_app_nth heap_usage_def heap_count_def
        intro!: arg_cong [where f = sum_list] map_cong)
qed

lemma sums_upto_remove:
  assumes inv: "us_inv u" and i: "i < us_num u" and "sums_upto u i usage count"
    and "list_items l n = take i (us_items u) @ drop (Suc i) (us_items u)"
  shows "sums_upto (u\<lparr>us_directory := l, us_num := n, us_heap := (us_heap u)(us_items u ! i \<mapsto> d)\<rparr>) i usage count"
proof -
  have len: "i < length (us_items u)" using i us_inv_length [OF inv] by simp
  have "us_items u ! i \<notin> set (take i (us_items u))"
    using inv len by (auto simp: us_inv_def in_set_conv_nth nth_eq_iff_index_eq)
  moreover have "take i (list_items l n) = take i (us_items u)" using assms(4) len by simp
  ultimately show ?thesis
    using assms(3)
    by (auto simp: sums_upto_def us_items_def heap_usage_def heap_count_def
        intro!: arg_cong [where f = sum_list] map_cong)
qed

lemma userstore_poll_loop_spec:
  assumes fits: "fs_fits fs"
  shows "us_inv u \<Longrightarrow> us_num u - i \<le> n \<Longrightarrow> sums_upto u i usage count \<Longrightarrow>
    \<exists>u' us ct. userstore_poll_loop n cf fs al clk u i usage count = Some (u', us, ct) \<and>
      us_inv u' \<and> us_path u' = us_path u \<and> sums_upto u' (us_num u') us ct"
proof (induction n arbitrary: u i usage count)
  case 0
  then have "sums_upto u (us_num u) usage count"
    using us_inv_length [of u] by (simp add: sums_upto_def)
  with 0 show ?case by (simp add: userstore_poll_loop.simps)
next
  case (Suc m)
  show ?case
  proof (cases "i < us_num u")
    case False
    then have "sums_upto u (us_num u) usage count"
      using Suc.prems us_inv_length [of u] by (simp add: sums_upto_def)
    with False Suc.prems show ?thesis by (simp add: userstore_poll_loop.simps)
  next
    case True
    from us_inv_cells [OF Suc.prems(1) True] obtain cells d where
      c: "us_directory u = Some cells" "i < length cells" "cells ! i = us_items u ! i"
      "us_heap u (us_items u ! i) = Some d" by blast
    from directory_poll_total [OF fits, of cf "clk (2 * m)" "clk (2 * m + 1)" d] obtain r d' where
      p: "directory_poll cf fs (clk (2 * m)) (clk (2 * m + 1)) d = Some (r, d')" by blast
    show ?thesis
    proof (cases r)
      case True
      let ?u = "u\<lparr>us_heap := (us_heap u)(us_items u ! i \<mapsto> d')\<rparr>"
      have "us_inv ?u" "us_num ?u - Suc i \<le> m"
        using Suc.prems \<open>i < us_num u\<close> us_inv_length [of u] by (auto intro: us_inv_heap_update)
      from Suc.IH [OF this sums_upto_step [OF Suc.prems(1) \<open>i < us_num u\<close> Suc.prems(3)]] show ?thesis
        using \<open>i < us_num u\<close> True c p by (subst userstore_poll_loop.simps) simp
    next
      case False
      from us_remove [OF Suc.prems(1) \<open>i < us_num u\<close>, of "al m"] obtain l where
        l: "list_remove (al m) (us_directory u) (us_num u) (us_items u ! i) = Some (l, us_num u - 1)"
        "list_inv l (us_num u - 1)" "list_items l (us_num u - 1) = take i (us_items u) @ drop (Suc i) (us_items u)"
        by blast
      let ?u = "u\<lparr>us_directory := l, us_num := us_num u - 1, us_heap := (us_heap u)(us_items u ! i \<mapsto> d')\<rparr>"
      have "us_num ?u - i \<le> m" using Suc.prems \<open>i < us_num u\<close> by simp
      from Suc.IH [OF us_inv_removed [OF Suc.prems(1) l(2,3) \<open>i < us_num u\<close>] this
          sums_upto_remove [OF Suc.prems(1) \<open>i < us_num u\<close> Suc.prems(3) l(3)]] show ?thesis
        using \<open>i < us_num u\<close> False c p l(1) by (subst userstore_poll_loop.simps) simp
    qed
  qed
qed

lemma userstore_monitored_total:
  "(\<forall>p\<in>set ps. h p \<noteq> None) \<Longrightarrow> \<exists>b. userstore_monitored ps h dir = Some b"
  by (induction ps) auto

lemma userstore_monitors_total:
  assumes "us_inv u"
  shows "\<exists>b. userstore_monitors_directory u dir = Some b"
proof (cases "us_directory u")
  case None
  then show ?thesis by (auto simp: userstore_monitors_directory_def)
next
  case (Some cells)
  with assms have "us_num u \<le> length cells" "us_items u = take (us_num u) cells"
    by (auto simp: us_inv_def us_items_def list_inv_def list_items_def)
  with assms Some userstore_monitored_total [of "us_items u" "us_heap u" dir] show ?thesis
    by (auto simp: userstore_monitors_directory_def us_inv_def)
qed

text \<open>What the search for folders leaves alone.\<close>

definition us_keeps :: "userstore_t \<Rightarrow> userstore_t \<Rightarrow> bool" where
  "us_keeps u u' \<longleftrightarrow> us_path u' = us_path u \<and> us_usage u' = us_usage u \<and> us_count u' = us_count u \<and>
     (us_directory u' = None \<longrightarrow> us_directory u = None)"

lemma us_keeps_refl [simp]: "us_keeps u u"
  by (simp add: us_keeps_def)

lemma us_keeps_trans [trans]: "us_keeps u v \<Longrightarrow> us_keeps v w \<Longrightarrow> us_keeps u w"
  by (simp add: us_keeps_def)

lemma us_keeps_mtime [simp]: "us_keeps (u\<lparr>us_mtime := t\<rparr>) v = us_keeps u v"
  by (simp add: us_keeps_def)

lemma userstore_add_directory_spec:
  assumes "us_inv u"
  shows "\<exists>u'. userstore_add_directory True u d = Some u' \<and> us_inv u' \<and> us_keeps u u'"
proof -
  from parray.add_ok [of "us_directory u" "us_num u" "us_brk u"] assms obtain l where
    l: "list_add True (us_directory u) (us_num u) (us_brk u) = Some (l, us_num u + 1)"
    "list_inv l (us_num u + 1)" "list_items l (us_num u + 1) = us_items u @ [us_brk u]"
    by (auto simp: us_inv_def us_items_def)
  have "us_brk u \<notin> set (us_items u)" using assms by (auto simp: us_inv_def)
  moreover have "l \<noteq> None" using l(2) by (cases l) (simp_all add: list_inv_def)
  ultimately show ?thesis
    using l assms by (auto simp: userstore_add_directory_def us_inv_def us_items_def us_keeps_def)
qed

text \<open>Looking for one folder keeps the invariant and never faults, while memory lasts.\<close>

lemma userstore_find_one_spec:
  assumes "us_inv u" and "fs_fits fs"
  shows "case userstore_find_one uc cf fs ok1 True now1 now2 u b of
     FindNext u' \<Rightarrow> u' = u | FindOn u' \<Rightarrow> us_inv u' \<and> us_keeps u u'
   | FindError \<Rightarrow> True | FindFault \<Rightarrow> False"
proof -
  from userstore_monitors_total [OF assms(1), of b] obtain m where
    m: "userstore_monitors_directory u b = Some m" by blast
  from directory_load_total [OF assms(2), of ok1 cf now1 now2 b] obtain r where
    r: "directory_load ok1 cf fs now1 now2 b = Some r" by blast
  show ?thesis
  proof (cases r)
    case None
    with m r assms(1) show ?thesis
      by (auto simp: userstore_find_one_def split: sum.split bool.split)
  next
    case (Some d)
    from userstore_add_directory_spec [OF assms(1), of d] obtain u' where
      "userstore_add_directory True u d = Some u'" "us_inv u'" "us_keeps u u'" by blast
    with Some m r assms(1) show ?thesis
      by (auto simp: userstore_find_one_def split: sum.split bool.split)
  qed
qed

lemma userstore_find_loop_spec:
  assumes "fs_fits fs" and "\<And>k. al k"
  shows "us_inv u \<Longrightarrow> \<exists>r u'. userstore_find_loop uc cf fs al clk k u es = Some (r, u') \<and> us_inv u' \<and>
     us_keeps u u'"
proof (induction es arbitrary: u k)
  case (Cons e es)
  let ?one = "\<lambda>k u sub. userstore_find_one uc cf fs (al k) True (clk k) (clk (k + 1)) u
    (snprintf_str (PATH_MAX fs) (us_path u @ ''/'' @ e @ sub))"
  note one = userstore_find_one_spec [OF _ assms(1)]
  have al: "al k = True" for k using assms(2) by simp
  show ?case
  proof (cases "?one k u ''/new''")
    case (FindOn u1)
    with one [OF Cons.prems, of uc cf "al k" "clk k" "clk (k + 1)" "snprintf_str (PATH_MAX fs) (us_path u @ ''/'' @ e @ ''/new'')"]
    have u1: "us_inv u1" "us_keeps u u1" by simp_all
    note two = one [OF u1(1), of uc cf "al (k + 2)" "clk (k + 2)" "clk (k + 3)"
        "snprintf_str (PATH_MAX fs) (us_path u1 @ ''/'' @ e @ ''/cur'')"]
    show ?thesis
    proof (cases "?one (k + 2) u1 ''/cur''")
      case (FindNext u2)
      with two FindOn u1 Cons.IH [of u1 "k + 4"] Cons.IH [OF Cons.prems] show ?thesis by (auto simp: al numeral_3_eq_3 us_keeps_def)
    next
      case (FindOn u2)
      with two \<open>?one k u ''/new'' = FindOn u1\<close> u1 Cons.IH [of u2 "k + 4"] Cons.IH [OF Cons.prems] show ?thesis
        by (auto simp: al numeral_3_eq_3 us_keeps_def)
    next
      case FindError
      with two FindOn u1 Cons.IH [OF Cons.prems] show ?thesis by (auto simp: al numeral_3_eq_3 us_keeps_def)
    next
      case FindFault
      with two show ?thesis by (simp add: numeral_3_eq_3)
    qed
  next
    case (FindNext u1)
    with one [OF Cons.prems, of uc cf "al k" "clk k" "clk (k + 1)" "snprintf_str (PATH_MAX fs) (us_path u @ ''/'' @ e @ ''/new'')"]
    show ?thesis using Cons by (auto simp: al)
  next
    case FindError
    then show ?thesis using Cons by (auto simp: al)
  next
    case FindFault
    with one [OF Cons.prems, of uc cf "al k" "clk k" "clk (k + 1)" "snprintf_str (PATH_MAX fs) (us_path u @ ''/'' @ e @ ''/new'')"]
    show ?thesis by simp
  qed
qed auto

lemma userstore_find_directories_spec:
  assumes "fs_fits fs" and "\<And>k. al k" and "us_inv u"
  shows "\<exists>r u'. userstore_find_directories uc cf fs al clk u = Some (r, u') \<and> us_inv u' \<and> us_keeps u u'"
  using userstore_find_loop_spec [OF assms(1) _ assms(3), of "\<lambda>i. al (2 * i)"] assms
  by (auto simp: userstore_find_directories_def split: option.split)

lemma userstore_free_all_total:
  "distinct ps \<Longrightarrow> (\<forall>p\<in>set ps. h p \<noteq> None) \<Longrightarrow>
   \<exists>h'. userstore_free_all ps h = Some h' \<and> (\<forall>p. h p = None \<longrightarrow> h' p = None)"
proof (induction ps arbitrary: h)
  case (Cons p ps)
  then have "\<forall>q\<in>set ps. (h(p := None)) q \<noteq> None" by auto
  from Cons.IH [OF _ this] Cons.prems show ?case by fastforce
qed simp

lemma userstore_free_directory_spec:
  assumes "us_inv u" and "us_directory u = None \<Longrightarrow> us_usage u = 0 \<and> us_count u = 0"
  shows "\<exists>u'. userstore_free_directory u = Some u' \<and> us_inv u' \<and> us_sums u' \<and> us_usage u' = 0 \<and>
    us_count u' = 0 \<and> us_path u' = us_path u"
proof (cases "us_directory u")
  case None
  with assms show ?thesis
    by (simp add: userstore_free_directory_def us_sums_def us_items_def list_items_def)
next
  case (Some cells)
  with assms(1) have "us_num u \<le> length cells" "us_items u = take (us_num u) cells"
    by (auto simp: us_inv_def us_items_def list_inv_def list_items_def)
  with assms(1) Some userstore_free_all_total [of "us_items u" "us_heap u"] show ?thesis
    by (auto simp: userstore_free_directory_def list_free_def us_inv_def us_sums_def us_items_def
        list_inv_def list_items_def)
qed

lemma userstore_update_spec:
  assumes "fs_fits fs" and "us_inv u"
  shows "\<exists>u'. userstore_update uc cf fs al clk tstart tend u = Some u' \<and> us_inv u' \<and> us_sums u' \<and>
    us_path u' = us_path u \<and> us_time_taken u' = userstore_aged uc fs (us_path u) tstart tend"
proof -
  have "sums_upto u 0 0 0" by (simp add: sums_upto_def)
  from userstore_poll_loop_spec [OF assms, of 0 "us_num u" 0 0 cf "\<lambda>i. al (2 * i + 1)" "\<lambda>i. clk (2 * i + 1)"] this
  obtain u' us ct where l: "userstore_poll_loop (us_num u) cf fs (\<lambda>i. al (2 * i + 1)) (\<lambda>i. clk (2 * i + 1)) u 0 0 0 =
      Some (u', us, ct)" "us_inv u'" "us_path u' = us_path u" "sums_upto u' (us_num u') us ct" by auto
  from l(4) us_inv_length [OF l(2)] have
    "us = sum_list (map (heap_usage (us_heap u')) (us_items u'))"
    "ct = sum_list (map (heap_count (us_heap u')) (us_items u'))"
    by (simp_all add: sums_upto_def)
  with l show ?thesis by (simp add: userstore_update_def us_sums_def)
qed

text \<open>A well-formed userstore without directories has empty totals.\<close>

definition us_ok :: "userstore_t \<Rightarrow> bool" where
  "us_ok u \<longleftrightarrow> us_inv u \<and> (us_directory u = None \<longrightarrow> us_usage u = 0 \<and> us_count u = 0)"

lemma us_sums_ok: "us_inv u \<Longrightarrow> us_sums u \<Longrightarrow> us_ok u"
  by (simp add: us_ok_def us_sums_def us_items_def list_items_def)

lemma userstore_load_ok: "userstore_load ok now path = Some u \<Longrightarrow> us_ok u \<and> us_usage u = 0 \<and> us_count u = 0"
  by (auto simp: userstore_load_def us_ok_def us_inv_def us_items_def list_inv_def list_items_def split: if_splits)

lemma userstore_poll_spec:
  assumes ok: "us_ok u" and fits: "fs_fits fs" and al: "\<And>k. al k"
  shows "\<exists>r u'. userstore_poll uc cf fs al clk tstart tend u = Some (r, u') \<and> us_ok u' \<and>
    us_path u' = us_path u \<and> (us_time_taken u = 0 \<and> r \<longrightarrow> us_sums u')"
proof -
  from ok have inv: "us_inv u" and z: "us_directory u = None \<Longrightarrow> us_usage u = 0 \<and> us_count u = 0"
    by (auto simp: us_ok_def)
  consider (wait) "us_time_taken u \<noteq> 0"
    | (gone) e where "us_time_taken u = 0" "fs_stat fs (userstore_follow_symlinks uc) (us_path u) = Inl e"
    | (poll) st where "us_time_taken u = 0" "fs_stat fs (userstore_follow_symlinks uc) (us_path u) = Inr st"
    by (cases "fs_stat fs (userstore_follow_symlinks uc) (us_path u)") auto
  then show ?thesis
  proof cases
    case wait
    with ok show ?thesis by (auto simp: userstore_poll_def us_ok_def)
  next
    case gone
    with userstore_free_directory_spec [OF inv z] us_sums_ok show ?thesis
      by (auto simp: userstore_poll_def)
  next
    case poll
    let ?u = "u\<lparr>us_mtime := st_mtime st\<rparr>"
    have "\<exists>r u1. (if us_mtime u < st_mtime st then userstore_find_directories uc cf fs al clk ?u else Some (True, u)) =
        Some (r, u1) \<and> us_inv u1 \<and> us_keeps u u1"
      using userstore_find_directories_spec [where uc = uc and cf = cf and clk = clk and u = ?u, OF fits al] inv by auto
    then obtain r u1 where u1: "(if us_mtime u < st_mtime st then userstore_find_directories uc cf fs al clk ?u
        else Some (True, u)) = Some (r, u1)" "us_inv u1" "us_keeps u u1" by blast
    with z have "us_ok u1" by (auto simp: us_ok_def us_keeps_def)
    with u1 poll userstore_update_spec [OF fits u1(2), of uc cf al clk tstart tend] us_sums_ok show ?thesis
      by (cases r) (auto simp: userstore_poll_def us_keeps_def)
  qed
qed

section \<open>Properties\<close>

text \<open>
  C12. Every poll of a well-formed userstore returns (no memory access faults, the loop over the
  directories ends) and leaves it well formed; a poll that is due and succeeds leaves the user's totals
  equal to the sums over the monitored directories.
\<close>

theorem userstore_poll_correct:
  assumes "us_ok u" and "fs_fits fs" and "\<And>k. al k"
  shows "\<exists>r u'. userstore_poll uc cf fs al clk tstart tend u = Some (r, u') \<and> us_ok u' \<and>
    us_path u' = us_path u \<and> (us_time_taken u = 0 \<and> r \<longrightarrow> us_sums u')"
  by (rule userstore_poll_spec [where al = al, OF assms])

definition userstore_example :: userstore_t where
  "userstore_example = \<lparr>us_path = ''/m'', us_mtime = 5, us_last_updated = 0, us_time_taken = 0, us_num = 1,
     us_directory = Some [7],
     us_heap = [7 \<mapsto> \<lparr>d_directory = ''/m/./new'', d_last_update = 0, d_mtime = 0, d_usage = 0, d_count = 0\<rparr>],
     us_brk = 8, us_usage = 0, us_count = 0\<rparr>"

definition fsenv_example :: fsenv where
  "fsenv_example = \<lparr>fs_stat = (\<lambda>_ _. Inr \<lparr>st_mtime = 5, st_size = 10, st_isdir = True\<rparr>),
     fs_opendir = (\<lambda>d. if d = ''/m/./new'' then Some [''.'', ''a'', ''b,S=3''] else None), PATH_MAX = 4096\<rparr>"

theorem userstore_poll_correct_witness:
  "us_ok userstore_example \<and> fs_fits fsenv_example \<and>
   (\<exists>r u'. userstore_poll userstore_defaults directory_defaults fsenv_example (\<lambda>_. True) (\<lambda>_. 100) 100 100
        userstore_example = Some (r, u') \<and> us_ok u' \<and> us_path u' = us_path userstore_example \<and>
      (us_time_taken userstore_example = 0 \<and> r \<longrightarrow> us_sums u'))"
proof -
  have i: "us_ok userstore_example"
    by (simp add: userstore_example_def us_ok_def us_inv_def us_items_def list_inv_def list_items_def)
  have f: "fs_fits fsenv_example"
    by (simp add: fsenv_example_def fs_fits_def paths_fit_def)
  show ?thesis
    using i f userstore_poll_correct [where al = "\<lambda>_. True", OF i f] by blast
qed

text \<open>Repeated polls, each with its own view of the file system, clock and memory.\<close>

fun userstore_polls :: "(userstore_t \<Rightarrow> (bool \<times> userstore_t) option) list \<Rightarrow> userstore_t \<Rightarrow> userstore_t option" where
  "userstore_polls [] u = Some u"
| "userstore_polls (f # fs) u = (case f u of None \<Rightarrow> None | Some (r, u') \<Rightarrow> userstore_polls fs u')"

definition is_poll :: "userconf \<Rightarrow> (userstore_t \<Rightarrow> (bool \<times> userstore_t) option) \<Rightarrow> bool" where
  "is_poll uc f \<longleftrightarrow> (\<exists>cf fs al clk tstart tend. f = userstore_poll uc cf fs al clk tstart tend)"

lemma is_poll_poll [simp]: "is_poll uc (userstore_poll uc cf fs al clk tstart tend)"
  unfolding is_poll_def by blast

lemma userstore_polls_wait:
  "list_all (is_poll uc) fs \<Longrightarrow> (\<And>i. i < length fs \<Longrightarrow> us_time_taken u \<noteq> int i) \<Longrightarrow>
   userstore_polls fs u = Some (u\<lparr>us_time_taken := us_time_taken u - int (length fs)\<rparr>)"
proof (induction fs arbitrary: u)
  case (Cons f fs)
  have n: "us_time_taken u \<noteq> 0" using Cons.prems(2) [of 0] by simp
  have "us_time_taken u - 1 \<noteq> int i" if "i < length fs" for i
    using Cons.prems(2) [of "Suc i"] that by auto
  with Cons.IH [of "u\<lparr>us_time_taken := us_time_taken u - 1\<rparr>"] Cons.prems(1) n show ?case
    by (auto simp: is_poll_def userstore_poll_def algebra_simps)
qed simp

text \<open>
  A user whose age after a poll is \<open>n\<close> sits out exactly the next \<open>n\<close> polls, whatever they would
  have seen: they change nothing but the age, which is 0 afterwards, so that the next poll is due. With a
  maximum age configured, \<open>n\<close> never exceeds it.
\<close>

theorem userstore_poll_due:
  assumes "us_time_taken u = userstore_aged uc fs path tstart tend" and "us_time_taken u = int (length ps)"
    and "list_all (is_poll uc) ps"
  shows "userstore_polls ps u = Some (u\<lparr>us_time_taken := 0\<rparr>) \<and>
    (0 < userstore_max_age uc \<longrightarrow> int (length ps) \<le> userstore_max_age uc)"
  using assms userstore_polls_wait [of uc ps u] by (auto simp: userstore_aged_def Let_def)

theorem userstore_poll_due_witness:
  "userstore_polls (replicate 2 (userstore_poll userstore_defaults directory_defaults fsenv_example (\<lambda>_. True) (\<lambda>_. 0) 0 0))
     (userstore_example\<lparr>us_time_taken := 2\<rparr>) = Some userstore_example"
proof -
  have "userstore_aged userstore_defaults (fsenv_example\<lparr>fs_stat := \<lambda>_ _. Inl ENOENT\<rparr>) ''/m'' 0 2 = 2"
    by (simp add: userstore_aged_def userstore_defaults_def)
  moreover have "list_all (is_poll userstore_defaults)
      (replicate 2 (userstore_poll userstore_defaults directory_defaults fsenv_example (\<lambda>_. True) (\<lambda>_. 0) 0 0))"
    by (simp add: numeral_2_eq_2)
  ultimately have "userstore_polls (replicate 2 (userstore_poll userstore_defaults directory_defaults fsenv_example (\<lambda>_. True) (\<lambda>_. 0) 0 0))
      (userstore_example\<lparr>us_time_taken := 2\<rparr>) = Some (userstore_example\<lparr>us_time_taken := 2\<rparr>\<lparr>us_time_taken := 0\<rparr>)"
    using userstore_poll_due [of "userstore_example\<lparr>us_time_taken := 2\<rparr>" userstore_defaults
        "fsenv_example\<lparr>fs_stat := \<lambda>_ _. Inl ENOENT\<rparr>" "''/m''" 0 2] by simp
  then show ?thesis by (simp add: userstore_example_def)
qed

text \<open>
  A user whose \<open>lastauth\<close> file is dated a day or more after the end of a quick poll gets a
  negative age, and a negative age is never counted up: no later poll updates the user again
  (\<open>time_t\<close> is taken not to wrap around).
\<close>

theorem userstore_future_lastauth:
  assumes "fs_stat fs (userstore_follow_symlinks userstore_defaults) (snprintf_str 255 (path @ ''/../lastauth'')) = Inr st"
    and "st_mtime st - tend \<ge> 86400" and "tend - tstart < 3" and "list_all (is_poll userstore_defaults) ps"
    and "us_time_taken u = userstore_aged userstore_defaults fs path tstart tend"
  shows "\<exists>t<0. userstore_polls ps u = Some (u\<lparr>us_time_taken := t\<rparr>)"
proof -
  have "userstore_days tend (st_mtime st) \<le> - 1"
    using assms(2) by (simp add: userstore_days_def signed_divide_int_def)
  with assms(1,3) have "userstore_aged userstore_defaults fs path tstart tend < 0"
    by (simp add: userstore_aged_def userstore_defaults_def)
  with assms(4,5) userstore_polls_wait [of userstore_defaults ps u] show ?thesis
    by (intro exI [of _ "us_time_taken u - int (length ps)"]) auto
qed

theorem userstore_future_lastauth_witness:
  "\<exists>t<0. userstore_polls [userstore_poll userstore_defaults directory_defaults fsenv_example (\<lambda>_. True) (\<lambda>_. 0) 0 0]
     (userstore_example\<lparr>us_time_taken := - 3\<rparr>) = Some (userstore_example\<lparr>us_time_taken := t\<rparr>)"
proof -
  let ?fs = "fsenv_example\<lparr>fs_stat := \<lambda>_ _. Inr \<lparr>st_mtime = 86400, st_size = 0, st_isdir = False\<rparr>\<rparr>"
  have "userstore_aged userstore_defaults ?fs ''/m'' 0 0 = - 3"
    by (simp add: userstore_aged_def userstore_defaults_def userstore_days_def signed_divide_int_def)
  moreover have "list_all (is_poll userstore_defaults)
      [userstore_poll userstore_defaults directory_defaults fsenv_example (\<lambda>_. True) (\<lambda>_. 0) 0 0]"
    by simp
  ultimately show ?thesis
    using userstore_future_lastauth [of ?fs "''/m''" "\<lparr>st_mtime = 86400, st_size = 0, st_isdir = False\<rparr>" 0 0 _
        "userstore_example\<lparr>us_time_taken := - 3\<rparr>"]
    by (simp del: userstore_polls.simps)
qed

end
