(* ===== verification/User.thy ===== *)
theory User
  imports Domain Userstore
begin

text \<open>
  The users the daemon watches (\<^verbatim>\<open>vusaged/user.c\<close>): structures on the user list, found through the
  cache under the key \<open>user@domain\<close>, each with the domain it is accounted to and its userstore.

  \<open>vauth_getpw\<close>, the look-up in vpopmail's authentication back end, is the parameter \<open>getpw\<close>;
  \<open>al\<close> gives the outcome of the allocations of a call in the order the call makes them. The result
  \<open>None\<close> of a state-changing operation is an invalid memory access.
\<close>

section \<open>Model\<close>

definition USER_MAX_USERNAME :: nat where
  "USER_MAX_USERNAME = 384"

record vqpasswd =
  pw_name :: string
  pw_passwd :: string
  pw_uid :: nat
  pw_gid :: nat
  pw_flags :: nat
  pw_gecos :: string
  pw_dir :: string
  pw_shell :: string
  pw_clear_passwd :: string

record user_t =
  u_user :: string
  u_home :: string
  u_pw :: "vqpasswd option"
  u_domain :: addr
  u_userstore :: "userstore_t option"
  u_processing :: bool

record daemon = domstate +
  dn_users :: "addr \<Rightarrow> user_t option"
  dn_userlist :: dll
  dn_userlist_num :: storage_t

type_synonym getpw = "string \<Rightarrow> string \<Rightarrow> vqpasswd option"

definition user_init :: "daemon \<Rightarrow> daemon" where
  "user_init st = st\<lparr>dn_userlist_num := 0, dn_userlist := (dn_userlist st)\<lparr>dl_head := None\<rparr>\<rparr>"

subsection \<open>Usage of a user\<close>

definition user_usage :: "daemon \<Rightarrow> addr \<Rightarrow> storage_t option" where
  "user_usage st a =
     (case dn_users st a of
        None \<Rightarrow> None
      | Some u \<Rightarrow> Some (case u_userstore u of None \<Rightarrow> 0 | Some s \<Rightarrow> userstore_usage s))"

definition user_get_usage :: "daemon \<Rightarrow> string \<Rightarrow> storage_t option" where
  "user_get_usage st user =
     (case cache_lookup (ds_cache st) user of
        None \<Rightarrow> Some no_usage
      | Some a \<Rightarrow>
          (case dn_users st a of
             None \<Rightarrow> None
           | Some u \<Rightarrow> Some (case u_userstore u of None \<Rightarrow> 0 | Some s \<Rightarrow> userstore_usage s)))"

datatype use_result =
    UseUnknown                    \<comment> \<open>-1: no such user is loaded\<close>
  | UseWaiting                    \<comment> \<open>0: the user has no userstore yet\<close>
  | Use storage_t storage_t       \<comment> \<open>1: usage and count\<close>

definition user_get_use :: "daemon \<Rightarrow> string \<Rightarrow> use_result option" where
  "user_get_use st user =
     (case cache_lookup (ds_cache st) user of
        None \<Rightarrow> Some UseUnknown
      | Some a \<Rightarrow>
          (case dn_users st a of
             None \<Rightarrow> None
           | Some u \<Rightarrow>
               Some (case u_userstore u of
                       None \<Rightarrow> UseWaiting
                     | Some s \<Rightarrow> (case userstore_use s of (x, y) \<Rightarrow> Use x y))))"

subsection \<open>Lists and memory\<close>

definition live_user :: "daemon \<Rightarrow> addr option \<Rightarrow> bool" where
  "live_user st p = (case p of None \<Rightarrow> True | Some b \<Rightarrow> dn_users st b \<noteq> None)"

text \<open>\<open>Some False\<close> is the result 0: the user is then on the list but not in the cache.\<close>

definition user_userlist_add :: "bool \<Rightarrow> bool \<Rightarrow> daemon \<Rightarrow> addr \<Rightarrow> (bool \<times> daemon) option" where
  "user_userlist_add ok1 ok2 st a =
     (if \<not> live_user st (dl_head (dn_userlist st)) then None
      else
        case dn_users st a of
          None \<Rightarrow> None
        | Some u \<Rightarrow>
            (case ds_domains st (u_domain u) of
               None \<Rightarrow> None
             | Some d \<Rightarrow>
                 let st = st\<lparr>dn_userlist := dll_push_front (dn_userlist st) a,
                             dn_userlist_num := dn_userlist_num st + 1\<rparr>;
                     b = u_user u @ ''@'' @ dm_domain d
                 in if length b \<ge> 384 then Some (False, st)
                    else
                      (case cache_add ok1 ok2 (ds_cache st) b a of
                         None \<Rightarrow> Some (False, st)
                       | Some c \<Rightarrow> Some (True, st\<lparr>ds_cache := c\<rparr>))))"

definition user_remove :: "daemon \<Rightarrow> addr \<Rightarrow> daemon option" where
  "user_remove st a =
     (let l = dn_userlist st
      in if dn_users st a = None \<or> \<not> live_user st (dl_next l a) \<or> \<not> live_user st (dl_prev l a) then None
         else Some (st\<lparr>dn_userlist := dll_unlink l a, dn_userlist_num := dn_userlist_num st - 1\<rparr>))"

definition userstore_free :: "userstore_t \<Rightarrow> unit option" where
  "userstore_free s =
     (if us_directory s = None then Some ()
      else map_option (\<lambda>_. ()) (userstore_free_directory s))"

definition user_free :: "daemon \<Rightarrow> addr \<Rightarrow> daemon option" where
  "user_free st a =
     (case dn_users st a of
        None \<Rightarrow> None
      | Some u \<Rightarrow>
          (case (case u_userstore u of None \<Rightarrow> Some () | Some s \<Rightarrow> userstore_free s) of
             None \<Rightarrow> None
           | Some _ \<Rightarrow> Some (st\<lparr>dn_users := (dn_users st)(a := None)\<rparr>)))"

subsection \<open>Loading\<close>

definition email_user :: "string \<Rightarrow> string" where
  "email_user email = takeWhile (\<lambda>c. c \<noteq> CHR ''@'') email"

definition email_rest :: "string \<Rightarrow> string" where
  "email_rest email = dropWhile (\<lambda>c. c \<noteq> CHR ''@'') email"

text \<open>
  The last part of \<open>user_load\<close>, with the domain at hand. When the mutex or the copy of the user
  name cannot be had, \<open>userstore_free\<close> is called with a null pointer.
\<close>

definition user_load_alloc ::
    "(nat \<Rightarrow> bool) \<Rightarrow> daemon \<Rightarrow> string \<Rightarrow> vqpasswd \<Rightarrow> addr \<Rightarrow> (addr option \<times> daemon) option" where
  "user_load_alloc al st user pw dm =
     (if \<not> al 12 then Some (None, st)
      else if \<not> al 13 then None
      else if \<not> al 14 then None
      else
        let a = ds_brk st;
            u = \<lparr>u_user = user, u_home = pw_dir pw @ ''/Maildir'', u_pw = Some pw, u_domain = dm,
                 u_userstore = None, u_processing = False\<rparr>
        in case user_userlist_add (al 15) (al 16)
                  (st\<lparr>dn_users := (dn_users st)(a \<mapsto> u), ds_brk := Suc a\<rparr>) a of
             None \<Rightarrow> None
           | Some (True, st) \<Rightarrow> Some (Some a, st)
           | Some (False, st) \<Rightarrow> map_option (\<lambda>st. (None, st)) (user_free st a))"

definition user_load ::
    "getpw \<Rightarrow> nat \<Rightarrow> (nat \<Rightarrow> bool) \<Rightarrow> daemon \<Rightarrow> string \<Rightarrow> (addr option \<times> daemon) option" where
  "user_load getpw path_max al st email =
     (let user = email_user email
      in case email_rest email of
           [] \<Rightarrow> Some (None, st)
         | _ # domain \<Rightarrow>
             if length user \<ge> USER_MAX_USERNAME then Some (None, st)
             else if length domain \<ge> DOMAIN_MAX_DOMAIN then Some (None, st)
             else
               (case getpw user domain of
                  None \<Rightarrow> Some (None, st)
                | Some pw \<Rightarrow>
                    if \<not> list_all al [0, 1, 2, 3, 4, 5, 6] then Some (None, st)
                    else if length (pw_dir pw) + length ''/Maildir'' + 1 \<ge> path_max then Some (None, st)
                    else if \<not> al 7 then Some (None, st)
                    else
                      (case domain_load (\<lambda>i. al (8 + i)) st domain of
                         None \<Rightarrow> None
                       | Some (None, st) \<Rightarrow> Some (None, st)
                       | Some (Some dm, st) \<Rightarrow> user_load_alloc al st user pw dm)))"

definition user_get ::
    "getpw \<Rightarrow> nat \<Rightarrow> (nat \<Rightarrow> bool) \<Rightarrow> daemon \<Rightarrow> string \<Rightarrow> (addr option \<times> daemon) option" where
  "user_get getpw path_max al st email =
     (case email_rest email of
        [] \<Rightarrow> Some (None, st)
      | [_] \<Rightarrow> Some (None, st)
      | _ \<Rightarrow>
          (case cache_lookup (ds_cache st) email of
             Some a \<Rightarrow> Some (Some a, st)
           | None \<Rightarrow> user_load getpw path_max al st email))"

subsection \<open>Polling and verifying\<close>

record pollenv =
  pe_userconf :: userconf
  pe_dirconf :: dirconf
  pe_fs :: fsenv
  pe_alloc :: "nat \<Rightarrow> bool"
  pe_clock :: "nat \<Rightarrow> time_t"
  pe_start :: time_t
  pe_end :: time_t

definition user_set_store :: "daemon \<Rightarrow> addr \<Rightarrow> user_t \<Rightarrow> userstore_t \<Rightarrow> daemon" where
  "user_set_store st a u s = st\<lparr>dn_users := (dn_users st)(a \<mapsto> u\<lparr>u_userstore := Some s\<rparr>)\<rparr>"

definition user_poll :: "pollenv \<Rightarrow> daemon \<Rightarrow> addr \<Rightarrow> daemon option" where
  "user_poll pe st a =
     (case dn_users st a of
        None \<Rightarrow> None
      | Some u \<Rightarrow>
          (case u_userstore u of
             None \<Rightarrow>
               (case userstore_load (pe_alloc pe 0) (pe_start pe) (u_home u) of
                  None \<Rightarrow> Some st
                | Some s \<Rightarrow>
                    (case userstore_use s of (after, cafter) \<Rightarrow>
                       domain_update (user_set_store st a u s) (u_domain u) 0 after 0 cafter))
           | Some s \<Rightarrow>
               (case userstore_use s of (before, cbefore) \<Rightarrow>
                  (case userstore_poll (pe_userconf pe) (pe_dirconf pe) (pe_fs pe) (pe_alloc pe) (pe_clock pe)
                          (pe_start pe) (pe_end pe) s of
                     None \<Rightarrow> None
                   | Some (r, s') \<Rightarrow>
                       (case userstore_use s' of (after, cafter) \<Rightarrow>
                          domain_update (user_set_store st a u s') (u_domain u) before after cbefore cafter)))))"

text \<open>
  \<open>Some (False, _)\<close> is the result 0, after the user has been dropped. The address is written to a
  buffer of \<open>USER_MAX_USERNAME + DOMAIN_MAX_DOMAIN\<close> characters and terminated at its full length.
\<close>

definition user_drop :: "daemon \<Rightarrow> addr \<Rightarrow> user_t \<Rightarrow> string \<Rightarrow> daemon option" where
  "user_drop st a u b =
     (case (case u_userstore u of
              None \<Rightarrow> Some st
            | Some s \<Rightarrow> (case userstore_use s of (usage, count) \<Rightarrow> domain_update st (u_domain u) usage 0 count 0)) of
        None \<Rightarrow> None
      | Some st \<Rightarrow>
          (case user_remove (st\<lparr>ds_cache := cache_remove (ds_cache st) b\<rparr>) a of
             None \<Rightarrow> None
           | Some st \<Rightarrow> user_free st a))"

definition user_verify :: "getpw \<Rightarrow> daemon \<Rightarrow> addr \<Rightarrow> (bool \<times> daemon) option" where
  "user_verify getpw st a =
     (case dn_users st a of
        None \<Rightarrow> None
      | Some u \<Rightarrow>
          (case ds_domains st (u_domain u) of
             None \<Rightarrow> None
           | Some d \<Rightarrow>
               (case getpw (u_user u) (dm_domain d) of
                  Some _ \<Rightarrow> Some (True, st)
                | None \<Rightarrow>
                    let b = u_user u @ ''@'' @ dm_domain d
                    in if length b \<ge> USER_MAX_USERNAME + DOMAIN_MAX_DOMAIN then None
                       else map_option (\<lambda>st. (False, st)) (user_drop st a u b))))"

section \<open>Invariant\<close>

definition user_own :: "daemon \<Rightarrow> addr \<Rightarrow> addr option" where
  "user_own st a = map_option u_domain (dn_users st a)"

definition user_contrib :: "daemon \<Rightarrow> addr \<Rightarrow> storage_t \<times> storage_t" where
  "user_contrib st a =
     (case dn_users st a of
        None \<Rightarrow> (0, 0)
      | Some u \<Rightarrow> (case u_userstore u of None \<Rightarrow> (0, 0) | Some s \<Rightarrow> userstore_use s))"

definition user_key :: "daemon \<Rightarrow> user_t \<Rightarrow> string option" where
  "user_key st u = map_option (\<lambda>d. u_user u @ ''@'' @ d) (domain_name st (u_domain u))"

definition user_ok :: "daemon \<Rightarrow> addr \<Rightarrow> user_t \<Rightarrow> bool" where
  "user_ok st a u \<longleftrightarrow>
     (\<exists>b. user_key st u = Some b \<and> length b < USER_MAX_USERNAME \<and> lowercase b = b \<and>
        cache_lookup (ds_cache st) b = Some a) \<and>
     u_user u \<noteq> [] \<and> CHR ''@'' \<notin> set (u_user u) \<and> list_all us_ok (case u_userstore u of None \<Rightarrow> [] | Some s \<Rightarrow> [s])"

text \<open>
  \<open>us\<close> is the user list. Every user is well formed and cached under its address, every other cached
  key is the address of a live user, and the books of every domain balance.
\<close>

definition users_rep :: "daemon \<Rightarrow> addr list \<Rightarrow> bool" where
  "users_rep st us \<longleftrightarrow> dll_rep (dn_userlist st) us \<and> set us = dom (dn_users st) \<and>
     dn_userlist_num st = of_nat (length us) \<and> balanced (domain_balance st) us (user_own st) (user_contrib st)"

definition usercache_inv :: "daemon \<Rightarrow> bool" where
  "usercache_inv st \<longleftrightarrow> (\<forall>k a. cache_lookup (ds_cache st) k = Some a \<longrightarrow> take 1 k \<noteq> ''@'' \<longrightarrow>
     (\<exists>u. dn_users st a = Some u \<and> user_key st u = Some k))"

definition daemon_inv :: "daemon \<Rightarrow> bool" where
  "daemon_inv st \<longleftrightarrow> domains_inv st \<and> (\<exists>us. users_rep st us) \<and>
     (\<forall>a u. dn_users st a = Some u \<longrightarrow> user_ok st a u) \<and> usercache_inv st \<and>
     (\<forall>a d. ds_domains st a = Some d \<longrightarrow> lowercase (dm_domain d) = dm_domain d) \<and>
     (\<forall>a. ds_brk st \<le> a \<longrightarrow> dn_users st a = None)"


lemma user_contrib_set [simp]:
  "user_contrib (user_set_store st a u s) = (user_contrib st)(a := userstore_use s)"
  by (simp add: user_contrib_def user_set_store_def fun_eq_iff)

lemma user_own_set [simp]:
  "dn_users st a = Some u \<Longrightarrow> user_own (user_set_store st a u s) = user_own st"
  by (auto simp: user_own_def user_set_store_def fun_eq_iff)

lemma user_set_store_frame [simp]:
  "ds_cache (user_set_store st a u s) = ds_cache st" "ds_domains (user_set_store st a u s) = ds_domains st"
  "ds_brk (user_set_store st a u s) = ds_brk st" "dn_userlist (user_set_store st a u s) = dn_userlist st"
  "ds_domainlist (user_set_store st a u s) = ds_domainlist st"
  "ds_domainlist_num (user_set_store st a u s) = ds_domainlist_num st"
  "dn_userlist_num (user_set_store st a u s) = dn_userlist_num st"
  "domain_balance (user_set_store st a u s) = domain_balance st"
  "domain_name (user_set_store st a u s) = domain_name st"
  by (simp_all add: user_set_store_def domain_balance_def domain_name_def fun_eq_iff)

lemma domain_update_users:
  "domain_update st d b a cb ca = Some st' \<Longrightarrow> dn_users st' = dn_users st \<and> dn_userlist st' = dn_userlist st \<and>
     dn_userlist_num st' = dn_userlist_num st"
  by (auto simp: domain_update_def split: option.splits)

text \<open>The part of the invariant that leaves out the user list and the books.\<close>

definition users_inv :: "daemon \<Rightarrow> bool" where
  "users_inv st \<longleftrightarrow> domains_inv st \<and> (\<forall>a u. dn_users st a = Some u \<longrightarrow> user_ok st a u) \<and> usercache_inv st \<and>
     (\<forall>a n. domain_name st a = Some n \<longrightarrow> lowercase n = n) \<and> (\<forall>a. ds_brk st \<le> a \<longrightarrow> dn_users st a = None)"

lemma daemon_inv_iff: "daemon_inv st \<longleftrightarrow> users_inv st \<and> (\<exists>us. users_rep st us)"
  unfolding daemon_inv_def users_inv_def domain_name_def map_option_eq_Some by blast

lemma daemon_users_inv [dest]: "daemon_inv st \<Longrightarrow> users_inv st"
  by (simp add: daemon_inv_iff)

lemma users_inv_ok: "users_inv st \<Longrightarrow> dn_users st a = Some u \<Longrightarrow> user_ok st a u"
  by (simp add: users_inv_def)

lemma users_inv_key:
  assumes "users_inv st" and "dn_users st a = Some u"
  obtains b where "user_key st u = Some b" "length b < USER_MAX_USERNAME" "lowercase b = b"
    "cache_lookup (ds_cache st) b = Some a" "take 1 b \<noteq> ''@''"
proof -
  from users_inv_ok [OF assms] obtain b where b: "user_key st u = Some b" "length b < USER_MAX_USERNAME"
    "lowercase b = b" "cache_lookup (ds_cache st) b = Some a" "u_user u \<noteq> []" "CHR ''@'' \<notin> set (u_user u)"
    unfolding user_ok_def by blast
  moreover have "take 1 b \<noteq> ''@''" using b(1,5,6) by (cases "u_user u") (auto simp: user_key_def)
  ultimately show ?thesis using that by blast
qed

lemma users_inv_cached:
  "users_inv st \<Longrightarrow> cache_lookup (ds_cache st) k = Some a \<Longrightarrow> take 1 k \<noteq> ''@'' \<Longrightarrow>
   \<exists>u. dn_users st a = Some u \<and> user_key st u = Some k"
  unfolding users_inv_def usercache_inv_def by blast

lemma users_inv_domain:
  assumes "users_inv st" and "dn_users st a = Some u"
  shows "\<exists>n. domain_name st (u_domain u) = Some n"
proof -
  from users_inv_key [OF assms] obtain b where "user_key st u = Some b" by blast
  then show ?thesis by (auto simp: user_key_def)
qed

lemma users_inv_lower: "users_inv st \<Longrightarrow> domain_name st p = Some n \<Longrightarrow> lowercase n = n"
  by (simp add: users_inv_def)

lemmas daemon_user_ok = users_inv_ok [OF daemon_users_inv]
lemmas daemon_user_key = users_inv_key [OF daemon_users_inv]
lemmas daemon_cached_user = users_inv_cached [OF daemon_users_inv]

lemmas daemon_domain_lower = users_inv_lower [OF daemon_users_inv]

lemma user_domain_live:
  assumes "daemon_inv st" and "dn_users st a = Some u"
  shows "\<exists>x y. domain_balance st (u_domain u) = Some (x, y)"
  using users_inv_domain [OF daemon_users_inv [OF assms(1)] assms(2)]
  by (auto simp: domain_name_def domain_balance_def)

lemma user_ok_cong:
  assumes "ds_cache st' = ds_cache st" and "domain_name st' = domain_name st"
  shows "user_ok st' a u = user_ok st a u" and "user_key st' u = user_key st u"
  using assms by (simp_all add: user_ok_def user_key_def)

text \<open>Replacing the userstore of a user, together with the update of its domain.\<close>

lemma user_store_update:
  assumes inv: "daemon_inv st" and u: "dn_users st a = Some u" and ok: "us_ok s"
    and use: "user_contrib st a = (b, cb)"
  shows "\<exists>st'. domain_update (user_set_store st a u s) (u_domain u) b (us_usage s) cb (us_count s) = Some st' \<and>
    daemon_inv st' \<and> dn_users st' = (dn_users st)(a \<mapsto> u\<lparr>u_userstore := Some s\<rparr>)"
proof -
  let ?st = "user_set_store st a u s"
  from inv obtain us where us: "users_rep st us" by (auto simp: daemon_inv_def)
  then have mem: "a \<in> set us" and dist: "distinct us" and
    bal: "balanced (domain_balance ?st) us (user_own st) (user_contrib st)"
    using u links.rep_distinct by (auto simp: users_rep_def)
  from user_domain_live [OF inv u] obtain x y where xy: "domain_balance ?st (u_domain u) = Some (x, y)" by auto
  have own: "user_own st a = Some (u_domain u)" using u by (simp add: user_own_def)
  from books.upd_balanced [OF bal dist mem own xy, of "us_usage s" "us_count s"] use obtain st' where
    st': "domain_update ?st (u_domain u) b (us_usage s) cb (us_count s) = Some st'"
    "balanced (domain_balance st') us (user_own st) ((user_contrib st)(a := (us_usage s, us_count s)))" by auto
  note fr = domain_update_frame [OF st'(1)] domain_update_users [OF st'(1)]
  have users: "dn_users st' = (dn_users st)(a \<mapsto> u\<lparr>u_userstore := Some s\<rparr>)"
    using fr by (simp add: user_set_store_def)
  have "user_own st' = user_own st" "user_contrib st' = (user_contrib st)(a := (us_usage s, us_count s))"
    using u by (auto simp: user_own_def user_contrib_def users fun_eq_iff userstore_use_def)
  with us st'(2) u users fr have rep: "users_rep st' us"
    by (auto simp: users_rep_def)
  have c: "ds_cache st' = ds_cache st" "domain_name st' = domain_name st" "ds_brk st' = ds_brk st"
    using fr by simp_all
  have uok: "user_ok st' a' u'" if "dn_users st' a' = Some u'" for a' u'
  proof (cases "a' = a")
    case True
    from daemon_user_ok [OF inv u] ok have "user_ok st a (u\<lparr>u_userstore := Some s\<rparr>)"
      by (simp add: user_ok_def user_key_def)
    with True that users show ?thesis by (auto simp: user_ok_cong [OF c(1,2)])
  next
    case False
    with that users daemon_user_ok [OF inv] show ?thesis by (simp add: user_ok_cong [OF c(1,2)])
  qed
  have "usercache_inv st'"
    unfolding usercache_inv_def
  proof (intro allI impI)
    fix k p assume "cache_lookup (ds_cache st') k = Some p" "take 1 k \<noteq> ''@''"
    with daemon_cached_user [OF inv] c(1) obtain u' where "dn_users st p = Some u'" "user_key st u' = Some k"
      by metis
    with u show "\<exists>u'. dn_users st' p = Some u' \<and> user_key st' u' = Some k"
      by (auto simp: users user_key_def c)
  qed
  moreover have "domains_inv st'"
    using inv fr domains_inv_cong [of st' st] by (simp add: daemon_inv_def)
  moreover have "lowercase (dm_domain d) = dm_domain d" if "ds_domains st' p = Some d" for p d
  proof -
    from that have "domain_name st p = Some (dm_domain d)" using c(2) by (metis domain_name_def option.simps(9))
    then show ?thesis by (rule daemon_domain_lower [OF inv])
  qed
  moreover have "dn_users st' p = None" if "ds_brk st' \<le> p" for p
    using that inv u by (auto simp: daemon_inv_def users c)
  ultimately have "daemon_inv st'" using rep uok by (auto simp: daemon_inv_def)
  with st'(1) users show ?thesis by blast
qed

lemma user_poll_spec:
  assumes inv: "daemon_inv st" and u: "dn_users st a = Some u" and fits: "fs_fits (pe_fs pe)"
    and al: "\<And>k. pe_alloc pe k"
  shows "\<exists>st' s. user_poll pe st a = Some st' \<and> daemon_inv st' \<and>
    dn_users st' = (dn_users st)(a \<mapsto> u\<lparr>u_userstore := Some s\<rparr>) \<and> us_ok s"
proof (cases "u_userstore u")
  case None
  from al obtain s where s: "userstore_load (pe_alloc pe 0) (pe_start pe) (u_home u) = Some s"
    by (simp add: userstore_load_def)
  from userstore_load_ok [OF this] have ok: "us_ok s" "us_usage s = 0" "us_count s = 0" by auto
  from None u have "user_contrib st a = (0, 0)" by (simp add: user_contrib_def)
  from user_store_update [OF inv u ok(1) this] None u s ok show ?thesis
    by (auto simp: user_poll_def userstore_use_def)
next
  case (Some s)
  with daemon_user_ok [OF inv u] have "us_ok s" by (simp add: user_ok_def)
  from userstore_poll_spec [where al = "pe_alloc pe", OF this fits al, of "pe_userconf pe" "pe_dirconf pe"
      "pe_clock pe" "pe_start pe" "pe_end pe"] obtain r s' where
    p: "userstore_poll (pe_userconf pe) (pe_dirconf pe) (pe_fs pe) (pe_alloc pe) (pe_clock pe)
          (pe_start pe) (pe_end pe) s = Some (r, s')" "us_ok s'" by blast
  from Some u have "user_contrib st a = (us_usage s, us_count s)"
    by (simp add: user_contrib_def userstore_use_def)
  from user_store_update [OF inv u p(2) this] Some u p show ?thesis
    by (auto simp: user_poll_def userstore_use_def)
qed

text \<open>Loading a domain keeps the invariant of the users.\<close>

lemma domstate_more_users:
  "domstate.more st' = domstate.more st \<Longrightarrow>
   dn_users st' = dn_users st \<and> dn_userlist st' = dn_userlist st \<and> dn_userlist_num st' = dn_userlist_num st"
  by (cases st; cases st') simp

lemma users_inv_new_domain:
  assumes inv: "users_inv st" and low: "lowercase name = name" and dinv: "domains_inv st'"
    and dead: "domain_name st d = None" and names: "domain_name st' = (domain_name st)(d \<mapsto> name)"
    and brk: "ds_brk st \<le> ds_brk st'" and users: "dn_users st' = dn_users st"
    and cache: "cache_lookup (ds_cache st') = (cache_lookup (ds_cache st))(domain_key name \<mapsto> d)"
  shows "users_inv st'"
proof -
  have look: "cache_lookup (ds_cache st') k = cache_lookup (ds_cache st) k" if "take 1 k \<noteq> ''@''" for k
    using that cache by (auto simp: domain_key_def)
  have key: "user_key st' u = user_key st u" if "dn_users st a = Some u" for a u
    using users_inv_domain [OF inv that] dead by (auto simp: user_key_def names)
  have "user_ok st' a u" if "dn_users st' a = Some u" for a u
  proof -
    from that users have u: "dn_users st a = Some u" by simp
    from users_inv_key [OF inv u] obtain b where "user_key st u = Some b" "take 1 b \<noteq> ''@''" by blast
    with users_inv_ok [OF inv u] look [of b] key [OF u] show ?thesis by (simp add: user_ok_def)
  qed
  moreover have "usercache_inv st'"
    unfolding usercache_inv_def using users_inv_cached [OF inv] look key users by metis
  ultimately show ?thesis
    using inv dinv low brk by (auto simp: users_inv_def names users)
qed

lemma users_domain_load:
  assumes inv: "users_inv st" and len: "length name < DOMAIN_MAX_DOMAIN" and low: "lowercase name = name"
    and al: "al 0" "al 1" "al 2" "al 3"
  shows "\<exists>d st'. domain_load al st name = Some (Some d, st') \<and> users_inv st' \<and> domain_name st' d = Some name \<and>
    dn_users st' = dn_users st \<and> dn_userlist st' = dn_userlist st \<and> dn_userlist_num st' = dn_userlist_num st \<and>
    (\<forall>k. take 1 k \<noteq> ''@'' \<longrightarrow> cache_lookup (ds_cache st') k = cache_lookup (ds_cache st) k) \<and>
    (domain_get st name = Some d \<and> st' = st \<or> domain_get st name = None \<and> domain_name st d = None \<and>
       ds_domains st' = (ds_domains st)(d \<mapsto> \<lparr>dm_domain = name, dm_usage = 0, dm_count = 0\<rparr>))"
proof -
  from inv have dinv: "domains_inv st" by (simp add: users_inv_def)
  from domain_load_spec [where al = al, OF dinv len al] obtain d st' where
    l: "domain_load al st name = Some (Some d, st')" "domains_inv st'" "domain_get st' name = Some d" and
    c: "domain_get st name = Some d \<and> st' = st \<or>
     d = ds_brk st \<and> ds_domains st d = None \<and> ds_brk st' = Suc d \<and>
     ds_domains st' = (ds_domains st)(d \<mapsto> \<lparr>dm_domain = name, dm_usage = 0, dm_count = 0\<rparr>) \<and>
     cache_lookup (ds_cache st') = (cache_lookup (ds_cache st))(domain_key name \<mapsto> d) \<and>
     domstate.more st' = domstate.more st"
    by blast
  from c show ?thesis
  proof (elim disjE conjE)
    assume old: "domain_get st name = Some d" "st' = st"
    from domain_get_live [OF dinv len old(1)] obtain x where x: "ds_domains st d = Some x"
      "lowercase (dm_domain x) = lowercase name" by blast
    moreover have "lowercase (dm_domain x) = dm_domain x"
      using users_inv_lower [OF inv, of d "dm_domain x"] x(1) by (simp add: domain_name_def)
    ultimately have "domain_name st d = Some name" using low by (simp add: domain_name_def)
    with l old inv show ?thesis by auto
  next
    assume d: "d = ds_brk st" "ds_domains st d = None" "ds_brk st' = Suc d"
      and doms: "ds_domains st' = (ds_domains st)(d \<mapsto> \<lparr>dm_domain = name, dm_usage = 0, dm_count = 0\<rparr>)"
      and cache: "cache_lookup (ds_cache st') = (cache_lookup (ds_cache st))(domain_key name \<mapsto> d)"
      and more: "domstate.more st' = domstate.more st"
    have names: "domain_name st' = (domain_name st)(d \<mapsto> name)" "domain_name st d = None"
      by (simp_all add: domain_name_def doms d(2) fun_eq_iff)
    have "users_inv st'"
      using users_inv_new_domain [OF inv low l(2) names(2,1)] d cache domstate_more_users [OF more] by simp
    moreover have "domain_get st name = None"
    proof (cases "domain_get st name")
      case (Some b)
      with l(1) domain_get_live [OF dinv len Some] d(2) show ?thesis by (auto simp: domain_load_def)
    qed simp
    moreover have "cache_lookup (ds_cache st') k = cache_lookup (ds_cache st) k" if "take 1 k \<noteq> ''@''" for k
      using that cache by (auto simp: domain_key_def)
    ultimately show ?thesis
      using l(1) names doms domstate_more_users [OF more] by (intro exI [of _ d] exI [of _ st']) auto
  qed
qed

lemma daemon_domain_load:
  assumes inv: "daemon_inv st" and len: "length name < DOMAIN_MAX_DOMAIN" and low: "lowercase name = name"
    and al: "al 0" "al 1" "al 2" "al 3"
  shows "\<exists>d st'. domain_load al st name = Some (Some d, st') \<and> daemon_inv st' \<and> domain_name st' d = Some name \<and>
    dn_users st' = dn_users st \<and>
    (\<forall>k. take 1 k \<noteq> ''@'' \<longrightarrow> cache_lookup (ds_cache st') k = cache_lookup (ds_cache st) k)"
proof -
  from inv have uinv: "users_inv st" by (rule daemon_users_inv)
  from inv obtain us where us: "users_rep st us" by (auto simp: daemon_inv_iff)
  from users_domain_load [where al = al, OF uinv len low al] obtain d st' where
    l: "domain_load al st name = Some (Some d, st')" "users_inv st'" "domain_name st' d = Some name"
    "dn_users st' = dn_users st" "dn_userlist st' = dn_userlist st" "dn_userlist_num st' = dn_userlist_num st"
    "\<forall>k. take 1 k \<noteq> ''@'' \<longrightarrow> cache_lookup (ds_cache st') k = cache_lookup (ds_cache st) k" and
    c: "domain_get st name = Some d \<and> st' = st \<or> domain_get st name = None \<and> domain_name st d = None \<and>
       ds_domains st' = (ds_domains st)(d \<mapsto> \<lparr>dm_domain = name, dm_usage = 0, dm_count = 0\<rparr>)" by blast
  from c have "users_rep st' us"
  proof (elim disjE conjE)
    assume dead: "domain_name st d = None"
      and doms: "ds_domains st' = (ds_domains st)(d \<mapsto> \<lparr>dm_domain = name, dm_usage = 0, dm_count = 0\<rparr>)"
    have own: "user_own st' = user_own st" "user_contrib st' = user_contrib st"
      using l(4) by (simp_all add: user_own_def user_contrib_def fun_eq_iff)
    have "owned_sum us (user_own st) d f = 0" for f
      using users_inv_domain [OF uinv] dead by (intro owned_sum_none) (fastforce simp: user_own_def)
    moreover have "domain_balance st' = (domain_balance st)(d \<mapsto> (0, 0))"
      by (simp add: domain_balance_def doms fun_eq_iff)
    ultimately show "users_rep st' us"
      using us l(4-6) own by (auto simp: users_rep_def balanced_def)
  qed (use us in simp)
  with l show ?thesis by (auto simp: daemon_inv_iff)
qed

lemma user_userlist_add_ok:
  assumes rep: "dll_rep (dn_userlist st) us" and live: "\<forall>p\<in>set us. dn_users st p \<noteq> None" and new: "a \<notin> set us"
    and u: "dn_users st a = Some u" and key: "user_key st u = Some b" and len: "length b < USER_MAX_USERNAME"
  shows "\<exists>l. dll_rep l (a # us) \<and> user_userlist_add True True st a = Some (True,
    st\<lparr>dn_userlist := l, dn_userlist_num := dn_userlist_num st + 1, ds_cache := (lowercase b, a) # ds_cache st\<rparr>)"
proof -
  from dll_rep_head [OF rep] live have "live_user st (dl_head (dn_userlist st))"
    by (auto simp: live_user_def split: list.splits)
  moreover from key obtain d where "ds_domains st (u_domain u) = Some d" "b = u_user u @ ''@'' @ dm_domain d"
    by (auto simp: user_key_def domain_name_def)
  ultimately show ?thesis
    using links.rep_push [OF rep new] u len
    by (intro exI [of _ "dll_push_front (dn_userlist st) a"])
      (simp add: user_userlist_add_def cache_add_def USER_MAX_USERNAME_def)
qed

text \<open>A new user with its cache entry.\<close>

lemma users_inv_add:
  assumes inv: "users_inv st" and u: "u_user u \<noteq> []" "CHR ''@'' \<notin> set (u_user u)"
      "list_all us_ok (case u_userstore u of None \<Rightarrow> [] | Some s \<Rightarrow> [s])"
    and key: "user_key st u = Some key" "length key < USER_MAX_USERNAME" "lowercase key = key"
    and new: "cache_lookup (ds_cache st) key = None" and a: "a = ds_brk st"
  shows "users_inv (st\<lparr>dn_users := (dn_users st)(a \<mapsto> u), ds_brk := Suc a, dn_userlist := l, dn_userlist_num := n,
    ds_cache := (key, a) # ds_cache st\<rparr>)" (is "users_inv ?st")
proof -
  have look: "cache_lookup (ds_cache ?st) = (cache_lookup (ds_cache st))(key \<mapsto> a)"
    by (simp add: cache_lookup_def fun_eq_iff)
  from inv a have fresh: "dn_users st a = None" by (simp add: users_inv_def)
  have key1: "take 1 key \<noteq> ''@''" using u(1,2) key(1) by (cases "u_user u") (auto simp: user_key_def)
  have keys: "user_key ?st v = user_key st v" for v by (simp add: user_key_def domain_name_def)
  have "user_ok ?st p v" if "dn_users ?st p = Some v" for p v
  proof (cases "p = a")
    case True
    with that u key look keys show ?thesis by (auto simp: user_ok_def)
  next
    case False
    with that have v: "dn_users st p = Some v" by simp
    from users_inv_key [OF inv v] new obtain b where "user_key st v = Some b" "cache_lookup (ds_cache st) b = Some p"
      "b \<noteq> key" by (metis option.distinct(1))
    then show ?thesis using users_inv_ok [OF inv v] look unfolding user_ok_def keys by auto
  qed
  moreover have "usercache_inv ?st"
    unfolding usercache_inv_def
  proof (intro allI impI)
    fix k p assume k: "cache_lookup (ds_cache ?st) k = Some p" "take 1 k \<noteq> ''@''"
    show "\<exists>v. dn_users ?st p = Some v \<and> user_key ?st v = Some k"
    proof (cases "k = key")
      case True
      with k look key(1) keys show ?thesis by auto
    next
      case False
      with k look have "cache_lookup (ds_cache st) k = Some p" by simp
      from users_inv_cached [OF inv this k(2)] fresh keys show ?thesis by auto
    qed
  qed
  moreover have "domains_inv ?st"
  proof -
    have "cache_inv ((lowercase key, a) # ds_cache st)"
      using inv new key(3) by (intro cache_add_inv) (auto simp: users_inv_def domains_inv_def domcache_inv_def)
    moreover have "domain_key n \<noteq> key" "''@'' @ n \<noteq> key" for n using key1 by (auto simp: domain_key_def)
    ultimately show ?thesis
      using inv key(3) look a by (auto simp: users_inv_def domains_inv_def domlist_inv_def domcache_inv_def)
  qed
  ultimately show ?thesis
    using inv a unfolding users_inv_def by (auto simp: domain_name_def)
qed

lemma users_userlist_add:
  assumes inv: "users_inv st" and u: "u_user u \<noteq> []" "CHR ''@'' \<notin> set (u_user u)"
      "list_all us_ok (case u_userstore u of None \<Rightarrow> [] | Some s \<Rightarrow> [s])"
    and key: "user_key st u = Some key" "length key < USER_MAX_USERNAME" "lowercase key = key"
    and new: "cache_lookup (ds_cache st) key = None"
    and rep: "dll_rep (dn_userlist st) us" "set us = dom (dn_users st)"
  shows "\<exists>st'. user_userlist_add True True (st\<lparr>dn_users := (dn_users st)(ds_brk st \<mapsto> u), ds_brk := Suc (ds_brk st)\<rparr>) (ds_brk st) =
      Some (True, st') \<and> users_inv st' \<and> dll_rep (dn_userlist st') (ds_brk st # us) \<and>
    dn_userlist_num st' = dn_userlist_num st + 1 \<and> dn_users st' = (dn_users st)(ds_brk st \<mapsto> u) \<and>
    ds_domains st' = ds_domains st \<and> cache_lookup (ds_cache st') = (cache_lookup (ds_cache st))(key \<mapsto> ds_brk st)"
proof -
  let ?a = "ds_brk st"
  let ?st = "st\<lparr>dn_users := (dn_users st)(?a \<mapsto> u), ds_brk := Suc ?a\<rparr>"
  from inv have fresh: "dn_users st ?a = None" by (simp add: users_inv_def)
  with rep have rep': "dll_rep (dn_userlist ?st) us" "\<forall>p\<in>set us. dn_users ?st p \<noteq> None" "?a \<notin> set us" by auto
  have ukey: "user_key ?st u = Some key" using key(1) by (simp add: user_key_def domain_name_def)
  from user_userlist_add_ok [OF rep' _ ukey key(2)] obtain l where l: "dll_rep l (?a # us)"
    "user_userlist_add True True ?st ?a = Some (True, ?st\<lparr>dn_userlist := l, dn_userlist_num := dn_userlist_num st + 1,
      ds_cache := (key, ?a) # ds_cache st\<rparr>)" using key(3) by auto
  have look: "cache_lookup ((key, ?a) # ds_cache st) = (cache_lookup (ds_cache st))(key \<mapsto> ?a)"
    by (simp add: cache_lookup_def fun_eq_iff)
  from l look users_inv_add [where l = l and n = "dn_userlist_num st + 1", OF inv u key new refl] show ?thesis by simp
qed

lemma user_load_alloc_ok:
  assumes inv: "daemon_inv st" and dm: "domain_name st dm = Some name"
    and user: "user \<noteq> []" "CHR ''@'' \<notin> set user" and key: "key = user @ ''@'' @ name"
    and len: "length key < USER_MAX_USERNAME" and low: "lowercase key = key"
    and new: "cache_lookup (ds_cache st) key = None" and al: "\<And>i. al i"
  shows "\<exists>st'. user_load_alloc al st user pw dm = Some (Some (ds_brk st), st') \<and> daemon_inv st' \<and>
    cache_lookup (ds_cache st') = (cache_lookup (ds_cache st))(key \<mapsto> ds_brk st) \<and>
    dn_users st' = (dn_users st)(ds_brk st \<mapsto> \<lparr>u_user = user, u_home = pw_dir pw @ ''/Maildir'', u_pw = Some pw,
      u_domain = dm, u_userstore = None, u_processing = False\<rparr>)"
proof -
  let ?a = "ds_brk st"
  let ?u = "\<lparr>u_user = user, u_home = pw_dir pw @ ''/Maildir'', u_pw = Some pw,
      u_domain = dm, u_userstore = None, u_processing = False\<rparr>"
  from inv obtain us where us: "users_rep st us" and uinv: "users_inv st" by (auto simp: daemon_inv_iff)
  from uinv us have fresh: "dn_users st ?a = None" "?a \<notin> set us" by (auto simp: users_inv_def users_rep_def)
  have ukey: "user_key st ?u = Some key" using dm key by (simp add: user_key_def)
  from users_userlist_add [OF uinv _ _ _ ukey len low new, of us] user us obtain st' where
    st': "user_userlist_add True True (st\<lparr>dn_users := (dn_users st)(?a \<mapsto> ?u), ds_brk := Suc ?a\<rparr>) ?a = Some (True, st')"
    "users_inv st'" "dll_rep (dn_userlist st') (?a # us)" "dn_userlist_num st' = dn_userlist_num st + 1"
    "dn_users st' = (dn_users st)(?a \<mapsto> ?u)" "ds_domains st' = ds_domains st"
    "cache_lookup (ds_cache st') = (cache_lookup (ds_cache st))(key \<mapsto> ?a)" by (auto simp: users_rep_def)
  have con: "user_contrib st' = user_contrib st"
    using fresh(1) by (simp add: user_contrib_def st'(5) fun_eq_iff)
  have "owned_sum us (user_own st') d f = owned_sum us (user_own st) d f" for d f
    using fresh(2) by (intro owned_sum_cong) (auto simp: user_own_def st'(5))
  moreover have "domain_balance st' = domain_balance st" by (simp add: domain_balance_def st'(6) fun_eq_iff)
  ultimately have "balanced (domain_balance st') us (user_own st') (user_contrib st')"
    using us con by (simp add: users_rep_def balanced_def)
  moreover have "user_contrib st' ?a = (0, 0)" using con fresh(1) by (simp add: user_contrib_def)
  ultimately have "users_rep st' (?a # us)"
    using st' us balanced_Cons_zero [of _ us _ _ ?a] by (simp add: users_rep_def)
  moreover have "user_load_alloc al st user pw dm = Some (Some ?a, st')"
    using st'(1) al by (simp add: user_load_alloc_def Let_def)
  ultimately show ?thesis using st' by (auto simp: daemon_inv_iff)
qed

text \<open>Taking a user off the list and out of the cache, once its share of the domain is gone.\<close>

lemma user_free_ok:
  assumes "dn_users st a = Some u" and "list_all us_ok (case u_userstore u of None \<Rightarrow> [] | Some s \<Rightarrow> [s])"
  shows "user_free st a = Some (st\<lparr>dn_users := (dn_users st)(a := None)\<rparr>)"
proof (cases "u_userstore u")
  case (Some s)
  with assms(2) have "us_inv s" "us_directory s = None \<Longrightarrow> us_usage s = 0 \<and> us_count s = 0"
    by (auto simp: us_ok_def)
  from userstore_free_directory_spec [OF this] have "userstore_free s = Some ()"
    by (auto simp: userstore_free_def)
  with Some assms(1) show ?thesis by (simp add: user_free_def)
qed (use assms in \<open>simp add: user_free_def\<close>)

lemma user_remove_ok:
  assumes rep: "dll_rep (dn_userlist st) us" and live: "set us = dom (dn_users st)" and a: "a \<in> set us"
  shows "user_remove st a = Some (st\<lparr>dn_userlist := dll_unlink (dn_userlist st) a,
    dn_userlist_num := dn_userlist_num st - 1\<rparr>)"
proof -
  from a obtain xs ys where us: "us = xs @ a # ys" by (meson split_list)
  with rep have "dll_rep (dn_userlist st) (xs @ a # ys)" by simp
  then obtain l where "dl_prev (dn_userlist st) a = (if xs = [] then None else Some (last xs))"
    "dl_next (dn_userlist st) a = (case ys of [] \<Rightarrow> None | y # _ \<Rightarrow> Some y)"
    by (rule dll_rep_split)
  moreover have "xs \<noteq> [] \<Longrightarrow> dn_users st (last xs) \<noteq> None" "dn_users st a \<noteq> None"
    "ys = y # zs \<Longrightarrow> dn_users st y \<noteq> None" for y zs
    using live us last_in_set [of xs] by auto
  ultimately show ?thesis
    by (auto simp: user_remove_def live_user_def Let_def split: list.splits)
qed

text \<open>The state without the user \<open>a\<close>, given books that balance without it.\<close>

lemma daemon_inv_dropped:
  assumes inv: "daemon_inv st" and u: "dn_users st a = Some u" and key: "user_key st u = Some b"
    and us: "users_rep st us" and bal: "balanced (domain_balance st') (remove1 a us) (user_own st) (user_contrib st)"
    and c: "ds_cache st' = cache_remove (ds_cache st) b" "domain_name st' = domain_name st" "ds_brk st' = ds_brk st"
      "ds_domainlist st' = ds_domainlist st" "ds_domainlist_num st' = ds_domainlist_num st"
      "dn_users st' = (dn_users st)(a := None)" "dn_userlist st' = dll_unlink (dn_userlist st) a"
      "dn_userlist_num st' = dn_userlist_num st - 1"
  shows "daemon_inv st'"
proof -
  from us u have mem: "a \<in> set us" and dist: "distinct us" using links.rep_distinct by (auto simp: users_rep_def)
  from inv have cinv: "cache_inv (ds_cache st)" by (simp add: daemon_inv_def domains_inv_def domcache_inv_def)
  have look: "cache_lookup (ds_cache st') = (cache_lookup (ds_cache st))(b := None)" "cache_inv (ds_cache st')"
    using ckeys.remv_ok [OF cinv] c(1) by simp_all
  from daemon_user_key [OF inv u] key have b: "cache_lookup (ds_cache st) b = Some a" "take 1 b \<noteq> ''@''" by auto
  have keys: "user_key st' v = user_key st v" for v using c(2) by (simp add: user_key_def)
  have "domains_inv st'"
  proof -
    have "domain_key n \<noteq> b" "''@'' @ n \<noteq> b" for n using b(2) by (auto simp: domain_key_def)
    then have "domcache_inv st'"
      using inv look c(2) by (simp add: daemon_inv_def domains_inv_def domcache_inv_alt)
    moreover have "domlist_inv st'" using inv c domain_name_dom [OF c(2)]
      by (simp add: daemon_inv_def domains_inv_def domlist_inv_def)
    moreover have "ds_domains st' p = None \<longleftrightarrow> ds_domains st p = None" for p
      using c(2) by (metis domain_name_def map_option_is_None)
    ultimately show ?thesis using inv c(3) by (simp add: daemon_inv_def domains_inv_def)
  qed
  moreover have "users_rep st' (remove1 a us)"
  proof -
    have "length us > 0" using mem by auto
    then have "dn_userlist_num st - 1 = of_nat (length (remove1 a us))"
      using us mem storage_pred [of "length us"] by (simp add: users_rep_def length_remove1)
    moreover have "owned_sum (remove1 a us) (user_own st') d (f \<circ> user_contrib st') =
        owned_sum (remove1 a us) (user_own st) d (f \<circ> user_contrib st)" for d and f :: "storage_t \<times> storage_t \<Rightarrow> storage_t"
      using dist c(6) by (intro owned_sum_cong) (auto simp: user_own_def user_contrib_def)
    ultimately show ?thesis
      using us bal mem dist c(6-8) links.rep_unlink_remove1 [of "dn_userlist st" us a]
      by (auto simp: users_rep_def balanced_def)
  qed
  moreover have "user_ok st' p v" if "dn_users st' p = Some v" for p v
  proof -
    from that c(6) have v: "p \<noteq> a" "dn_users st p = Some v" by (auto split: if_splits)
    from daemon_user_key [OF inv v(2)] obtain k where "user_key st v = Some k" "cache_lookup (ds_cache st) k = Some p"
      by blast
    moreover from this b v(1) have "k \<noteq> b" by auto
    ultimately show ?thesis using daemon_user_ok [OF inv v(2)] look(1) unfolding user_ok_def keys by auto
  qed
  moreover have "usercache_inv st'"
    unfolding usercache_inv_def
  proof (intro allI impI)
    fix k p assume k: "cache_lookup (ds_cache st') k = Some p" "take 1 k \<noteq> ''@''"
    with look(1) have kb: "k \<noteq> b" "cache_lookup (ds_cache st) k = Some p" by (auto split: if_splits)
    from daemon_cached_user [OF inv kb(2) k(2)] obtain v where v: "dn_users st p = Some v" "user_key st v = Some k"
      by blast
    with kb(1) u key have "p \<noteq> a" by auto
    with v c(6) keys show "\<exists>u. dn_users st' p = Some u \<and> user_key st' u = Some k" by auto
  qed
  moreover have "lowercase (dm_domain d) = dm_domain d" if "ds_domains st' p = Some d" for p d
  proof -
    from that c(2) have "domain_name st p = Some (dm_domain d)" by (metis domain_name_def option.simps(9))
    then show ?thesis by (rule daemon_domain_lower [OF inv])
  qed
  ultimately show ?thesis using inv c(3,6) by (auto simp: daemon_inv_def)
qed

lemma user_drop_ok:
  assumes inv: "daemon_inv st" and u: "dn_users st a = Some u" and key: "user_key st u = Some b"
  shows "\<exists>st'. user_drop st a u b = Some st' \<and> daemon_inv st' \<and> dn_users st' = (dn_users st)(a := None) \<and>
    cache_lookup (ds_cache st') = (cache_lookup (ds_cache st))(b := None)"
proof -
  from inv obtain us where us: "users_rep st us" by (auto simp: daemon_inv_def)
  then have mem: "a \<in> set us" and dist: "distinct us" and rep: "dll_rep (dn_userlist st) us" and
    live: "set us = dom (dn_users st)" and
    bal: "balanced (domain_balance st) us (user_own st) (user_contrib st)"
    using u links.rep_distinct by (auto simp: users_rep_def)
  from user_domain_live [OF inv u] obtain x y where xy: "domain_balance st (u_domain u) = Some (x, y)" by auto
  have own: "user_own st a = Some (u_domain u)" using u by (simp add: user_own_def)
  let ?upd = "case u_userstore u of None \<Rightarrow> Some st
    | Some s \<Rightarrow> (case userstore_use s of (usage, count) \<Rightarrow> domain_update st (u_domain u) usage 0 count 0)"
  have "\<exists>st1. ?upd = Some st1 \<and> balanced (domain_balance st1) (remove1 a us) (user_own st) (user_contrib st) \<and>
    domain_name st1 = domain_name st \<and> ds_cache st1 = ds_cache st \<and> ds_brk st1 = ds_brk st \<and>
    ds_domainlist st1 = ds_domainlist st \<and> ds_domainlist_num st1 = ds_domainlist_num st \<and>
    dn_users st1 = dn_users st \<and> dn_userlist st1 = dn_userlist st \<and> dn_userlist_num st1 = dn_userlist_num st"
  proof (cases "u_userstore u")
    case None
    then have "user_contrib st a = (0, 0)" using u by (simp add: user_contrib_def)
    then have "balanced (domain_balance st) (remove1 a us) (user_own st) (user_contrib st)"
      by (rule balanced_remove_zero [OF bal dist mem])
    with None show ?thesis by simp
  next
    case (Some s)
    then have con: "user_contrib st a = (us_usage s, us_count s)"
      using u by (simp add: user_contrib_def userstore_use_def)
    from books.upd_balanced_remove [OF bal dist mem own xy] con obtain st1 where
      s1: "domain_update st (u_domain u) (us_usage s) 0 (us_count s) 0 = Some st1"
      "balanced (domain_balance st1) (remove1 a us) (user_own st) (user_contrib st)" by auto
    from domain_update_frame [OF s1(1)] domain_update_users [OF s1(1)] s1 Some show ?thesis
      by (simp add: userstore_use_def)
  qed
  then obtain st1 where st1: "?upd = Some st1"
    "balanced (domain_balance st1) (remove1 a us) (user_own st) (user_contrib st)"
    "domain_name st1 = domain_name st" "ds_cache st1 = ds_cache st" "ds_brk st1 = ds_brk st"
    "ds_domainlist st1 = ds_domainlist st" "ds_domainlist_num st1 = ds_domainlist_num st"
    "dn_users st1 = dn_users st" "dn_userlist st1 = dn_userlist st" "dn_userlist_num st1 = dn_userlist_num st"
    by blast
  let ?st2 = "st1\<lparr>ds_cache := cache_remove (ds_cache st) b\<rparr>"
  let ?st3 = "?st2\<lparr>dn_userlist := dll_unlink (dn_userlist st) a, dn_userlist_num := dn_userlist_num st - 1\<rparr>"
  let ?st4 = "?st3\<lparr>dn_users := (dn_users st)(a := None)\<rparr>"
  have rm: "user_remove ?st2 a = Some ?st3"
    using user_remove_ok [of ?st2 us a] rep live mem st1(8-10) by simp
  have fr: "user_free ?st3 a = Some ?st4"
    using user_free_ok [of ?st3 a u] u st1(8) daemon_user_ok [OF inv u] by (simp add: user_ok_def)
  have "user_drop st a u b = Some ?st4"
    using st1(1,4) rm fr by (simp add: user_drop_def)
  moreover have "daemon_inv ?st4"
  proof (rule daemon_inv_dropped [OF inv u key us])
    show "domain_name ?st4 = domain_name st" using st1(3) by (simp add: domain_name_def fun_eq_iff)
    have "domain_balance ?st4 = domain_balance st1" by (simp add: domain_balance_def fun_eq_iff)
    with st1(2) show "balanced (domain_balance ?st4) (remove1 a us) (user_own st) (user_contrib st)" by simp
  qed (use st1 in simp_all)
  moreover have "cache_lookup (ds_cache ?st4) = (cache_lookup (ds_cache st))(b := None)"
    using inv by (simp add: cache_lookup_remove daemon_inv_def domains_inv_def domcache_inv_def cache_inv_def)
  ultimately show ?thesis by auto
qed

lemma user_verify_spec:
  assumes inv: "daemon_inv st" and u: "dn_users st a = Some u" and key: "user_key st u = Some b"
    and name: "domain_name st (u_domain u) = Some n"
  shows "getpw (u_user u) n \<noteq> None \<Longrightarrow> user_verify getpw st a = Some (True, st)"
    and "getpw (u_user u) n = None \<Longrightarrow> \<exists>st'. user_verify getpw st a = Some (False, st') \<and> daemon_inv st' \<and>
      dn_users st' = (dn_users st)(a := None) \<and> cache_lookup (ds_cache st') = (cache_lookup (ds_cache st))(b := None)"
proof -
  from name obtain d where d: "ds_domains st (u_domain u) = Some d" "dm_domain d = n"
    by (auto simp: domain_name_def)
  then show "getpw (u_user u) n \<noteq> None \<Longrightarrow> user_verify getpw st a = Some (True, st)"
    using u by (auto simp: user_verify_def)
  have b: "b = u_user u @ ''@'' @ n" using key name by (simp add: user_key_def)
  have "length b < USER_MAX_USERNAME + DOMAIN_MAX_DOMAIN"
    using daemon_user_key [OF inv u] key by (metis option.inject trans_less_add1)
  with user_drop_ok [OF inv u key] d u b
  show "getpw (u_user u) n = None \<Longrightarrow> \<exists>st'. user_verify getpw st a = Some (False, st') \<and> daemon_inv st' \<and>
      dn_users st' = (dn_users st)(a := None) \<and> cache_lookup (ds_cache st') = (cache_lookup (ds_cache st))(b := None)"
    by (auto simp: user_verify_def Let_def)
qed

text \<open>An address with a user part and a domain, in lower case, short enough to be cached.\<close>

definition good_email :: "string \<Rightarrow> bool" where
  "good_email email \<longleftrightarrow> lowercase email = email \<and> email_user email \<noteq> [] \<and> length (email_rest email) \<ge> 2 \<and>
     length (email_rest email) \<le> DOMAIN_MAX_DOMAIN \<and> length email < USER_MAX_USERNAME"

lemma email_split: "email = email_user email @ email_rest email"
  by (simp add: email_user_def email_rest_def)

lemma email_rest_at: "email_rest email = c # cs \<Longrightarrow> c = CHR ''@''"
  by (auto simp: email_rest_def dropWhile_eq_Cons_conv)

lemma good_email_split:
  assumes "good_email email"
  obtains user name where "email = user @ ''@'' @ name" "email_user email = user" "email_rest email = ''@'' @ name"
    "user \<noteq> []" "CHR ''@'' \<notin> set user" "name \<noteq> []" "length name < DOMAIN_MAX_DOMAIN" "length user < USER_MAX_USERNAME"
    "lowercase name = name" "length email < USER_MAX_USERNAME" "lowercase email = email" "take 1 email \<noteq> ''@''"
proof -
  from assms obtain name where r: "email_rest email = ''@'' @ name" "name \<noteq> []"
    using email_rest_at [of email] by (cases "email_rest email") (fastforce simp: good_email_def)+
  have at: "CHR ''@'' \<notin> set (email_user email)"
    by (auto simp: email_user_def dest: set_takeWhileD)
  have e: "email = email_user email @ ''@'' @ name" using email_split [of email] r(1) by simp
  from assms have "lowercase (email_user email @ ''@'' @ name) = email_user email @ ''@'' @ name"
    using e by (simp add: good_email_def)
  then have "lowercase name = name" by (simp add: append_eq_append_conv)
  moreover have "length (email_user email) < USER_MAX_USERNAME"
    using assms arg_cong [OF e, of length] by (simp add: good_email_def)
  moreover have "take 1 email \<noteq> ''@''"
    using assms at e by (cases "email_user email") (auto simp: good_email_def)
  ultimately show ?thesis
    using that [of "email_user email" name] assms e r at by (simp add: good_email_def)
qed

lemma user_load_spec:
  assumes inv: "daemon_inv st" and email: "good_email email"
    and new: "cache_lookup (ds_cache st) email = None" and al: "\<And>i. al i"
    and pw: "getpw (email_user email) (tl (email_rest email)) = Some pw" and dir: "length (pw_dir pw) + 9 < path_max"
  shows "\<exists>a st'. user_load getpw path_max al st email = Some (Some a, st') \<and> daemon_inv st' \<and>
    dn_users st a = None \<and> cache_lookup (ds_cache st') email = Some a \<and>
    (\<exists>d. dn_users st' = (dn_users st)(a \<mapsto> \<lparr>u_user = email_user email, u_home = pw_dir pw @ ''/Maildir'',
      u_pw = Some pw, u_domain = d, u_userstore = None, u_processing = False\<rparr>))"
proof -
  from email obtain user name where e: "email = user @ ''@'' @ name" "email_user email = user"
    "email_rest email = ''@'' @ name" "user \<noteq> []" "CHR ''@'' \<notin> set user" "name \<noteq> []"
    "length name < DOMAIN_MAX_DOMAIN" "length user < USER_MAX_USERNAME" "lowercase name = name"
    "length email < USER_MAX_USERNAME" "lowercase email = email" "take 1 email \<noteq> ''@''" by (rule good_email_split)
  let ?al = "\<lambda>i. al (8 + i)"
  from daemon_domain_load [where al = ?al, OF inv e(7,9) al al al al] obtain d st1 where
    d: "domain_load ?al st name = Some (Some d, st1)" "daemon_inv st1" "domain_name st1 d = Some name"
    "dn_users st1 = dn_users st"
    "\<forall>k. take 1 k \<noteq> ''@'' \<longrightarrow> cache_lookup (ds_cache st1) k = cache_lookup (ds_cache st) k" by blast
  have new1: "cache_lookup (ds_cache st1) email = None" using d(5) e(12) new by simp
  from user_load_alloc_ok [where al = al and pw = pw, OF d(2,3) e(4,5,1,10,11) new1 al] obtain st' where
    st': "user_load_alloc al st1 user pw d = Some (Some (ds_brk st1), st')" "daemon_inv st'"
    "cache_lookup (ds_cache st') = (cache_lookup (ds_cache st1))(email \<mapsto> ds_brk st1)"
    "dn_users st' = (dn_users st1)(ds_brk st1 \<mapsto> \<lparr>u_user = user, u_home = pw_dir pw @ ''/Maildir'',
      u_pw = Some pw, u_domain = d, u_userstore = None, u_processing = False\<rparr>)" by blast
  have "user_load getpw path_max al st email = Some (Some (ds_brk st1), st')"
    using e(2,3,7,8) d(1) st'(1) al pw dir by (simp add: user_load_def Let_def)
  moreover have "dn_users st (ds_brk st1) = None"
    using d(2,4) by (simp add: daemon_inv_def)
  ultimately show ?thesis using st' d(4) e(2) by auto
qed

lemma user_get_cached:
  assumes "good_email email" and "cache_lookup (ds_cache st) email = Some a"
  shows "user_get getpw path_max al st email = Some (Some a, st)"
proof -
  from assms(1) obtain user name where "email_rest email = ''@'' @ name" "name \<noteq> []"
    by (rule good_email_split)
  with assms(2) show ?thesis by (auto simp: user_get_def split: list.splits)
qed

lemma user_get_new:
  assumes "good_email email" and "cache_lookup (ds_cache st) email = None"
  shows "user_get getpw path_max al st email = user_load getpw path_max al st email"
proof -
  from assms(1) obtain user name where "email_rest email = ''@'' @ name" "name \<noteq> []"
    by (rule good_email_split)
  with assms(2) show ?thesis by (auto simp: user_get_def split: list.splits)
qed

text \<open>
  Whatever an address in lower case of less than \<open>USER_MAX_USERNAME\<close> characters that does not start
  with \<open>@\<close> looks like, \<open>user_get\<close> returns, keeps the invariant and leaves the loaded users alone.
\<close>

definition ok_email :: "string \<Rightarrow> bool" where
  "ok_email email \<longleftrightarrow> lowercase email = email \<and> take 1 email \<noteq> ''@'' \<and> length email < USER_MAX_USERNAME"

lemma good_ok_email: "good_email email \<Longrightarrow> ok_email email"
  by (rule good_email_split) (auto simp: ok_email_def)

lemma user_get_bad:
  assumes "ok_email email" and "\<not> good_email email" and "cache_lookup (ds_cache st) email = None"
  shows "user_get getpw path_max al st email = Some (None, st)"
proof -
  have "email_user email \<noteq> [] \<or> email_rest email = []"
    using assms(1) email_split [of email] email_rest_at [of email]
    by (cases "email_rest email") (auto simp: ok_email_def)
  with assms(1,2) have "length (email_rest email) < 2 \<or> DOMAIN_MAX_DOMAIN < length (email_rest email)"
    by (auto simp: ok_email_def good_email_def)
  with assms(3) show ?thesis
    by (auto simp: user_get_def user_load_def Let_def split: list.splits)
qed

lemma user_get_spec:
  assumes inv: "daemon_inv st" and email: "ok_email email" and al: "\<And>i. al i"
  shows "\<exists>r st'. user_get getpw path_max al st email = Some (r, st') \<and> daemon_inv st' \<and>
    (\<forall>a u. dn_users st a = Some u \<longrightarrow> dn_users st' a = Some u) \<and> (\<forall>a. r = Some a \<longrightarrow> dn_users st' a \<noteq> None)"
proof -
  let ?pw = "getpw (email_user email) (tl (email_rest email))"
  consider (cached) a where "cache_lookup (ds_cache st) email = Some a"
    | (bad) "cache_lookup (ds_cache st) email = None" "\<not> good_email email"
    | (load) pw where "cache_lookup (ds_cache st) email = None" "good_email email" "?pw = Some pw" "length (pw_dir pw) + 9 < path_max"
    | (refused) "cache_lookup (ds_cache st) email = None" "good_email email" "\<nexists>pw. ?pw = Some pw \<and> length (pw_dir pw) + 9 < path_max"
    by (cases "cache_lookup (ds_cache st) email") blast+
  then show ?thesis
  proof cases
    case cached
    with daemon_cached_user [OF inv cached] email obtain u where u: "dn_users st a = Some u"
      by (auto simp: ok_email_def)
    have "user_get getpw path_max al st email = Some (None, st) \<or> user_get getpw path_max al st email = Some (Some a, st)"
      using cached by (auto simp: user_get_def split: list.splits)
    with inv u show ?thesis by auto
  next
    case bad
    with user_get_bad [OF email bad(2,1)] inv show ?thesis by auto
  next
    case load
    from user_load_spec [where al = al and getpw = getpw, OF inv load(2,1) al load(3,4)] obtain a st' where
      l: "user_load getpw path_max al st email = Some (Some a, st')" "daemon_inv st'" "dn_users st a = None"
      "\<exists>d. dn_users st' = (dn_users st)(a \<mapsto> \<lparr>u_user = email_user email, u_home = pw_dir pw @ ''/Maildir'',
        u_pw = Some pw, u_domain = d, u_userstore = None, u_processing = False\<rparr>)" by blast
    then have "\<forall>b u. dn_users st b = Some u \<longrightarrow> dn_users st' b = Some u" "dn_users st' a \<noteq> None" by auto
    with l(1,2) user_get_new [OF load(2,1), of getpw path_max al] show ?thesis by auto
  next
    case refused
    then have "user_load getpw path_max al st email = Some (None, st)"
      using al by (auto simp: user_load_def Let_def split: list.splits option.splits)
    with inv user_get_new [OF refused(2,1), of getpw path_max al] show ?thesis by auto
  qed
qed

lemma user_get_total:
  assumes "daemon_inv st" and "good_email email" and "\<And>i. al i"
  shows "\<exists>r st'. user_get getpw path_max al st email = Some (r, st') \<and> daemon_inv st'"
  using user_get_spec [where al = al and getpw = getpw, OF assms(1) good_ok_email [OF assms(2)] assms(3)] by blast

text \<open>The processing flag is no concern of the invariant.\<close>

lemma daemon_inv_processing:
  assumes inv: "daemon_inv st" and u: "dn_users st a = Some u"
  shows "daemon_inv (st\<lparr>dn_users := (dn_users st)(a \<mapsto> u\<lparr>u_processing := v\<rparr>)\<rparr>)" (is "daemon_inv ?st")
proof -
  have k: "user_key ?st x = user_key st x" "user_ok ?st p x = user_ok st p x" "user_ok st p (u\<lparr>u_processing := v\<rparr>) = user_ok st p u"
    "user_key st (u\<lparr>u_processing := v\<rparr>) = user_key st u" for x p
    by (simp_all add: user_key_def user_ok_def domain_name_def)
  have c: "user_own ?st = user_own st" "user_contrib ?st = user_contrib st" "domain_balance ?st = domain_balance st"
    using u by (auto simp: user_own_def user_contrib_def domain_balance_def fun_eq_iff)
  from inv obtain us where "users_rep st us" by (auto simp: daemon_inv_def)
  with c u have "users_rep ?st us" by (auto simp: users_rep_def)
  moreover have "usercache_inv ?st"
    unfolding usercache_inv_def
  proof (intro allI impI)
    fix q p assume "cache_lookup (ds_cache ?st) q = Some p" "take 1 q \<noteq> ''@''"
    then obtain x where "dn_users st p = Some x" "user_key st x = Some q"
      using daemon_cached_user [OF inv, of q p] by auto
    with u k show "\<exists>x. dn_users ?st p = Some x \<and> user_key ?st x = Some q" by (cases "p = a") auto
  qed
  moreover have "domains_inv ?st"
    using inv domains_inv_cong [of ?st st] by (simp add: daemon_inv_def domain_name_def fun_eq_iff)
  ultimately show ?thesis
    using inv u unfolding daemon_inv_def k by (auto simp: k split: if_splits)
qed

text \<open>The list pointers lead to live users.\<close>

lemma userlist_head_live: "daemon_inv st \<Longrightarrow> dl_head (dn_userlist st) = Some a \<Longrightarrow> dn_users st a \<noteq> None"
proof -
  assume "daemon_inv st" and h: "dl_head (dn_userlist st) = Some a"
  then obtain us where "users_rep st us" by (auto simp: daemon_inv_def)
  with h dll_rep_head [of "dn_userlist st" us] show ?thesis
    by (auto simp: users_rep_def split: list.splits)
qed

lemma userlist_next_live:
  assumes "daemon_inv st" and "dn_users st a \<noteq> None" and n: "dl_next (dn_userlist st) a = Some b"
  shows "dn_users st b \<noteq> None"
proof -
  from assms(1) obtain us where us: "dll_rep (dn_userlist st) us" "set us = dom (dn_users st)"
    by (auto simp: daemon_inv_def users_rep_def)
  from us(2) assms(2) have "a \<in> set us" by auto
  then obtain xs ys where s: "us = xs @ a # ys" by (meson split_list)
  with us(1) have "dll_rep (dn_userlist st) (xs @ a # ys)" by simp
  then obtain l where "dl_next (dn_userlist st) a = (case ys of [] \<Rightarrow> None | y # _ \<Rightarrow> Some y)"
    by (rule dll_rep_split)
  with n obtain zs where "ys = b # zs" by (cases ys) simp_all
  with s have "b \<in> set us" by simp
  with us(2) show ?thesis by auto
qed

section \<open>Runs of the daemon\<close>

text \<open>
  The operations on users, one after the other, from the start of the daemon. The authentication
  back end, the file system and the clock may be different at every step; memory allocation succeeds.
\<close>

definition daemon_start :: daemon where
  "daemon_start = \<lparr>ds_cache = cache_init, ds_domains = Map.empty, ds_domainlist = dll_empty,
     ds_domainlist_num = 0, ds_brk = 1, dn_users = Map.empty, dn_userlist = dll_empty, dn_userlist_num = 0\<rparr>"

definition good_env :: "pollenv \<Rightarrow> bool" where
  "good_env pe \<longleftrightarrow> fs_fits (pe_fs pe) \<and> (\<forall>k. pe_alloc pe k)"

inductive daemon_run :: "nat \<Rightarrow> daemon \<Rightarrow> bool" for path_max where
  start: "daemon_run path_max daemon_start"
| load: "daemon_run path_max st \<Longrightarrow> good_email email \<Longrightarrow>
    user_get getpw path_max (\<lambda>_. True) st email = Some (r, st') \<Longrightarrow> daemon_run path_max st'"
| poll: "daemon_run path_max st \<Longrightarrow> good_env pe \<Longrightarrow> dn_users st a \<noteq> None \<Longrightarrow>
    user_poll pe st a = Some st' \<Longrightarrow> daemon_run path_max st'"
| verify: "daemon_run path_max st \<Longrightarrow> dn_users st a \<noteq> None \<Longrightarrow>
    user_verify getpw st a = Some (r, st') \<Longrightarrow> daemon_run path_max st'"

lemma daemon_inv_start: "daemon_inv daemon_start"
proof -
  have "domains_inv daemon_start"
    by (auto simp: domains_inv_def domlist_inv_def domcache_inv_def daemon_start_def cache_init_def
        cache_inv_def cache_lookup_def intro!: exI [of _ "[]"])
  moreover have "users_rep daemon_start []"
    by (simp add: users_rep_def daemon_start_def balanced_def domain_balance_def)
  moreover have "usercache_inv daemon_start"
    by (simp add: usercache_inv_def daemon_start_def cache_init_def cache_lookup_def)
  moreover have "dn_users daemon_start = Map.empty" "ds_domains daemon_start = Map.empty"
    by (simp_all add: daemon_start_def)
  ultimately show ?thesis unfolding daemon_inv_def by auto
qed

lemma user_poll_total:
  assumes "daemon_inv st" and "good_env pe" and "dn_users st a \<noteq> None"
  shows "\<exists>st'. user_poll pe st a = Some st' \<and> daemon_inv st'"
proof -
  from assms(3) obtain u where "dn_users st a = Some u" by blast
  with assms show ?thesis using user_poll_spec [of st a u pe] by (auto simp: good_env_def)
qed

lemma user_verify_total:
  assumes "daemon_inv st" and "dn_users st a \<noteq> None"
  shows "\<exists>r st'. user_verify getpw st a = Some (r, st') \<and> daemon_inv st'"
proof -
  from assms(2) obtain u where u: "dn_users st a = Some u" by blast
  from daemon_user_key [OF assms(1) u] obtain b where b: "user_key st u = Some b" by blast
  then obtain n where "domain_name st (u_domain u) = Some n" by (auto simp: user_key_def)
  from user_verify_spec [OF assms(1) u b this, of getpw] assms(1) show ?thesis
    by (cases "getpw (u_user u) n") auto
qed

lemma daemon_run_inv: "daemon_run path_max st \<Longrightarrow> daemon_inv st"
proof (induction rule: daemon_run.induct)
  case start
  show ?case by (rule daemon_inv_start)
next
  case (load st email getpw r st')
  with user_get_total [where al = "\<lambda>_. True", of st email getpw path_max] show ?case by auto
next
  case (poll st pe a st')
  with user_poll_total [of st pe a] show ?case by auto
next
  case (verify st a getpw r st')
  with user_verify_total [of st a getpw] show ?case by auto
qed

section \<open>Properties\<close>

text \<open>
  C1. The accounting is exact in every run: what the daemon reports for a domain is, in both numbers
  (modulo 2 to the 64), the sum of what it holds for the users on the user list that belong to the
  domain.
\<close>

theorem domain_accounting:
  assumes "daemon_run path_max st" and "length name < DOMAIN_MAX_DOMAIN" and "domain_get st name = Some d"
  shows "\<exists>us. dll_walk (length us) (dn_userlist st) (dl_head (dn_userlist st)) = us \<and> set us = dom (dn_users st) \<and>
    domain_get_use st name = Some (Some (owned_sum us (user_own st) d (fst \<circ> user_contrib st),
      owned_sum us (user_own st) d (snd \<circ> user_contrib st)))"
proof -
  from daemon_run_inv [OF assms(1)] have inv: "daemon_inv st" .
  then obtain us where us: "users_rep st us" by (auto simp: daemon_inv_def)
  from inv have "domains_inv st" by (simp add: daemon_inv_def)
  from domain_get_live [OF this assms(2,3)] obtain x where x: "ds_domains st d = Some x" by blast
  with us have "dm_usage x = owned_sum us (user_own st) d (fst \<circ> user_contrib st)"
    "dm_count x = owned_sum us (user_own st) d (snd \<circ> user_contrib st)"
    by (auto simp: users_rep_def balanced_def domain_balance_def)
  with us x assms(3) dll_rep_walk [of "dn_userlist st" us] show ?thesis
    by (auto simp: users_rep_def domain_get_use_def)
qed

text \<open>
  C3. No operation of a run reads freed memory or gets stuck: looking up or loading a well-formed
  address, polling and verifying a live user and reading the totals of any address all return.
\<close>

theorem daemon_run_safe:
  assumes "daemon_run path_max st"
  shows "(good_email email \<longrightarrow> user_get getpw path_max (\<lambda>_. True) st email \<noteq> None) \<and>
    (dn_users st a \<noteq> None \<and> good_env pe \<longrightarrow> user_poll pe st a \<noteq> None) \<and>
    (dn_users st a \<noteq> None \<longrightarrow> user_verify getpw st a \<noteq> None) \<and>
    (take 1 email \<noteq> ''@'' \<longrightarrow> user_get_use st email \<noteq> None) \<and>
    (length name < DOMAIN_MAX_DOMAIN \<longrightarrow> domain_get_use st name \<noteq> None)"
proof -
  from daemon_run_inv [OF assms] have inv: "daemon_inv st" .
  then have "domains_inv st" by (simp add: daemon_inv_def)
  note live = domain_get_live [OF this]
  have "length name < DOMAIN_MAX_DOMAIN \<Longrightarrow> domain_get_use st name \<noteq> None"
    using live [of name] by (auto simp: domain_get_use_def split: option.splits)
  moreover have "take 1 email \<noteq> ''@'' \<Longrightarrow> user_get_use st email \<noteq> None"
    using daemon_cached_user [OF inv, of email] by (auto simp: user_get_use_def split: option.splits)
  ultimately show ?thesis
    using user_get_total [where al = "\<lambda>_. True", OF inv, of email getpw path_max]
      user_poll_total [OF inv, of pe a] user_verify_total [OF inv, of a getpw] by auto
qed

text \<open>
  C37. In every run, an address the back end knows is loaded by \<open>user_get\<close>, and from then on the
  address is answered from the cache with the same structure and without a change of state.
\<close>

theorem user_get_again:
  assumes "daemon_run path_max st" and "good_email email"
    and "getpw (email_user email) (tl (email_rest email)) = Some pw" and "length (pw_dir pw) + 9 < path_max"
  shows "\<exists>a st' u. user_get getpw path_max (\<lambda>_. True) st email = Some (Some a, st') \<and>
    dn_users st' a = Some u \<and> user_key st' u = Some email \<and>
    (\<forall>getpw' al. user_get getpw' path_max al st' email = Some (Some a, st'))"
proof -
  from daemon_run_inv [OF assms(1)] have inv: "daemon_inv st" .
  from assms(2) have at: "take 1 email \<noteq> ''@''" by (rule good_email_split)
  have "\<exists>a st'. user_get getpw path_max (\<lambda>_. True) st email = Some (Some a, st') \<and> daemon_inv st' \<and>
      cache_lookup (ds_cache st') email = Some a"
  proof (cases "cache_lookup (ds_cache st) email")
    case (Some a)
    with inv user_get_cached [OF assms(2) Some] show ?thesis by blast
  next
    case None
    from user_load_spec [where al = "\<lambda>_. True" and getpw = getpw, OF inv assms(2) None TrueI assms(3,4)] show ?thesis
      by (auto simp: user_get_new [OF assms(2) None])
  qed
  then obtain a st' where g: "user_get getpw path_max (\<lambda>_. True) st email = Some (Some a, st')" "daemon_inv st'"
    "cache_lookup (ds_cache st') email = Some a" by blast
  from daemon_cached_user [OF g(2,3) at] user_get_cached [OF assms(2) g(3)] g(1) show ?thesis by blast
qed

text \<open>
  Verifying a user that the back end no longer knows takes it out of the cache and frees it, and
  leaves every other user and every other cached address alone; a user it knows is left as it is.
\<close>

theorem user_verify_drops:
  assumes "daemon_run path_max st" and "dn_users st a = Some u" and "user_key st u = Some b"
    and "domain_name st (u_domain u) = Some n"
  shows "if getpw (u_user u) n = None
    then \<exists>st'. user_verify getpw st a = Some (False, st') \<and> user_get_use st' b = Some UseUnknown \<and>
      dn_users st' = (dn_users st)(a := None) \<and> (\<forall>k. k \<noteq> b \<longrightarrow> cache_lookup (ds_cache st') k = cache_lookup (ds_cache st) k)
    else user_verify getpw st a = Some (True, st)"
  using user_verify_spec [OF daemon_run_inv [OF assms(1)] assms(2-4), of getpw]
  by (auto simp: user_get_use_def)

text \<open>
  An address of \<open>USER_MAX_USERNAME\<close> characters or more whose two parts still fit their own buffers
  is taken by \<open>user_load\<close> but refused by \<open>user_userlist_add\<close> after it has put the user on the list:
  the user is then freed and left at the head of the list, and the next load of a user writes to it.
\<close>

theorem user_load_long_address:
  assumes "daemon_inv st" and "lowercase email = email" and "email_rest email = ''@'' @ name" and "email_user email \<noteq> []"
    and "length (email_user email) < USER_MAX_USERNAME" and "length name < DOMAIN_MAX_DOMAIN"
    and "length email \<ge> USER_MAX_USERNAME"
    and "getpw (email_user email) name = Some pw" and "length (pw_dir pw) + 9 < path_max"
  shows "\<exists>st' a. user_load getpw path_max (\<lambda>_. True) st email = Some (None, st') \<and>
    dl_head (dn_userlist st') = Some a \<and> dn_users st' a = None \<and>
    (\<forall>b u ok1 ok2. b \<noteq> a \<longrightarrow> user_userlist_add ok1 ok2 (st'\<lparr>dn_users := (dn_users st')(b \<mapsto> u)\<rparr>) b = None)"
proof -
  let ?user = "email_user email"
  have e: "email = ?user @ ''@'' @ name" using email_split [of email] assms(3) by simp
  from assms(2) e have "lowercase (?user @ ''@'' @ name) = ?user @ ''@'' @ name" by simp
  then have low: "lowercase name = name" by (simp add: append_eq_append_conv)
  from daemon_domain_load [where al = "\<lambda>_. True", OF assms(1,6) low] obtain d st1 where
    d: "domain_load (\<lambda>_. True) st name = Some (Some d, st1)" "daemon_inv st1" "domain_name st1 d = Some name"
    by blast
  from d(2) obtain us where us: "users_rep st1 us" by (auto simp: daemon_inv_def)
  from d(2) have fresh: "dn_users st1 (ds_brk st1) = None" by (simp add: daemon_inv_def)
  from d(3) obtain x where x: "ds_domains st1 d = Some x" "dm_domain x = name" by (auto simp: domain_name_def)
  from us fresh dll_rep_head [of "dn_userlist st1" us]
  have "live_user (st1\<lparr>dn_users := (dn_users st1)(ds_brk st1 \<mapsto> u), ds_brk := b\<rparr>) (dl_head (dn_userlist st1))" for u b
    by (auto simp: live_user_def users_rep_def split: list.splits)
  with d(1) x e assms(3-9) have "user_load getpw path_max (\<lambda>_. True) st email = Some (None,
      st1\<lparr>dn_users := (dn_users st1)(ds_brk st1 := None), ds_brk := Suc (ds_brk st1),
        dn_userlist := dll_push_front (dn_userlist st1) (ds_brk st1), dn_userlist_num := dn_userlist_num st1 + 1\<rparr>)"
    by (simp add: user_load_def user_load_alloc_def user_userlist_add_def user_free_def Let_def
        USER_MAX_USERNAME_def)
  then show ?thesis
    by (auto simp: user_userlist_add_def live_user_def dll_push_front_def Let_def)
qed


section \<open>Witnesses\<close>

definition pw_example :: vqpasswd where
  "pw_example = \<lparr>pw_name = ''bob'', pw_passwd = ''x'', pw_uid = 0, pw_gid = 0, pw_flags = 0, pw_gecos = ''Bob'',
     pw_dir = ''/d/bob'', pw_shell = ''NOQUOTA'', pw_clear_passwd = []\<rparr>"

definition getpw_example :: getpw where
  "getpw_example user domain = Some pw_example"

definition daemon_example :: daemon where
  "daemon_example = snd (the (user_get getpw_example 4096 (\<lambda>_. True) daemon_start ''bob@x.org''))"

lemma daemon_example_run: "daemon_run 4096 daemon_example"
proof -
  have g: "good_email ''bob@x.org''" by code_simp
  from user_get_total [where al = "\<lambda>_. True", OF daemon_inv_start g, of getpw_example 4096] obtain r st' where
    "user_get getpw_example 4096 (\<lambda>_. True) daemon_start ''bob@x.org'' = Some (r, st')" by auto
  with daemon_run.load [OF daemon_run.start g this] show ?thesis by (simp add: daemon_example_def)
qed

lemma daemon_example_user: "dn_users daemon_example 2 \<noteq> None"
proof -
  have "\<not> Option.is_none (dn_users daemon_example 2)" by code_simp
  then show ?thesis by (simp add: Option.is_none_def)
qed

theorem domain_accounting_witness:
  "daemon_run 4096 daemon_example \<and> domain_get daemon_example ''x.org'' = Some 1 \<and>
   (\<exists>us. set us = dom (dn_users daemon_example) \<and>
     domain_get_use daemon_example ''x.org'' = Some (Some (owned_sum us (user_own daemon_example) 1 (fst \<circ> user_contrib daemon_example),
      owned_sum us (user_own daemon_example) 1 (snd \<circ> user_contrib daemon_example))))"
proof -
  have d: "domain_get daemon_example ''x.org'' = Some 1" by code_simp
  have n: "length ''x.org'' < DOMAIN_MAX_DOMAIN" by code_simp
  show ?thesis using daemon_example_run d domain_accounting [OF daemon_example_run n d] by blast
qed

theorem daemon_run_safe_witness:
  "daemon_run 4096 daemon_example \<and> dn_users daemon_example 2 \<noteq> None \<and>
   user_verify (\<lambda>_ _. None) daemon_example 2 \<noteq> None \<and> user_get_use daemon_example ''bob@x.org'' \<noteq> None"
proof -
  have d: "dn_users daemon_example 2 \<noteq> None" by (rule daemon_example_user)
  have n: "take 1 ''bob@x.org'' \<noteq> ''@''" by simp
  show ?thesis
    using daemon_example_run d n daemon_run_safe [OF daemon_example_run, of "''bob@x.org''" "\<lambda>_ _. None" 2] by blast
qed

theorem user_get_again_witness:
  "good_email ''bob@x.org'' \<and> (\<exists>a st' u. user_get getpw_example 4096 (\<lambda>_. True) daemon_start ''bob@x.org'' = Some (Some a, st') \<and>
    dn_users st' a = Some u \<and> user_key st' u = Some ''bob@x.org'' \<and>
    (\<forall>getpw' al. user_get getpw' 4096 al st' ''bob@x.org'' = Some (Some a, st')))"
proof -
  have g: "good_email ''bob@x.org''" by code_simp
  have p: "getpw_example (email_user ''bob@x.org'') (tl (email_rest ''bob@x.org'')) = Some pw_example"
    by (simp add: getpw_example_def)
  have "length (pw_dir pw_example) + 9 < 4096" by code_simp
  with g user_get_again [where getpw = getpw_example, OF daemon_run.start g p] show ?thesis by blast
qed

theorem user_verify_drops_witness:
  "\<exists>st'. user_verify (\<lambda>_ _. None) daemon_example 2 = Some (False, st') \<and> user_get_use st' ''bob@x.org'' = Some UseUnknown \<and>
     dn_users st' = (dn_users daemon_example)(2 := None)"
proof -
  let ?u = "the (dn_users daemon_example 2)"
  have u: "dn_users daemon_example 2 = Some ?u" using daemon_example_user by simp
  have k: "user_key daemon_example ?u = Some ''bob@x.org''" by code_simp
  have n: "domain_name daemon_example (u_domain ?u) = Some ''x.org''" by code_simp
  show ?thesis using user_verify_drops [OF daemon_example_run u k n, of "\<lambda>_ _. None"] by auto
qed

theorem user_load_long_address_witness:
  "\<exists>st' a. user_load getpw_example 4096 (\<lambda>_. True) daemon_start (replicate 200 CHR ''u'' @ ''@'' @ replicate 200 CHR ''d'') =
      Some (None, st') \<and> dl_head (dn_userlist st') = Some a \<and> dn_users st' a = None"
proof -
  let ?e = "replicate 200 CHR ''u'' @ ''@'' @ replicate 200 CHR ''d''"
  have 1: "lowercase ?e = ?e" by code_simp
  have 2: "email_rest ?e = ''@'' @ replicate 200 CHR ''d''" by code_simp
  have 3: "email_user ?e \<noteq> []" by code_simp
  have 4: "length (email_user ?e) < USER_MAX_USERNAME" by code_simp
  have 5: "length (replicate 200 CHR ''d'') < DOMAIN_MAX_DOMAIN" by code_simp
  have 6: "length ?e \<ge> USER_MAX_USERNAME" by code_simp
  have 7: "getpw_example (email_user ?e) (replicate 200 CHR ''d'') = Some pw_example" by (simp add: getpw_example_def)
  have 8: "length (pw_dir pw_example) + 9 < 4096" by code_simp
  show ?thesis using user_load_long_address [where getpw = getpw_example, OF daemon_inv_start 1 2 3 4 5 6 7 8] by blast
qed

end
