(* ===== verification/Grow.thy ===== *)
theory Grow
  imports Prelude
begin

text \<open>
  The growing byte buffer of the usage daemon (\<^verbatim>\<open>vusaged/grow.c\<close>). A buffer is a block of
  memory of \<open>size + 1\<close> bytes of which the first \<open>bytes\<close> hold data and the next one a NUL. A
  memory access outside the block (or through a NULL \<open>data\<close> pointer) has no result: the
  operations return \<open>None\<close> there. What \<open>malloc\<close> and \<open>realloc\<close> leave in fresh memory is the
  argument \<open>junk\<close>, and whether they succeed the argument \<open>ok\<close>.

  The locale \<open>byte_fifo\<close> is the contract the packet layer relies on: bytes come out in the order
  they went in.
\<close>

section \<open>Model\<close>

record grow_t =
  g_data :: "char list option"
  g_bytes :: nat
  g_size :: nat
  g_grow :: nat

definition GROW_BUFFER_SIZE :: nat where
  "GROW_BUFFER_SIZE = 2048"

definition GROW_BUFFER_ADD :: nat where
  "GROW_BUFFER_ADD = 2048"

definition malloc_block :: "(nat \<Rightarrow> char) \<Rightarrow> nat \<Rightarrow> char list" where
  "malloc_block junk n = map junk [0..<n]"

definition realloc_block :: "(nat \<Rightarrow> char) \<Rightarrow> char list \<Rightarrow> nat \<Rightarrow> char list" where
  "realloc_block junk old n = take n old @ map junk [length old..<n]"

text \<open>Writing \<open>xs\<close> at offset \<open>off\<close> of the block behind a pointer.\<close>

definition mem_write :: "char list option \<Rightarrow> nat \<Rightarrow> char list \<Rightarrow> char list option" where
  "mem_write d off xs =
     (case d of
        None \<Rightarrow> None
      | Some block \<Rightarrow>
          if off + length xs \<le> length block
          then Some (take off block @ xs @ drop (off + length xs) block) else None)"

definition grow_alloc :: "bool \<Rightarrow> grow_t option" where
  "grow_alloc ok =
     (if ok then Some \<lparr>g_data = None, g_bytes = 0, g_size = 0, g_grow = 0\<rparr> else None)"

text \<open>
  A preallocated buffer is a pair: whether the pointer equals \<open>g->data\<close>, and its block. Passing
  the old pointer with another size frees the block that is then installed, which leaves no
  accessible byte.
\<close>

definition grow_init ::
    "bool \<Rightarrow> (nat \<Rightarrow> char) \<Rightarrow> grow_t \<Rightarrow> (bool \<times> char list) option \<Rightarrow> nat \<Rightarrow> (bool \<times> grow_t) option" where
  "grow_init ok junk g buffer sz =
     (let g = g\<lparr>g_grow := GROW_BUFFER_ADD\<rparr>
      in case buffer of
           Some (same, block) \<Rightarrow>
             if \<not> same \<or> g_size g \<noteq> sz
             then Some (True, g\<lparr>g_data := Some (if same then [] else block), g_size := sz\<rparr>)
             else Some (True, g)
         | None \<Rightarrow>
             (let s = (if sz = 0 then GROW_BUFFER_SIZE else sz)
              in if \<not> ok then Some (False, g\<lparr>g_data := None\<rparr>)
                 else (case mem_write (Some (malloc_block junk (s + 1))) 0 [NUL] of
                         None \<Rightarrow> None
                       | Some d \<Rightarrow> Some (True, g\<lparr>g_data := Some d, g_size := s\<rparr>))))"

definition grow_resize :: "(nat \<Rightarrow> char) \<Rightarrow> grow_t \<Rightarrow> nat \<Rightarrow> grow_t" where
  "grow_resize junk g bytes =
     (let need = g_bytes g + bytes;
          addum = (if g_grow g < need - g_size g
                   then (need - g_size g) + g_grow g + 1 else g_grow g);
          old = (case g_data g of None \<Rightarrow> [] | Some d \<Rightarrow> d)
      in g\<lparr>g_data := Some (realloc_block junk old (g_size g + addum + 1)),
           g_size := g_size g + addum\<rparr>)"

definition grow_inject ::
    "bool \<Rightarrow> (nat \<Rightarrow> char) \<Rightarrow> grow_t \<Rightarrow> char list \<Rightarrow> (bool \<times> grow_t) option" where
  "grow_inject ok junk g data =
     (let bytes = length data;
          full = g_bytes g + bytes > g_size g
      in if full \<and> \<not> ok then Some (False, g)
         else
           let g' = (if full then grow_resize junk g bytes else g)
           in case mem_write (g_data g') (g_bytes g') data of
                None \<Rightarrow> None
              | Some d \<Rightarrow>
                  (case mem_write (Some d) (g_bytes g' + bytes) [NUL] of
                     None \<Rightarrow> None
                   | Some d' \<Rightarrow>
                       Some (True, g'\<lparr>g_data := Some d', g_bytes := g_bytes g' + bytes\<rparr>)))"

definition grow_restart :: "grow_t \<Rightarrow> grow_t option" where
  "grow_restart g =
     (if g_bytes g \<noteq> 0
      then (case mem_write (g_data g) 0 [NUL] of
              None \<Rightarrow> None
            | Some d \<Rightarrow> Some (g\<lparr>g_data := Some d, g_bytes := 0\<rparr>))
      else Some g)"

text \<open>\<open>memmove\<close> of the bytes behind \<open>len\<close> to the front, then the terminating NUL.\<close>

definition grow_cut :: "grow_t \<Rightarrow> nat \<Rightarrow> (bool \<times> grow_t) option" where
  "grow_cut g len =
     (if len > g_bytes g then Some (False, g)
      else if len = g_bytes g then map_option (\<lambda>g'. (True, g')) (grow_restart g)
      else
        case g_data g of
          None \<Rightarrow> None
        | Some block \<Rightarrow>
            (let n = g_bytes g - len
             in if len + n > length block then None
                else case mem_write (Some block) 0 (take n (drop len block)) of
                       None \<Rightarrow> None
                     | Some d \<Rightarrow>
                         (case mem_write (Some d) n [NUL] of
                            None \<Rightarrow> None
                          | Some d' \<Rightarrow> Some (True, g\<lparr>g_data := Some d', g_bytes := n\<rparr>))))"

section \<open>Invariant and contents\<close>

fun grow_inv :: "grow_t \<Rightarrow> bool" where
  "grow_inv g =
     (case g_data g of
        None \<Rightarrow> False
      | Some block \<Rightarrow>
          length block = g_size g + 1 \<and> g_bytes g \<le> g_size g \<and> block ! g_bytes g = NUL)"

definition grow_contents :: "grow_t \<Rightarrow> char list" where
  "grow_contents g = (case g_data g of None \<Rightarrow> [] | Some block \<Rightarrow> take (g_bytes g) block)"

lemma grow_invE:
  assumes "grow_inv g"
  obtains block where "g_data g = Some block" "length block = g_size g + 1"
    "g_bytes g \<le> g_size g" "block ! g_bytes g = NUL"
  using assms by (auto split: option.splits)

lemma mem_write_Some:
  "off + length xs \<le> length block \<Longrightarrow>
   mem_write (Some block) off xs = Some (take off block @ xs @ drop (off + length xs) block)"
  by (simp add: mem_write_def)

lemma length_malloc_block [simp]: "length (malloc_block junk n) = n"
  by (simp add: malloc_block_def)

lemma length_realloc_block [simp]: "length old \<le> n \<Longrightarrow> length (realloc_block junk old n) = n"
  by (simp add: realloc_block_def)

lemma take_realloc_block:
  "k \<le> length old \<Longrightarrow> length old \<le> n \<Longrightarrow> take k (realloc_block junk old n) = take k old"
  by (simp add: realloc_block_def)

lemma grow_contents_length: "grow_inv g \<Longrightarrow> length (grow_contents g) = g_bytes g"
  by (auto simp: grow_contents_def split: option.splits)

lemma grow_inv_data:
  assumes "grow_inv g"
  obtains rest where "g_data g = Some (grow_contents g @ NUL # rest)"
proof -
  from assms obtain block where b: "g_data g = Some block" "length block = g_size g + 1"
    "g_bytes g \<le> g_size g" "block ! g_bytes g = NUL" by (rule grow_invE)
  then have "block = take (g_bytes g) block @ NUL # drop (Suc (g_bytes g)) block"
    by (metis Suc_eq_plus1 id_take_nth_drop le_imp_less_Suc)
  with b that show ?thesis by (simp add: grow_contents_def)
qed

lemma grow_init_alloc:
  assumes "grow_alloc True = Some g"
  shows "\<exists>g'. grow_init True junk g None sz = Some (True, g') \<and> grow_inv g' \<and> grow_contents g' = []"
  using assms
  by (auto simp: grow_alloc_def grow_init_def Let_def mem_write_def GROW_BUFFER_SIZE_def
      grow_contents_def)

lemma grow_resize_spec:
  assumes inv: "grow_inv g" and full: "g_bytes g + n > g_size g"
  shows "grow_inv (grow_resize junk g n)"
    and "grow_contents (grow_resize junk g n) = grow_contents g"
    and "g_bytes (grow_resize junk g n) + n \<le> g_size (grow_resize junk g n)"
    and "g_bytes (grow_resize junk g n) = g_bytes g"
proof -
  from inv obtain block where b: "g_data g = Some block" "length block = g_size g + 1"
    "g_bytes g \<le> g_size g" "block ! g_bytes g = NUL" by (rule grow_invE)
  have nth: "realloc_block junk block m ! g_bytes g = NUL" if "length block \<le> m" for m
    using b that by (simp add: realloc_block_def nth_append)
  show "grow_inv (grow_resize junk g n)"
    using b nth by (auto simp: grow_resize_def Let_def)
  show "grow_contents (grow_resize junk g n) = grow_contents g"
    using b by (simp add: grow_resize_def grow_contents_def Let_def take_realloc_block)
  show "g_bytes (grow_resize junk g n) + n \<le> g_size (grow_resize junk g n)"
    using b full by (auto simp: grow_resize_def Let_def)
  show "g_bytes (grow_resize junk g n) = g_bytes g"
    by (simp add: grow_resize_def Let_def)
qed

lemma grow_write_spec:
  assumes inv: "grow_inv g" and room: "g_bytes g + length xs \<le> g_size g"
  shows "\<exists>d d'. mem_write (g_data g) (g_bytes g) xs = Some d \<and>
     mem_write (Some d) (g_bytes g + length xs) [NUL] = Some d' \<and>
     grow_inv (g\<lparr>g_data := Some d', g_bytes := g_bytes g + length xs\<rparr>) \<and>
     grow_contents (g\<lparr>g_data := Some d', g_bytes := g_bytes g + length xs\<rparr>) =
       grow_contents g @ xs"
proof -
  from inv obtain block where b: "g_data g = Some block" "length block = g_size g + 1"
    "g_bytes g \<le> g_size g" "block ! g_bytes g = NUL" by (rule grow_invE)
  show ?thesis
    using b room by (simp add: mem_write_def grow_contents_def nth_append min_def)
qed

lemma grow_inject_spec:
  assumes inv: "grow_inv g"
  shows "\<exists>g'. grow_inject True junk g xs = Some (True, g') \<and> grow_inv g' \<and>
           grow_contents g' = grow_contents g @ xs"
proof (cases "g_bytes g + length xs > g_size g")
  case True
  note r = grow_resize_spec [OF inv True, of junk]
  from grow_write_spec [OF r(1) r(3)] r(2) True show ?thesis
    by (auto simp: grow_inject_def Let_def simp del: grow_inv.simps)
next
  case False
  then have "g_bytes g + length xs \<le> g_size g" by simp
  from grow_write_spec [OF inv this] False show ?thesis
    by (auto simp: grow_inject_def Let_def simp del: grow_inv.simps)
qed

lemma grow_inject_no_memory:
  "g_bytes g + length xs > g_size g \<Longrightarrow> grow_inject False junk g xs = Some (False, g)"
  by (simp add: grow_inject_def Let_def)

lemma grow_cut_spec:
  assumes inv: "grow_inv g" and len: "len \<le> g_bytes g"
  shows "\<exists>g'. grow_cut g len = Some (True, g') \<and> grow_inv g' \<and>
           grow_contents g' = drop len (grow_contents g)"
proof -
  from inv obtain block where b: "g_data g = Some block" "length block = g_size g + 1"
    "g_bytes g \<le> g_size g" "block ! g_bytes g = NUL" by (rule grow_invE)
  show ?thesis
  proof (cases "len = g_bytes g")
    case True
    with b show ?thesis
      by (cases "g_bytes g = 0")
        (auto simp: grow_cut_def grow_restart_def mem_write_def grow_contents_def)
  next
    case False
    with b len show ?thesis
      by (auto simp: grow_cut_def Let_def mem_write_def grow_contents_def nth_append min_def
          drop_take)
  qed
qed

lemma grow_cut_too_long: "g_bytes g < len \<Longrightarrow> grow_cut g len = Some (False, g)"
  by (simp add: grow_cut_def)

declare grow_inv.simps [simp del]

section \<open>The contract of a byte queue\<close>

locale byte_fifo =
  fixes invar :: "'b \<Rightarrow> bool"
    and contents :: "'b \<Rightarrow> char list"
    and inject :: "'b \<Rightarrow> char list \<Rightarrow> (bool \<times> 'b) option"
    and cut :: "'b \<Rightarrow> nat \<Rightarrow> (bool \<times> 'b) option"
  assumes inject_ok: "invar b \<Longrightarrow>
      \<exists>b'. inject b xs = Some (True, b') \<and> invar b' \<and> contents b' = contents b @ xs"
    and cut_ok: "invar b \<Longrightarrow> n \<le> length (contents b) \<Longrightarrow>
      \<exists>b'. cut b n = Some (True, b') \<and> invar b' \<and> contents b' = drop n (contents b)"
    and cut_fail: "invar b \<Longrightarrow> length (contents b) < n \<Longrightarrow> cut b n = Some (False, b)"
begin

lemma cut_inject:
  assumes "invar b" and "contents b = []"
  shows "\<exists>b1 b2. inject b (xs @ ys) = Some (True, b1) \<and> cut b1 (length xs) = Some (True, b2) \<and>
           invar b2 \<and> contents b2 = ys"
proof -
  from inject_ok [OF assms(1), of "xs @ ys"] assms(2) obtain b1
    where b1: "inject b (xs @ ys) = Some (True, b1)" "invar b1" "contents b1 = xs @ ys" by auto
  from cut_ok [OF b1(2), of "length xs"] b1 show ?thesis by auto
qed

lemma cut_result:
  assumes "invar b" and "cut b n = Some (r, b')"
  shows "invar b' \<and> (if n \<le> length (contents b) then r \<and> contents b' = drop n (contents b)
                      else \<not> r \<and> b' = b)"
  using assms cut_ok [of b n] cut_fail [of b n] by (cases "n \<le> length (contents b)") auto

lemma cut_never_faults: "invar b \<Longrightarrow> cut b n \<noteq> None"
  using cut_ok [of b n] cut_fail [of b n] by (cases "n \<le> length (contents b)") auto

end

interpretation grow_fifo: byte_fifo grow_inv grow_contents "grow_inject True junk" grow_cut
proof unfold_locales
  fix b xs
  assume "grow_inv b"
  then show "\<exists>b'. grow_inject True junk b xs = Some (True, b') \<and> grow_inv b' \<and>
    grow_contents b' = grow_contents b @ xs" by (rule grow_inject_spec)
next
  fix b n
  assume "grow_inv b" "n \<le> length (grow_contents b)"
  then show "\<exists>b'. grow_cut b n = Some (True, b') \<and> grow_inv b' \<and>
    grow_contents b' = drop n (grow_contents b)"
    by (simp add: grow_cut_spec grow_contents_length)
next
  fix b n
  assume "grow_inv b" "length (grow_contents b) < n"
  then show "grow_cut b n = Some (False, b)"
    by (simp add: grow_cut_too_long grow_contents_length)
qed

section \<open>Properties\<close>

text \<open>
  The buffer is a queue of bytes: injecting bytes into an empty well-formed buffer and cutting
  off a prefix leaves exactly the rest, and every access on the way stays inside the allocated
  block.
\<close>

theorem grow_cut_inject:
  assumes "grow_inv g" and "grow_contents g = []"
  shows "\<exists>g1 g2. grow_inject True junk g (xs @ ys) = Some (True, g1) \<and>
           grow_cut g1 (length xs) = Some (True, g2) \<and> grow_inv g2 \<and> grow_contents g2 = ys"
  using assms by (rule grow_fifo.cut_inject)

theorem grow_cut_inject_witness:
  "\<exists>g1 g2. grow_inject True (\<lambda>_. CHR ''?'') \<lparr>g_data = Some [NUL, NUL, NUL], g_bytes = 0, g_size = 2,
              g_grow = 2048\<rparr> (''abc'' @ ''de'') = Some (True, g1) \<and>
           grow_cut g1 (length ''abc'') = Some (True, g2) \<and> grow_inv g2 \<and> grow_contents g2 = ''de''"
  by (rule grow_cut_inject) (simp_all add: grow_inv.simps grow_contents_def)

end
