(* ===== verification/Query.thy ===== *)
theory Query
  imports User Grow
begin

text \<open>
  The query protocol: packets (\<^verbatim>\<open>vusaged/packet.c\<close>), the answer to a query
  (\<^verbatim>\<open>vusaged/query.c\<close>), the queue of possible new users (\<^verbatim>\<open>queue_check_newuser\<close> of
  \<^verbatim>\<open>vusaged/queue.c\<close>) and the client's side of the exchange (\<^verbatim>\<open>client.c\<close>).

  A connection is its incoming and outgoing buffer; \<open>sv_daemon\<close> is the state of the users and
  domains, which a query only reads, and \<open>sv_newusers\<close> the list of addresses to look up later. A
  query is folded to lower case in place, in the incoming buffer, up to the next NUL byte.
  \<open>al k\<close> and \<open>junk\<close> are the outcome of the \<open>k\<close>-th query's allocations and the contents of fresh memory.
\<close>

section \<open>Model\<close>

record serv =
  sv_daemon :: daemon
  sv_newusers :: "string list"
  sv_in :: grow_t
  sv_out :: grow_t

definition queue_check_newuser :: "bool \<Rightarrow> bool \<Rightarrow> string list \<Rightarrow> string \<Rightarrow> string list" where
  "queue_check_newuser ok1 ok2 newusers email = (if ok1 \<and> ok2 then email # newusers else newusers)"

text \<open>\<^verbatim>\<open>for (p = data; *p; p++) *p = tolower(*p)\<close>, in the block that \<open>data\<close> points into.\<close>

definition lower_in_place :: "char list \<Rightarrow> nat \<Rightarrow> char list option" where
  "lower_in_place block off =
     (let t = drop off block
      in if NUL \<in> set t
         then Some (take off block @ lowercase (takeWhile (\<lambda>c. c \<noteq> NUL) t) @ dropWhile (\<lambda>c. c \<noteq> NUL) t)
         else None)"

text \<open>The two numbers of the answer; an unknown user is put on the list of new users.\<close>

definition query_answer :: "(nat \<Rightarrow> bool) \<Rightarrow> daemon \<Rightarrow> string list \<Rightarrow> string \<Rightarrow> (storage_t \<times> storage_t \<times> string list) option" where
  "query_answer al st newusers data =
     (if take 1 data = ''@'' then
        (case domain_get_use st (drop 1 data) of
           None \<Rightarrow> None
         | Some None \<Rightarrow> Some (no_usage, no_usage, newusers)
         | Some (Some (u, c)) \<Rightarrow> Some (u, c, newusers))
      else
        (case user_get_use st data of
           None \<Rightarrow> None
         | Some UseUnknown \<Rightarrow> Some (no_usage, no_usage, queue_check_newuser (al 0) (al 1) newusers data)
         | Some UseWaiting \<Rightarrow> Some (no_usage, no_usage, newusers)
         | Some (Use u c) \<Rightarrow> Some (u, c, newusers)))"

definition packet_write :: "bool \<Rightarrow> (nat \<Rightarrow> char) \<Rightarrow> grow_t \<Rightarrow> char list \<Rightarrow> (bool \<times> grow_t) option" where
  "packet_write ok junk out data = grow_inject ok junk out data"

definition query_parse :: "(nat \<Rightarrow> bool) \<Rightarrow> (nat \<Rightarrow> char) \<Rightarrow> serv \<Rightarrow> nat \<Rightarrow> serv option" where
  "query_parse al junk sv off =
     (case g_data (sv_in sv) of
        None \<Rightarrow> None
      | Some block \<Rightarrow>
          (case lower_in_place block off of
             None \<Rightarrow> None
           | Some block \<Rightarrow>
               (case query_answer al (sv_daemon sv) (sv_newusers sv) (takeWhile (\<lambda>c. c \<noteq> NUL) (drop off block)) of
                  None \<Rightarrow> None
                | Some (susage, cusage, nu) \<Rightarrow>
                    let sv = sv\<lparr>sv_in := (sv_in sv)\<lparr>g_data := Some block\<rparr>, sv_newusers := nu\<rparr>
                    in case packet_write (al 2) junk (sv_out sv) (htonll_bytes susage) of
                         None \<Rightarrow> None
                       | Some (False, out) \<Rightarrow> Some (sv\<lparr>sv_out := out\<rparr>)
                       | Some (True, out) \<Rightarrow>
                           (case packet_write (al 3) junk out (htonll_bytes cusage) of
                              None \<Rightarrow> None
                            | Some (r, out) \<Rightarrow> Some (sv\<lparr>sv_out := out\<rparr>)))))"

definition PACKET_MAX_QUERY_SIZE :: nat where
  "PACKET_MAX_QUERY_SIZE = 1024"

lemma grow_cut_bytes:
  "grow_cut g len = Some (r, g') \<Longrightarrow> 0 < len \<Longrightarrow> len \<le> g_bytes g \<Longrightarrow> g_bytes g' < g_bytes g"
  by (auto simp: grow_cut_def grow_restart_def Let_def split: if_splits option.splits)

lemma query_parse_bytes: "query_parse al junk sv off = Some sv' \<Longrightarrow> g_bytes (sv_in sv') = g_bytes (sv_in sv)"
  by (auto simp: query_parse_def Let_def split: option.splits prod.splits bool.splits)

function packet_read ::
    "(nat \<Rightarrow> nat \<Rightarrow> bool) \<Rightarrow> (nat \<Rightarrow> char) \<Rightarrow> nat \<Rightarrow> serv \<Rightarrow> (bool \<times> serv) option" where
  "packet_read al junk k sv =
     (if g_bytes (sv_in sv) < 2 then Some (True, sv)
      else
        case g_data (sv_in sv) of
          None \<Rightarrow> None
        | Some block \<Rightarrow>
            if length block < 2 then None
            else
              let qlen = be_decode (take 2 block)
              in if qlen = 0 then
                   (case grow_cut (sv_in sv) 2 of
                      None \<Rightarrow> None
                    | Some (_, g) \<Rightarrow> packet_read al junk k (sv\<lparr>sv_in := g\<rparr>))
                 else if qlen > PACKET_MAX_QUERY_SIZE then Some (False, sv)
                 else if g_bytes (sv_in sv) < qlen + 2 then Some (True, sv)
                 else
                   (case query_parse (al k) junk sv 2 of
                      None \<Rightarrow> None
                    | Some sv' \<Rightarrow>
                        (case grow_cut (sv_in sv') (qlen + 2) of
                           None \<Rightarrow> None
                         | Some (False, g) \<Rightarrow> Some (False, sv'\<lparr>sv_in := g\<rparr>)
                         | Some (True, g) \<Rightarrow> packet_read al junk (Suc k) (sv'\<lparr>sv_in := g\<rparr>))))"
  by pat_completeness auto
termination
  by (relation "measure (\<lambda>(al, junk, k, sv). g_bytes (sv_in sv))")
    (auto dest!: grow_cut_bytes query_parse_bytes)

declare packet_read.simps [simp del]

subsection \<open>The client\<close>

text \<open>
  What \<open>client_query\<close> writes for an entry of \<open>len\<close> bytes, and what it makes of the bytes its single
  \<open>read\<close> returned (\<open>None\<close>: the result 0, both numbers \<open>-1\<close>).
\<close>

definition client_request :: "string \<Rightarrow> char list" where
  "client_request entry = htons_bytes (length entry mod 65536) @ take (length entry mod 65536) entry"

definition client_response :: "char list \<Rightarrow> (storage_t \<times> storage_t) option" where
  "client_response b =
     (if length b \<noteq> 16 then None else Some (ntohll_bytes (take 8 b), ntohll_bytes (drop 8 b)))"

section \<open>Specification\<close>

text \<open>
  The answer the daemon owes to a query: the totals of the domain or of the user, in any spelling,
  and \<open>-1\<close> twice for what it does not hold; the address of an unknown user is kept for later.
\<close>

definition spec_answer :: "daemon \<Rightarrow> string \<Rightarrow> storage_t \<times> storage_t" where
  "spec_answer st q =
     (let d = lowercase q
      in if take 1 d = ''@''
         then (case domain_get_use st (drop 1 d) of Some (Some p) \<Rightarrow> p | _ \<Rightarrow> (no_usage, no_usage))
         else (case user_get_use st d of Some (Use u c) \<Rightarrow> (u, c) | _ \<Rightarrow> (no_usage, no_usage)))"

definition spec_new :: "daemon \<Rightarrow> string \<Rightarrow> string list" where
  "spec_new st q =
     (let d = lowercase q
      in if take 1 d \<noteq> ''@'' \<and> user_get_use st d = Some UseUnknown then [d] else [])"

definition spec_reply :: "daemon \<Rightarrow> string \<Rightarrow> char list" where
  "spec_reply st q = htonll_bytes (fst (spec_answer st q)) @ htonll_bytes (snd (spec_answer st q))"

text \<open>A query that fits a packet, and its packet.\<close>

definition good_query :: "string \<Rightarrow> bool" where
  "good_query q \<longleftrightarrow> q \<noteq> [] \<and> length q \<le> PACKET_MAX_QUERY_SIZE \<and> nul_free q"

definition packet :: "string \<Rightarrow> char list" where
  "packet q = htons_bytes (length q) @ q"

definition serv_ok :: "serv \<Rightarrow> bool" where
  "serv_ok sv \<longleftrightarrow> daemon_inv (sv_daemon sv) \<and> grow_inv (sv_in sv) \<and> grow_inv (sv_out sv)"

lemma domain_get_use_total: "daemon_inv st \<Longrightarrow> domain_get_use st name \<noteq> None"
proof -
  assume "daemon_inv st"
  then have inv: "domcache_inv st" by (simp add: daemon_inv_def domains_inv_def)
  have "\<exists>k. lowercase (snprintf_str (DOMAIN_MAX_DOMAIN + 1) (''@'' @ name)) = ''@'' @ k"
    by (simp add: snprintf_str_def DOMAIN_MAX_DOMAIN_def tolower_c_def)
  with inv have "domain_get st name = Some a \<Longrightarrow> ds_domains st a \<noteq> None" for a
    unfolding domain_get_def domcache_inv_def by (metis option.distinct(1))
  then show ?thesis by (auto simp: domain_get_use_def split: option.splits)
qed

lemma user_get_use_total: "daemon_inv st \<Longrightarrow> take 1 q \<noteq> ''@'' \<Longrightarrow> user_get_use st q \<noteq> None"
  using daemon_cached_user [of st q] by (auto simp: user_get_use_def split: option.splits)

lemma query_answer_spec:
  assumes "daemon_inv st" and "\<And>i. al i"
  shows "query_answer al st nu (lowercase q) =
    Some (fst (spec_answer st q), snd (spec_answer st q), spec_new st q @ nu)"
  using domain_get_use_total [OF assms(1), of "drop 1 (lowercase q)"] user_get_use_total [OF assms(1), of "lowercase q"]
    assms(2)
  by (cases "take 1 (lowercase q) = ''@''")
    (auto simp: query_answer_def spec_answer_def spec_new_def queue_check_newuser_def Let_def
      split: option.splits use_result.splits)

lemma takeWhile_nul: "nul_free q \<Longrightarrow> takeWhile (\<lambda>c. c \<noteq> NUL) (q @ NUL # r) = q"
  "nul_free q \<Longrightarrow> dropWhile (\<lambda>c. c \<noteq> NUL) (q @ NUL # r) = NUL # r"
  by (induction q) (auto simp: nul_free_def)

text \<open>Lower-casing stops at the end of the query when a NUL follows it.\<close>

lemma lower_in_place_query:
  assumes "length hdr = off" and "nul_free q"
  shows "lower_in_place (hdr @ q @ NUL # r) off = Some (hdr @ lowercase q @ NUL # r)"
  using assms takeWhile_nul [OF assms(2), of r] by (simp add: lower_in_place_def)

lemma grow_inv_block:
  assumes "grow_inv g" and "g_data g = Some block" and "length block' = length block"
    and "block' ! g_bytes g = NUL"
  shows "grow_inv (g\<lparr>g_data := Some block'\<rparr>)"
  using assms by (simp add: grow_inv.simps)

lemma packet_write_twice:
  assumes "grow_inv out"
  shows "\<exists>o1 o2. packet_write True junk out xs = Some (True, o1) \<and> packet_write True junk o1 ys = Some (True, o2) \<and>
    grow_inv o2 \<and> grow_contents o2 = grow_contents out @ xs @ ys"
proof -
  from grow_fifo.inject_ok [OF assms, of junk xs] obtain o1 where
    o1: "grow_inject True junk out xs = Some (True, o1)" "grow_inv o1" "grow_contents o1 = grow_contents out @ xs" by blast
  from grow_fifo.inject_ok [OF o1(2), of junk ys] o1 show ?thesis by (auto simp: packet_write_def)
qed

lemma query_parse_spec:
  assumes ok: "serv_ok sv" and q: "nul_free q" and al: "\<And>i. al i"
    and c: "grow_contents (sv_in sv) = hdr @ q @ tail" "length hdr = off" and t: "tail = [] \<or> hd tail = NUL"
  shows "\<exists>sv'. query_parse al junk sv off = Some sv' \<and> serv_ok sv' \<and> sv_daemon sv' = sv_daemon sv \<and>
    grow_contents (sv_in sv') = hdr @ lowercase q @ tail \<and>
    grow_contents (sv_out sv') = grow_contents (sv_out sv) @ spec_reply (sv_daemon sv) q \<and>
    sv_newusers sv' = spec_new (sv_daemon sv) q @ sv_newusers sv"
proof -
  from ok have inv: "daemon_inv (sv_daemon sv)" and gin: "grow_inv (sv_in sv)" and gout: "grow_inv (sv_out sv)"
    by (simp_all add: serv_ok_def)
  from gin obtain rest where d: "g_data (sv_in sv) = Some (grow_contents (sv_in sv) @ NUL # rest)"
    by (rule grow_inv_data)
  from t obtain r where r: "tail @ NUL # rest = NUL # r"
    by (cases tail) auto
  let ?b = "hdr @ lowercase q @ tail @ NUL # rest"
  have low: "lower_in_place (hdr @ q @ tail @ NUL # rest) off = Some ?b"
    using lower_in_place_query [OF c(2) q, of r] r by simp
  have data: "takeWhile (\<lambda>x. x \<noteq> NUL) (drop off ?b) = lowercase q"
    using takeWhile_nul(1) [of "lowercase q" r] q c(2) r by simp
  let ?in = "(sv_in sv)\<lparr>g_data := Some ?b\<rparr>"
  have bytes: "g_bytes (sv_in sv) = length (hdr @ q @ tail)"
    using grow_contents_length [OF gin] c(1) by simp
  then have "?b ! g_bytes (sv_in sv) = NUL"
    by (metis append.assoc length_append length_lowercase nth_append_length)
  then have gin': "grow_inv ?in"
    using c(1) d by (intro grow_inv_block [OF gin d]) simp_all
  have con: "grow_contents ?in = hdr @ lowercase q @ tail"
    using bytes by (simp add: grow_contents_def)
  from packet_write_twice [OF gout, of junk] obtain o1 o2 where
    o: "packet_write True junk (sv_out sv) (htonll_bytes (fst (spec_answer (sv_daemon sv) q))) = Some (True, o1)"
    "packet_write True junk o1 (htonll_bytes (snd (spec_answer (sv_daemon sv) q))) = Some (True, o2)" "grow_inv o2"
    "grow_contents o2 = grow_contents (sv_out sv) @ spec_reply (sv_daemon sv) q"
    unfolding spec_reply_def by blast
  show ?thesis
    using d c low data query_answer_spec [where al = al, OF inv al] al o gin' con inv
    by (simp add: query_parse_def Let_def serv_ok_def)
qed

text \<open>One round of the loop: the packet at the front of the buffer is answered and cut off.\<close>

lemma packet_read_one:
  assumes ok: "serv_ok sv" and q: "good_query q" and al: "\<And>i. al k i"
    and c: "grow_contents (sv_in sv) = packet q @ tail" and t: "tail = [] \<or> hd tail = NUL"
  shows "\<exists>sv'. packet_read al junk k sv = packet_read al junk (Suc k) sv' \<and> serv_ok sv' \<and>
    sv_daemon sv' = sv_daemon sv \<and> grow_contents (sv_in sv') = tail \<and>
    grow_contents (sv_out sv') = grow_contents (sv_out sv) @ spec_reply (sv_daemon sv) q \<and>
    sv_newusers sv' = spec_new (sv_daemon sv) q @ sv_newusers sv"
proof -
  from ok have gin: "grow_inv (sv_in sv)" by (simp add: serv_ok_def)
  then obtain rest where d: "g_data (sv_in sv) = Some (grow_contents (sv_in sv) @ NUL # rest)"
    by (rule grow_inv_data)
  have len: "length (htons_bytes (length q)) = 2" by (simp add: htons_bytes_def)
  have n: "0 < length q" "length q \<le> 1024" "nul_free q"
    using q by (simp_all add: good_query_def PACKET_MAX_QUERY_SIZE_def)
  have bytes: "g_bytes (sv_in sv) = length q + 2 + length tail"
    using grow_contents_length [OF gin] c len by (simp add: packet_def)
  have hdr: "be_decode (take 2 (grow_contents (sv_in sv) @ NUL # rest)) = length q"
    using be_decode_htons [of "length q"] n len c by (simp add: packet_def)
  from c have "grow_contents (sv_in sv) = htons_bytes (length q) @ q @ tail" by (simp add: packet_def)
  from query_parse_spec [where al = "al k" and junk = junk, OF ok n(3) al this len t] obtain sv1 where
    sv1: "query_parse (al k) junk sv 2 = Some sv1" "serv_ok sv1" "sv_daemon sv1 = sv_daemon sv"
    "grow_contents (sv_in sv1) = htons_bytes (length q) @ lowercase q @ tail"
    "grow_contents (sv_out sv1) = grow_contents (sv_out sv) @ spec_reply (sv_daemon sv) q"
    "sv_newusers sv1 = spec_new (sv_daemon sv) q @ sv_newusers sv" by blast
  from sv1(2) have "grow_inv (sv_in sv1)" by (simp add: serv_ok_def)
  from grow_fifo.cut_ok [OF this, of "length q + 2"] sv1(4) len obtain g where
    g: "grow_cut (sv_in sv1) (length q + 2) = Some (True, g)" "grow_inv g" "grow_contents g = tail" by auto
  have "packet_read al junk k sv = packet_read al junk (Suc k) (sv1\<lparr>sv_in := g\<rparr>)"
    using bytes d hdr n sv1(1) g(1) c len
    by (subst packet_read.simps) (simp add: Let_def PACKET_MAX_QUERY_SIZE_def packet_def)
  moreover have "serv_ok (sv1\<lparr>sv_in := g\<rparr>)" using sv1(2) g(2) by (simp add: serv_ok_def)
  ultimately show ?thesis using sv1 g(3) by (intro exI [of _ "sv1\<lparr>sv_in := g\<rparr>"]) simp
qed

text \<open>
  What \<open>query_parse\<close> makes of the bytes behind a header: those up to the first NUL are lower case, also when
  that is in a later packet.
\<close>

definition lower_text :: "char list \<Rightarrow> char list" where
  "lower_text b = lowercase (takeWhile (\<lambda>x. x \<noteq> NUL) b) @ dropWhile (\<lambda>x. x \<noteq> NUL) b"

lemma length_lower_text [simp]: "length (lower_text b) = length b"
  unfolding lower_text_def by (metis length_append length_lowercase takeWhile_dropWhile_id)

text \<open>
  Bytes in which the packet reader comes to a header of more than \<open>PACKET_MAX_QUERY_SIZE\<close>: the whole packets
  before it are passed over.
\<close>

function oversized :: "char list \<Rightarrow> bool" where
  "oversized c =
     (if length c < 2 then False
      else let n = be_decode (take 2 c)
           in if n = 0 then oversized (drop 2 c)
              else if n > PACKET_MAX_QUERY_SIZE then True
              else if length c < n + 2 then False
              else oversized (drop n (lower_text (drop 2 c))))"
  by pat_completeness auto

termination
  by (relation "measure length") auto

declare oversized.simps [simp del]

text \<open>Whatever is in the buffer, the query ends at a NUL at the latest behind the data.\<close>

lemma query_parse_any:
  assumes ok: "serv_ok sv" and al: "\<And>i. al i" and off: "off \<le> g_bytes (sv_in sv)"
  shows "\<exists>sv'. query_parse al junk sv off = Some sv' \<and> serv_ok sv'
    \<and> grow_contents (sv_in sv') = take off (grow_contents (sv_in sv)) @ lower_text (drop off (grow_contents (sv_in sv)))"
proof -
  let ?c = "grow_contents (sv_in sv)"
  let ?q = "takeWhile (\<lambda>x. x \<noteq> NUL) (drop off ?c)" and ?t = "dropWhile (\<lambda>x. x \<noteq> NUL) (drop off ?c)"
  have "nul_free ?q" by (auto simp: nul_free_def dest: set_takeWhileD)
  moreover have "?c = take off ?c @ ?q @ ?t" by simp
  moreover have "length (take off ?c) = off"
    using off ok grow_contents_length by (simp add: serv_ok_def)
  moreover have "?t = [] \<or> hd ?t = NUL" using hd_dropWhile by blast
  ultimately show ?thesis
    using query_parse_spec [where al = al and junk = junk, OF ok _ al, of ?q "take off ?c" ?t off]
    by (auto simp: lower_text_def)
qed

text \<open>A buffer that holds no whole packet: less than a header, or less than the header announces.\<close>

definition incomplete :: "char list \<Rightarrow> bool" where
  "incomplete xs \<longleftrightarrow> length xs < 2 \<or>
     0 < be_decode (take 2 xs) \<and> be_decode (take 2 xs) \<le> PACKET_MAX_QUERY_SIZE \<and> length xs < be_decode (take 2 xs) + 2"

lemma packet_read_incomplete:
  assumes gin: "grow_inv (sv_in sv)" and "incomplete (grow_contents (sv_in sv))"
  shows "packet_read al junk k sv = Some (True, sv)"
proof -
  from gin obtain rest where d: "g_data (sv_in sv) = Some (grow_contents (sv_in sv) @ NUL # rest)"
    by (rule grow_inv_data)
  have bytes: "g_bytes (sv_in sv) = length (grow_contents (sv_in sv))"
    using grow_contents_length [OF gin] by simp
  show ?thesis
  proof (cases "g_bytes (sv_in sv) < 2")
    case False
    then have "take 2 (grow_contents (sv_in sv) @ NUL # rest) = take 2 (grow_contents (sv_in sv))"
      using bytes by simp
    with False assms(2) d bytes show ?thesis
      by (subst packet_read.simps) (auto simp: incomplete_def Let_def)
  qed (subst packet_read.simps, simp)
qed

definition pipelined :: "string list \<Rightarrow> bool" where
  "pipelined qs \<longleftrightarrow> list_all (\<lambda>q. good_query q \<and> length q < 256) qs"

lemma packet_hd: "length q < 256 \<Longrightarrow> hd (packet q @ r) = NUL"
  by (simp add: packet_def htons_bytes_expand char_of_def)

lemma packets_hd:
  "pipelined qs \<Longrightarrow> tail = [] \<or> hd tail = NUL \<Longrightarrow> concat (map packet qs) @ tail = [] \<or> hd (concat (map packet qs) @ tail) = NUL"
  by (cases qs) (auto simp: pipelined_def packet_hd)

lemma packet_read_all:
  assumes "\<And>k i. al k i" and "incomplete tail" and "tail = [] \<or> hd tail = NUL"
  shows "serv_ok sv \<Longrightarrow> pipelined qs \<Longrightarrow> grow_contents (sv_in sv) = concat (map packet qs) @ tail \<Longrightarrow>
    \<exists>sv'. packet_read al junk k sv = Some (True, sv') \<and> serv_ok sv' \<and> sv_daemon sv' = sv_daemon sv \<and>
      grow_contents (sv_in sv') = tail \<and>
      grow_contents (sv_out sv') = grow_contents (sv_out sv) @ concat (map (spec_reply (sv_daemon sv)) qs) \<and>
      sv_newusers sv' = rev (concat (map (spec_new (sv_daemon sv)) qs)) @ sv_newusers sv"
proof (induction qs arbitrary: sv k)
  case Nil
  then show ?case using packet_read_incomplete [of sv al junk k] assms(2) by (simp add: serv_ok_def)
next
  case (Cons q qs)
  from Cons.prems have q: "good_query q" "pipelined qs" by (simp_all add: pipelined_def)
  let ?tail = "concat (map packet qs) @ tail"
  have c: "grow_contents (sv_in sv) = packet q @ ?tail" using Cons.prems by simp
  from packet_read_one [where al = al and k = k and junk = junk, OF Cons.prems(1) q(1) assms(1) c packets_hd [OF q(2) assms(3)]]
  obtain sv1 where sv1: "packet_read al junk k sv = packet_read al junk (Suc k) sv1" "serv_ok sv1"
    "sv_daemon sv1 = sv_daemon sv" "grow_contents (sv_in sv1) = ?tail"
    "grow_contents (sv_out sv1) = grow_contents (sv_out sv) @ spec_reply (sv_daemon sv) q"
    "sv_newusers sv1 = spec_new (sv_daemon sv) q @ sv_newusers sv" by blast
  have "rev (spec_new st q) = spec_new st q" for st by (simp add: spec_new_def Let_def)
  with Cons.IH [OF sv1(2) q(2) sv1(4), of "Suc k"] sv1 show ?case by auto
qed

text \<open>Any prefix of a stream of packets is some whole packets and an incomplete one.\<close>

lemma incomplete_prefix:
  assumes "good_query q" and "packet q = xs @ ys" and "ys \<noteq> []"
  shows "incomplete xs"
proof (cases "length xs < 2")
  case False
  have "take 2 xs = htons_bytes (length q)"
    using assms(2) False by (metis append_eq_conv_conj append_take_drop_id length_be_encode htons_bytes_def
        linorder_not_less packet_def take_append take_all_iff diff_is_0_eq take_eq_Nil2 append_Nil2)
  moreover have "be_decode (htons_bytes (length q)) = length q"
    using assms(1) by (intro be_decode_htons) (simp add: good_query_def PACKET_MAX_QUERY_SIZE_def)
  moreover have "length xs < length q + 2"
    using arg_cong [OF assms(2), of length] assms(3) by (simp add: packet_def htons_bytes_def)
  ultimately show ?thesis using assms(1) by (simp add: incomplete_def good_query_def)
qed (simp add: incomplete_def)

lemma packets_prefix:
  "pipelined qs \<Longrightarrow> xs @ ys = concat (map packet qs) \<Longrightarrow>
   \<exists>qs1 qs2 tail. qs = qs1 @ qs2 \<and> xs = concat (map packet qs1) @ tail \<and> tail @ ys = concat (map packet qs2) \<and>
     incomplete tail \<and> (tail = [] \<or> hd tail = NUL)"
proof (induction qs arbitrary: xs)
  case Nil
  then show ?case by (simp add: incomplete_def)
next
  case (Cons q qs)
  from Cons.prems have q: "good_query q" "length q < 256" "pipelined qs" by (simp_all add: pipelined_def)
  from Cons.prems(2) obtain us where
    "xs = packet q @ us \<and> us @ ys = concat (map packet qs) \<or> packet q = xs @ us \<and> ys = us @ concat (map packet qs)"
    using append_eq_append_conv2 [of xs ys "packet q" "concat (map packet qs)"] by (metis concat.simps(2) list.simps(9))
  then consider (whole) zs where "xs = packet q @ zs" "zs @ ys = concat (map packet qs)"
    | (part) zs where "packet q = xs @ zs" "zs \<noteq> []" "ys = zs @ concat (map packet qs)"
    by (cases "us = []") auto
  then show ?case
  proof cases
    case whole
    from Cons.IH [OF q(3) whole(2)] obtain qs1 qs2 tail where
      "qs = qs1 @ qs2" "zs = concat (map packet qs1) @ tail" "tail @ ys = concat (map packet qs2)"
      "incomplete tail" "tail = [] \<or> hd tail = NUL" by blast
    with whole(1) show ?thesis by (intro exI [of _ "q # qs1"] exI [of _ qs2] exI [of _ tail]) simp
  next
    case part
    have "xs = [] \<or> hd xs = NUL" using packet_hd [OF q(2), of "[]"] part(1) by (cases xs) auto
    moreover have "incomplete xs" by (rule incomplete_prefix [OF q(1) part(1,2)])
    ultimately show ?thesis
      using part Cons.prems(2) by (intro exI [of _ "[]"] exI [of _ "q # qs"] exI [of _ xs]) simp
  qed
qed

text \<open>The reads of a connection, each put into the buffer and handed to the packet reader.\<close>

fun serve_chunks :: "(nat \<Rightarrow> char) \<Rightarrow> serv \<Rightarrow> char list list \<Rightarrow> (bool \<times> serv) option" where
  "serve_chunks junk sv [] = Some (True, sv)"
| "serve_chunks junk sv (b # bs) =
     (case grow_inject True junk (sv_in sv) b of
        None \<Rightarrow> None
      | Some (False, g) \<Rightarrow> Some (False, sv)
      | Some (True, g) \<Rightarrow>
          (case packet_read (\<lambda>_ _. True) junk 0 (sv\<lparr>sv_in := g\<rparr>) of
             None \<Rightarrow> None
           | Some (False, sv) \<Rightarrow> Some (False, sv)
           | Some (True, sv) \<Rightarrow> serve_chunks junk sv bs))"

lemma serve_chunks_all:
  "serv_ok sv \<Longrightarrow> pipelined qs \<Longrightarrow> grow_contents (sv_in sv) @ concat bs = concat (map packet qs) \<Longrightarrow>
   incomplete (grow_contents (sv_in sv)) \<Longrightarrow>
   \<exists>sv'. serve_chunks junk sv bs = Some (True, sv') \<and> serv_ok sv' \<and> sv_daemon sv' = sv_daemon sv \<and>
     grow_contents (sv_in sv') = [] \<and>
     grow_contents (sv_out sv') = grow_contents (sv_out sv) @ concat (map (spec_reply (sv_daemon sv)) qs) \<and>
     sv_newusers sv' = rev (concat (map (spec_new (sv_daemon sv)) qs)) @ sv_newusers sv"
proof (induction bs arbitrary: sv qs)
  case Nil
  have "qs = []"
  proof (cases qs)
    case (Cons q rs)
    then have "\<not> incomplete (grow_contents (sv_in sv))"
      using Nil.prems be_decode_htons [of "length q"]
      by (auto simp: incomplete_def packet_def pipelined_def htons_bytes_def)
    with Nil.prems show ?thesis by simp
  qed
  with Nil.prems show ?case by simp
next
  case (Cons b bs)
  from Cons.prems(1) have "grow_inv (sv_in sv)" by (simp add: serv_ok_def)
  from grow_fifo.inject_ok [OF this, of junk b] obtain g where
    g: "grow_inject True junk (sv_in sv) b = Some (True, g)" "grow_inv g"
    "grow_contents g = grow_contents (sv_in sv) @ b" by blast
  from packets_prefix [OF Cons.prems(2), of "grow_contents g" "concat bs"] g(3) Cons.prems(3)
  obtain qs1 qs2 tail where p: "qs = qs1 @ qs2" "grow_contents g = concat (map packet qs1) @ tail"
    "tail @ concat bs = concat (map packet qs2)" "incomplete tail" "tail = [] \<or> hd tail = NUL" by auto
  from Cons.prems(2) p(1) have pl: "pipelined qs1" "pipelined qs2" by (simp_all add: pipelined_def)
  have "serv_ok (sv\<lparr>sv_in := g\<rparr>)" using Cons.prems(1) g(2) by (simp add: serv_ok_def)
  from packet_read_all [where al = "\<lambda>_ _. True" and junk = junk and k = 0, OF TrueI p(4,5) this pl(1)] p(2) obtain sv1 where
    sv1: "packet_read (\<lambda>_ _. True) junk 0 (sv\<lparr>sv_in := g\<rparr>) = Some (True, sv1)" "serv_ok sv1" "sv_daemon sv1 = sv_daemon sv"
    "grow_contents (sv_in sv1) = tail"
    "grow_contents (sv_out sv1) = grow_contents (sv_out sv) @ concat (map (spec_reply (sv_daemon sv)) qs1)"
    "sv_newusers sv1 = rev (concat (map (spec_new (sv_daemon sv)) qs1)) @ sv_newusers sv" by auto
  from Cons.IH [OF sv1(2) pl(2)] sv1 p g(1) show ?case by auto
qed

lemma packet_read_verdict:
  assumes "serv_ok sv" and "\<And>k i. al k i"
  shows "\<exists>sv'. packet_read al junk k sv = Some (\<not> oversized (grow_contents (sv_in sv)), sv') \<and> serv_ok sv'"
  using assms(1)
proof (induction "g_bytes (sv_in sv)" arbitrary: sv k rule: less_induct)
  case less
  let ?n = "g_bytes (sv_in sv)" and ?c = "grow_contents (sv_in sv)"
  have gin: "grow_inv (sv_in sv)" using less.prems by (simp add: serv_ok_def)
  then obtain rest where d: "g_data (sv_in sv) = Some (?c @ NUL # rest)" by (rule grow_inv_data)
  have len: "?n = length ?c" using grow_contents_length [OF gin] by simp
  let ?q = "be_decode (take 2 ?c)"
  have cut: "\<exists>g. grow_cut (sv_in s) m = Some (True, g) \<and> serv_ok (s\<lparr>sv_in := g\<rparr>) \<and> g_bytes g < ?n
      \<and> grow_contents g = drop m (grow_contents (sv_in s))"
    if "serv_ok s" "g_bytes (sv_in s) = ?n" "0 < m" "m \<le> ?n" for s m
  proof -
    from that have "grow_inv (sv_in s)" by (simp add: serv_ok_def)
    from grow_cut_spec [OF this, of m] that grow_cut_bytes [of "sv_in s" m True] show ?thesis
      by (auto simp: serv_ok_def)
  qed
  have hdr: "take 2 (?c @ NUL # rest) = take 2 ?c" if "2 \<le> ?n" using that len by simp
  consider "?n < 2" | "2 \<le> ?n" "?q = 0" | "2 \<le> ?n" "?q > PACKET_MAX_QUERY_SIZE" | "2 \<le> ?n" "?n < ?q + 2" "0 < ?q" "?q \<le> PACKET_MAX_QUERY_SIZE"
    | (query) "2 \<le> ?n" "?q + 2 \<le> ?n" "0 < ?q" "?q \<le> PACKET_MAX_QUERY_SIZE" by linarith
  then show ?case
  proof cases
    case query
    from query_parse_any [where al = "al k" and junk = junk, OF less.prems assms(2) query(1)] obtain s where
      s: "query_parse (al k) junk sv 2 = Some s" "serv_ok s"
        "grow_contents (sv_in s) = take 2 ?c @ lower_text (drop 2 ?c)" by blast
    from cut [OF s(2) query_parse_bytes [OF s(1)], of "?q + 2"] query obtain g where
      g: "grow_cut (sv_in s) (?q + 2) = Some (True, g)" "serv_ok (s\<lparr>sv_in := g\<rparr>)" "g_bytes g < ?n"
        "grow_contents g = drop (?q + 2) (grow_contents (sv_in s))" by auto
    have c: "grow_contents g = drop ?q (lower_text (drop 2 ?c))" using g(4) s(3) query(1) len by simp
    have o: "oversized ?c = oversized (drop ?q (lower_text (drop 2 ?c)))"
      using query len by (simp add: oversized.simps [of ?c] Let_def)
    from less.hyps [of "s\<lparr>sv_in := g\<rparr>" "Suc k"] g(2,3) c obtain sv' where
      "packet_read al junk (Suc k) (s\<lparr>sv_in := g\<rparr>) = Some (\<not> oversized ?c, sv')" "serv_ok sv'"
      by (auto simp: o)
    moreover have "packet_read al junk k sv = packet_read al junk (Suc k) (s\<lparr>sv_in := g\<rparr>)"
      using g(1) s(1) query d hdr len by (subst packet_read.simps) (auto simp: Let_def)
    ultimately show ?thesis by simp
  next
    case 2
    from cut [OF less.prems, of 2] 2 obtain g where
      g: "grow_cut (sv_in sv) 2 = Some (True, g)" "serv_ok (sv\<lparr>sv_in := g\<rparr>)" "g_bytes g < ?n"
        "grow_contents g = drop 2 ?c" by auto
    have o: "oversized ?c = oversized (drop 2 ?c)"
      using 2 len by (simp add: oversized.simps [of ?c] Let_def)
    have "packet_read al junk k sv = packet_read al junk k (sv\<lparr>sv_in := g\<rparr>)"
      using g(1) 2 d hdr len by (subst packet_read.simps) (auto simp: Let_def)
    with less.hyps [of "sv\<lparr>sv_in := g\<rparr>" k] g o show ?thesis by simp
  next
    case 1
    with len less.prems show ?thesis by (subst packet_read.simps) (simp add: oversized.simps [of ?c])
  next
    case 3
    with len less.prems d hdr show ?thesis
      by (subst packet_read.simps) (auto simp: oversized.simps [of ?c] Let_def PACKET_MAX_QUERY_SIZE_def)
  next
    case 4
    with len less.prems d hdr show ?thesis
      by (subst packet_read.simps) (auto simp: oversized.simps [of ?c] Let_def)
  qed
qed

lemma packet_read_total:
  assumes "serv_ok sv" and "\<And>k i. al k i"
  shows "\<exists>r sv'. packet_read al junk k sv = Some (r, sv') \<and> serv_ok sv'"
  using packet_read_verdict [where al = al, OF assms] by blast

lemma packet_refused:
  assumes "grow_inv (sv_in sv)" and "grow_contents (sv_in sv) = htons_bytes n @ tail"
    and "PACKET_MAX_QUERY_SIZE < n" and "n < 65536"
  shows "packet_read al junk k sv = Some (False, sv)"
proof -
  from assms(1) obtain rest where d: "g_data (sv_in sv) = Some (grow_contents (sv_in sv) @ NUL # rest)"
    by (rule grow_inv_data)
  have len: "length (htons_bytes n) = 2" by (simp add: htons_bytes_def)
  moreover have "g_bytes (sv_in sv) \<ge> 2"
    using grow_contents_length [OF assms(1)] assms(2) len by simp
  ultimately show ?thesis
    using d assms be_decode_htons [of n] by (subst packet_read.simps) (simp add: Let_def)
qed

text \<open>One request of the client, served and answered.\<close>

lemma client_request_served:
  assumes "serv_ok sv" and "grow_contents (sv_in sv) = []" and "grow_contents (sv_out sv) = []" and "good_query entry"
  shows "\<exists>sv'. serve_chunks junk sv [client_request entry] = Some (True, sv') \<and>
    serv_ok sv' \<and> sv_daemon sv' = sv_daemon sv \<and> grow_contents (sv_in sv') = [] \<and>
    client_response (grow_contents (sv_out sv')) = Some (spec_answer (sv_daemon sv) entry)"
proof -
  have req: "client_request entry = packet entry @ []"
    using assms(4) by (simp add: client_request_def packet_def good_query_def PACKET_MAX_QUERY_SIZE_def)
  from assms(1) have "grow_inv (sv_in sv)" by (simp add: serv_ok_def)
  from grow_fifo.inject_ok [OF this, of junk "client_request entry"] assms(2) obtain g where
    g: "grow_inject True junk (sv_in sv) (client_request entry) = Some (True, g)" "grow_inv g"
    "grow_contents g = packet entry @ []" using req by auto
  have ok: "serv_ok (sv\<lparr>sv_in := g\<rparr>)" using assms(1) g(2) by (simp add: serv_ok_def)
  from packet_read_one [where al = "\<lambda>_ _. True" and junk = junk and k = 0, OF ok assms(4) TrueI, of "[]"] g(3)
  obtain sv1 where sv1: "packet_read (\<lambda>_ _. True) junk 0 (sv\<lparr>sv_in := g\<rparr>) = packet_read (\<lambda>_ _. True) junk (Suc 0) sv1"
    "serv_ok sv1" "sv_daemon sv1 = sv_daemon sv" "grow_contents (sv_in sv1) = []"
    "grow_contents (sv_out sv1) = spec_reply (sv_daemon sv) entry" using assms(3) by auto
  have "packet_read (\<lambda>_ _. True) junk (Suc 0) sv1 = Some (True, sv1)"
    using sv1(2,4) by (intro packet_read_incomplete) (simp_all add: serv_ok_def incomplete_def)
  with g(1) sv1 show ?thesis
    by (auto simp: client_response_def spec_reply_def)
qed

section \<open>Properties\<close>

text \<open>
  C2. However the network cuts a stream of queries (of less than 256 bytes each) into reads, the
  daemon answers every query, in order and exactly once, with the totals it holds, keeps the unknown
  addresses for loading, and has an empty buffer at the end.
\<close>

theorem packet_stream:
  assumes "serv_ok sv" and "grow_contents (sv_in sv) = []" and "pipelined qs" and "concat bs = concat (map packet qs)"
  shows "\<exists>sv'. serve_chunks junk sv bs = Some (True, sv') \<and> serv_ok sv' \<and> sv_daemon sv' = sv_daemon sv \<and>
    grow_contents (sv_in sv') = [] \<and>
    grow_contents (sv_out sv') = grow_contents (sv_out sv) @ concat (map (spec_reply (sv_daemon sv)) qs) \<and>
    sv_newusers sv' = rev (concat (map (spec_new (sv_daemon sv)) qs)) @ sv_newusers sv"
  using serve_chunks_all [OF assms(1,3), of bs junk] assms(2,4) by (simp add: incomplete_def)

definition grow_example :: grow_t where
  "grow_example = \<lparr>g_data = Some [NUL, NUL, NUL], g_bytes = 0, g_size = 2, g_grow = 2048\<rparr>"

definition serv_example :: serv where
  "serv_example = \<lparr>sv_daemon = daemon_example, sv_newusers = [], sv_in = grow_example, sv_out = grow_example\<rparr>"

lemma serv_example_ok: "serv_ok serv_example" "grow_contents (sv_in serv_example) = []"
  using daemon_run_inv [OF daemon_example_run]
  by (simp_all add: serv_ok_def serv_example_def grow_example_def grow_inv.simps grow_contents_def)

theorem packet_stream_witness:
  "\<exists>sv'. serve_chunks (\<lambda>_. CHR ''?'') serv_example [[NUL], [char_of (6 :: nat), CHR ''@''], ''X.org''] = Some (True, sv') \<and>
     grow_contents (sv_in sv') = [] \<and>
     grow_contents (sv_out sv') = htonll_bytes 0 @ htonll_bytes 0"
proof -
  have q: "pipelined [''@X.org'']" by code_simp
  have c: "concat [[NUL], [char_of (6 :: nat), CHR ''@''], ''X.org''] = concat (map packet [''@X.org''])" by code_simp
  have "grow_contents (sv_out serv_example) @ concat (map (spec_reply (sv_daemon serv_example)) [''@X.org'']) =
      htonll_bytes 0 @ htonll_bytes 0" by code_simp
  with packet_stream [OF serv_example_ok q c, of "\<lambda>_. CHR ''?''"] show ?thesis by auto
qed

text \<open>
  C34. The client and the daemon agree on the protocol: the bytes \<open>client_query\<close> writes for an entry
  make the daemon put 16 bytes on the connection, which the client decodes to the totals the daemon
  holds for the entry.
\<close>

theorem client_daemon_roundtrip:
  assumes "serv_ok sv" and "grow_contents (sv_in sv) = []" and "grow_contents (sv_out sv) = []" and "good_query entry"
  shows "\<exists>sv'. serve_chunks junk sv [client_request entry] = Some (True, sv') \<and>
    client_response (grow_contents (sv_out sv')) = Some (spec_answer (sv_daemon sv) entry)"
  using client_request_served [OF assms, of junk] by blast

theorem client_daemon_roundtrip_witness:
  "\<exists>sv'. serve_chunks (\<lambda>_. CHR ''?'') serv_example [client_request ''Bob@x.org''] = Some (True, sv') \<and>
    client_response (grow_contents (sv_out sv')) = Some (no_usage, no_usage)"
proof -
  have q: "good_query ''Bob@x.org''" by code_simp
  have a: "spec_answer (sv_daemon serv_example) ''Bob@x.org'' = (no_usage, no_usage)" by code_simp
  have o: "grow_contents (sv_out serv_example) = []"
    by (simp add: serv_example_def grow_example_def grow_contents_def)
  show ?thesis using client_daemon_roundtrip [OF serv_example_ok o q, of "\<lambda>_. CHR ''?''"] a by simp
qed

text \<open>
  A header that announces more than \<open>PACKET_MAX_QUERY_SIZE\<close> bytes is refused as soon as it is
  there: nothing is read, answered or changed, and the connection is given up.
\<close>

theorem packet_too_large:
  assumes "grow_inv (sv_in sv)" and "grow_contents (sv_in sv) = htons_bytes n @ tail"
    and "PACKET_MAX_QUERY_SIZE < n" and "n < 65536"
  shows "packet_read al junk k sv = Some (False, sv)"
  using assms by (rule packet_refused)

theorem packet_too_large_witness:
  "packet_read (\<lambda>_ _. True) (\<lambda>_. NUL) 0 (serv_example\<lparr>sv_in := \<lparr>g_data = Some (htons_bytes 2000 @ [NUL]), g_bytes = 2, g_size = 2, g_grow = 2048\<rparr>\<rparr>) =
     Some (False, serv_example\<lparr>sv_in := \<lparr>g_data = Some (htons_bytes 2000 @ [NUL]), g_bytes = 2, g_size = 2, g_grow = 2048\<rparr>\<rparr>)"
  by (rule packet_too_large [of _ 2000 "[]"])
    (simp_all add: grow_inv.simps grow_contents_def htons_bytes_expand PACKET_MAX_QUERY_SIZE_def)

text \<open>
  Every call of the packet reader on well-formed buffers returns, whatever bytes a client sends.
\<close>

theorem packet_read_returns:
  assumes "serv_ok sv" and "\<And>k i. al k i"
  shows "\<exists>r sv'. packet_read al junk k sv = Some (r, sv') \<and> serv_ok sv'"
  using packet_read_total [where al = al, OF assms] .

theorem packet_read_returns_witness:
  "serv_ok serv_example \<and> (\<exists>r sv'. packet_read (\<lambda>_ _. True) (\<lambda>_. NUL) 0 serv_example = Some (r, sv') \<and> serv_ok sv')"
  using packet_read_returns [OF serv_example_ok(1), of "\<lambda>_ _. True"] serv_example_ok(1) by blast

end
