(* ===== verification/Socket.thy ===== *)
theory Socket
  imports Query
begin

text \<open>
  The connections of the usage daemon (\<^verbatim>\<open>vusaged/socket.c\<close>, \<^verbatim>\<open>ippp.c\<close>): accepting clients, reading
  queries, writing answers and dropping idle clients.

  The handlers are called by the event loop (libev). What the system calls return is an argument:
  the connections \<open>accept\<close> hands out, the results \<open>read\<close> and \<open>write\<close> give one after the other (an
  exhausted list stands for \<open>EAGAIN\<close>), the clock and the outcome of the allocations. A handler returns the
  new state and the bytes it wrote to the descriptor; \<open>None\<close> is an access to freed memory.
\<close>

section \<open>Model\<close>

definition SOCKET_MAX_READ_SIZE :: nat where
  "SOCKET_MAX_READ_SIZE = 1400"

definition SOCKET_MAX_BUFFER_SIZE :: nat where
  "SOCKET_MAX_BUFFER_SIZE = SOCKET_MAX_READ_SIZE * 10"

text \<open>The three flags of a socket; a buffer that has been killed is \<open>None\<close>; whether its watchers are started.\<close>

record sock =
  so_s :: int
  so_read :: bool
  so_write :: bool
  so_kill :: bool
  so_in :: "grow_t option"
  so_out :: "grow_t option"
  so_last_query :: time_t
  so_r_eio :: bool
  so_w_eio :: bool

record netd =
  nd_daemon :: daemon
  nd_newusers :: "string list"
  nd_socks :: "addr \<Rightarrow> sock option"
  nd_sockets :: dll
  nd_brk :: addr
  nd_last_check :: time_t

subsection \<open>Configuration\<close>

text \<open>
  \<open>IP:PORT\<close>: the inner \<open>None\<close> is the result 0, the outer one a write behind the 16 bytes of the address.
  \<open>inet_addr\<close> is the library function, \<open>None\<close> for \<open>INADDR_NONE\<close>.
\<close>

definition ippp_parse :: "(string \<Rightarrow> nat option) \<Rightarrow> string \<Rightarrow> (nat \<times> nat) option option" where
  "ippp_parse inet_addr pair =
     (let ip = takeWhile (\<lambda>c. c \<noteq> CHR '':'') pair;
          rest = dropWhile (\<lambda>c. c \<noteq> CHR '':'') pair
      in if rest = [] then Some None
         else if atoi (tl rest) < 1 then Some None
         else if length ip \<ge> 16 then None
         else Some (map_option (\<lambda>a. (a, nat (atoi (tl rest)) mod 65536)) (inet_addr ip)))"

text \<open>
  \<open>Socket::Allow\<close> is cut at blanks. After a blank the loop steps over the next character before it looks
  for a blank again, so that of two blanks the second becomes part of the next address, and behind a blank
  at the end it reads past the string (\<open>None\<close>).
\<close>

definition sock_blank :: "char \<Rightarrow> bool" where
  "sock_blank c \<longleftrightarrow> c = CHR '' '' \<or> c = CHR 0x09"

function socket_allow_next :: "string \<Rightarrow> string list option" where
  "socket_allow_next s =
     (case s of
        [] \<Rightarrow> None
      | c # cs \<Rightarrow>
          (let tok = takeWhile (\<lambda>c. \<not> sock_blank c) cs;
               rest = dropWhile (\<lambda>c. \<not> sock_blank c) cs
           in case rest of
                [] \<Rightarrow> Some [c # tok]
              | _ # rest' \<Rightarrow> map_option (\<lambda>l. (c # tok) # l) (socket_allow_next rest')))"
  by pat_completeness auto
termination
  by (relation "measure length") (auto dest!: arg_cong [where f = length] simp: less_Suc_eq_le, metis Suc_leD length_dropWhile_le)

declare socket_allow_next.simps [simp del]

definition socket_allow :: "string \<Rightarrow> string list option" where
  "socket_allow s =
     (let tok = takeWhile (\<lambda>c. \<not> sock_blank c) s;
          rest = dropWhile (\<lambda>c. \<not> sock_blank c) s;
          first = (if tok = [] then [] else [tok])
      in case rest of
           [] \<Rightarrow> Some first
         | _ # rest' \<Rightarrow> map_option (\<lambda>l. first @ l) (socket_allow_next rest'))"

text \<open>
  Where to listen: a file, or an address with the peers allowed (\<open>None\<close>: nobody). The inner \<open>None\<close> is a
  refused configuration.
\<close>

datatype listen = LFile string | LAddr nat nat "string list option"

definition socket_listen_conf :: "(string \<Rightarrow> nat option) \<Rightarrow> config_t \<Rightarrow> listen option option" where
  "socket_listen_conf inet_addr c =
     (let f = config_fetch_by_name c ''Socket'' ''Filename'';
          l = config_fetch_by_name c ''Socket'' ''Listen'';
          unset = (\<lambda>v. v = None \<or> v = Some [])
      in if unset l \<and> unset f then Some None
         else
           case l of
             None \<Rightarrow> Some (map_option LFile f)
           | Some str \<Rightarrow>
               if f \<noteq> None then Some None
               else
                 (case ippp_parse inet_addr str of
                    None \<Rightarrow> None
                  | Some None \<Rightarrow> Some None
                  | Some (Some (ip, port)) \<Rightarrow>
                      (let allow = config_fetch_by_name c ''Socket'' ''Allow''
                       in if unset allow then Some (Some (LAddr ip port None))
                          else map_option (\<lambda>ips. Some (LAddr ip port (Some ips))) (socket_allow (the allow)))))"

definition socket_number :: "config_t \<Rightarrow> string \<Rightarrow> int \<Rightarrow> int option" where
  "socket_number c aname dflt =
     (case config_fetch_by_name c ''Socket'' aname of
        None \<Rightarrow> Some dflt
      | Some str \<Rightarrow> if atoi str = - 1 then None else Some (atoi str))"

definition socket_timeouts :: "config_t \<Rightarrow> (int \<times> int \<times> int) option" where
  "socket_timeouts c =
     (case socket_number c ''Poll timeout'' 1000 of
        None \<Rightarrow> None
      | Some p \<Rightarrow>
          (case socket_number c ''Client timeout'' 10 of
             None \<Rightarrow> None
           | Some t \<Rightarrow>
               (case socket_number c ''Detect client timeout'' 4 of
                  None \<Rightarrow> None
                | Some d \<Rightarrow> Some (p, t, d))))"

subsection \<open>Structures\<close>

definition live_sock :: "netd \<Rightarrow> addr option \<Rightarrow> bool" where
  "live_sock st p = (case p of None \<Rightarrow> True | Some b \<Rightarrow> nd_socks st b \<noteq> None)"

definition put_sock :: "netd \<Rightarrow> addr \<Rightarrow> sock \<Rightarrow> netd" where
  "put_sock st a s = st\<lparr>nd_socks := (nd_socks st)(a \<mapsto> s)\<rparr>"

text \<open>When the second buffer cannot be allocated, the structure is read after it has been freed.\<close>

definition socket_new :: "(nat \<Rightarrow> bool) \<Rightarrow> (nat \<Rightarrow> char) \<Rightarrow> netd \<Rightarrow> (addr option \<times> netd) option" where
  "socket_new al junk st =
     (if \<not> al 0 then Some (None, st) else
      case grow_alloc (al 1) of
        None \<Rightarrow> Some (None, st)
      | Some gi \<Rightarrow>
      (case grow_alloc (al 2) of
        None \<Rightarrow> None
      | Some go \<Rightarrow>
      (case grow_init (al 3) junk gi None 0 of
        None \<Rightarrow> None
      | Some (False, _) \<Rightarrow> Some (None, st)
      | Some (True, gi) \<Rightarrow>
      (case grow_init (al 4) junk go None 0 of
        None \<Rightarrow> None
      | Some (False, _) \<Rightarrow> Some (None, st)
      | Some (True, go) \<Rightarrow>
          if \<not> live_sock st (dl_head (nd_sockets st)) then None
          else
            let a = nd_brk st;
                s = \<lparr>so_s = - 1, so_read = False, so_write = False, so_kill = False, so_in = Some gi, so_out = Some go,
                     so_last_query = 0, so_r_eio = False, so_w_eio = False\<rparr>
            in Some (Some a, (put_sock st a s)\<lparr>nd_sockets := dll_push_front (nd_sockets st) a, nd_brk := Suc a\<rparr>)))))"

definition socket_close :: "netd \<Rightarrow> addr \<Rightarrow> netd option" where
  "socket_close st a =
     (case nd_socks st a of
        None \<Rightarrow> None
      | Some s \<Rightarrow>
          if so_kill s then Some st
          else
            let s = (if so_s s \<noteq> - 1 then s\<lparr>so_r_eio := False, so_w_eio := False\<rparr> else s)
            in Some (put_sock st a (s\<lparr>so_in := None, so_out := None, so_kill := True\<rparr>)))"

definition socket_remove :: "netd \<Rightarrow> addr \<Rightarrow> netd option" where
  "socket_remove st a =
     (let l = nd_sockets st
      in if nd_socks st a = None \<or> \<not> live_sock st (dl_next l a) \<or> \<not> live_sock st (dl_prev l a) then None
         else Some (st\<lparr>nd_sockets := dll_unlink l a, nd_socks := (nd_socks st)(a := None)\<rparr>))"

text \<open>\<open>socket_close(s); socket_remove(s);\<close>\<close>

definition socket_drop :: "netd \<Rightarrow> addr \<Rightarrow> netd option" where
  "socket_drop st a = (case socket_close st a of None \<Rightarrow> None | Some st \<Rightarrow> socket_remove st a)"

subsection \<open>Accepting\<close>

text \<open>A connection from \<open>accept\<close>: the descriptor, the address of the peer, and whether \<open>fcntl\<close> succeeds.\<close>

fun socket_accept ::
    "string option \<Rightarrow> string list option \<Rightarrow> time_t \<Rightarrow> (nat \<Rightarrow> nat \<Rightarrow> bool) \<Rightarrow> (nat \<Rightarrow> char) \<Rightarrow>
     (int \<times> string \<times> bool) list \<Rightarrow> netd \<Rightarrow> netd option" where
  "socket_accept sfile allow now al junk [] st = Some st"
| "socket_accept sfile allow now al junk ((fd, ip, fl) # rest) st =
     (if sfile = None \<and> (case allow of None \<Rightarrow> True | Some ips \<Rightarrow> ip \<notin> set ips) then Some st
      else if \<not> fl then Some st
      else
        case socket_new (al (length rest)) junk st of
          None \<Rightarrow> None
        | Some (None, st) \<Rightarrow> Some st
        | Some (Some a, st) \<Rightarrow>
            (case nd_socks st a of
               None \<Rightarrow> None
             | Some s \<Rightarrow>
                 socket_accept sfile allow now al junk rest
                   (put_sock st a (s\<lparr>so_s := fd, so_last_query := now, so_r_eio := True, so_w_eio := True\<rparr>))))"

subsection \<open>Writing\<close>

datatype wr = WSent nat | WAgain | WFail

datatype rd = RData "char list" | RAgain | RFail

type_synonym handled = "(netd \<times> char list \<times> rd list \<times> wr list) option"

text \<open>
  The loop of \<open>socket_write\<close>, from the write results \<open>ws\<close>; a \<open>write\<close> of no bytes means the client is
  lost. The handlers return the results they did not use.
\<close>

fun socket_write_loop :: "wr list \<Rightarrow> rd list \<Rightarrow> netd \<Rightarrow> addr \<Rightarrow> handled" where
  "socket_write_loop [] rs st a =
     (case nd_socks st a of
        None \<Rightarrow> None
      | Some s \<Rightarrow>
          (case so_out s of
             None \<Rightarrow> None
           | Some out \<Rightarrow>
               Some (if g_bytes out = 0 then st else put_sock st a (s\<lparr>so_write := \<not> so_write s\<rparr>), [], rs, [])))"
| "socket_write_loop (w # ws) rs st a =
     (case nd_socks st a of
        None \<Rightarrow> None
      | Some s \<Rightarrow>
          (case so_out s of
             None \<Rightarrow> None
           | Some out \<Rightarrow>
               if g_bytes out = 0 then Some (st, [], rs, w # ws)
               else
                 (case w of
                    WAgain \<Rightarrow> Some (put_sock st a (s\<lparr>so_write := \<not> so_write s\<rparr>), [], rs, ws)
                  | WFail \<Rightarrow> map_option (\<lambda>st. (st, [], rs, ws)) (socket_drop st a)
                  | WSent n \<Rightarrow>
                      if n = 0 then map_option (\<lambda>st. (st, [], rs, ws)) (socket_drop st a)
                      else
                        (case g_data out of
                           None \<Rightarrow> None
                         | Some block \<Rightarrow>
                             if length block < g_bytes out then None
                             else
                               let m = min n (g_bytes out)
                               in case grow_cut out m of
                                    None \<Rightarrow> None
                                  | Some (False, out) \<Rightarrow>
                                      map_option (\<lambda>st. (st, take m block, rs, ws))
                                        (socket_drop (put_sock st a (s\<lparr>so_out := Some out\<rparr>)) a)
                                  | Some (True, out) \<Rightarrow>
                                      map_option (\<lambda>(st, sent, r). (st, take m block @ sent, r))
                                        (socket_write_loop ws rs (put_sock st a (s\<lparr>so_out := Some out\<rparr>)) a)))))"

definition socket_write :: "wr list \<Rightarrow> rd list \<Rightarrow> netd \<Rightarrow> addr \<Rightarrow> handled" where
  "socket_write ws rs st a =
     (case nd_socks st a of
        None \<Rightarrow> None
      | Some s \<Rightarrow>
          if so_kill s then Some (st, [], rs, ws)
          else
            (case so_out s of
               None \<Rightarrow> None
             | Some out \<Rightarrow>
                 if g_bytes out = 0 then Some (put_sock st a (s\<lparr>so_w_eio := False\<rparr>), [], rs, ws)
                 else socket_write_loop ws rs st a))"

subsection \<open>Reading\<close>

text \<open>Bytes read are put into the buffer and handed to the packet reader; the result is that of \<open>packet_read\<close>.\<close>

definition socket_feed ::
    "(nat \<Rightarrow> nat \<Rightarrow> bool) \<Rightarrow> (nat \<Rightarrow> char) \<Rightarrow> netd \<Rightarrow> addr \<Rightarrow> sock \<Rightarrow> grow_t \<Rightarrow> (bool \<times> netd) option" where
  "socket_feed al junk st a s g =
     (case so_out s of
        None \<Rightarrow> None
      | Some out \<Rightarrow>
          (case packet_read al junk 0
                  \<lparr>sv_daemon = nd_daemon st, sv_newusers = nd_newusers st, sv_in = g, sv_out = out\<rparr> of
             None \<Rightarrow> None
           | Some (ok, sv) \<Rightarrow>
               Some (ok, (put_sock st a (s\<lparr>so_in := Some (sv_in sv), so_out := Some (sv_out sv)\<rparr>))
                 \<lparr>nd_newusers := sv_newusers sv\<rparr>)))"

text \<open>
  The loop of \<open>socket_read\<close>. \<open>ai k\<close> and \<open>al k\<close> are the allocations while \<open>k\<close> read results are left. After the
  packet reader has refused a packet, the socket is closed and removed, and the loop goes on to test its
  flags.
\<close>

fun socket_read_loop ::
    "(nat \<Rightarrow> bool) \<Rightarrow> (nat \<Rightarrow> nat \<Rightarrow> nat \<Rightarrow> bool) \<Rightarrow> (nat \<Rightarrow> char) \<Rightarrow> rd list \<Rightarrow> wr list \<Rightarrow> netd \<Rightarrow> addr \<Rightarrow> handled" where
  "socket_read_loop ai al junk [] ws st a =
     (case nd_socks st a of
        None \<Rightarrow> None
      | Some s \<Rightarrow>
          if \<not> so_read s then Some (st, [], [], ws)
          else
            (case so_in s of
               None \<Rightarrow> None
             | Some g \<Rightarrow>
                 if g_bytes g > SOCKET_MAX_BUFFER_SIZE then map_option (\<lambda>st. (st, [], [], ws)) (socket_drop st a)
                 else Some (put_sock st a (s\<lparr>so_read := False\<rparr>), [], [], ws)))"
| "socket_read_loop ai al junk (r # rs) ws st a =
     (case nd_socks st a of
        None \<Rightarrow> None
      | Some s \<Rightarrow>
          if \<not> so_read s then Some (st, [], r # rs, ws)
          else
            (case so_in s of
               None \<Rightarrow> None
             | Some g \<Rightarrow>
                 if g_bytes g > SOCKET_MAX_BUFFER_SIZE then map_option (\<lambda>st. (st, [], r # rs, ws)) (socket_drop st a)
                 else
                   (case r of
                      RAgain \<Rightarrow> Some (put_sock st a (s\<lparr>so_read := False\<rparr>), [], rs, ws)
                    | RFail \<Rightarrow> map_option (\<lambda>st. (st, [], rs, ws)) (socket_drop st a)
                    | RData b \<Rightarrow>
                        if b = [] then map_option (\<lambda>st. (st, [], rs, ws)) (socket_drop st a)
                        else
                          (case grow_inject (ai (length rs)) junk g b of
                             None \<Rightarrow> None
                           | Some (False, g) \<Rightarrow> map_option (\<lambda>st. (st, [], rs, ws)) (socket_close st a)
                           | Some (True, g) \<Rightarrow>
                               (case socket_feed (al (length rs)) junk st a s g of
                                  None \<Rightarrow> None
                                | Some (False, st) \<Rightarrow>
                                    (case socket_drop st a of
                                       None \<Rightarrow> None
                                     | Some st \<Rightarrow> socket_read_loop ai al junk rs ws st a)
                                | Some (True, st) \<Rightarrow>
                                    (case nd_socks st a of
                                       None \<Rightarrow> None
                                     | Some s \<Rightarrow>
                                         (case so_out s of
                                            None \<Rightarrow> None
                                          | Some out \<Rightarrow>
                                              if \<not> so_kill s \<and> g_bytes out \<noteq> 0 then socket_write ws rs st a
                                              else socket_read_loop ai al junk rs ws st a)))))))"

definition socket_read ::
    "(nat \<Rightarrow> bool) \<Rightarrow> (nat \<Rightarrow> nat \<Rightarrow> nat \<Rightarrow> bool) \<Rightarrow> (nat \<Rightarrow> char) \<Rightarrow> rd list \<Rightarrow> wr list \<Rightarrow> netd \<Rightarrow> addr \<Rightarrow> handled" where
  "socket_read ai al junk rs ws st a =
     (case nd_socks st a of
        None \<Rightarrow> None
      | Some s \<Rightarrow>
          let st = put_sock st a (s\<lparr>so_read := True\<rparr>)
          in if so_kill s then Some (st, [], rs, ws) else socket_read_loop ai al junk rs ws st a)"

subsection \<open>Timer\<close>

text \<open>The walk over the sockets, at most \<open>n\<close> of them; the next one is read before a socket is removed.\<close>

fun socket_expire :: "nat \<Rightarrow> time_t \<Rightarrow> int \<Rightarrow> netd \<Rightarrow> addr option \<Rightarrow> netd option" where
  "socket_expire n now timeout st None = Some st"
| "socket_expire 0 now timeout st (Some a) = None"
| "socket_expire (Suc n) now timeout st (Some a) =
     (case nd_socks st a of
        None \<Rightarrow> None
      | Some s \<Rightarrow>
          (let os = dl_next (nd_sockets st) a
           in case (if now - so_last_query s \<ge> timeout then socket_drop st a else Some st) of
                None \<Rightarrow> None
              | Some st \<Rightarrow> socket_expire n now timeout st os))"

definition socket_timer :: "nat \<Rightarrow> time_t \<Rightarrow> int \<Rightarrow> int \<Rightarrow> netd \<Rightarrow> netd option" where
  "socket_timer n now detect timeout st =
     (if now - nd_last_check st \<ge> detect
      then map_option (\<lambda>st. st\<lparr>nd_last_check := now\<rparr>) (socket_expire n now timeout st (dl_head (nd_sockets st)))
      else Some st)"

section \<open>Invariant\<close>

text \<open>
  The socket list holds exactly the live structures; the buffers of a socket are there until it is closed.
\<close>

definition sock_ok :: "sock \<Rightarrow> bool" where
  "sock_ok s \<longleftrightarrow> (if so_kill s then so_in s = None \<and> so_out s = None
     else \<exists>i o'. so_in s = Some i \<and> so_out s = Some o' \<and> grow_inv i \<and> grow_inv o')"

definition net_inv :: "netd \<Rightarrow> bool" where
  "net_inv st \<longleftrightarrow> daemon_inv (nd_daemon st) \<and> (\<exists>xs. dll_rep (nd_sockets st) xs \<and> set xs = dom (nd_socks st)) \<and>
     (\<forall>a s. nd_socks st a = Some s \<longrightarrow> sock_ok s) \<and> (\<forall>a. nd_brk st \<le> a \<longrightarrow> nd_socks st a = None)"

lemma put_sock_simps [simp]:
  "nd_socks (put_sock st a s) = (nd_socks st)(a \<mapsto> s)" "nd_daemon (put_sock st a s) = nd_daemon st"
  "nd_newusers (put_sock st a s) = nd_newusers st" "nd_sockets (put_sock st a s) = nd_sockets st"
  "nd_brk (put_sock st a s) = nd_brk st" "nd_last_check (put_sock st a s) = nd_last_check st"
  by (simp_all add: put_sock_def)

lemma put_sock_same: "nd_socks st a = Some s \<Longrightarrow> put_sock st a s = st"
  by (simp add: put_sock_def fun_upd_idem)

lemma net_inv_sock: "net_inv st \<Longrightarrow> nd_socks st a = Some s \<Longrightarrow> sock_ok s"
  by (simp add: net_inv_def)

lemma net_inv_put: "net_inv st \<Longrightarrow> nd_socks st a = Some s0 \<Longrightarrow> sock_ok s \<Longrightarrow> net_inv (put_sock st a s)"
  by (auto simp: net_inv_def insert_absorb [OF domI])

lemma sock_ok_simps [simp]:
  "sock_ok (s\<lparr>so_read := x\<rparr>) = sock_ok s" "sock_ok (s\<lparr>so_write := x\<rparr>) = sock_ok s"
  "sock_ok (s\<lparr>so_w_eio := x\<rparr>) = sock_ok s"
  by (simp_all add: sock_ok_def)

lemma net_inv_newusers [simp]: "net_inv (st\<lparr>nd_newusers := nu\<rparr>) = net_inv st"
  by (simp add: net_inv_def)

lemma socket_close_ok:
  assumes "net_inv st" and "nd_socks st a = Some s"
  shows "\<exists>s'. socket_close st a = Some (put_sock st a s') \<and> net_inv (put_sock st a s') \<and> so_kill s' \<and>
    so_last_query s' = so_last_query s"
proof (cases "so_kill s")
  case True
  with assms show ?thesis by (auto simp: socket_close_def put_sock_same intro!: exI [of _ s])
next
  case False
  with assms show ?thesis
    by (auto simp: socket_close_def Let_def sock_ok_def intro!: net_inv_put [OF assms])
qed

text \<open>Two states that differ at most in the socket at \<open>a\<close> and in the list of new users.\<close>

definition net_frame :: "netd \<Rightarrow> addr \<Rightarrow> netd \<Rightarrow> bool" where
  "net_frame st a st' \<longleftrightarrow> nd_daemon st' = nd_daemon st \<and> nd_brk st' = nd_brk st \<and> nd_last_check st' = nd_last_check st \<and>
     (\<forall>b. b \<noteq> a \<longrightarrow> nd_socks st' b = nd_socks st b) \<and>
     (\<forall>s s'. nd_socks st a = Some s \<longrightarrow> nd_socks st' a = Some s' \<longrightarrow> so_last_query s' = so_last_query s) \<and>
     (nd_socks st a = None \<longrightarrow> nd_socks st' a = None)"

lemma net_frame_refl [simp]: "net_frame st a st"
  by (simp add: net_frame_def)

lemma net_frame_trans: "net_frame s1 a s2 \<Longrightarrow> net_frame s2 a s3 \<Longrightarrow> net_frame s1 a s3"
  unfolding net_frame_def by (metis not_None_eq)

lemma net_frame_put: "nd_socks st a = Some s0 \<Longrightarrow> so_last_query s = so_last_query s0 \<Longrightarrow> net_frame st a (put_sock st a s)"
  by (simp add: net_frame_def)

lemma net_frame_newusers [simp]: "net_frame st a (st'\<lparr>nd_newusers := nu\<rparr>) = net_frame st a st'"
  by (simp add: net_frame_def)

lemma socket_remove_ok:
  assumes inv: "net_inv st" and a: "nd_socks st a = Some s" and rep: "dll_rep (nd_sockets st) xs" "set xs = dom (nd_socks st)"
  shows "\<exists>st'. socket_remove st a = Some st' \<and> net_inv st' \<and> nd_socks st' = (nd_socks st)(a := None) \<and>
    nd_newusers st' = nd_newusers st \<and> net_frame st a st' \<and> dll_rep (nd_sockets st') (remove1 a xs)"
proof -
  have mem: "a \<in> set xs" using a rep(2) by auto
  then obtain ys zs where xs: "xs = ys @ a # zs" "a \<notin> set ys" by (meson split_list_first)
  have neighbours: "dl_prev (nd_sockets st) a = (if ys = [] then None else Some (last ys))"
    "dl_next (nd_sockets st) a = (case zs of [] \<Rightarrow> None | y # _ \<Rightarrow> Some y)"
    using rep(1) xs(1) by (auto elim!: dll_rep_split)
  have live: "live_sock st (dl_next (nd_sockets st) a)" "live_sock st (dl_prev (nd_sockets st) a)"
    using neighbours xs rep(2) last_in_set [of ys] by (auto simp: live_sock_def split: list.splits option.splits)
  have rep': "dll_rep (dll_unlink (nd_sockets st) a) (remove1 a xs)"
    by (rule links.rep_unlink_remove1 [OF rep(1) mem])
  have "distinct xs" using rep(1) by (simp add: dll_rep_def)
  then have "set (remove1 a xs) = dom ((nd_socks st)(a := None))" using rep(2) by auto
  then show ?thesis
    using inv a live rep' by (auto simp: socket_remove_def Let_def net_inv_def net_frame_def)
qed

lemma socket_drop_rep:
  assumes inv: "net_inv st" and a: "nd_socks st a = Some s" and rep: "dll_rep (nd_sockets st) xs" "set xs = dom (nd_socks st)"
  shows "\<exists>st'. socket_drop st a = Some st' \<and> net_inv st' \<and> nd_socks st' = (nd_socks st)(a := None) \<and>
    nd_newusers st' = nd_newusers st \<and> net_frame st a st' \<and> dll_rep (nd_sockets st') (remove1 a xs)"
proof -
  from socket_close_ok [OF inv a] obtain s' where s': "socket_close st a = Some (put_sock st a s')"
    "net_inv (put_sock st a s')" "so_last_query s' = so_last_query s" by blast
  from socket_remove_ok [OF s'(2), of a s' xs] rep a obtain st' where
    "socket_remove (put_sock st a s') a = Some st'" "net_inv st'" "nd_socks st' = (nd_socks st)(a := None)"
    "nd_newusers st' = nd_newusers st" "net_frame (put_sock st a s') a st'" "dll_rep (nd_sockets st') (remove1 a xs)"
    by (auto simp: insert_absorb)
  with s' net_frame_trans [OF net_frame_put [OF a s'(3)]] show ?thesis by (auto simp: socket_drop_def)
qed

lemma socket_drop_ok:
  assumes inv: "net_inv st" and a: "nd_socks st a = Some s"
  shows "\<exists>st'. socket_drop st a = Some st' \<and> net_inv st' \<and> nd_socks st' = (nd_socks st)(a := None) \<and> net_frame st a st'"
proof -
  from inv obtain xs where "dll_rep (nd_sockets st) xs" "set xs = dom (nd_socks st)" by (auto simp: net_inv_def)
  from socket_drop_rep [OF inv a this] show ?thesis by blast
qed

section \<open>Writing\<close>

text \<open>The socket at \<open>a\<close> is open, with the buffers \<open>i\<close> and \<open>o'\<close>.\<close>

definition conn :: "netd \<Rightarrow> addr \<Rightarrow> grow_t \<Rightarrow> grow_t \<Rightarrow> bool" where
  "conn st a i o' \<longleftrightarrow> (\<exists>s. nd_socks st a = Some s \<and> \<not> so_kill s \<and> so_in s = Some i \<and> so_out s = Some o')"

lemma conn_grow_inv: "net_inv st \<Longrightarrow> conn st a i o' \<Longrightarrow> grow_inv i \<and> grow_inv o'"
  using net_inv_sock by (fastforce simp: conn_def sock_ok_def)

definition clean_wr :: "wr list \<Rightarrow> bool" where
  "clean_wr ws \<longleftrightarrow> WFail \<notin> set ws \<and> WSent 0 \<notin> set ws"

lemma clean_wr_simps [simp]: "clean_wr []" "clean_wr (w # ws) \<longleftrightarrow> w \<noteq> WFail \<and> w \<noteq> WSent 0 \<and> clean_wr ws"
  by (auto simp: clean_wr_def)

text \<open>
  Writing never touches freed memory; unless the client is lost, the bytes sent and the bytes left in the
  buffer are the bytes that were there.
\<close>

lemma socket_write_loop_ok:
  assumes "net_inv st" and "conn st a i out"
  shows "\<exists>st' sent ws'. socket_write_loop ws rs st a = Some (st', sent, rs, ws') \<and> net_inv st' \<and> net_frame st a st' \<and>
    nd_newusers st' = nd_newusers st \<and>
    (clean_wr ws \<longrightarrow> clean_wr ws' \<and> (\<exists>out'. conn st' a i out' \<and> sent @ grow_contents out' = grow_contents out))"
  using assms
proof (induction ws arbitrary: st out)
  case Nil
  from Nil.prems(2) obtain s where s: "nd_socks st a = Some s" "\<not> so_kill s" "so_in s = Some i" "so_out s = Some out"
    by (auto simp: conn_def)
  then have "sock_ok (s\<lparr>so_write := \<not> so_write s\<rparr>)" using net_inv_sock [OF Nil.prems(1) s(1)] by simp
  from net_inv_put [OF Nil.prems(1) s(1) this] net_frame_put [OF s(1), of "s\<lparr>so_write := \<not> so_write s\<rparr>"] s Nil.prems
  show ?case by (simp add: conn_def)
next
  case (Cons w ws)
  from Cons.prems(2) obtain s where s: "nd_socks st a = Some s" "\<not> so_kill s" "so_in s = Some i" "so_out s = Some out"
    by (auto simp: conn_def)
  from conn_grow_inv [OF Cons.prems] have gi: "grow_inv i" and go: "grow_inv out" by simp_all
  from go obtain rest where d: "g_data out = Some (grow_contents out @ NUL # rest)" by (rule grow_inv_data)
  have bytes: "g_bytes out = length (grow_contents out)" using grow_contents_length [OF go] by simp
  show ?case
  proof (cases "g_bytes out = 0")
    case True
    with s Cons.prems show ?thesis by (simp add: conn_def)
  next
    case False
    from socket_drop_ok [OF Cons.prems(1) s(1)] obtain st' where st': "socket_drop st a = Some st'" "net_inv st'"
      "net_frame st a st'" by blast
    have nu: "nd_newusers st' = nd_newusers st"
      using st'(1) by (auto simp: socket_drop_def socket_close_def socket_remove_def Let_def split: option.splits if_splits)
    show ?thesis
    proof (cases w)
      case (WSent n)
      show ?thesis
      proof (cases "n = 0")
        case True
        with WSent s False st' nu show ?thesis by auto
      next
        case n: False
        let ?m = "min n (g_bytes out)"
        from grow_cut_spec [OF go, of ?m] obtain out' where
          c: "grow_cut out ?m = Some (True, out')" "grow_inv out'" "grow_contents out' = drop ?m (grow_contents out)" by auto
        let ?st = "put_sock st a (s\<lparr>so_out := Some out'\<rparr>)"
        have "sock_ok (s\<lparr>so_out := Some out'\<rparr>)" using s gi c(2) by (simp add: sock_ok_def)
        from net_inv_put [OF Cons.prems(1) s(1) this] have inv: "net_inv ?st" .
        moreover have "conn ?st a i out'" using s by (simp add: conn_def)
        ultimately obtain st2 sent ws' where r: "socket_write_loop ws rs ?st a = Some (st2, sent, rs, ws')" "net_inv st2"
          "net_frame ?st a st2" "nd_newusers st2 = nd_newusers ?st"
          "clean_wr ws \<longrightarrow> clean_wr ws' \<and> (\<exists>out2. conn st2 a i out2 \<and> sent @ grow_contents out2 = grow_contents out')"
          using Cons.IH by blast
        have "take ?m (grow_contents out @ NUL # rest) @ drop ?m (grow_contents out) = grow_contents out"
          using bytes by simp
        moreover have "net_frame st a st2"
          using net_frame_trans [OF net_frame_put [OF s(1)] r(3)] by simp
        ultimately show ?thesis
          using WSent n s False d bytes c r by (auto simp: Let_def)
      qed
    next
      case WAgain
      have "sock_ok (s\<lparr>so_write := \<not> so_write s\<rparr>)" using net_inv_sock [OF Cons.prems(1) s(1)] by simp
      from net_inv_put [OF Cons.prems(1) s(1) this] net_frame_put [OF s(1), of "s\<lparr>so_write := \<not> so_write s\<rparr>"] WAgain s False
      show ?thesis by (simp add: conn_def)
    next
      case WFail
      with s False st' nu show ?thesis by auto
    qed
  qed
qed

lemma socket_write_ok:
  assumes inv: "net_inv st" and c: "conn st a i out"
  shows "\<exists>st' sent ws'. socket_write ws rs st a = Some (st', sent, rs, ws') \<and> net_inv st' \<and> net_frame st a st' \<and>
    nd_newusers st' = nd_newusers st \<and>
    (clean_wr ws \<longrightarrow> clean_wr ws' \<and> (\<exists>out'. conn st' a i out' \<and> sent @ grow_contents out' = grow_contents out))"
proof -
  from c obtain s where s: "nd_socks st a = Some s" "\<not> so_kill s" "so_in s = Some i" "so_out s = Some out"
    by (auto simp: conn_def)
  have "sock_ok (s\<lparr>so_w_eio := False\<rparr>)" using net_inv_sock [OF inv s(1)] by simp
  from net_inv_put [OF inv s(1) this] net_frame_put [OF s(1), of "s\<lparr>so_w_eio := False\<rparr>"] s
    socket_write_loop_ok [OF inv c, of ws rs]
  show ?thesis by (cases "g_bytes out = 0") (simp_all add: socket_write_def conn_def)
qed

section \<open>Reading\<close>

text \<open>
  One feeding of the packet reader, for arbitrary bytes, and for bytes that go on with a stream of queries.
\<close>

lemma socket_feed_ok:
  assumes inv: "net_inv st" and s: "nd_socks st a = Some s" "\<not> so_kill s" "so_out s = Some out" and g: "grow_inv g"
    and al: "\<And>k i. al k i"
  shows "\<exists>ok st' i' out'. socket_feed al junk st a s g = Some (ok, st') \<and> net_inv st' \<and> net_frame st a st' \<and>
    nd_socks st' a = Some (s\<lparr>so_in := Some i', so_out := Some out'\<rparr>)"
proof -
  let ?sv = "\<lparr>sv_daemon = nd_daemon st, sv_newusers = nd_newusers st, sv_in = g, sv_out = out\<rparr>"
  have "grow_inv out" using net_inv_sock [OF inv s(1)] s by (auto simp: sock_ok_def)
  then have "serv_ok ?sv" using inv g by (simp add: serv_ok_def net_inv_def)
  from packet_read_total [where al = al and junk = junk and k = 0, OF this al] obtain r sv where
    r: "packet_read al junk 0 ?sv = Some (r, sv)" "serv_ok sv" by blast
  have "sock_ok (s\<lparr>so_in := Some (sv_in sv), so_out := Some (sv_out sv)\<rparr>)"
    using s r(2) by (simp add: sock_ok_def serv_ok_def)
  from net_inv_put [OF inv s(1) this] net_frame_put [OF s(1)] s(3) r(1) show ?thesis
    by (intro exI [of _ r] exI [of _ "(put_sock st a (s\<lparr>so_in := Some (sv_in sv), so_out := Some (sv_out sv)\<rparr>))\<lparr>nd_newusers := sv_newusers sv\<rparr>"]
        exI [of _ "sv_in sv"] exI [of _ "sv_out sv"]) (simp add: socket_feed_def)
qed

text \<open>
  Whatever the client sends and the system calls return, the read handler keeps the structures well formed,
  or the packet reader has refused a packet.
\<close>

lemma socket_read_loop_ok:
  assumes "\<And>k. ai k" and "\<And>k i j. al k i j"
  shows "net_inv st \<Longrightarrow> conn st a i out \<Longrightarrow>
   (\<exists>st' sent rs' ws'. socket_read_loop ai al junk rs ws st a = Some (st', sent, rs', ws') \<and> net_inv st' \<and> net_frame st a st') \<or>
   (socket_read_loop ai al junk rs ws st a = None \<and>
    (\<exists>st1 s g st2 k. net_inv st1 \<and> nd_socks st1 a = Some s \<and> socket_feed (al k) junk st1 a s g = Some (False, st2)))"
proof (induction rs arbitrary: st i out)
  case Nil
  from Nil.prems(2) obtain s where s: "nd_socks st a = Some s" "\<not> so_kill s" "so_in s = Some i"
    by (auto simp: conn_def)
  from socket_drop_ok [OF Nil.prems(1) s(1)] net_inv_put [OF Nil.prems(1) s(1), of "s\<lparr>so_read := False\<rparr>"]
    net_inv_sock [OF Nil.prems(1) s(1)] net_frame_put [OF s(1), of "s\<lparr>so_read := False\<rparr>"] s Nil.prems(1)
  show ?case by auto
next
  case (Cons r rs)
  from Cons.prems(2) obtain s where s: "nd_socks st a = Some s" "\<not> so_kill s" "so_in s = Some i" "so_out s = Some out"
    by (auto simp: conn_def)
  from conn_grow_inv [OF Cons.prems] have gi: "grow_inv i" by simp
  from socket_drop_ok [OF Cons.prems(1) s(1)] obtain std where std: "socket_drop st a = Some std" "net_inv std"
    "net_frame st a std" by blast
  from net_inv_put [OF Cons.prems(1) s(1), of "s\<lparr>so_read := False\<rparr>"] net_inv_sock [OF Cons.prems(1) s(1)]
  have again: "net_inv (put_sock st a (s\<lparr>so_read := False\<rparr>))" "net_frame st a (put_sock st a (s\<lparr>so_read := False\<rparr>))"
    using net_frame_put [OF s(1), of "s\<lparr>so_read := False\<rparr>"] by simp_all
  show ?case
  proof (cases "so_read s \<and> g_bytes i \<le> SOCKET_MAX_BUFFER_SIZE \<and> (\<exists>b. r = RData b \<and> b \<noteq> [])")
    case False
    with s std again Cons.prems(1) show ?thesis by (cases r) auto
  next
    case True
    then obtain b where b: "r = RData b" "b \<noteq> []" "so_read s" "\<not> g_bytes i > SOCKET_MAX_BUFFER_SIZE" by auto
    from grow_inject_spec [OF gi, of junk b] obtain g where g: "grow_inject True junk i b = Some (True, g)" "grow_inv g" by blast
    from socket_feed_ok [where al = "al (length rs)" and junk = junk, OF Cons.prems(1) s(1,2,4) g(2) assms(2)] obtain ok st1 i' out' where
      f: "socket_feed (al (length rs)) junk st a s g = Some (ok, st1)" "net_inv st1" "net_frame st a st1"
      "nd_socks st1 a = Some (s\<lparr>so_in := Some i', so_out := Some out'\<rparr>)" by blast
    show ?thesis
    proof (cases ok)
      case False
      then have no: "socket_feed (al (length rs)) junk st a s g = Some (False, st1)" using f(1) by simp
      from socket_drop_ok [OF f(2,4)] obtain st2 where "socket_drop st1 a = Some st2" "nd_socks st2 a = None" by auto
      moreover from this(2) have "socket_read_loop ai al junk rs ws st2 a = None" by (cases rs) simp_all
      ultimately have "socket_read_loop ai al junk (r # rs) ws st a = None"
        using s b g(1) no assms(1) by simp
      with no Cons.prems(1) s(1) show ?thesis by blast
    next
      case ok: True
      have c: "conn st1 a i' out'" using f(4) s(2) by (simp add: conn_def)
      have step: "socket_read_loop ai al junk (r # rs) ws st a =
        (if g_bytes out' \<noteq> 0 then socket_write ws rs st1 a else socket_read_loop ai al junk rs ws st1 a)"
        using s b g(1) f(1,4) ok assms(1) by simp
      show ?thesis
      proof (cases "g_bytes out' = 0")
        case True
        with step Cons.IH [OF f(2) c] f(3) net_frame_trans show ?thesis by simp blast
      next
        case False
        with step socket_write_ok [OF f(2) c, of ws rs] f(3) net_frame_trans show ?thesis by simp blast
      qed
    qed
  qed
qed

lemma socket_read_ok:
  assumes al: "\<And>k. ai k" "\<And>k i j. al k i j" and inv: "net_inv st" and a: "nd_socks st a \<noteq> None"
  shows "(\<exists>st' sent rs' ws'. socket_read ai al junk rs ws st a = Some (st', sent, rs', ws') \<and> net_inv st' \<and> net_frame st a st') \<or>
   (socket_read ai al junk rs ws st a = None \<and>
    (\<exists>st1 s g st2 k. net_inv st1 \<and> nd_socks st1 a = Some s \<and> socket_feed (al k) junk st1 a s g = Some (False, st2)))"
proof -
  from a obtain s where s: "nd_socks st a = Some s" by blast
  let ?st = "put_sock st a (s\<lparr>so_read := True\<rparr>)"
  have inv': "net_inv ?st" "net_frame st a ?st"
    using net_inv_put [OF inv s, of "s\<lparr>so_read := True\<rparr>"] net_inv_sock [OF inv s] net_frame_put [OF s, of "s\<lparr>so_read := True\<rparr>"]
    by simp_all
  show ?thesis
  proof (cases "so_kill s")
    case True
    with s inv' show ?thesis by (simp add: socket_read_def)
  next
    case False
    with net_inv_sock [OF inv s] obtain i out where "conn ?st a i out" by (auto simp: conn_def sock_ok_def)
    from socket_read_loop_ok [where ai = ai and al = al, OF al inv'(1) this, of junk rs ws] show ?thesis
      using s False inv'(2) net_frame_trans by (simp add: socket_read_def) blast
  qed
qed

text \<open>The bytes of a list of read results; results without a failure or an end of file.\<close>

definition rd_bytes :: "rd list \<Rightarrow> char list" where
  "rd_bytes rs = concat (map (\<lambda>r. case r of RData b \<Rightarrow> b | _ \<Rightarrow> []) rs)"

definition clean_rd :: "rd list \<Rightarrow> bool" where
  "clean_rd rs \<longleftrightarrow> RFail \<notin> set rs \<and> RData [] \<notin> set rs"

lemma rd_bytes_simps [simp]:
  "rd_bytes [] = []" "rd_bytes (RData b # rs) = b @ rd_bytes rs" "rd_bytes (RAgain # rs) = rd_bytes rs"
  "rd_bytes (rs @ rs') = rd_bytes rs @ rd_bytes rs'"
  by (simp_all add: rd_bytes_def)

lemma clean_rd_simps [simp]: "clean_rd []" "clean_rd (r # rs) \<longleftrightarrow> r \<noteq> RFail \<and> r \<noteq> RData [] \<and> clean_rd rs"
  by (auto simp: clean_rd_def)

text \<open>
  Where a connection stands in the stream of its queries: the bytes in the buffer and those still to come
  are the queries \<open>qs\<close>.
\<close>

definition in_stream :: "netd \<Rightarrow> addr \<Rightarrow> rd list \<Rightarrow> wr list \<Rightarrow> string list \<Rightarrow> grow_t \<Rightarrow> grow_t \<Rightarrow> bool" where
  "in_stream st a rs ws qs i out \<longleftrightarrow> net_inv st \<and> conn st a i out \<and> clean_rd rs \<and> clean_wr ws \<and> pipelined qs \<and>
     incomplete (grow_contents i) \<and> grow_contents i @ rd_bytes rs = concat (map packet qs)"

lemma incomplete_bytes:
  assumes "grow_inv i" and "incomplete (grow_contents i)"
  shows "\<not> g_bytes i > SOCKET_MAX_BUFFER_SIZE"
  using assms grow_contents_length [OF assms(1)]
  by (auto simp: incomplete_def SOCKET_MAX_BUFFER_SIZE_def SOCKET_MAX_READ_SIZE_def PACKET_MAX_QUERY_SIZE_def)

lemma socket_feed_stream:
  assumes st: "in_stream st a (RData b # rs) ws qs i out" and s: "nd_socks st a = Some s" and al: "\<And>k i. al k i"
    and g: "grow_inv g" "grow_contents g = grow_contents i @ b"
  shows "\<exists>st' i' out' qs1 qs2. socket_feed al junk st a s g = Some (True, st') \<and> net_frame st a st' \<and>
    nd_socks st' a = Some (s\<lparr>so_in := Some i', so_out := Some out'\<rparr>) \<and> qs = qs1 @ qs2 \<and>
    in_stream st' a rs ws qs2 i' out' \<and>
    grow_contents out' = grow_contents out @ concat (map (spec_reply (nd_daemon st)) qs1) \<and>
    nd_newusers st' = rev (concat (map (spec_new (nd_daemon st)) qs1)) @ nd_newusers st"
proof -
  from st have inv: "net_inv st" and c: "conn st a i out" and pl: "pipelined qs" by (simp_all add: in_stream_def)
  from c s have so: "\<not> so_kill s" "so_in s = Some i" "so_out s = Some out" by (auto simp: conn_def)
  let ?sv = "\<lparr>sv_daemon = nd_daemon st, sv_newusers = nd_newusers st, sv_in = g, sv_out = out\<rparr>"
  have ok: "serv_ok ?sv" using inv g(1) conn_grow_inv [OF inv c] by (simp add: serv_ok_def net_inv_def)
  have "grow_contents g @ rd_bytes rs = concat (map packet qs)" using st g(2) by (simp add: in_stream_def)
  from packets_prefix [OF pl this] obtain qs1 qs2 tail where
    q: "qs = qs1 @ qs2" "grow_contents g = concat (map packet qs1) @ tail" "tail @ rd_bytes rs = concat (map packet qs2)"
    "incomplete tail" "tail = [] \<or> hd tail = NUL" by blast
  from pl q(1) have pl12: "pipelined qs1" "pipelined qs2" by (simp_all add: pipelined_def)
  from packet_read_all [where al = al and junk = junk and k = 0, OF al q(4,5) ok pl12(1)] q(2) obtain sv where
    sv: "packet_read al junk 0 ?sv = Some (True, sv)" "serv_ok sv" "grow_contents (sv_in sv) = tail"
    "grow_contents (sv_out sv) = grow_contents out @ concat (map (spec_reply (nd_daemon st)) qs1)"
    "sv_newusers sv = rev (concat (map (spec_new (nd_daemon st)) qs1)) @ nd_newusers st" by auto
  let ?s = "s\<lparr>so_in := Some (sv_in sv), so_out := Some (sv_out sv)\<rparr>"
  let ?st = "(put_sock st a ?s)\<lparr>nd_newusers := sv_newusers sv\<rparr>"
  have "sock_ok ?s" using so sv(2) by (simp add: sock_ok_def serv_ok_def)
  from net_inv_put [OF inv s this] have "net_inv ?st" by simp
  moreover have "conn ?st a (sv_in sv) (sv_out sv)" using so by (simp add: conn_def)
  ultimately have "in_stream ?st a rs ws qs2 (sv_in sv) (sv_out sv)"
    using st q(3,4) pl12 sv(3) by (simp add: in_stream_def)
  moreover have "socket_feed al junk st a s g = Some (True, ?st)" using sv(1) so(3) by (simp add: socket_feed_def)
  moreover have "net_frame st a ?st" using net_frame_put [OF s, of ?s] by simp
  ultimately show ?thesis
    using q(1) sv(4,5)
    by (intro exI [of _ ?st] exI [of _ "sv_in sv"] exI [of _ "sv_out sv"] exI [of _ qs1] exI [of _ qs2]) simp
qed

text \<open>A handler that moves on in the stream: what it answers and sends.\<close>

definition moves_on :: "handled \<Rightarrow> netd \<Rightarrow> addr \<Rightarrow> rd list \<Rightarrow> string list \<Rightarrow> grow_t \<Rightarrow> bool" where
  "moves_on r st a rs qs out \<longleftrightarrow> (\<exists>st' sent rs' ws' i' out' qs1 qs2 used. r = Some (st', sent, rs', ws') \<and>
     net_frame st a st' \<and> in_stream st' a rs' ws' qs2 i' out' \<and> qs = qs1 @ qs2 \<and> rs = used @ rs' \<and>
     sent @ grow_contents out' = grow_contents out @ concat (map (spec_reply (nd_daemon st)) qs1) \<and>
     nd_newusers st' = rev (concat (map (spec_new (nd_daemon st)) qs1)) @ nd_newusers st)"

lemma moves_onI:
  "r = Some (st', sent, rs', ws') \<Longrightarrow> net_frame st a st' \<Longrightarrow> in_stream st' a rs' ws' qs2 i' out' \<Longrightarrow> qs = qs1 @ qs2 \<Longrightarrow>
   rs = used @ rs' \<Longrightarrow> sent @ grow_contents out' = grow_contents out @ concat (map (spec_reply (nd_daemon st)) qs1) \<Longrightarrow>
   nd_newusers st' = rev (concat (map (spec_new (nd_daemon st)) qs1)) @ nd_newusers st \<Longrightarrow> moves_on r st a rs qs out"
  unfolding moves_on_def by blast

lemma moves_on_stay:
  assumes "in_stream st' a rs' ws' qs i' out'" and "net_frame st a st'" and "sent @ grow_contents out' = grow_contents out"
    and "nd_newusers st' = nd_newusers st" and "rs = used @ rs'"
  shows "moves_on (Some (st', sent, rs', ws')) st a rs qs out"
  using assms by (intro moves_onI [of _ st' sent rs' ws' _ _ _ i' out' _ "[]"]) simp_all

text \<open>A handler that starts where another one, or a part of it, has moved on to.\<close>

lemma moves_on_trans:
  assumes m: "moves_on r st1 a rs1 qs2 out1" and f: "net_frame st a st1" "nd_daemon st1 = nd_daemon st"
    and out: "sent0 @ grow_contents out1 = grow_contents out @ concat (map (spec_reply (nd_daemon st)) qs1)"
    and nu: "nd_newusers st1 = rev (concat (map (spec_new (nd_daemon st)) qs1)) @ nd_newusers st"
    and qs: "qs = qs1 @ qs2" "rs = used @ rs1"
  shows "moves_on (map_option (\<lambda>(st, sent, r). (st, sent0 @ sent, r)) r) st a rs qs out"
proof -
  from m obtain st' sent rs' ws' i' out' qs3 qs4 used' where r: "r = Some (st', sent, rs', ws')"
    "net_frame st1 a st'" "in_stream st' a rs' ws' qs4 i' out'" "qs2 = qs3 @ qs4" "rs1 = used' @ rs'"
    "sent @ grow_contents out' = grow_contents out1 @ concat (map (spec_reply (nd_daemon st1)) qs3)"
    "nd_newusers st' = rev (concat (map (spec_new (nd_daemon st1)) qs3)) @ nd_newusers st1"
    unfolding moves_on_def by blast
  have "(sent0 @ sent) @ grow_contents out' = (sent0 @ grow_contents out1) @ concat (map (spec_reply (nd_daemon st1)) qs3)"
    by (simp only: append.assoc r(6))
  then have "(sent0 @ sent) @ grow_contents out' = grow_contents out @ concat (map (spec_reply (nd_daemon st)) (qs1 @ qs3))"
    by (simp only: out f(2) append.assoc map_append concat_append)
  moreover have "nd_newusers st' = rev (concat (map (spec_new (nd_daemon st)) (qs1 @ qs3))) @ nd_newusers st"
    using r(7) nu f(2) by simp
  ultimately show ?thesis
    using r qs net_frame_trans [OF f(1) r(2)]
    by (intro moves_onI [of _ st' "sent0 @ sent" rs' ws' _ _ qs4 i' out' _ "qs1 @ qs3" _ "used @ used'"]) simp_all
qed

lemma socket_write_stream:
  assumes st: "in_stream st a rs ws qs i out"
  shows "moves_on (socket_write ws rs st a) st a rs qs out"
proof -
  from st have inv: "net_inv st" and c: "conn st a i out" and w: "clean_wr ws" by (simp_all add: in_stream_def)
  from socket_write_ok [OF inv c, of ws rs] w obtain st' sent ws' out' where
    r: "socket_write ws rs st a = Some (st', sent, rs, ws')" "net_inv st'" "net_frame st a st'"
    "nd_newusers st' = nd_newusers st" "clean_wr ws'" "conn st' a i out'" "sent @ grow_contents out' = grow_contents out" by auto
  have "in_stream st' a rs ws' qs i out'" using st r by (simp add: in_stream_def)
  from moves_on_stay [OF this r(3,7,4), of rs "[]"] r(1) show ?thesis by simp
qed

lemma in_stream_put:
  assumes st: "in_stream st a rs ws qs i out" and s: "nd_socks st a = Some s"
    and rs: "rd_bytes rs' = rd_bytes rs" "clean_rd rs'" and ok: "sock_ok s'"
    and same: "so_kill s' = so_kill s" "so_in s' = so_in s" "so_out s' = so_out s"
  shows "in_stream (put_sock st a s') a rs' ws qs i out"
  using assms net_inv_put [OF _ s ok] by (auto simp: in_stream_def conn_def)

lemma socket_read_loop_stream:
  assumes al: "\<And>k. ai k" "\<And>k i j. al k i j"
  shows "in_stream st a rs ws qs i out \<Longrightarrow> moves_on (socket_read_loop ai al junk rs ws st a) st a rs qs out"
proof (induction rs arbitrary: st qs i out)
  case Nil
  from Nil.prems have inv: "net_inv st" and c: "conn st a i out" by (simp_all add: in_stream_def)
  from c obtain s where s: "nd_socks st a = Some s" "\<not> so_kill s" "so_in s = Some i" by (auto simp: conn_def)
  have big: "\<not> SOCKET_MAX_BUFFER_SIZE < g_bytes i"
    using incomplete_bytes [OF conjunct1 [OF conn_grow_inv [OF inv c]]] Nil.prems unfolding in_stream_def by blast
  have "in_stream (put_sock st a (s\<lparr>so_read := False\<rparr>)) a [] ws qs i out"
    using net_inv_sock [OF inv s(1)] by (intro in_stream_put [OF Nil.prems s(1)]) simp_all
  from moves_on_stay [OF this net_frame_put [OF s(1)], of "[]" out "[]" "[]"] moves_on_stay [OF Nil.prems net_frame_refl, of "[]" out "[]" "[]"]
  show ?case using s big by simp
next
  case (Cons r rs)
  from Cons.prems have inv: "net_inv st" and c: "conn st a i out" by (simp_all add: in_stream_def)
  from c obtain s where s: "nd_socks st a = Some s" "\<not> so_kill s" "so_in s = Some i" "so_out s = Some out" by (auto simp: conn_def)
  have big: "\<not> SOCKET_MAX_BUFFER_SIZE < g_bytes i"
    using incomplete_bytes [OF conjunct1 [OF conn_grow_inv [OF inv c]]] Cons.prems unfolding in_stream_def by blast
  show ?case
  proof (cases "so_read s")
    case False
    with s moves_on_stay [OF Cons.prems net_frame_refl, of "[]" out "r # rs" "[]"] show ?thesis by simp
  next
    case read: True
    show ?thesis
    proof (cases r)
      case RAgain
      have "in_stream (put_sock st a (s\<lparr>so_read := False\<rparr>)) a rs ws qs i out"
        using net_inv_sock [OF inv s(1)] Cons.prems RAgain by (intro in_stream_put [OF Cons.prems s(1)]) (simp_all add: in_stream_def)
      from moves_on_stay [OF this net_frame_put [OF s(1)], of "[]" out "r # rs" "[r]"] RAgain s big read show ?thesis by simp
    next
      case RFail
      with Cons.prems show ?thesis by (simp add: in_stream_def)
    next
      case (RData b)
      with Cons.prems have b: "b \<noteq> []" by (simp add: in_stream_def)
      from grow_inject_spec [OF conjunct1 [OF conn_grow_inv [OF inv c]], of junk b] obtain g where
        g: "grow_inject True junk i b = Some (True, g)" "grow_inv g" "grow_contents g = grow_contents i @ b" by blast
      from socket_feed_stream [where al = "al (length rs)" and junk = junk, OF Cons.prems [unfolded RData] s(1) al(2) g(2,3)]
      obtain st1 i' out' qs1 qs2 where
        f: "socket_feed (al (length rs)) junk st a s g = Some (True, st1)" "net_frame st a st1"
        "nd_socks st1 a = Some (s\<lparr>so_in := Some i', so_out := Some out'\<rparr>)" "qs = qs1 @ qs2" "in_stream st1 a rs ws qs2 i' out'"
        "grow_contents out' = grow_contents out @ concat (map (spec_reply (nd_daemon st)) qs1)"
        "nd_newusers st1 = rev (concat (map (spec_new (nd_daemon st)) qs1)) @ nd_newusers st" by blast
      have "socket_read_loop ai al junk (r # rs) ws st a =
        (if g_bytes out' \<noteq> 0 then socket_write ws rs st1 a else socket_read_loop ai al junk rs ws st1 a)"
        using s b g(1) f(1,3) RData big read al(1) by simp
      moreover have "moves_on (if g_bytes out' \<noteq> 0 then socket_write ws rs st1 a else socket_read_loop ai al junk rs ws st1 a) st1 a rs qs2 out'"
        using socket_write_stream [OF f(5)] Cons.IH [OF f(5)] by simp
      moreover have "nd_daemon st1 = nd_daemon st" using f(2) by (simp add: net_frame_def)
      ultimately show ?thesis
        using moves_on_trans [of _ st1 a rs qs2 out' st "[]" out qs1 qs "r # rs" "[r]"] f
        by (simp add: option.map_ident split_def)
    qed
  qed
qed

lemma socket_read_stream:
  assumes al: "\<And>k. ai k" "\<And>k i j. al k i j" and st: "in_stream st a rs ws qs i out"
  shows "moves_on (socket_read ai al junk rs ws st a) st a rs qs out"
proof -
  from st have inv: "net_inv st" and c: "conn st a i out" by (simp_all add: in_stream_def)
  from c obtain s where s: "nd_socks st a = Some s" "\<not> so_kill s" by (auto simp: conn_def)
  let ?st = "put_sock st a (s\<lparr>so_read := True\<rparr>)"
  have "in_stream ?st a rs ws qs i out"
    using net_inv_sock [OF inv s(1)] st by (intro in_stream_put [OF st s(1)]) (simp_all add: in_stream_def)
  from socket_read_loop_stream [where ai = ai and al = al and junk = junk, OF al this]
  have "moves_on (socket_read_loop ai al junk rs ws ?st a) ?st a rs qs out" .
  from moves_on_trans [OF this net_frame_put [OF s(1)], of "[]" out "[]" qs rs "[]"] s show ?thesis
    by (simp add: socket_read_def option.map_ident split_def)
qed

text \<open>A read handler uses up one read result at least.\<close>

lemma socket_write_loop_rs: "socket_write_loop ws rs st a = Some (st', sent, rs', ws') \<Longrightarrow> rs' = rs"
proof (induction ws arbitrary: st sent)
  case (Cons w ws)
  then show ?case by (auto simp: Let_def split: option.splits if_splits wr.splits bool.splits)
qed (auto split: option.splits if_splits)

lemma socket_write_rs: "socket_write ws rs st a = Some (st', sent, rs', ws') \<Longrightarrow> rs' = rs"
  by (auto simp: socket_write_def dest: socket_write_loop_rs split: option.splits if_splits)

lemma socket_read_loop_rs:
  "socket_read_loop ai al junk rs ws st a = Some (st', sent, rs', ws') \<Longrightarrow> length rs' \<le> length rs"
proof (induction rs arbitrary: st)
  case (Cons r rs)
  have le: "length rs' \<le> length rs \<Longrightarrow> length rs' \<le> Suc (length rs)" by simp
  from Cons.prems show ?case
    by (auto split: option.splits if_splits rd.splits bool.splits dest!: socket_write_rs Cons.IH intro: le)
qed (auto split: option.splits if_splits)

lemma socket_read_uses:
  assumes st: "in_stream st a rs ws qs i out" and r: "socket_read ai al junk rs ws st a = Some (st', sent, rs', ws')"
  shows "length rs' \<le> length rs - 1"
proof (cases rs)
  case Nil
  with r show ?thesis
    using socket_read_loop_rs by (fastforce simp: socket_read_def Let_def split: option.splits if_splits)
next
  case (Cons x xs)
  from st have inv: "net_inv st" and c: "conn st a i out" by (simp_all add: in_stream_def)
  from c obtain s where s: "nd_socks st a = Some s" "\<not> so_kill s" "so_in s = Some i" by (auto simp: conn_def)
  have "\<not> SOCKET_MAX_BUFFER_SIZE < g_bytes i"
    using incomplete_bytes [OF conjunct1 [OF conn_grow_inv [OF inv c]]] st unfolding in_stream_def by blast
  with r s Cons show ?thesis
    by (auto simp: socket_read_def Let_def split: option.splits if_splits rd.splits bool.splits dest!: socket_write_rs socket_read_loop_rs)
qed

subsection \<open>A connection over time\<close>

text \<open>
  The calls of the handlers for one connection: \<open>True\<close> for the read handler, \<open>False\<close> for the write
  handler. Read and write results that are not used are there for the next call.
\<close>

fun socket_session ::
    "(nat \<Rightarrow> bool) \<Rightarrow> (nat \<Rightarrow> nat \<Rightarrow> nat \<Rightarrow> bool) \<Rightarrow> (nat \<Rightarrow> char) \<Rightarrow> bool list \<Rightarrow> rd list \<Rightarrow> wr list \<Rightarrow> netd \<Rightarrow> addr \<Rightarrow> handled" where
  "socket_session ai al junk [] rs ws st a = Some (st, [], rs, ws)"
| "socket_session ai al junk (e # es) rs ws st a =
     (case (if e then socket_read ai al junk rs ws st a else socket_write ws rs st a) of
        None \<Rightarrow> None
      | Some (st, sent, rs, ws) \<Rightarrow>
          map_option (\<lambda>(st, s, r). (st, sent @ s, r)) (socket_session ai al junk es rs ws st a))"

lemma socket_session_stream:
  assumes al: "\<And>k. ai k" "\<And>k i j. al k i j"
  shows "in_stream st a rs ws qs i out \<Longrightarrow> moves_on (socket_session ai al junk es rs ws st a) st a rs qs out \<and>
    (\<forall>st' sent rs' ws'. socket_session ai al junk es rs ws st a = Some (st', sent, rs', ws') \<longrightarrow>
       length rs' \<le> length rs - length (filter id es))"
proof (induction es arbitrary: st rs ws qs i out)
  case Nil
  from moves_on_stay [OF Nil net_frame_refl, of "[]" out rs "[]"] show ?case by simp
next
  case (Cons e es)
  let ?r = "if e then socket_read ai al junk rs ws st a else socket_write ws rs st a"
  have "moves_on ?r st a rs qs out"
    using socket_read_stream [where ai = ai and al = al and junk = junk, OF al Cons.prems] socket_write_stream [OF Cons.prems]
    by simp
  then obtain st1 sent rs1 ws1 i1 out1 qs1 qs2 used where r: "?r = Some (st1, sent, rs1, ws1)" "net_frame st a st1"
    "in_stream st1 a rs1 ws1 qs2 i1 out1" "qs = qs1 @ qs2" "rs = used @ rs1"
    "sent @ grow_contents out1 = grow_contents out @ concat (map (spec_reply (nd_daemon st)) qs1)"
    "nd_newusers st1 = rev (concat (map (spec_new (nd_daemon st)) qs1)) @ nd_newusers st"
    unfolding moves_on_def by blast
  have "nd_daemon st1 = nd_daemon st" using r(2) by (simp add: net_frame_def)
  from moves_on_trans [OF conjunct1 [OF Cons.IH [OF r(3)]] r(2) this r(6,7,4,5)]
  have m: "moves_on (socket_session ai al junk (e # es) rs ws st a) st a rs qs out"
    using r(1) by (cases e) simp_all
  have "length rs1 \<le> length rs - (if e then 1 else 0)"
    using r(1,5) socket_read_uses [OF Cons.prems] by (cases e) auto
  then have "length rs' \<le> length rs - length (filter id (e # es))"
    if s: "socket_session ai al junk (e # es) rs ws st a = Some (st', sent', rs', ws')" for st' sent' rs' ws'
  proof -
    from s r(1) obtain s2 where "socket_session ai al junk es rs1 ws1 st1 a = Some (st', s2, rs', ws')"
      by (cases e) auto
    with conjunct2 [OF Cons.IH [OF r(3)]] have "length rs' \<le> length rs1 - length (filter id es)" by blast
    with \<open>length rs1 \<le> length rs - (if e then 1 else 0)\<close> show ?thesis by (cases e) simp_all
  qed
  with m show ?case by blast
qed

lemma incomplete_packets: "pipelined qs \<Longrightarrow> incomplete (concat (map packet qs)) \<Longrightarrow> qs = []"
proof (cases qs)
  case (Cons q rs)
  assume p: "pipelined qs" "incomplete (concat (map packet qs))"
  with Cons be_decode_htons [of "length q"] have False
    by (auto simp: incomplete_def packet_def pipelined_def htons_bytes_def good_query_def PACKET_MAX_QUERY_SIZE_def)
  then show ?thesis ..
qed

section \<open>Accepting\<close>

lemma socket_new_ok:
  assumes inv: "net_inv st" and al: "\<And>i. al i"
  shows "\<exists>s st'. socket_new al junk st = Some (Some (nd_brk st), st') \<and> net_inv st' \<and>
    nd_socks st' = (nd_socks st)(nd_brk st \<mapsto> s) \<and> nd_daemon st' = nd_daemon st \<and> nd_newusers st' = nd_newusers st \<and>
    nd_last_check st' = nd_last_check st \<and> \<not> so_kill s \<and>
    (\<exists>i out. so_in s = Some i \<and> so_out s = Some out \<and> grow_contents i = [] \<and> grow_contents out = [])"
proof -
  from inv obtain xs where xs: "dll_rep (nd_sockets st) xs" "set xs = dom (nd_socks st)" by (auto simp: net_inv_def)
  from inv have fresh: "nd_socks st (nd_brk st) = None" by (simp add: net_inv_def)
  from dll_rep_head [OF xs(1)] xs(2) have live: "live_sock st (dl_head (nd_sockets st))"
    by (auto simp: live_sock_def split: list.splits)
  obtain g where g: "grow_alloc True = Some g" by (simp add: grow_alloc_def)
  from grow_init_alloc [OF g, of junk 0] obtain b where b: "grow_init True junk g None 0 = Some (True, b)" "grow_inv b" "grow_contents b = []"
    by blast
  let ?s = "\<lparr>so_s = - 1, so_read = False, so_write = False, so_kill = False, so_in = Some b, so_out = Some b,
    so_last_query = 0, so_r_eio = False, so_w_eio = False\<rparr>"
  let ?st = "(put_sock st (nd_brk st) ?s)\<lparr>nd_sockets := dll_push_front (nd_sockets st) (nd_brk st), nd_brk := Suc (nd_brk st)\<rparr>"
  have "socket_new al junk st = Some (Some (nd_brk st), ?st)"
    using al g b live by (simp add: socket_new_def Let_def)
  moreover have "net_inv ?st"
  proof -
    have "nd_brk st \<notin> set xs" using xs(2) fresh by auto
    from links.rep_push [OF xs(1) this] have "dll_rep (nd_sockets ?st) (nd_brk st # xs)" by simp
    moreover have "set (nd_brk st # xs) = dom (nd_socks ?st)" using xs(2) by simp
    ultimately have "\<exists>ys. dll_rep (nd_sockets ?st) ys \<and> set ys = dom (nd_socks ?st)" by blast
    moreover have "sock_ok ?s" using b(2) by (simp add: sock_ok_def)
    ultimately show ?thesis using inv by (simp add: net_inv_def)
  qed
  ultimately show ?thesis using b(3) by (intro exI [of _ ?s] exI [of _ ?st]) simp
qed

text \<open>A peer the configuration lets in.\<close>

definition peer_allowed :: "string option \<Rightarrow> string list option \<Rightarrow> string \<Rightarrow> bool" where
  "peer_allowed sfile allow ip \<longleftrightarrow> sfile \<noteq> None \<or> (case allow of None \<Rightarrow> False | Some ips \<Rightarrow> ip \<in> set ips)"

lemma socket_accept_ok:
  assumes al: "\<And>i j. al i j"
  shows "net_inv st \<Longrightarrow> \<exists>st'. socket_accept sfile allow now al junk cs st = Some st' \<and> net_inv st' \<and>
    nd_daemon st' = nd_daemon st \<and> nd_newusers st' = nd_newusers st \<and>
    (\<forall>a. nd_socks st' a \<noteq> nd_socks st a \<longrightarrow> nd_socks st a = None \<and>
       (\<exists>s i out fd ip. nd_socks st' a = Some s \<and> conn st' a i out \<and> grow_contents i = [] \<and> grow_contents out = [] \<and>
          so_s s = fd \<and> so_last_query s = now \<and> (fd, ip, True) \<in> set cs \<and> peer_allowed sfile allow ip))"
proof (induction cs arbitrary: st)
  case (Cons c cs)
  obtain fd ip fl where c: "c = (fd, ip, fl)" by (cases c)
  show ?case
  proof (cases "peer_allowed sfile allow ip \<and> fl")
    case False
    with c Cons.prems show ?thesis by (cases allow) (auto simp: peer_allowed_def)
  next
    case True
    then have p: "peer_allowed sfile allow ip" "fl" by simp_all
    from socket_new_ok [where al = "al (length cs)" and junk = junk, OF Cons.prems al] obtain s st1 i out where
      n: "socket_new (al (length cs)) junk st = Some (Some (nd_brk st), st1)" "net_inv st1"
      "nd_socks st1 = (nd_socks st)(nd_brk st \<mapsto> s)" "nd_daemon st1 = nd_daemon st" "nd_newusers st1 = nd_newusers st" "\<not> so_kill s"
      "so_in s = Some i" "so_out s = Some out" "grow_contents i = []" "grow_contents out = []" by blast
    let ?s = "s\<lparr>so_s := fd, so_last_query := now, so_r_eio := True, so_w_eio := True\<rparr>"
    let ?st = "put_sock st1 (nd_brk st) ?s"
    have s1: "nd_socks st1 (nd_brk st) = Some s" using n(3) by simp
    have "sock_ok ?s" using net_inv_sock [OF n(2) s1] by (auto simp: sock_ok_def)
    from Cons.IH [OF net_inv_put [OF n(2) s1 this]] obtain st' where st':
      "socket_accept sfile allow now al junk cs ?st = Some st'" "net_inv st'" "nd_daemon st' = nd_daemon ?st"
      "nd_newusers st' = nd_newusers ?st" and new: "\<And>a. nd_socks st' a \<noteq> nd_socks ?st a \<Longrightarrow> nd_socks ?st a = None \<and>
       (\<exists>s i out fd ip. nd_socks st' a = Some s \<and> conn st' a i out \<and> grow_contents i = [] \<and> grow_contents out = [] \<and>
          so_s s = fd \<and> so_last_query s = now \<and> (fd, ip, True) \<in> set cs \<and> peer_allowed sfile allow ip)" by blast
    have "nd_socks st' (nd_brk st) = Some ?s" using new [of "nd_brk st"] by auto
    then have mine: "\<exists>s i out fd' ip'. nd_socks st' (nd_brk st) = Some s \<and> conn st' (nd_brk st) i out \<and> grow_contents i = [] \<and>
        grow_contents out = [] \<and> so_s s = fd' \<and> so_last_query s = now \<and> (fd', ip', True) \<in> set (c # cs) \<and> peer_allowed sfile allow ip'"
      using n c p by (intro exI [of _ ?s] exI [of _ i] exI [of _ out] exI [of _ fd] exI [of _ ip]) (simp add: conn_def)
    have fresh: "nd_socks st (nd_brk st) = None" using Cons.prems by (simp add: net_inv_def)
    have "nd_socks st a = None \<and> (\<exists>s i out fd' ip'. nd_socks st' a = Some s \<and> conn st' a i out \<and> grow_contents i = [] \<and>
        grow_contents out = [] \<and> so_s s = fd' \<and> so_last_query s = now \<and> (fd', ip', True) \<in> set (c # cs) \<and> peer_allowed sfile allow ip')"
      if d: "nd_socks st' a \<noteq> nd_socks st a" for a
    proof (cases "a = nd_brk st")
      case True
      with mine fresh show ?thesis by blast
    next
      case False
      then have "nd_socks ?st a = nd_socks st a" using n(3) by simp
      with new [of a] d show ?thesis by fastforce
    qed
    moreover have "socket_accept sfile allow now al junk (c # cs) st = Some st'"
      using c p n(1) s1 st'(1) by (cases allow) (auto simp: peer_allowed_def)
    ultimately show ?thesis using st' n(4,5) by auto
  qed
qed auto

section \<open>Timer\<close>

definition expired :: "time_t \<Rightarrow> int \<Rightarrow> netd \<Rightarrow> addr \<Rightarrow> bool" where
  "expired now timeout st a \<longleftrightarrow> (case nd_socks st a of None \<Rightarrow> False | Some s \<Rightarrow> now - so_last_query s \<ge> timeout)"

lemma socket_expire_ok:
  "net_inv st \<Longrightarrow> dll_rep (nd_sockets st) (ys @ zs) \<Longrightarrow> set (ys @ zs) = dom (nd_socks st) \<Longrightarrow> length zs \<le> n \<Longrightarrow>
   \<exists>st'. socket_expire n now timeout st (case zs of [] \<Rightarrow> None | z # _ \<Rightarrow> Some z) = Some st' \<and> net_inv st' \<and>
     nd_daemon st' = nd_daemon st \<and> nd_newusers st' = nd_newusers st \<and>
     (\<forall>a. nd_socks st' a = (if a \<in> set zs \<and> expired now timeout st a then None else nd_socks st a))"
proof (induction zs arbitrary: ys st n)
  case (Cons a zs)
  from Cons.prems(4) obtain m where m: "n = Suc m" "length zs \<le> m" by (cases n) auto
  from Cons.prems(3) obtain s where s: "nd_socks st a = Some s" by auto
  from Cons.prems(2) have next_a: "dl_next (nd_sockets st) a = (case zs of [] \<Rightarrow> None | z # _ \<Rightarrow> Some z)"
    by (auto elim: dll_rep_split)
  have dist: "distinct (ys @ a # zs)" using Cons.prems(2) by (simp add: dll_rep_def)
  show ?case
  proof (cases "now - so_last_query s \<ge> timeout")
    case True
    from socket_drop_rep [OF Cons.prems(1) s Cons.prems(2,3)] obtain st1 where st1: "socket_drop st a = Some st1" "net_inv st1"
      "nd_socks st1 = (nd_socks st)(a := None)" "nd_newusers st1 = nd_newusers st" "net_frame st a st1"
      "dll_rep (nd_sockets st1) (remove1 a (ys @ a # zs))" by blast
    have rm: "remove1 a (ys @ a # zs) = ys @ zs" using dist by (simp add: remove1_append)
    have "set (ys @ zs) = dom (nd_socks st1)" using Cons.prems(3) dist st1(3) by auto
    from Cons.IH [OF st1(2) st1(6) [unfolded rm] this m(2)] obtain st' where
      st': "socket_expire m now timeout st1 (case zs of [] \<Rightarrow> None | z # _ \<Rightarrow> Some z) = Some st'" "net_inv st'"
      "nd_daemon st' = nd_daemon st1" "nd_newusers st' = nd_newusers st1"
      "\<forall>b. nd_socks st' b = (if b \<in> set zs \<and> expired now timeout st1 b then None else nd_socks st1 b)" by blast
    have "nd_socks st' b = (if b \<in> set (a # zs) \<and> expired now timeout st b then None else nd_socks st b)" for b
      using st'(5) st1(3) s True dist by (auto simp: expired_def)
    with st' st1 s m True next_a show ?thesis by (auto simp: net_frame_def)
  next
    case False
    from Cons.IH [OF Cons.prems(1), of "ys @ [a]", OF _ _ m(2)] Cons.prems(2,3) obtain st' where
      st': "socket_expire m now timeout st (case zs of [] \<Rightarrow> None | z # _ \<Rightarrow> Some z) = Some st'" "net_inv st'"
      "nd_daemon st' = nd_daemon st" "nd_newusers st' = nd_newusers st"
      "\<forall>b. nd_socks st' b = (if b \<in> set zs \<and> expired now timeout st b then None else nd_socks st b)" by auto
    have "nd_socks st' b = (if b \<in> set (a # zs) \<and> expired now timeout st b then None else nd_socks st b)" for b
      using st'(5) s False by (auto simp: expired_def)
    with st' s m False next_a show ?thesis by auto
  qed
qed simp

lemma socket_timer_ok:
  assumes inv: "net_inv st" and n: "card (dom (nd_socks st)) \<le> n" and due: "now - nd_last_check st \<ge> detect"
  shows "\<exists>st'. socket_timer n now detect timeout st = Some st' \<and> net_inv st' \<and>
    nd_daemon st' = nd_daemon st \<and> nd_newusers st' = nd_newusers st \<and> nd_last_check st' = now \<and>
    (\<forall>a. nd_socks st' a = (if expired now timeout st a then None else nd_socks st a))"
proof -
  from inv obtain xs where xs: "dll_rep (nd_sockets st) xs" "set xs = dom (nd_socks st)" by (auto simp: net_inv_def)
  have len: "length xs \<le> n" using n xs distinct_card [of xs] by (simp add: dll_rep_def)
  from socket_expire_ok [OF inv, of "[]" xs n now timeout] xs len dll_rep_head [OF xs(1)] obtain st' where
    st': "socket_expire n now timeout st (dl_head (nd_sockets st)) = Some st'" "net_inv st'" "nd_daemon st' = nd_daemon st"
    "nd_newusers st' = nd_newusers st"
    "\<forall>a. nd_socks st' a = (if a \<in> set xs \<and> expired now timeout st a then None else nd_socks st a)" by auto
  have "expired now timeout st a \<Longrightarrow> a \<in> set xs" for a using xs(2) by (auto simp: expired_def split: option.splits)
  moreover have "net_inv (st'\<lparr>nd_last_check := now\<rparr>)" using st'(2) by (simp add: net_inv_def)
  ultimately show ?thesis using st' due by (auto simp: socket_timer_def)
qed

section \<open>Properties\<close>

text \<open>
  C8. A connection over its whole life, however the network cuts the stream of its queries (of less than
  256 bytes each) into reads, whatever part of the answers each \<open>write\<close> takes, and in whatever order the event
  loop calls the two handlers: the bytes sent and the bytes still in the output buffer are the answers to the
  queries received so far, in order and exactly once; what is left of the stream is in the input buffer and in
  the reads to come; and once there have been as many calls of the read handler as read results, every query
  has been answered. Other connections are left alone.
\<close>

theorem socket_session_answers:
  assumes "net_inv st" and "conn st a i out" and "grow_contents i = []" and "grow_contents out = []"
    and "pipelined qs" and "rd_bytes rs = concat (map packet qs)" and "clean_rd rs" and "clean_wr ws"
  shows "\<exists>st' sent rs' ws' i' out' qs1 qs2. qs = qs1 @ qs2 \<and>
    socket_session (\<lambda>_. True) (\<lambda>_ _ _. True) junk es rs ws st a = Some (st', sent, rs', ws') \<and> net_inv st' \<and> conn st' a i' out' \<and>
    sent @ grow_contents out' = concat (map (spec_reply (nd_daemon st)) qs1) \<and>
    nd_newusers st' = rev (concat (map (spec_new (nd_daemon st)) qs1)) @ nd_newusers st \<and>
    grow_contents i' @ rd_bytes rs' = concat (map packet qs2) \<and>
    (length rs \<le> length (filter id es) \<longrightarrow> qs2 = []) \<and>
    nd_daemon st' = nd_daemon st \<and> (\<forall>b. b \<noteq> a \<longrightarrow> nd_socks st' b = nd_socks st b)"
proof -
  have "in_stream st a rs ws qs i out" using assms by (simp add: in_stream_def incomplete_def)
  from socket_session_stream [where ai = "\<lambda>_. True" and al = "\<lambda>_ _ _. True" and junk = junk and es = es, OF TrueI TrueI this]
  obtain st' sent rs' ws' i' out' qs1 qs2 where
    r: "socket_session (\<lambda>_. True) (\<lambda>_ _ _. True) junk es rs ws st a = Some (st', sent, rs', ws')"
    and f: "net_frame st a st'" and s: "in_stream st' a rs' ws' qs2 i' out'" and q: "qs = qs1 @ qs2"
    and o: "sent @ grow_contents out' = grow_contents out @ concat (map (spec_reply (nd_daemon st)) qs1)"
    and n: "nd_newusers st' = rev (concat (map (spec_new (nd_daemon st)) qs1)) @ nd_newusers st"
    and len: "length rs' \<le> length rs - length (filter id es)"
    unfolding moves_on_def by blast
  have "qs2 = []" if "length rs \<le> length (filter id es)"
  proof -
    from that len have "rs' = []" by simp
    with s have "pipelined qs2" "incomplete (concat (map packet qs2))" by (auto simp: in_stream_def)
    then show ?thesis by (rule incomplete_packets)
  qed
  with r f s q o n assms(4) show ?thesis by (auto simp: in_stream_def net_frame_def)
qed


text \<open>
  The exception is real: a client whose first two bytes announce a packet of more than
  \<open>PACKET_MAX_QUERY_SIZE\<close> bytes makes the daemon close and free its structure and then test the flags in the
  freed memory.
\<close>

theorem socket_oversized_fault:
  assumes "net_inv st" and "conn st a i out" and "grow_contents i = []"
    and "PACKET_MAX_QUERY_SIZE < n" and "n < 65536"
  shows "socket_read (\<lambda>_. True) (\<lambda>_ _ _. True) junk (RData (htons_bytes n @ b) # rs) ws st a = None"
proof -
  from assms(2) obtain s where s: "nd_socks st a = Some s" "\<not> so_kill s" "so_in s = Some i" "so_out s = Some out"
    by (auto simp: conn_def)
  have gi: "grow_inv i" using conn_grow_inv [OF assms(1,2)] by simp
  let ?s = "s\<lparr>so_read := True\<rparr>"
  let ?st = "put_sock st a ?s"
  have inv: "net_inv ?st" using net_inv_put [OF assms(1) s(1)] net_inv_sock [OF assms(1) s(1)] by simp
  from grow_inject_spec [OF gi, of junk "htons_bytes n @ b"] assms(3) obtain g where
    g: "grow_inject True junk i (htons_bytes n @ b) = Some (True, g)" "grow_inv g" "grow_contents g = htons_bytes n @ b" by auto
  let ?sv = "\<lparr>sv_daemon = nd_daemon ?st, sv_newusers = nd_newusers ?st, sv_in = g, sv_out = out\<rparr>"
  let ?st1 = "(put_sock ?st a (?s\<lparr>so_in := Some g, so_out := Some out\<rparr>))\<lparr>nd_newusers := nd_newusers ?st\<rparr>"
  have "packet_read (\<lambda>_ _. True) junk 0 ?sv = Some (False, ?sv)"
    by (rule packet_refused) (use g assms(4,5) in simp_all)
  then have feed: "socket_feed (\<lambda>_ _. True) junk ?st a ?s g = Some (False, ?st1)"
    using s(4) by (simp add: socket_feed_def)
  have "sock_ok (?s\<lparr>so_in := Some g, so_out := Some out\<rparr>)"
    using g(2) conn_grow_inv [OF assms(1,2)] s(2) by (simp add: sock_ok_def)
  from net_inv_put [OF inv _ this] have inv1: "net_inv ?st1" by simp
  have "nd_socks ?st1 a = Some (?s\<lparr>so_in := Some g, so_out := Some out\<rparr>)" by simp
  from socket_drop_ok [OF inv1 this] obtain st2 where st2: "socket_drop ?st1 a = Some st2" "nd_socks st2 a = None" by auto
  have dead: "socket_read_loop (\<lambda>_. True) (\<lambda>_ _ _. True) junk rs ws st2 a = None" using st2(2) by (cases rs) simp_all
  have "g_bytes i = 0" using grow_contents_length [OF gi] assms(3) by simp
  then show ?thesis
    using s g(1) feed st2(1) dead by (simp add: socket_read_def htons_bytes_expand)
qed

text \<open>
  C40. When the check for idle clients is due, the timer drops exactly the connections that were accepted
  \<open>Client timeout\<close> seconds ago or earlier, as no handler ever moves the time of the last query, and leaves the
  others as they are.
\<close>

theorem socket_timer_exact:
  assumes "net_inv st" and "card (dom (nd_socks st)) \<le> n" and "now - nd_last_check st \<ge> detect"
  shows "(\<exists>st'. socket_timer n now detect timeout st = Some st' \<and> net_inv st' \<and> nd_last_check st' = now \<and>
      nd_daemon st' = nd_daemon st \<and>
      (\<forall>a. nd_socks st' a = (case nd_socks st a of None \<Rightarrow> None
         | Some s \<Rightarrow> if now - so_last_query s \<ge> timeout then None else Some s))) \<and>
    (\<forall>a s s' sent r st'. nd_socks st a = Some s \<longrightarrow> nd_socks st' a = Some s' \<longrightarrow>
      socket_read (\<lambda>_. True) (\<lambda>_ _ _. True) junk rs ws st a = Some (st', sent, r) \<longrightarrow>
      so_last_query s' = so_last_query s)"
proof -
  from socket_timer_ok [OF assms, of timeout] obtain st' where
    t: "socket_timer n now detect timeout st = Some st'" "net_inv st'" "nd_last_check st' = now" "nd_daemon st' = nd_daemon st"
    "\<forall>a. nd_socks st' a = (if expired now timeout st a then None else nd_socks st a)" by blast
  have "nd_socks st' a = (case nd_socks st a of None \<Rightarrow> None
         | Some s \<Rightarrow> if now - so_last_query s \<ge> timeout then None else Some s)" for a
    using t(5) by (simp add: expired_def split: option.splits)
  moreover have "so_last_query s' = so_last_query s"
    if "nd_socks st a = Some s" "nd_socks st1 a = Some s'"
      "socket_read (\<lambda>_. True) (\<lambda>_ _ _. True) junk rs ws st a = Some (st1, sent, r)"
    for a s s' sent r st1
  proof -
    from socket_read_ok [where ai = "\<lambda>_. True" and al = "\<lambda>_ _ _. True" and junk = junk and rs = rs and ws = ws,
        OF TrueI TrueI assms(1), of a] that have "net_frame st a st1" by auto
    with that(1,2) show ?thesis by (simp add: net_frame_def)
  qed
  ultimately show ?thesis using t by blast
qed

text \<open>
  C10. Only peers the configuration lets in get a connection, and accepting leaves the connections that are
  there alone: every new structure belongs to a connection handed out by \<open>accept\<close> whose address is allowed (any,
  for a socket file), is open with empty buffers, and starts its idle time at the current clock.
\<close>

theorem socket_accept_allowed:
  assumes "net_inv st"
  shows "\<exists>st'. socket_accept sfile allow now (\<lambda>_ _. True) junk cs st = Some st' \<and> net_inv st' \<and>
    (\<forall>a s. nd_socks st a = Some s \<longrightarrow> nd_socks st' a = Some s) \<and>
    (\<forall>a s. nd_socks st a = None \<and> nd_socks st' a = Some s \<longrightarrow> so_last_query s = now \<and>
       (\<exists>ip. (so_s s, ip, True) \<in> set cs \<and> (sfile = None \<longrightarrow> (\<exists>ips. allow = Some ips \<and> ip \<in> set ips))) \<and>
       (\<exists>i out. conn st' a i out \<and> grow_contents i = [] \<and> grow_contents out = []))"
proof -
  from socket_accept_ok [where al = "\<lambda>_ _. True", OF TrueI assms, of sfile allow now junk cs] obtain st' where
    st': "socket_accept sfile allow now (\<lambda>_ _. True) junk cs st = Some st'" "net_inv st'" and
    new: "\<And>a. nd_socks st' a \<noteq> nd_socks st a \<Longrightarrow> nd_socks st a = None \<and>
       (\<exists>s i out fd ip. nd_socks st' a = Some s \<and> conn st' a i out \<and> grow_contents i = [] \<and> grow_contents out = [] \<and>
          so_s s = fd \<and> so_last_query s = now \<and> (fd, ip, True) \<in> set cs \<and> peer_allowed sfile allow ip)" by blast
  have "nd_socks st' a = Some s" if "nd_socks st a = Some s" for a s using new [of a] that by (cases "nd_socks st' a = nd_socks st a") auto
  moreover have "so_last_query s = now \<and>
       (\<exists>ip. (so_s s, ip, True) \<in> set cs \<and> (sfile = None \<longrightarrow> (\<exists>ips. allow = Some ips \<and> ip \<in> set ips))) \<and>
       (\<exists>i out. conn st' a i out \<and> grow_contents i = [] \<and> grow_contents out = [])"
    if "nd_socks st a = None \<and> nd_socks st' a = Some s" for a s
    using new [of a] that by (auto simp: peer_allowed_def split: option.splits)
  ultimately show ?thesis using st' by blast
qed

section \<open>Witnesses\<close>

definition sock_example :: sock where
  "sock_example = \<lparr>so_s = 5, so_read = False, so_write = False, so_kill = False, so_in = Some grow_example,
     so_out = Some grow_example, so_last_query = 100, so_r_eio = True, so_w_eio = True\<rparr>"

definition net_example :: netd where
  "net_example = \<lparr>nd_daemon = daemon_example, nd_newusers = [], nd_socks = [1 \<mapsto> sock_example],
     nd_sockets = dll_push_front dll_empty 1, nd_brk = 2, nd_last_check = 100\<rparr>"

lemma grow_example_ok: "grow_inv grow_example" "grow_contents grow_example = []"
  by (simp_all add: grow_example_def grow_inv.simps grow_contents_def)

lemma net_example_ok: "net_inv net_example" "conn net_example 1 grow_example grow_example"
  "nd_socks net_example 1 \<noteq> None" "card (dom (nd_socks net_example)) \<le> 1"
proof -
  have "dll_rep (nd_sockets net_example) [1]"
    using links.rep_push [OF dll_rep_empty, of 1] by (simp add: net_example_def)
  moreover have "daemon_inv (nd_daemon net_example)"
    using daemon_run_inv [OF daemon_example_run] by (simp add: net_example_def)
  moreover have "dom (nd_socks net_example) = {1}" by (simp add: net_example_def)
  ultimately show "net_inv net_example"
    using grow_example_ok(1) unfolding net_inv_def
    by (auto simp: net_example_def sock_example_def sock_ok_def intro!: exI [of _ "[1]"])
  show "conn net_example 1 grow_example grow_example" by (simp add: net_example_def sock_example_def conn_def)
  show "nd_socks net_example 1 \<noteq> None" "card (dom (nd_socks net_example)) \<le> 1" by (simp_all add: net_example_def)
qed

theorem socket_session_answers_witness:
  "\<exists>st' sent r out'. socket_session (\<lambda>_. True) (\<lambda>_ _ _. True) (\<lambda>_. CHR ''?'') [True, True, False, True, True]
       [RData [NUL], RAgain, RData [char_of (6 :: nat), CHR ''@''], RData ''X.org''] [WSent 3, WAgain, WSent 20] net_example 1 =
       Some (st', sent, r) \<and> sent @ grow_contents out' = htonll_bytes 0 @ htonll_bytes 0"
proof -
  let ?rs = "[RData [NUL], RAgain, RData [char_of (6 :: nat), CHR ''@''], RData ''X.org'']"
  have q: "pipelined [''@X.org'']" by code_simp
  have b: "rd_bytes ?rs = concat (map packet [''@X.org''])" by code_simp
  have c: "clean_rd ?rs" "clean_wr [WSent 3, WAgain, WSent 20]" by (simp_all add: clean_rd_def clean_wr_def)
  have a: "concat (map (spec_reply (nd_daemon net_example)) [''@X.org'']) = htonll_bytes 0 @ htonll_bytes 0" by code_simp
  from socket_session_answers [OF net_example_ok(1,2) grow_example_ok(2) grow_example_ok(2) q b c,
      of "\<lambda>_. CHR ''?''" "[True, True, False, True, True]"] a
  show ?thesis by (auto simp del: socket_session.simps)
qed


theorem socket_oversized_fault_witness:
  "socket_read (\<lambda>_. True) (\<lambda>_ _ _. True) (\<lambda>_. NUL) [RData (htons_bytes 2000 @ ''GET'')] [] net_example 1 = None"
  by (rule socket_oversized_fault [OF net_example_ok(1,2) grow_example_ok(2)]) (simp_all add: PACKET_MAX_QUERY_SIZE_def)

theorem socket_timer_exact_witness:
  "\<exists>st'. socket_timer 1 110 4 10 net_example = Some st' \<and> nd_socks st' 1 = None"
proof -
  have d: "4 \<le> 110 - nd_last_check net_example" by (simp add: net_example_def)
  have "nd_socks net_example 1 = Some sock_example" "so_last_query sock_example = 100"
    by (simp_all add: net_example_def sock_example_def)
  with socket_timer_exact [OF net_example_ok(1,4) d, of 10 "\<lambda>_. NUL" "[]" "[]"] show ?thesis by auto
qed

theorem socket_accept_allowed_witness:
  "\<exists>st'. socket_accept None (Some [''10.0.0.1'']) 120 (\<lambda>_ _. True) (\<lambda>_. NUL) [(7, ''10.0.0.1'', True), (8, ''10.0.0.2'', True)] net_example =
     Some st' \<and> nd_socks st' 1 = Some sock_example \<and> (\<forall>s. nd_socks st' 2 = Some s \<longrightarrow> so_s s = 7)"
proof -
  have n: "nd_socks net_example 1 = Some sock_example" "nd_socks net_example 2 = None"
    by (simp_all add: net_example_def)
  from socket_accept_allowed [OF net_example_ok(1), of None "Some [''10.0.0.1'']" 120 "\<lambda>_. NUL" "[(7, ''10.0.0.1'', True), (8, ''10.0.0.2'', True)]"] n
  show ?thesis by fastforce
qed

end
