(* ===== verification/WorkQueue.thy ===== *)
theory WorkQueue
  imports Query
begin

text \<open>
  The work queue of the usage daemon (\<^verbatim>\<open>vusaged/queue.c\<close>): a controller thread that loads users
  and puts them on a bounded queue, and worker threads that take users off it and poll them.

  The threads share \<open>wstate\<close>. Each step of \<open>wq_step\<close> is one stretch of code between two points where
  another thread can come in: what a thread does while it holds \<open>m_queue\<close>, \<open>m_newusers\<close> or the
  \<open>m_processing\<close> of a user, and one call of \<open>user_poll\<close> or \<open>user_verify\<close>. \<open>user_poll\<close> only touches
  the structure of its own user and, under the lock of the domain, the totals of the domain, so its
  parts commute with the steps of the other threads. A step whose result is \<open>None\<close> accesses invalid
  memory.
\<close>

section \<open>Model\<close>

datatype worker =
    WIdle              \<comment> \<open>waiting for an item\<close>
  | WTaken addr        \<comment> \<open>has popped an item, \<open>user_poll\<close> is next\<close>
  | WPolled addr       \<comment> \<open>\<open>user_poll\<close> is done, \<open>processing\<close> still set\<close>

datatype ctl =
    CTop               \<comment> \<open>start of the stage two loop\<close>
  | CFor               \<comment> \<open>test of the \<open>for\<close> loop over the users\<close>
  | CMarked            \<comment> \<open>\<open>processing\<close> of \<open>u\<close> has been set, look for a lost user\<close>
  | CPush              \<comment> \<open>about to lock the queue and push \<open>u\<close>\<close>
  | CEnd               \<comment> \<open>behind the \<open>for\<close> loop\<close>

record wstate =
  ws_daemon :: daemon
  ws_queue :: "addr list"
  ws_queue_size :: int
  ws_queue_max_size :: int
  ws_queue_proc :: int
  ws_newusers :: "string list"
  ws_workers :: "nat \<Rightarrow> worker"
  ws_ctl :: ctl
  ws_u :: "addr option"
  ws_l_userlist :: "addr option"

definition queue_set_processing :: "wstate \<Rightarrow> addr \<Rightarrow> bool \<Rightarrow> wstate option" where
  "queue_set_processing w a v =
     (case dn_users (ws_daemon w) a of
        None \<Rightarrow> None
      | Some u \<Rightarrow> Some (w\<lparr>ws_daemon := (ws_daemon w)\<lparr>dn_users := (dn_users (ws_daemon w))(a \<mapsto> u\<lparr>u_processing := v\<rparr>)\<rparr>\<rparr>))"

text \<open>\<open>queue_push\<close> returns 0 and changes nothing when there is no memory for the item.\<close>

definition queue_push :: "bool \<Rightarrow> wstate \<Rightarrow> addr \<Rightarrow> wstate" where
  "queue_push ok w a =
     (if ok then w\<lparr>ws_queue := a # ws_queue w, ws_queue_size := ws_queue_size w + 1\<rparr> else w)"

definition queue_pop :: "wstate \<Rightarrow> (addr \<times> wstate) option" where
  "queue_pop w =
     (case ws_queue w of
        [] \<Rightarrow> None
      | a # q \<Rightarrow> Some (a, w\<lparr>ws_queue := q, ws_queue_size := ws_queue_size w - 1\<rparr>))"

subsection \<open>Controller\<close>

text \<open>Stage one, for one user name of the back end: load it and, when it is not in processing, queue it.\<close>

definition queue_stage_one :: "getpw \<Rightarrow> nat \<Rightarrow> bool \<Rightarrow> wstate \<Rightarrow> string \<Rightarrow> string \<Rightarrow> wstate option" where
  "queue_stage_one getpw path_max ok w nm realdomain =
     (if ws_queue_size w \<ge> ws_queue_max_size w then Some w
      else
        case user_get getpw path_max (\<lambda>_. True) (ws_daemon w)
               (snprintf_str USER_MAX_USERNAME (nm @ ''@'' @ realdomain)) of
          None \<Rightarrow> None
        | Some (None, st) \<Rightarrow> Some (w\<lparr>ws_daemon := st\<rparr>)
        | Some (Some a, st) \<Rightarrow>
            (case dn_users st a of
               None \<Rightarrow> None
             | Some u \<Rightarrow>
                 if u_processing u then Some (w\<lparr>ws_daemon := st\<rparr>)
                 else map_option (\<lambda>w. queue_push ok w a) (queue_set_processing (w\<lparr>ws_daemon := st\<rparr>) a True)))"

text \<open>Stage two: load the possible new users, then start or go on with the walk over the user list.\<close>

fun queue_load_new :: "getpw \<Rightarrow> nat \<Rightarrow> daemon \<Rightarrow> string list \<Rightarrow> daemon option" where
  "queue_load_new getpw path_max st [] = Some st"
| "queue_load_new getpw path_max st (email # rest) =
     (case user_get getpw path_max (\<lambda>_. True) st email of
        None \<Rightarrow> None
      | Some (_, st) \<Rightarrow> queue_load_new getpw path_max st rest)"

definition queue_top :: "getpw \<Rightarrow> nat \<Rightarrow> wstate \<Rightarrow> wstate option" where
  "queue_top getpw path_max w =
     (case queue_load_new getpw path_max (ws_daemon w) (ws_newusers w) of
        None \<Rightarrow> None
      | Some st \<Rightarrow>
          let w = w\<lparr>ws_daemon := st, ws_newusers := [], ws_ctl := CFor\<rparr>
          in Some (if ws_l_userlist w = None
                   then w\<lparr>ws_u := dl_head (dn_userlist st), ws_l_userlist := dl_head (dn_userlist st)\<rparr>
                   else w))"

text \<open>\<open>u = u->next\<close>\<close>

definition queue_next :: "wstate \<Rightarrow> addr \<Rightarrow> wstate option" where
  "queue_next w a =
     (case dn_users (ws_daemon w) a of
        None \<Rightarrow> None
      | Some u \<Rightarrow> Some (w\<lparr>ws_u := dl_next (dn_userlist (ws_daemon w)) a, ws_ctl := CFor\<rparr>))"

definition queue_for :: "wstate \<Rightarrow> wstate option" where
  "queue_for w =
     (case ws_u w of
        None \<Rightarrow> Some (w\<lparr>ws_ctl := CEnd\<rparr>)
      | Some a \<Rightarrow>
          (case dn_users (ws_daemon w) a of
             None \<Rightarrow> None
           | Some u \<Rightarrow>
               if u_processing u then queue_next w a
               else map_option (\<lambda>w. w\<lparr>ws_ctl := CMarked\<rparr>) (queue_set_processing w a True)))"

definition queue_maybe_lost :: "user_t \<Rightarrow> bool" where
  "queue_maybe_lost u =
     (case u_userstore u of None \<Rightarrow> True | Some s \<Rightarrow> us_num s = 0 \<and> us_last_updated s \<noteq> 0)"

text \<open>
  After a lost user has been dropped: \<open>u = l_userlist = userlist; continue;\<close>, and the \<open>continue\<close>
  goes on to \<open>u = u->next\<close>.
\<close>

definition queue_restart :: "wstate \<Rightarrow> wstate option" where
  "queue_restart w =
     (let h = dl_head (dn_userlist (ws_daemon w))
      in case h of
           None \<Rightarrow> None
         | Some a \<Rightarrow> queue_next (w\<lparr>ws_u := h, ws_l_userlist := h\<rparr>) a)"

definition queue_marked :: "getpw \<Rightarrow> wstate \<Rightarrow> wstate option" where
  "queue_marked getpw w =
     (case ws_u w of
        None \<Rightarrow> None
      | Some a \<Rightarrow>
          (case dn_users (ws_daemon w) a of
             None \<Rightarrow> None
           | Some u \<Rightarrow>
               if queue_maybe_lost u then
                 (case user_verify getpw (ws_daemon w) a of
                    None \<Rightarrow> None
                  | Some (True, st) \<Rightarrow> Some (w\<lparr>ws_daemon := st, ws_ctl := CPush\<rparr>)
                  | Some (False, st) \<Rightarrow> queue_restart (w\<lparr>ws_daemon := st\<rparr>))
               else Some (w\<lparr>ws_ctl := CPush\<rparr>)))"

definition queue_add :: "bool \<Rightarrow> wstate \<Rightarrow> wstate option" where
  "queue_add ok w =
     (case ws_u w of
        None \<Rightarrow> None
      | Some a \<Rightarrow>
          if ws_queue_size w \<ge> ws_queue_max_size w
          then map_option (\<lambda>w. w\<lparr>ws_ctl := CEnd\<rparr>) (queue_set_processing w a False)
          else queue_next (queue_push ok w a) a)"

definition queue_end :: "wstate \<Rightarrow> wstate" where
  "queue_end w = (if ws_u w = None then w\<lparr>ws_l_userlist := None, ws_ctl := CTop\<rparr> else w\<lparr>ws_ctl := CTop\<rparr>)"

subsection \<open>Workers\<close>

text \<open>\<open>queue_spin\<close> lets a worker through to \<open>queue_pop\<close> only when \<open>queue_size\<close> is not 0.\<close>

definition queue_take :: "nat \<Rightarrow> wstate \<Rightarrow> wstate option" where
  "queue_take i w =
     (if ws_queue_size w = 0 then Some w
      else
        case queue_pop w of
          None \<Rightarrow> None
        | Some (a, w) \<Rightarrow>
            Some (w\<lparr>ws_queue_proc := ws_queue_proc w + 1, ws_workers := (ws_workers w)(i := WTaken a)\<rparr>))"

definition queue_process :: "pollenv \<Rightarrow> nat \<Rightarrow> addr \<Rightarrow> wstate \<Rightarrow> wstate option" where
  "queue_process pe i a w =
     map_option (\<lambda>st. w\<lparr>ws_daemon := st, ws_workers := (ws_workers w)(i := WPolled a)\<rparr>)
       (user_poll pe (ws_daemon w) a)"

text \<open>
  The mark is taken off under \<open>m_processing\<close>; \<open>queue_proc\<close>, a counter that nothing reads, is lowered when
  the worker has the queue lock again.
\<close>

definition queue_done :: "nat \<Rightarrow> addr \<Rightarrow> wstate \<Rightarrow> wstate option" where
  "queue_done i a w =
     map_option (\<lambda>w. w\<lparr>ws_queue_proc := ws_queue_proc w - 1, ws_workers := (ws_workers w)(i := WIdle)\<rparr>)
       (queue_set_processing w a False)"

subsection \<open>Steps\<close>

text \<open>
  The steps of all threads: \<open>wq_step pm w r\<close> says that some thread can go from \<open>w\<close> to the result \<open>r\<close>,
  \<open>None\<close> being an invalid memory access. Stage one runs before stage two, with the controller at the
  start of its loop; queries may add possible new users at any time.
\<close>

inductive wq_step :: "nat \<Rightarrow> wstate \<Rightarrow> wstate option \<Rightarrow> bool" for pm where
  stage_one: "ws_ctl w = CTop \<Longrightarrow> ws_l_userlist w = None \<Longrightarrow> good_email (nm @ ''@'' @ dom') \<Longrightarrow>
    wq_step pm w (queue_stage_one getpw pm True w nm dom')"
| top: "ws_ctl w = CTop \<Longrightarrow> wq_step pm w (queue_top getpw pm w)"
| for_loop: "ws_ctl w = CFor \<Longrightarrow> wq_step pm w (queue_for w)"
| marked: "ws_ctl w = CMarked \<Longrightarrow> wq_step pm w (queue_marked getpw w)"
| push: "ws_ctl w = CPush \<Longrightarrow> wq_step pm w (queue_add True w)"
| end_loop: "ws_ctl w = CEnd \<Longrightarrow> wq_step pm w (Some (queue_end w))"
| newuser: "ok_email email \<Longrightarrow> wq_step pm w (Some (w\<lparr>ws_newusers := queue_check_newuser True True (ws_newusers w) email\<rparr>))"
| take: "ws_workers w i = WIdle \<Longrightarrow> wq_step pm w (queue_take i w)"
| process: "ws_workers w i = WTaken a \<Longrightarrow> good_env pe \<Longrightarrow> wq_step pm w (queue_process pe i a w)"
| finish: "ws_workers w i = WPolled a \<Longrightarrow> wq_step pm w (queue_done i a w)"

definition wq_start :: "int \<Rightarrow> wstate" where
  "wq_start mx = \<lparr>ws_daemon = daemon_start, ws_queue = [], ws_queue_size = 0, ws_queue_max_size = mx,
     ws_queue_proc = 0, ws_newusers = [], ws_workers = (\<lambda>_. WIdle), ws_ctl = CTop, ws_u = None, ws_l_userlist = None\<rparr>"

inductive wq_reach :: "nat \<Rightarrow> int \<Rightarrow> wstate \<Rightarrow> bool" for pm mx where
  start: "wq_reach pm mx (wq_start mx)"
| step: "wq_reach pm mx w \<Longrightarrow> wq_step pm w (Some w') \<Longrightarrow> wq_reach pm mx w'"

section \<open>Invariant\<close>

text \<open>
  Who has a claim on a user: the queue, a worker, or the controller between marking the user and
  queueing it. Claims are exclusive, and a claimed user is live and marked as in processing.
\<close>

datatype owner = OQueue | OWorker nat | OCtl

fun claims :: "wstate \<Rightarrow> owner \<Rightarrow> addr \<Rightarrow> bool" where
  "claims w OQueue a \<longleftrightarrow> a \<in> set (ws_queue w)"
| "claims w (OWorker i) a \<longleftrightarrow> ws_workers w i = WTaken a \<or> ws_workers w i = WPolled a"
| "claims w OCtl a \<longleftrightarrow> (ws_ctl w = CMarked \<or> ws_ctl w = CPush) \<and> ws_u w = Some a"

definition busy :: "wstate \<Rightarrow> addr \<Rightarrow> bool" where
  "busy w a \<longleftrightarrow> (\<exists>u. dn_users (ws_daemon w) a = Some u \<and> u_processing u)"

definition claims_ok :: "wstate \<Rightarrow> bool" where
  "claims_ok w \<longleftrightarrow> (\<forall>a p q. claims w p a \<longrightarrow> claims w q a \<longrightarrow> p = q) \<and> (\<forall>a p. claims w p a \<longrightarrow> busy w a)"

definition queue_ok :: "wstate \<Rightarrow> bool" where
  "queue_ok w \<longleftrightarrow> distinct (ws_queue w) \<and> ws_queue_size w = int (length (ws_queue w)) \<and>
     ws_queue_size w \<le> ws_queue_max_size w"

definition cursor_ok :: "wstate \<Rightarrow> bool" where
  "cursor_ok w \<longleftrightarrow> (\<forall>a. ws_u w = Some a \<longrightarrow> dn_users (ws_daemon w) a \<noteq> None) \<and>
     (ws_ctl w = CMarked \<or> ws_ctl w = CPush \<longrightarrow> ws_u w \<noteq> None)"

definition wq_inv :: "wstate \<Rightarrow> bool" where
  "wq_inv w \<longleftrightarrow> daemon_inv (ws_daemon w) \<and> queue_ok w \<and> claims_ok w \<and> cursor_ok w \<and> list_all ok_email (ws_newusers w)"

lemmas wq_inv_defs = wq_inv_def queue_ok_def claims_ok_def cursor_ok_def

lemma wq_inv_start: "0 \<le> mx \<Longrightarrow> wq_inv (wq_start mx)"
proof -
  have "\<not> claims (wq_start mx) p a" for p a by (cases p) (simp_all add: wq_start_def)
  then show "0 \<le> mx \<Longrightarrow> wq_inv (wq_start mx)"
    by (simp add: wq_inv_defs daemon_inv_start) (simp add: wq_start_def daemon_inv_start)
qed

lemma set_processing_live:
  assumes "dn_users (ws_daemon w) a = Some u"
  shows "queue_set_processing w a v = Some (w\<lparr>ws_daemon := (ws_daemon w)\<lparr>dn_users := (dn_users (ws_daemon w))(a \<mapsto> u\<lparr>u_processing := v\<rparr>)\<rparr>\<rparr>)"
  using assms by (simp add: queue_set_processing_def)

text \<open>A change of the users that keeps those that are there, and their marks.\<close>

definition users_grow :: "daemon \<Rightarrow> daemon \<Rightarrow> bool" where
  "users_grow st st' \<longleftrightarrow> (\<forall>a u. dn_users st a = Some u \<longrightarrow> (\<exists>u'. dn_users st' a = Some u' \<and> u_processing u' = u_processing u))"

lemma users_grow_refl [simp]: "users_grow st st"
  by (simp add: users_grow_def)

lemma users_grow_trans: "users_grow s t \<Longrightarrow> users_grow t u \<Longrightarrow> users_grow s u"
  unfolding users_grow_def by metis

lemma wq_inv_daemon:
  assumes inv: "wq_inv w" and st: "daemon_inv st'" "users_grow (ws_daemon w) st'"
  shows "wq_inv (w\<lparr>ws_daemon := st'\<rparr>)"
proof -
  have c: "claims (w\<lparr>ws_daemon := st'\<rparr>) p a = claims w p a" for p a by (cases p) simp_all
  have "busy w a \<Longrightarrow> busy (w\<lparr>ws_daemon := st'\<rparr>) a" for a
    using st(2) by (auto simp: busy_def users_grow_def)
  moreover have "dn_users (ws_daemon w) a \<noteq> None \<Longrightarrow> dn_users st' a \<noteq> None" for a
    using st(2) by (auto simp: users_grow_def)
  ultimately show ?thesis using inv st(1) by (simp add: wq_inv_defs c)
qed

lemma user_get_grow:
  assumes "daemon_inv st" and "ok_email email"
  shows "\<exists>r st'. user_get getpw pm (\<lambda>_. True) st email = Some (r, st') \<and> daemon_inv st' \<and> users_grow st st' \<and>
    (\<forall>a. r = Some a \<longrightarrow> dn_users st' a \<noteq> None)"
  using user_get_spec [where al = "\<lambda>_. True" and getpw = getpw and path_max = pm, OF assms TrueI]
  unfolding users_grow_def by metis

lemma queue_load_new_grow:
  "daemon_inv st \<Longrightarrow> list_all ok_email es \<Longrightarrow>
   \<exists>st'. queue_load_new getpw pm st es = Some st' \<and> daemon_inv st' \<and> users_grow st st'"
proof (induction es arbitrary: st)
  case (Cons e es)
  then have "ok_email e" "list_all ok_email es" by simp_all
  from user_get_grow [OF Cons.prems(1) this(1), of getpw pm] obtain r st1 where
    g: "user_get getpw pm (\<lambda>_. True) st e = Some (r, st1)" "daemon_inv st1" "users_grow st st1" by blast
  from Cons.IH [OF g(2) \<open>list_all ok_email es\<close>] obtain st2 where
    "queue_load_new getpw pm st1 es = Some st2" "daemon_inv st2" "users_grow st1 st2" by blast
  with g users_grow_trans [of st st1 st2] show ?case by simp
qed simp

text \<open>Putting a user that nobody has a claim on into the hands of a new owner.\<close>

lemma claims_ok_mark:
  assumes ok: "claims_ok w" and u: "dn_users (ws_daemon w) a = Some u" "\<not> u_processing u"
    and new: "\<And>p b. claims w' p b \<Longrightarrow> claims w p b \<or> p = o' \<and> b = a"
    and users: "dn_users (ws_daemon w') = (dn_users (ws_daemon w))(a \<mapsto> u\<lparr>u_processing := True\<rparr>)"
  shows "claims_ok w'"
proof -
  have "\<not> claims w p a" for p using ok u by (auto simp: claims_ok_def busy_def)
  then show ?thesis
    using ok new users unfolding claims_ok_def busy_def by (metis fun_upd_apply option.inject user_t.select_convs(6) user_t.surjective user_t.update_convs(6))
qed

text \<open>A claim handed on to another owner, and a claim given up.\<close>

lemma claims_ok_hand:
  assumes ok: "claims_ok w" and c: "claims w p a"
    and new: "\<And>q b. claims w' q b \<Longrightarrow> claims w q b \<and> (q \<noteq> p \<or> b \<noteq> a) \<or> q = o' \<and> b = a"
    and users: "dn_users (ws_daemon w') = dn_users (ws_daemon w)"
  shows "claims_ok w'"
  using ok c new users unfolding claims_ok_def busy_def by metis

lemma claims_ok_drop:
  assumes ok: "claims_ok w" and c: "claims w p a"
    and new: "\<And>q b. claims w' q b \<Longrightarrow> claims w q b \<and> (q \<noteq> p \<or> b \<noteq> a)"
    and users: "\<And>b. b \<noteq> a \<Longrightarrow> dn_users (ws_daemon w') b = dn_users (ws_daemon w) b"
  shows "claims_ok w'"
  using ok c new users unfolding claims_ok_def busy_def by metis

definition safe :: "wstate option \<Rightarrow> bool" where
  "safe r \<longleftrightarrow> (\<exists>w. r = Some w \<and> wq_inv w)"

lemma safe_Some [simp]: "safe (Some w) = wq_inv w"
  by (simp add: safe_def)

lemma wq_inv_cursor_live: "wq_inv w \<Longrightarrow> ws_u w = Some a \<Longrightarrow> \<exists>u. dn_users (ws_daemon w) a = Some u"
  by (auto simp: wq_inv_def cursor_ok_def)

lemma claimed_live: "claims_ok w \<Longrightarrow> claims w p a \<Longrightarrow> \<exists>u. dn_users (ws_daemon w) a = Some u"
  unfolding claims_ok_def busy_def by blast

lemma idle_unclaimed:
  "claims_ok w \<Longrightarrow> dn_users (ws_daemon w) a = Some u \<Longrightarrow> \<not> u_processing u \<Longrightarrow> \<not> claims w p a"
  unfolding claims_ok_def busy_def by auto

text \<open>Moving on to the next user, with no claim of the controller left.\<close>

lemma queue_next_safe:
  assumes d: "daemon_inv (ws_daemon w)" and q: "queue_ok w" and a: "dn_users (ws_daemon w) a \<noteq> None"
    and c: "claims_ok (w\<lparr>ws_ctl := CFor\<rparr>)" and n: "list_all ok_email (ws_newusers w)"
  shows "safe (queue_next w a)"
proof -
  let ?w = "w\<lparr>ws_u := dl_next (dn_userlist (ws_daemon w)) a, ws_ctl := CFor\<rparr>"
  have "claims ?w p b = claims (w\<lparr>ws_ctl := CFor\<rparr>) p b" for p b by (cases p) simp_all
  then have "claims_ok ?w" using c by (simp add: claims_ok_def busy_def)
  moreover have "cursor_ok ?w" using userlist_next_live [OF d a] by (simp add: cursor_ok_def)
  ultimately have "wq_inv ?w" using d q n by (simp add: wq_inv_def queue_ok_def)
  with a show ?thesis by (auto simp: queue_next_def)
qed

lemma claims_ok_idle_ctl: "claims_ok w \<Longrightarrow> claims_ok (w\<lparr>ws_ctl := CFor\<rparr>)"
proof -
  have "claims (w\<lparr>ws_ctl := CFor\<rparr>) p b \<Longrightarrow> claims w p b" for p b by (cases p) simp_all
  then show "claims_ok w \<Longrightarrow> claims_ok (w\<lparr>ws_ctl := CFor\<rparr>)"
    unfolding claims_ok_def busy_def by simp blast
qed

lemma queue_stage_one_safe:
  assumes inv: "wq_inv w" and e: "good_email (nm @ ''@'' @ d)" and idle: "ws_ctl w = CTop"
  shows "safe (queue_stage_one getpw pm True w nm d)"
proof (cases "ws_queue_size w \<ge> ws_queue_max_size w")
  case True
  with inv show ?thesis by (simp add: queue_stage_one_def)
next
  case False
  have len: "snprintf_str USER_MAX_USERNAME (nm @ ''@'' @ d) = nm @ ''@'' @ d"
  proof -
    have "length (nm @ ''@'' @ d) < USER_MAX_USERNAME" using e by (simp only: good_email_def)
    then show ?thesis unfolding snprintf_str_def by (intro take_all) linarith
  qed
  from inv have "daemon_inv (ws_daemon w)" by (simp add: wq_inv_def)
  from user_get_grow [OF this good_ok_email [OF e], of getpw pm] obtain r st where
    g: "user_get getpw pm (\<lambda>_. True) (ws_daemon w) (nm @ ''@'' @ d) = Some (r, st)" "daemon_inv st"
    "users_grow (ws_daemon w) st" "\<forall>a. r = Some a \<longrightarrow> dn_users st a \<noteq> None" by blast
  let ?w = "w\<lparr>ws_daemon := st\<rparr>"
  have inv1: "wq_inv ?w" by (rule wq_inv_daemon [OF inv g(2,3)])
  show ?thesis
  proof (cases r)
    case None
    with False g len inv1 show ?thesis by (simp add: queue_stage_one_def)
  next
    case (Some a)
    with g(4) obtain u where u: "dn_users st a = Some u" by blast
    show ?thesis
    proof (cases "u_processing u")
      case True
      with False g len inv1 Some u show ?thesis by (simp add: queue_stage_one_def)
    next
      case idle_user: False
      let ?st = "st\<lparr>dn_users := (dn_users st)(a \<mapsto> u\<lparr>u_processing := True\<rparr>)\<rparr>"
      let ?w2 = "w\<lparr>ws_daemon := ?st, ws_queue := a # ws_queue w, ws_queue_size := ws_queue_size w + 1\<rparr>"
      have nq: "a \<notin> set (ws_queue w)"
        using idle_unclaimed [of ?w a u OQueue] inv1 u idle_user by (simp add: wq_inv_def)
      have "claims_ok ?w2"
      proof (rule claims_ok_mark [of ?w a u ?w2 OQueue])
        show "claims_ok ?w" using inv1 by (simp add: wq_inv_def)
        show "claims ?w2 p b \<Longrightarrow> claims ?w p b \<or> p = OQueue \<and> b = a" for p b by (cases p) auto
      qed (use u idle_user in simp_all)
      moreover have "cursor_ok ?w2" using inv1 idle u by (auto simp: wq_inv_def cursor_ok_def)
      ultimately have "wq_inv ?w2"
        using inv1 False nq daemon_inv_processing [OF g(2) u] by (simp add: wq_inv_def queue_ok_def)
      moreover have "queue_stage_one getpw pm True w nm d = Some ?w2"
        using False g len Some u idle_user
        by (simp add: queue_stage_one_def queue_set_processing_def queue_push_def)
      ultimately show ?thesis by simp
    qed
  qed
qed

lemma queue_top_safe:
  assumes inv: "wq_inv w" and idle: "ws_ctl w = CTop"
  shows "safe (queue_top getpw pm w)"
proof -
  from inv have d: "daemon_inv (ws_daemon w)" and n: "list_all ok_email (ws_newusers w)" by (simp_all add: wq_inv_def)
  from queue_load_new_grow [OF d n, of getpw pm] obtain st where
    st: "queue_load_new getpw pm (ws_daemon w) (ws_newusers w) = Some st" "daemon_inv st" "users_grow (ws_daemon w) st" by blast
  let ?w = "w\<lparr>ws_daemon := st\<rparr>"
  have inv1: "wq_inv ?w" by (rule wq_inv_daemon [OF inv st(2,3)])
  have cl: "claims (?w\<lparr>ws_newusers := [], ws_ctl := CFor, ws_u := x, ws_l_userlist := y\<rparr>) p a = claims ?w p a"
    "claims (?w\<lparr>ws_newusers := [], ws_ctl := CFor\<rparr>) p a = claims ?w p a" for x y p a
    using idle by (cases p; simp)+
  have "wq_inv (?w\<lparr>ws_newusers := [], ws_ctl := CFor\<rparr>)"
    using inv1 by (simp add: wq_inv_defs cl busy_def)
  moreover have "wq_inv (?w\<lparr>ws_newusers := [], ws_ctl := CFor, ws_u := dl_head (dn_userlist st), ws_l_userlist := dl_head (dn_userlist st)\<rparr>)"
    using inv1 userlist_head_live [OF st(2)] by (simp add: wq_inv_defs cl busy_def)
  ultimately show ?thesis using st(1) by (simp add: queue_top_def Let_def)
qed

lemma queue_for_safe:
  assumes inv: "wq_inv w" and pc: "ws_ctl w = CFor"
  shows "safe (queue_for w)"
proof (cases "ws_u w")
  case None
  have "claims (w\<lparr>ws_ctl := CEnd\<rparr>) p a = claims w p a" for p a using pc by (cases p) simp_all
  then have "wq_inv (w\<lparr>ws_ctl := CEnd\<rparr>)" using inv None by (simp add: wq_inv_defs busy_def)
  with None show ?thesis by (simp add: queue_for_def)
next
  case (Some a)
  with wq_inv_cursor_live [OF inv] obtain u where u: "dn_users (ws_daemon w) a = Some u" by blast
  show ?thesis
  proof (cases "u_processing u")
    case True
    have "safe (queue_next w a)"
      using inv u by (intro queue_next_safe) (auto simp: wq_inv_def claims_ok_idle_ctl)
    with Some u True show ?thesis by (simp add: queue_for_def)
  next
    case False
    let ?w = "w\<lparr>ws_daemon := (ws_daemon w)\<lparr>dn_users := (dn_users (ws_daemon w))(a \<mapsto> u\<lparr>u_processing := True\<rparr>)\<rparr>, ws_ctl := CMarked\<rparr>"
    have "claims_ok ?w"
    proof (rule claims_ok_mark [of w a u ?w OCtl])
      show "claims ?w p b \<Longrightarrow> claims w p b \<or> p = OCtl \<and> b = a" for p b using Some pc by (cases p) auto
    qed (use inv u False in \<open>simp_all add: wq_inv_def\<close>)
    moreover have "cursor_ok ?w" using inv Some by (auto simp: wq_inv_def cursor_ok_def)
    ultimately have "wq_inv ?w"
      using inv daemon_inv_processing [of "ws_daemon w" a u True] u by (simp add: wq_inv_def queue_ok_def)
    with Some u False show ?thesis by (simp add: queue_for_def queue_set_processing_def)
  qed
qed

lemma queue_add_safe:
  assumes inv: "wq_inv w" and pc: "ws_ctl w = CPush"
  shows "safe (queue_add True w)"
proof -
  from inv pc obtain a where a: "ws_u w = Some a" by (auto simp: wq_inv_def cursor_ok_def)
  with wq_inv_cursor_live [OF inv] obtain u where u: "dn_users (ws_daemon w) a = Some u" by blast
  have cl: "claims w OCtl a" using a pc by simp
  from inv have ok: "claims_ok w" by (simp add: wq_inv_def)
  show ?thesis
  proof (cases "ws_queue_size w \<ge> ws_queue_max_size w")
    case True
    let ?w = "w\<lparr>ws_daemon := (ws_daemon w)\<lparr>dn_users := (dn_users (ws_daemon w))(a \<mapsto> u\<lparr>u_processing := False\<rparr>)\<rparr>, ws_ctl := CEnd\<rparr>"
    have "claims_ok ?w"
    proof (rule claims_ok_drop [OF ok cl])
      fix q b assume "claims ?w q b"
      then have "claims w q b \<and> q \<noteq> OCtl" using pc by (cases q) simp_all
      then show "claims w q b \<and> (q \<noteq> OCtl \<or> b \<noteq> a)" by simp
    qed simp
    moreover have "cursor_ok ?w" using inv by (auto simp: wq_inv_def cursor_ok_def)
    ultimately have "wq_inv ?w"
      using inv daemon_inv_processing [of "ws_daemon w" a u False] u by (simp add: wq_inv_def queue_ok_def)
    with True a u show ?thesis by (simp add: queue_add_def queue_set_processing_def)
  next
    case False
    let ?w = "queue_push True w a"
    have nq: "a \<notin> set (ws_queue w)"
      using ok cl unfolding claims_ok_def by (metis claims.simps(1) owner.distinct(3))
    have "claims_ok (?w\<lparr>ws_ctl := CFor\<rparr>)"
    proof (rule claims_ok_hand [OF ok cl])
      fix q b assume "claims (?w\<lparr>ws_ctl := CFor\<rparr>) q b"
      then show "claims w q b \<and> (q \<noteq> OCtl \<or> b \<noteq> a) \<or> q = OQueue \<and> b = a"
        by (cases q) (auto simp: queue_push_def)
    qed (simp add: queue_push_def)
    then have "safe (queue_next ?w a)"
      using inv u nq False by (intro queue_next_safe) (auto simp: wq_inv_def queue_ok_def queue_push_def)
    with False a show ?thesis by (simp add: queue_add_def)
  qed
qed

text \<open>Detecting lost users: the one place where the controller can go wrong.\<close>

lemma queue_marked_safe:
  assumes inv: "wq_inv w" and pc: "ws_ctl w = CMarked"
  shows "safe (queue_marked getpw w) \<or>
    (\<exists>a st. ws_u w = Some a \<and> user_verify getpw (ws_daemon w) a = Some (False, st) \<and> dn_users st = Map.empty \<and>
       queue_marked getpw w = None)"
proof -
  from inv pc obtain a where a: "ws_u w = Some a" by (auto simp: wq_inv_def cursor_ok_def)
  with wq_inv_cursor_live [OF inv] obtain u where u: "dn_users (ws_daemon w) a = Some u" by blast
  from inv have d: "daemon_inv (ws_daemon w)" and ok: "claims_ok w" by (simp_all add: wq_inv_def)
  have cl: "claims w OCtl a" using a pc by simp
  have push: "wq_inv (w\<lparr>ws_ctl := CPush\<rparr>)"
  proof -
    have "claims (w\<lparr>ws_ctl := CPush\<rparr>) p b = claims w p b" for p b using pc by (cases p) simp_all
    then show ?thesis using inv a by (simp add: wq_inv_defs busy_def)
  qed
  from daemon_user_key [OF d u] obtain b where b: "user_key (ws_daemon w) u = Some b" by blast
  then obtain n where n: "domain_name (ws_daemon w) (u_domain u) = Some n" by (auto simp: user_key_def)
  note verify = user_verify_spec [OF d u b n, of getpw]
  show ?thesis
  proof (cases "queue_maybe_lost u \<and> getpw (u_user u) n = None")
    case False
    then have "queue_marked getpw w = Some (w\<lparr>ws_ctl := CPush\<rparr>)"
      using a u verify(1) by (auto simp: queue_marked_def)
    with push show ?thesis by simp
  next
    case True
    from verify(2) [OF conjunct2 [OF True]] obtain st where st: "user_verify getpw (ws_daemon w) a = Some (False, st)" "daemon_inv st"
      "dn_users st = (dn_users (ws_daemon w))(a := None)" by blast
    have m: "queue_marked getpw w = queue_restart (w\<lparr>ws_daemon := st\<rparr>)"
      using a u True st(1) by (simp add: queue_marked_def)
    show ?thesis
    proof (cases "dl_head (dn_userlist st)")
      case None
      obtain us where "users_rep st us" using st(2) by (auto simp: daemon_inv_def)
      with None dll_rep_head [of "dn_userlist st" us] have "dn_users st = Map.empty"
        by (auto simp: users_rep_def split: list.splits)
      with m None a st(1) show ?thesis by (auto simp: queue_restart_def)
    next
      case (Some h)
      let ?w = "w\<lparr>ws_daemon := st, ws_u := Some h, ws_l_userlist := Some h\<rparr>"
      have "claims_ok (?w\<lparr>ws_ctl := CFor\<rparr>)"
      proof (rule claims_ok_drop [OF ok cl])
        fix q x assume "claims (?w\<lparr>ws_ctl := CFor\<rparr>) q x"
        then have "claims w q x \<and> q \<noteq> OCtl" by (cases q) simp_all
        then show "claims w q x \<and> (q \<noteq> OCtl \<or> x \<noteq> a)" by simp
      qed (simp add: st(3))
      then have "safe (queue_next ?w h)"
        using inv st(2) userlist_head_live [OF st(2) Some] by (intro queue_next_safe) (auto simp: wq_inv_def queue_ok_def)
      with m Some show ?thesis by (simp add: queue_restart_def Let_def)
    qed
  qed
qed

lemma queue_end_safe: "wq_inv w \<Longrightarrow> ws_ctl w = CEnd \<Longrightarrow> wq_inv (queue_end w)"
proof -
  assume inv: "wq_inv w" and pc: "ws_ctl w = CEnd"
  have "claims (queue_end w) p a = claims w p a" for p a using pc by (cases p) (simp_all add: queue_end_def)
  moreover have "busy (queue_end w) a = busy w a" for a by (simp add: busy_def queue_end_def)
  ultimately have "claims_ok (queue_end w)" using inv by (simp add: wq_inv_def claims_ok_def)
  with inv show ?thesis by (auto simp: wq_inv_def queue_ok_def cursor_ok_def queue_end_def)
qed

lemma queue_take_safe:
  assumes inv: "wq_inv w" and idle: "ws_workers w i = WIdle"
  shows "safe (queue_take i w)"
proof (cases "ws_queue w")
  case Nil
  with inv show ?thesis by (simp add: queue_take_def wq_inv_def queue_ok_def)
next
  case (Cons a q)
  let ?w = "w\<lparr>ws_queue := q, ws_queue_size := ws_queue_size w - 1, ws_queue_proc := ws_queue_proc w + 1, ws_workers := (ws_workers w)(i := WTaken a)\<rparr>"
  from inv have ok: "claims_ok w" "a \<notin> set q" using Cons by (simp_all add: wq_inv_def queue_ok_def)
  have cl: "claims w OQueue a" using Cons by simp
  have "claims_ok ?w"
  proof (rule claims_ok_hand [OF ok(1) cl])
    fix p b assume "claims ?w p b"
    then show "claims w p b \<and> (p \<noteq> OQueue \<or> b \<noteq> a) \<or> p = OWorker i \<and> b = a"
      using Cons ok(2) by (cases p) (auto split: if_splits)
  qed simp
  then have "wq_inv ?w" using inv Cons by (auto simp: wq_inv_def queue_ok_def cursor_ok_def)
  moreover have "ws_queue_size w \<noteq> 0" using inv Cons by (simp add: wq_inv_def queue_ok_def)
  ultimately show ?thesis using Cons by (simp add: queue_take_def queue_pop_def)
qed

lemma queue_process_safe:
  assumes inv: "wq_inv w" and a: "ws_workers w i = WTaken a" and env: "good_env pe"
  shows "safe (queue_process pe i a w)"
proof -
  from inv have ok: "claims_ok w" and d: "daemon_inv (ws_daemon w)" by (simp_all add: wq_inv_def)
  have cl: "claims w (OWorker i) a" using a by simp
  with claimed_live [OF ok] obtain u where u: "dn_users (ws_daemon w) a = Some u" by blast
  from env have e: "fs_fits (pe_fs pe)" "\<And>k. pe_alloc pe k" by (simp_all add: good_env_def)
  from user_poll_spec [OF d u e] obtain st s where st: "user_poll pe (ws_daemon w) a = Some st" "daemon_inv st"
    "dn_users st = (dn_users (ws_daemon w))(a \<mapsto> u\<lparr>u_userstore := Some s\<rparr>)" by blast
  from st(3) u have "users_grow (ws_daemon w) st" by (auto simp: users_grow_def)
  from wq_inv_daemon [OF inv st(2) this] have inv1: "wq_inv (w\<lparr>ws_daemon := st\<rparr>)" .
  let ?w = "w\<lparr>ws_daemon := st, ws_workers := (ws_workers w)(i := WPolled a)\<rparr>"
  have "claims ?w p b = claims (w\<lparr>ws_daemon := st\<rparr>) p b" for p b using a by (cases p) auto
  then have "wq_inv ?w" using inv1 by (simp add: wq_inv_defs busy_def)
  with st(1) show ?thesis by (simp add: queue_process_def)
qed

lemma queue_done_safe:
  assumes inv: "wq_inv w" and a: "ws_workers w i = WPolled a"
  shows "safe (queue_done i a w)"
proof -
  from inv have ok: "claims_ok w" and d: "daemon_inv (ws_daemon w)" by (simp_all add: wq_inv_def)
  have cl: "claims w (OWorker i) a" using a by simp
  with claimed_live [OF ok] obtain u where u: "dn_users (ws_daemon w) a = Some u" by blast
  let ?w = "w\<lparr>ws_daemon := (ws_daemon w)\<lparr>dn_users := (dn_users (ws_daemon w))(a \<mapsto> u\<lparr>u_processing := False\<rparr>)\<rparr>,
    ws_queue_proc := ws_queue_proc w - 1, ws_workers := (ws_workers w)(i := WIdle)\<rparr>"
  have "claims_ok ?w"
  proof (rule claims_ok_drop [OF ok cl])
    fix q b assume "claims ?w q b"
    then have "claims w q b \<and> q \<noteq> OWorker i" by (cases q) (auto split: if_splits)
    then show "claims w q b \<and> (q \<noteq> OWorker i \<or> b \<noteq> a)" by simp
  qed simp
  then have "wq_inv ?w"
    using inv daemon_inv_processing [OF d u, of False] by (auto simp: wq_inv_def queue_ok_def cursor_ok_def)
  with u show ?thesis by (simp add: queue_done_def queue_set_processing_def)
qed

lemma wq_step_inv:
  assumes inv: "wq_inv w" and step: "wq_step pm w r"
  shows "safe r \<or> (\<exists>a getpw st. ws_ctl w = CMarked \<and> ws_u w = Some a \<and> r = None \<and>
    user_verify getpw (ws_daemon w) a = Some (False, st) \<and> dn_users st = Map.empty)"
  using step
proof (cases rule: wq_step.cases)
  case (stage_one nm d getpw)
  with queue_stage_one_safe [OF inv] show ?thesis by blast
next
  case (top getpw)
  with queue_top_safe [OF inv] show ?thesis by blast
next
  case for_loop
  with queue_for_safe [OF inv] show ?thesis by blast
next
  case (marked getpw)
  with queue_marked_safe [OF inv, of getpw] show ?thesis by blast
next
  case push
  with queue_add_safe [OF inv] show ?thesis by blast
next
  case end_loop
  with queue_end_safe [OF inv] show ?thesis by simp
next
  case (newuser email)
  have "claims (w\<lparr>ws_newusers := email # ws_newusers w\<rparr>) p a = claims w p a" for p a by (cases p) simp_all
  with newuser inv show ?thesis by (simp add: queue_check_newuser_def wq_inv_defs busy_def)
next
  case (take i)
  with queue_take_safe [OF inv] show ?thesis by blast
next
  case (process i a pe)
  with queue_process_safe [OF inv] show ?thesis by blast
next
  case (finish i a)
  with queue_done_safe [OF inv] show ?thesis by blast
qed

lemma wq_reach_inv: "wq_reach pm mx w \<Longrightarrow> 0 \<le> mx \<Longrightarrow> wq_inv w"
proof (induction rule: wq_reach.induct)
  case start
  then show ?case by (rule wq_inv_start)
next
  case (step w w')
  with wq_step_inv [of w pm "Some w'"] show ?case by simp
qed

text \<open>A run that ends with the loss of the only user.\<close>

definition lost_1 :: wstate where
  "lost_1 = (wq_start 1)\<lparr>ws_newusers := queue_check_newuser True True [] ''bob@x.org''\<rparr>"

definition lost_2 :: wstate where
  "lost_2 = the (queue_top getpw_example 4096 lost_1)"

definition lost_3 :: wstate where
  "lost_3 = the (queue_for lost_2)"

lemma lost_3_stuck: "wq_reach 4096 1 lost_3 \<and> wq_step 4096 lost_3 None"
proof -
  have e: "ok_email ''bob@x.org''" by code_simp
  have "wq_step 4096 (wq_start 1) (Some lost_1)"
    using wq_step.newuser [OF e, of 4096 "wq_start 1"] by (simp add: lost_1_def wq_start_def)
  with wq_reach.start have r1: "wq_reach 4096 1 lost_1" by (rule wq_reach.step)
  then have i1: "wq_inv lost_1" by (rule wq_reach_inv) simp
  have c1: "ws_ctl lost_1 = CTop" by (simp add: lost_1_def wq_start_def)
  from queue_top_safe [OF i1 c1, of getpw_example 4096] have "queue_top getpw_example 4096 lost_1 = Some lost_2"
    by (auto simp: safe_def lost_2_def)
  with wq_step.top [OF c1, of 4096 getpw_example] r1 have r2: "wq_reach 4096 1 lost_2"
    by (metis wq_reach.step)
  then have i2: "wq_inv lost_2" by (rule wq_reach_inv) simp
  have c2: "ws_ctl lost_2 = CFor" by code_simp
  from queue_for_safe [OF i2 c2] have "queue_for lost_2 = Some lost_3" by (auto simp: safe_def lost_3_def)
  with wq_step.for_loop [OF c2, of 4096] r2 have r3: "wq_reach 4096 1 lost_3"
    by (metis wq_reach.step)
  have c3: "ws_ctl lost_3 = CMarked" by code_simp
  have "Option.is_none (queue_marked (\<lambda>_ _. None) lost_3)" by code_simp
  then have "queue_marked (\<lambda>_ _. None) lost_3 = None" by (simp add: Option.is_none_def)
  with wq_step.marked [OF c3, of 4096 "\<lambda>_ _. None"] r3 show ?thesis by metis
qed

section \<open>Properties\<close>




text \<open>
  The exception is real: with a single user on the list that the back end no longer knows, the
  controller drops the user, restarts at the head of the empty list and follows the \<open>next\<close> pointer of
  the null pointer.
\<close>

theorem queue_last_user_lost: "\<exists>w. wq_reach 4096 1 w \<and> wq_step 4096 w None"
  using lost_3_stuck by blast

section \<open>Witnesses\<close>

definition wq_example :: wstate where
  "wq_example = the (queue_stage_one getpw_example 4096 True (wq_start 1) ''bob'' ''x.org'')"

lemma wq_example_reach: "wq_reach 4096 1 wq_example"
proof -
  have e: "good_email (''bob'' @ ''@'' @ ''x.org'')" by code_simp
  have c: "ws_ctl (wq_start 1) = CTop" "ws_l_userlist (wq_start 1) = None" by (simp_all add: wq_start_def)
  from queue_stage_one_safe [OF wq_inv_start e c(1), of getpw_example 4096]
  have "queue_stage_one getpw_example 4096 True (wq_start 1) ''bob'' ''x.org'' = Some wq_example"
    by (auto simp: safe_def wq_example_def)
  with wq_step.stage_one [OF c e, of 4096 getpw_example] wq_reach.start show ?thesis by (metis wq_reach.step)
qed




end
