(* ===== verification/Vdb.thy ===== *)
theory Vdb
  imports User
begin

text \<open>
  The snapshot of the daemon's state (\<^verbatim>\<open>vusaged/vdb.c\<close>): \<open>vdb_save\<close> writes the domains and the
  users with their userstores and directories to a file when the daemon shuts down, \<open>vdb_load\<close>
  rebuilds them when it starts.

  The file is the list of the values written, one per \<^verbatim>\<open>vdb_write\<close>, each tagged with its type and
  a character buffer with its size; a read that finds another value than the one it asks for, or the
  end of the file, fails. \<open>VFault\<close> is an invalid memory access, \<open>VFail\<close> the result 0, with the file
  removed or closed.
\<close>

section \<open>Model\<close>

definition VDB_HEADER_ID :: string where
  "VDB_HEADER_ID = ''vDB''"

definition MAX_PW_PASS :: nat where
  "MAX_PW_PASS = 128"

definition MAX_PW_GECOS :: nat where
  "MAX_PW_GECOS = 48"

datatype vdb_field =
    VHeader string nat storage_t storage_t   \<comment> \<open>\<open>id\<close>, \<open>version\<close>, \<open>num_domains\<close>, \<open>num_users\<close>\<close>
  | VBuf nat string                          \<comment> \<open>a buffer of a size, holding a string\<close>
  | VStorage storage_t
  | VTime time_t
  | VInt int
  | VUid nat
  | VStat time_t                             \<comment> \<open>a \<open>struct stat\<close>, of which the modification time is used\<close>

datatype 'a vdb_result = VOk 'a | VFail | VFault

fun vdb_bind :: "'a vdb_result \<Rightarrow> ('a \<Rightarrow> 'b vdb_result) \<Rightarrow> 'b vdb_result" where
  "vdb_bind (VOk x) f = f x"
| "vdb_bind VFail f = VFail"
| "vdb_bind VFault f = VFault"

subsection \<open>Configuration\<close>

text \<open>The name of the file: none configured (\<open>Some None\<close>), or a syntax or memory error (\<open>None\<close>).\<close>

definition vdb_init :: "bool \<Rightarrow> config_t option \<Rightarrow> string option option" where
  "vdb_init ok config =
     (case config of
        None \<Rightarrow> None
      | Some c \<Rightarrow>
          (case config_fetch_by_name c ''Storage'' ''Filename'' of
             None \<Rightarrow> Some None
           | Some str \<Rightarrow> if str = [] then None else if ok then Some (Some str) else None))"

subsection \<open>Saving\<close>

text \<open>A string is copied into a zeroed buffer, when it is shorter than the buffer.\<close>

definition vdb_buf :: "nat \<Rightarrow> string \<Rightarrow> vdb_field list vdb_result" where
  "vdb_buf n s = (if length s \<ge> n then VFail else VOk [VBuf n s])"

text \<open>What follows the pieces \<open>xs\<close> of a record, in the order they are written.\<close>

fun vdb_seq :: "vdb_field list vdb_result list \<Rightarrow> vdb_field list vdb_result" where
  "vdb_seq [] = VOk []"
| "vdb_seq (x # xs) = vdb_bind x (\<lambda>a. vdb_bind (vdb_seq xs) (\<lambda>b. VOk (a @ b)))"

definition vdb_save_domain :: "domain_t \<Rightarrow> vdb_field list vdb_result" where
  "vdb_save_domain d =
     vdb_seq [vdb_buf DOMAIN_MAX_DOMAIN (dm_domain d), VOk [VStorage (dm_usage d)], VOk [VStorage (dm_count d)]]"

fun vdb_save_domains :: "nat \<Rightarrow> daemon \<Rightarrow> addr option \<Rightarrow> vdb_field list vdb_result" where
  "vdb_save_domains n st None = VOk []"
| "vdb_save_domains 0 st (Some a) = VFault"
| "vdb_save_domains (Suc n) st (Some a) =
     (case ds_domains st a of
        None \<Rightarrow> VFault
      | Some d \<Rightarrow> vdb_seq [vdb_save_domain d, vdb_save_domains n st (dl_next (ds_domainlist st) a)])"

text \<open>
  The password entry of the user; without one the numbers are written from a null pointer, which
  \<open>write\<close> refuses.
\<close>

definition vdb_save_pw :: "nat \<Rightarrow> vqpasswd option \<Rightarrow> vdb_field list vdb_result" where
  "vdb_save_pw path_max pw =
     (case pw of
        None \<Rightarrow> VFail
      | Some p \<Rightarrow>
          vdb_seq
            [vdb_buf USER_MAX_USERNAME (pw_name p), vdb_buf MAX_PW_PASS (pw_passwd p),
             VOk [VUid (pw_uid p)], VOk [VUid (pw_gid p)], VOk [VUid (pw_flags p)],
             vdb_buf MAX_PW_GECOS (pw_gecos p), vdb_buf path_max (pw_dir p), vdb_buf path_max (pw_shell p),
             vdb_buf MAX_PW_PASS (pw_clear_passwd p)])"

definition vdb_save_directory :: "nat \<Rightarrow> directory_t option \<Rightarrow> vdb_field list vdb_result" where
  "vdb_save_directory path_max d =
     (case d of
        None \<Rightarrow> VFault
      | Some d \<Rightarrow>
          vdb_seq
            [vdb_buf path_max (d_directory d), VOk [VTime (d_last_update d)], VOk [VStat (d_mtime d)],
             VOk [VStorage (d_usage d)], VOk [VStorage (d_count d)]])"

text \<open>\<open>lastauth\<close> of a userstore is never set, but for zeroing it.\<close>

definition vdb_save_store :: "nat \<Rightarrow> userstore_t option \<Rightarrow> vdb_field list vdb_result" where
  "vdb_save_store path_max store =
     (case store of
        None \<Rightarrow> VOk [VStat 0, VTime 0, VTime 0, VTime 0, VStorage 0, VStorage 0, VInt 0]
      | Some s \<Rightarrow>
          vdb_bind
            (vdb_seq
               (map (\<lambda>i. case us_directory s of
                           None \<Rightarrow> VFault
                         | Some cells \<Rightarrow> if length cells \<le> i then VFault
                                        else vdb_save_directory path_max (us_heap s (cells ! i)))
                  [0..<us_num s]))
            (\<lambda>dirs. VOk ([VStat (us_mtime s), VTime (us_last_updated s), VTime (us_time_taken s), VTime 0,
               VStorage (us_usage s), VStorage (us_count s), VInt (int (us_num s))] @ dirs)))"

definition vdb_save_user :: "nat \<Rightarrow> daemon \<Rightarrow> user_t \<Rightarrow> vdb_field list vdb_result" where
  "vdb_save_user path_max st u =
     (case ds_domains st (u_domain u) of
        None \<Rightarrow> VFault
      | Some d \<Rightarrow>
          vdb_seq
            [vdb_buf USER_MAX_USERNAME (u_user u), vdb_buf DOMAIN_MAX_DOMAIN (dm_domain d),
             vdb_buf path_max (u_home u), vdb_save_pw path_max (u_pw u), vdb_save_store path_max (u_userstore u)])"

fun vdb_save_users :: "nat \<Rightarrow> nat \<Rightarrow> daemon \<Rightarrow> addr option \<Rightarrow> vdb_field list vdb_result" where
  "vdb_save_users path_max n st None = VOk []"
| "vdb_save_users path_max 0 st (Some a) = VFault"
| "vdb_save_users path_max (Suc n) st (Some a) =
     (case dn_users st a of
        None \<Rightarrow> VFault
      | Some u \<Rightarrow> vdb_seq [vdb_save_user path_max st u, vdb_save_users path_max n st (dl_next (dn_userlist st) a)])"

text \<open>
  The whole snapshot. \<open>ok k\<close> is the success of the \<open>k\<close>-th write; a failure removes the file. \<open>n\<close>
  bounds the walks along the two lists.
\<close>

definition vdb_save :: "nat \<Rightarrow> (nat \<Rightarrow> bool) \<Rightarrow> nat \<Rightarrow> daemon \<Rightarrow> vdb_field list vdb_result" where
  "vdb_save path_max ok n st =
     vdb_bind
       (vdb_seq
          [VOk [VHeader VDB_HEADER_ID 3 (ds_domainlist_num st) (dn_userlist_num st)],
           vdb_save_domains n st (dl_head (ds_domainlist st)),
           vdb_save_users path_max n st (dl_head (dn_userlist st))])
       (\<lambda>fs. if list_all ok [0..<length fs] then VOk fs else VFail)"

subsection \<open>Loading\<close>

fun vdb_read_buf :: "nat \<Rightarrow> vdb_field list \<Rightarrow> (string \<times> vdb_field list) option" where
  "vdb_read_buf n (VBuf m s # fs) = (if m = n then Some (s, fs) else None)"
| "vdb_read_buf n _ = None"

fun vdb_read_storage :: "vdb_field list \<Rightarrow> (storage_t \<times> vdb_field list) option" where
  "vdb_read_storage (VStorage x # fs) = Some (x, fs)"
| "vdb_read_storage _ = None"

fun vdb_read_time :: "vdb_field list \<Rightarrow> (time_t \<times> vdb_field list) option" where
  "vdb_read_time (VTime x # fs) = Some (x, fs)"
| "vdb_read_time _ = None"

fun vdb_read_uid :: "vdb_field list \<Rightarrow> (nat \<times> vdb_field list) option" where
  "vdb_read_uid (VUid x # fs) = Some (x, fs)"
| "vdb_read_uid _ = None"

fun vdb_read_int :: "vdb_field list \<Rightarrow> (int \<times> vdb_field list) option" where
  "vdb_read_int (VInt x # fs) = Some (x, fs)"
| "vdb_read_int _ = None"

fun vdb_read_stat :: "vdb_field list \<Rightarrow> (time_t \<times> vdb_field list) option" where
  "vdb_read_stat (VStat x # fs) = Some (x, fs)"
| "vdb_read_stat _ = None"

text \<open>A read, with what happens when it fails and when the allocation for its value fails.\<close>

definition vdb_get :: "'a option \<Rightarrow> 'b vdb_result \<Rightarrow> ('a \<Rightarrow> 'b vdb_result) \<Rightarrow> 'b vdb_result" where
  "vdb_get r failed f = (case r of None \<Rightarrow> failed | Some x \<Rightarrow> f x)"

definition vdb_load_domain :: "(nat \<Rightarrow> bool) \<Rightarrow> daemon \<Rightarrow> vdb_field list \<Rightarrow> (daemon \<times> vdb_field list) vdb_result" where
  "vdb_load_domain al st fs =
     vdb_get (vdb_read_buf DOMAIN_MAX_DOMAIN fs) VFail (\<lambda>(name, fs).
     vdb_get (vdb_read_storage fs) VFail (\<lambda>(usage, fs).
     vdb_get (vdb_read_storage fs) VFail (\<lambda>(count, fs).
       case domain_load al st name of
         None \<Rightarrow> VFault
       | Some (None, st) \<Rightarrow> VFail
       | Some (Some a, st) \<Rightarrow>
           (case ds_domains st a of
              None \<Rightarrow> VFault
            | Some d \<Rightarrow>
                VOk (st\<lparr>ds_domains := (ds_domains st)(a \<mapsto> d\<lparr>dm_usage := usage, dm_count := count\<rparr>)\<rparr>, fs)))))"

fun vdb_load_domains :: "nat \<Rightarrow> (nat \<Rightarrow> nat \<Rightarrow> bool) \<Rightarrow> daemon \<Rightarrow> vdb_field list \<Rightarrow> (daemon \<times> vdb_field list) vdb_result" where
  "vdb_load_domains 0 al st fs = VOk (st, fs)"
| "vdb_load_domains (Suc n) al st fs =
     vdb_bind (vdb_load_domain (al n) st fs) (\<lambda>(st, fs). vdb_load_domains n al st fs)"

text \<open>
  The password entry is read into memory that has not been zeroed. A failure after which
  \<open>user_free\<close> is called before all six strings are set frees what the memory happened to hold.
\<close>

definition vdb_load_pw :: "(nat \<Rightarrow> bool) \<Rightarrow> nat \<Rightarrow> vdb_field list \<Rightarrow> (vqpasswd \<times> vdb_field list) vdb_result" where
  "vdb_load_pw al path_max fs =
     vdb_get (vdb_read_buf USER_MAX_USERNAME fs) VFail (\<lambda>(nm, fs). if \<not> al 8 then VFault else
     vdb_get (vdb_read_buf MAX_PW_PASS fs) VFault (\<lambda>(pass, fs). if \<not> al 9 then VFault else
     vdb_get (vdb_read_uid fs) VFault (\<lambda>(uid, fs).
     vdb_get (vdb_read_uid fs) VFault (\<lambda>(gid, fs).
     vdb_get (vdb_read_uid fs) VFault (\<lambda>(flags, fs).
     vdb_get (vdb_read_buf MAX_PW_GECOS fs) VFail (\<lambda>(gecos, fs). if \<not> al 10 then VFault else
     vdb_get (vdb_read_buf path_max fs) VFail (\<lambda>(dir, fs). if \<not> al 11 then VFault else
     vdb_get (vdb_read_buf path_max fs) VFail (\<lambda>(shell, fs). if \<not> al 12 then VFault else
     vdb_get (vdb_read_buf MAX_PW_PASS fs) VFault (\<lambda>(clear, fs). if \<not> al 13 then VFail else
       VOk (\<lparr>pw_name = nm, pw_passwd = pass, pw_uid = uid, pw_gid = gid, pw_flags = flags, pw_gecos = gecos,
             pw_dir = dir, pw_shell = shell, pw_clear_passwd = clear\<rparr>, fs))))))))))"

text \<open>The directories of a userstore; \<open>al\<close> gives the allocations of the directory and of the array.\<close>

definition vdb_load_directory ::
    "bool \<Rightarrow> bool \<Rightarrow> nat \<Rightarrow> userstore_t \<Rightarrow> vdb_field list \<Rightarrow> (userstore_t \<times> vdb_field list) vdb_result" where
  "vdb_load_directory ok1 ok2 path_max s fs =
     vdb_get (vdb_read_buf path_max fs) VFail (\<lambda>(path, fs).
     vdb_get (directory_alloc ok1 path) VFail (\<lambda>di.
     vdb_get (vdb_read_time fs) VFail (\<lambda>(t, fs).
     vdb_get (vdb_read_stat fs) VFail (\<lambda>(mtime, fs).
     vdb_get (vdb_read_storage fs) VFail (\<lambda>(usage, fs).
     vdb_get (vdb_read_storage fs) VFail (\<lambda>(count, fs).
       case userstore_add_directory ok2 s
              (di\<lparr>d_last_update := t, d_mtime := mtime, d_usage := usage, d_count := count\<rparr>) of
         None \<Rightarrow> VFault
       | Some s \<Rightarrow> VOk (s, fs)))))))"

fun vdb_load_directories ::
    "nat \<Rightarrow> (nat \<Rightarrow> bool) \<Rightarrow> nat \<Rightarrow> userstore_t \<Rightarrow> vdb_field list \<Rightarrow> (userstore_t \<times> vdb_field list) vdb_result" where
  "vdb_load_directories 0 al path_max s fs = VOk (s, fs)"
| "vdb_load_directories (Suc n) al path_max s fs =
     vdb_bind (vdb_load_directory (al (2 * n)) (al (2 * n + 1)) path_max s fs)
       (\<lambda>(s, fs). vdb_load_directories n al path_max s fs)"

definition vdb_load_store ::
    "(nat \<Rightarrow> bool) \<Rightarrow> nat \<Rightarrow> string \<Rightarrow> vdb_field list \<Rightarrow> (userstore_t \<times> vdb_field list) vdb_result" where
  "vdb_load_store al path_max home fs =
     (if \<not> al 14 then VFail else if \<not> al 15 then VFail else
      vdb_get (vdb_read_stat fs) VFail (\<lambda>(mtime, fs).
      vdb_get (vdb_read_time fs) VFail (\<lambda>(updated, fs).
      vdb_get (vdb_read_time fs) VFail (\<lambda>(taken, fs).
      vdb_get (vdb_read_time fs) VFail (\<lambda>(lastauth, fs).
      vdb_get (vdb_read_storage fs) VFail (\<lambda>(usage, fs).
      vdb_get (vdb_read_storage fs) VFail (\<lambda>(count, fs).
      vdb_get (vdb_read_int fs) VFail (\<lambda>(num, fs).
        vdb_load_directories (nat num) (\<lambda>i. al (18 + i)) path_max
          \<lparr>us_path = home, us_mtime = mtime, us_last_updated = updated, us_time_taken = taken, us_num = 0,
           us_directory = None, us_heap = Map.empty, us_brk = 0, us_usage = usage, us_count = count\<rparr> fs))))))))"

definition vdb_load_user ::
    "(nat \<Rightarrow> bool) \<Rightarrow> nat \<Rightarrow> daemon \<Rightarrow> vdb_field list \<Rightarrow> (daemon \<times> vdb_field list) vdb_result" where
  "vdb_load_user al path_max st fs =
     vdb_get (vdb_read_buf USER_MAX_USERNAME fs) VFail (\<lambda>(user, fs).
     vdb_get (vdb_read_buf DOMAIN_MAX_DOMAIN fs) VFail (\<lambda>(domain, fs).
     vdb_get (vdb_read_buf path_max fs) VFail (\<lambda>(home, fs).
       if \<not> al 0 then VFail else if \<not> al 1 then VFail else
       case domain_load (\<lambda>i. al (2 + i)) st domain of
         None \<Rightarrow> VFault
       | Some (None, st) \<Rightarrow> VFail
       | Some (Some dm, st) \<Rightarrow>
           if \<not> al 6 then VFail else if \<not> al 7 then VFail else
           vdb_bind (vdb_load_pw al path_max fs) (\<lambda>(pw, fs).
           vdb_bind (vdb_load_store al path_max home fs) (\<lambda>(s, fs).
             let a = ds_brk st;
                 u = \<lparr>u_user = user, u_home = home, u_pw = Some pw, u_domain = dm, u_userstore = Some s,
                      u_processing = False\<rparr>
             in case user_userlist_add (al 16) (al 17) (st\<lparr>dn_users := (dn_users st)(a \<mapsto> u), ds_brk := Suc a\<rparr>) a of
                  None \<Rightarrow> VFault
                | Some (False, st) \<Rightarrow> VFail
                | Some (True, st) \<Rightarrow> VOk (st, fs))))))"

fun vdb_load_users ::
    "nat \<Rightarrow> (nat \<Rightarrow> nat \<Rightarrow> bool) \<Rightarrow> nat \<Rightarrow> daemon \<Rightarrow> vdb_field list \<Rightarrow> (daemon \<times> vdb_field list) vdb_result" where
  "vdb_load_users 0 al path_max st fs = VOk (st, fs)"
| "vdb_load_users (Suc n) al path_max st fs =
     vdb_bind (vdb_load_user (al n) path_max st fs) (\<lambda>(st, fs). vdb_load_users n al path_max st fs)"

definition vdb_load ::
    "(nat \<Rightarrow> nat \<Rightarrow> bool) \<Rightarrow> nat \<Rightarrow> daemon \<Rightarrow> vdb_field list \<Rightarrow> daemon vdb_result" where
  "vdb_load al path_max st fs =
     (case fs of
        VHeader hid ver nd nu # fs \<Rightarrow>
          if take 3 hid \<noteq> VDB_HEADER_ID then VFail
          else if ver \<noteq> 3 then VFail
          else
            vdb_bind (vdb_load_domains (unat nd) al st fs) (\<lambda>(st, fs).
            vdb_bind (vdb_load_users (unat nu) al path_max st fs) (\<lambda>(st, fs). VOk st))
      | _ \<Rightarrow> VFail)"

section \<open>Fields of a snapshot\<close>

definition domain_fields :: "domain_t \<Rightarrow> vdb_field list" where
  "domain_fields d = [VBuf DOMAIN_MAX_DOMAIN (dm_domain d), VStorage (dm_usage d), VStorage (dm_count d)]"

definition pw_fields :: "nat \<Rightarrow> vqpasswd \<Rightarrow> vdb_field list" where
  "pw_fields path_max p =
     [VBuf USER_MAX_USERNAME (pw_name p), VBuf MAX_PW_PASS (pw_passwd p), VUid (pw_uid p), VUid (pw_gid p),
      VUid (pw_flags p), VBuf MAX_PW_GECOS (pw_gecos p), VBuf path_max (pw_dir p), VBuf path_max (pw_shell p),
      VBuf MAX_PW_PASS (pw_clear_passwd p)]"

definition directory_fields :: "nat \<Rightarrow> directory_t \<Rightarrow> vdb_field list" where
  "directory_fields path_max d =
     [VBuf path_max (d_directory d), VTime (d_last_update d), VStat (d_mtime d), VStorage (d_usage d), VStorage (d_count d)]"

text \<open>The directories of a userstore, in the order of its array.\<close>

definition store_dirs :: "userstore_t \<Rightarrow> directory_t list" where
  "store_dirs s = map (\<lambda>p. the (us_heap s p)) (us_items s)"

definition store_fields :: "nat \<Rightarrow> userstore_t option \<Rightarrow> vdb_field list" where
  "store_fields path_max store =
     (case store of
        None \<Rightarrow> [VStat 0, VTime 0, VTime 0, VTime 0, VStorage 0, VStorage 0, VInt 0]
      | Some s \<Rightarrow>
          [VStat (us_mtime s), VTime (us_last_updated s), VTime (us_time_taken s), VTime 0,
           VStorage (us_usage s), VStorage (us_count s), VInt (int (us_num s))] @
          concat (map (directory_fields path_max) (store_dirs s)))"

definition user_fields :: "nat \<Rightarrow> string \<Rightarrow> user_t \<Rightarrow> vdb_field list" where
  "user_fields path_max name u =
     [VBuf USER_MAX_USERNAME (u_user u), VBuf DOMAIN_MAX_DOMAIN name, VBuf path_max (u_home u)] @
     pw_fields path_max (the (u_pw u)) @ store_fields path_max (u_userstore u)"

text \<open>What fits the buffers.\<close>

definition pw_fits :: "nat \<Rightarrow> vqpasswd \<Rightarrow> bool" where
  "pw_fits path_max p \<longleftrightarrow> length (pw_name p) < USER_MAX_USERNAME \<and> length (pw_passwd p) < MAX_PW_PASS \<and>
     length (pw_gecos p) < MAX_PW_GECOS \<and> length (pw_dir p) < path_max \<and> length (pw_shell p) < path_max \<and>
     length (pw_clear_passwd p) < MAX_PW_PASS"

definition user_fits :: "nat \<Rightarrow> user_t \<Rightarrow> bool" where
  "user_fits path_max u \<longleftrightarrow> length (u_home u) < path_max \<and>
     (case u_pw u of None \<Rightarrow> False | Some p \<Rightarrow> pw_fits path_max p) \<and>
     (case u_userstore u of None \<Rightarrow> True | Some s \<Rightarrow> list_all (\<lambda>d. length (d_directory d) < path_max) (store_dirs s))"

lemma vdb_seq_ok: "vdb_seq (map (\<lambda>x. VOk (f x)) xs) = VOk (concat (map f xs))"
  by (induction xs) auto

lemma vdb_save_domain_ok: "length (dm_domain d) < DOMAIN_MAX_DOMAIN \<Longrightarrow> vdb_save_domain d = VOk (domain_fields d)"
  by (simp add: vdb_save_domain_def vdb_buf_def domain_fields_def)

lemma vdb_save_domains_ok:
  "dll_seg (ds_domainlist st) p c ds q None \<Longrightarrow> length ds \<le> n \<Longrightarrow>
   (\<forall>a\<in>set ds. \<exists>d. ds_domains st a = Some d \<and> length (dm_domain d) < DOMAIN_MAX_DOMAIN) \<Longrightarrow>
   vdb_save_domains n st c = VOk (concat (map (\<lambda>a. domain_fields (the (ds_domains st a))) ds))"
proof (induction ds arbitrary: p c n)
  case (Cons a ds)
  then obtain d m where d: "ds_domains st a = Some d" "length (dm_domain d) < DOMAIN_MAX_DOMAIN" "n = Suc m"
    by (cases n) auto
  from Cons.IH [of "Some a" "dl_next (ds_domainlist st) a" m] Cons.prems d show ?case
    by (simp add: vdb_save_domain_ok)
qed simp

lemma vdb_save_pw_ok: "pw_fits path_max p \<Longrightarrow> vdb_save_pw path_max (Some p) = VOk (pw_fields path_max p)"
  by (simp add: vdb_save_pw_def vdb_buf_def pw_fits_def pw_fields_def)

lemma vdb_save_directory_ok:
  "length (d_directory d) < path_max \<Longrightarrow> vdb_save_directory path_max (Some d) = VOk (directory_fields path_max d)"
  by (simp add: vdb_save_directory_def vdb_buf_def directory_fields_def)

lemma vdb_save_store_ok:
  assumes inv: "us_inv s" and fit: "list_all (\<lambda>d. length (d_directory d) < path_max) (store_dirs s)"
  shows "vdb_save_store path_max (Some s) = VOk (store_fields path_max (Some s))"
proof -
  have len: "length (us_items s) = us_num s" by (rule us_inv_length [OF inv])
  let ?f = "\<lambda>i. case us_directory s of None \<Rightarrow> VFault
     | Some cells \<Rightarrow> if length cells \<le> i then VFault else vdb_save_directory path_max (us_heap s (cells ! i))"
  have "?f i = VOk (directory_fields path_max (the (us_heap s (us_items s ! i))))" if i: "i < us_num s" for i
  proof -
    from us_inv_cells [OF inv i] obtain cells d where c: "us_directory s = Some cells" "i < length cells"
      "cells ! i = us_items s ! i" "us_heap s (us_items s ! i) = Some d" by blast
    have "store_dirs s ! i = d" using c(4) i len by (simp add: store_dirs_def)
    then have "length (d_directory d) < path_max"
      using fit i len by (auto simp: list_all_length store_dirs_def)
    with c show ?thesis by (simp add: vdb_save_directory_ok)
  qed
  then have "map ?f [0..<us_num s] = map (\<lambda>i. VOk (directory_fields path_max (the (us_heap s (us_items s ! i))))) [0..<us_num s]"
    by simp
  moreover have "map (\<lambda>i. directory_fields path_max (the (us_heap s (us_items s ! i)))) [0..<us_num s] =
      map (directory_fields path_max) (store_dirs s)"
    using len by (intro nth_equalityI) (simp_all add: store_dirs_def)
  ultimately have "vdb_seq (map ?f [0..<us_num s]) = VOk (concat (map (directory_fields path_max) (store_dirs s)))"
    using vdb_seq_ok [of "\<lambda>i. directory_fields path_max (the (us_heap s (us_items s ! i)))" "[0..<us_num s]"]
    by (simp only:)
  then show ?thesis by (simp only: vdb_save_store_def store_fields_def option.case vdb_bind.simps)
qed

lemma vdb_save_user_ok:
  assumes "user_fits path_max u" and "domain_name st (u_domain u) = Some name" and "length name < DOMAIN_MAX_DOMAIN"
    and "length (u_user u) < USER_MAX_USERNAME" and "list_all us_ok (case u_userstore u of None \<Rightarrow> [] | Some s \<Rightarrow> [s])"
  shows "vdb_save_user path_max st u = VOk (user_fields path_max name u)"
proof -
  from assms(1) obtain p where p: "u_pw u = Some p" "pw_fits path_max p" by (auto simp: user_fits_def split: option.splits)
  have "vdb_save_store path_max (u_userstore u) = VOk (store_fields path_max (u_userstore u))"
  proof (cases "u_userstore u")
    case (Some s)
    with assms(1,5) show ?thesis by (simp add: vdb_save_store_ok us_ok_def user_fits_def)
  qed (simp add: vdb_save_store_def store_fields_def)
  with assms p show ?thesis
    by (auto simp: vdb_save_user_def domain_name_def vdb_buf_def user_fields_def vdb_save_pw_ok user_fits_def)
qed

text \<open>A user on the list with the name of its domain.\<close>

definition user_entry :: "daemon \<Rightarrow> addr \<Rightarrow> user_t \<times> string" where
  "user_entry st a = (let u = the (dn_users st a) in (u, the (domain_name st (u_domain u))))"

lemma vdb_save_users_ok:
  "dll_seg (dn_userlist st) p c us q None \<Longrightarrow> length us \<le> n \<Longrightarrow>
   (\<forall>a\<in>set us. \<exists>u. dn_users st a = Some u \<and>
      vdb_save_user path_max st u = VOk (user_fields path_max (snd (user_entry st a)) u)) \<Longrightarrow>
   vdb_save_users path_max n st c = VOk (concat (map (\<lambda>(u, name). user_fields path_max name u) (map (user_entry st) us)))"
proof (induction us arbitrary: p c n)
  case (Cons a us)
  then obtain u m where u: "dn_users st a = Some u" "n = Suc m"
    "vdb_save_user path_max st u = VOk (user_fields path_max (snd (user_entry st a)) u)"
    by (cases n) auto
  moreover have "fst (user_entry st a) = u" using u(1) by (simp add: user_entry_def Let_def)
  ultimately show ?case
    using Cons.IH [of "Some a" "dl_next (dn_userlist st) a" m] Cons.prems by (simp add: case_prod_beta)
qed simp

section \<open>Loading what was saved\<close>

lemma vdb_load_pw_ok: "(\<And>i. al i) \<Longrightarrow> vdb_load_pw al path_max (pw_fields path_max p @ fs) = VOk (p, fs)"
  by (cases p) (simp add: vdb_load_pw_def pw_fields_def vdb_get_def)

lemma vdb_load_directory_ok:
  assumes "us_inv s"
  shows "\<exists>s'. vdb_load_directory True True path_max s (directory_fields path_max d @ fs) = VOk (s', fs) \<and> us_inv s' \<and>
    us_keeps s s' \<and> store_dirs s' = store_dirs s @ [d] \<and> us_mtime s' = us_mtime s \<and>
    us_last_updated s' = us_last_updated s \<and> us_time_taken s' = us_time_taken s"
proof -
  from userstore_add_directory_spec [OF assms, of d] obtain s' where
    a: "userstore_add_directory True s d = Some s'" "us_inv s'" "us_keeps s s'" by blast
  have "us_brk s \<notin> set (us_items s)" using assms by (auto simp: us_inv_def)
  moreover from parray.add_ok [of "us_directory s" "us_num s" "us_brk s"] assms a(1) have
    "us_items s' = us_items s @ [us_brk s]" "us_heap s' = (us_heap s)(us_brk s \<mapsto> d)" "us_mtime s' = us_mtime s"
    "us_last_updated s' = us_last_updated s" "us_time_taken s' = us_time_taken s"
    by (auto simp: userstore_add_directory_def us_inv_def us_items_def)
  ultimately have "store_dirs s' = store_dirs s @ [d]" by (simp add: store_dirs_def)
  moreover have "vdb_load_directory True True path_max s (directory_fields path_max d @ fs) = VOk (s', fs)"
    using a(1) by (cases d) (simp add: vdb_load_directory_def directory_fields_def vdb_get_def directory_alloc_def)
  ultimately show ?thesis
    using a \<open>us_mtime s' = us_mtime s\<close> \<open>us_last_updated s' = us_last_updated s\<close> \<open>us_time_taken s' = us_time_taken s\<close>
    by blast
qed

lemma vdb_load_directories_ok:
  "(\<And>i. al i) \<Longrightarrow> us_inv s \<Longrightarrow>
   \<exists>s'. vdb_load_directories (length ds) al path_max s (concat (map (directory_fields path_max) ds) @ fs) = VOk (s', fs) \<and>
     us_inv s' \<and> us_keeps s s' \<and> store_dirs s' = store_dirs s @ ds \<and> us_mtime s' = us_mtime s \<and>
     us_last_updated s' = us_last_updated s \<and> us_time_taken s' = us_time_taken s"
proof (induction ds arbitrary: s)
  case (Cons d ds)
  from vdb_load_directory_ok [OF Cons.prems(2), of path_max d "concat (map (directory_fields path_max) ds) @ fs"] obtain s1 where
    s1: "vdb_load_directory True True path_max s (directory_fields path_max d @ concat (map (directory_fields path_max) ds) @ fs) =
      VOk (s1, concat (map (directory_fields path_max) ds) @ fs)" "us_inv s1" "us_keeps s s1"
    "store_dirs s1 = store_dirs s @ [d]" "us_mtime s1 = us_mtime s" "us_last_updated s1 = us_last_updated s"
    "us_time_taken s1 = us_time_taken s" by blast
  from Cons.IH [OF Cons.prems(1) s1(2)] s1 Cons.prems(1) us_keeps_trans [of s s1] show ?case by auto
qed simp

text \<open>A loaded userstore is the saved one, up to the addresses of its directories.\<close>

definition same_store :: "userstore_t \<Rightarrow> userstore_t \<Rightarrow> bool" where
  "same_store s s' \<longleftrightarrow> store_dirs s' = store_dirs s \<and> us_usage s' = us_usage s \<and> us_count s' = us_count s \<and>
     us_mtime s' = us_mtime s \<and> us_last_updated s' = us_last_updated s \<and> us_time_taken s' = us_time_taken s"

lemma vdb_load_store_some:
  assumes al: "\<And>i. al i" and ok: "us_ok s"
  shows "\<exists>s'. vdb_load_store al path_max home (store_fields path_max (Some s) @ fs) = VOk (s', fs) \<and> us_ok s' \<and>
    same_store s s' \<and> us_path s' = home"
proof -
  let ?s = "\<lparr>us_path = home, us_mtime = us_mtime s, us_last_updated = us_last_updated s, us_time_taken = us_time_taken s,
     us_num = 0, us_directory = None, us_heap = Map.empty, us_brk = 0, us_usage = us_usage s, us_count = us_count s\<rparr>"
  from ok have len: "length (store_dirs s) = us_num s" by (simp add: store_dirs_def us_ok_def us_inv_length)
  have i: "us_inv ?s" "store_dirs ?s = []"
    by (simp_all add: us_inv_def us_items_def list_inv_def list_items_def store_dirs_def)
  from vdb_load_directories_ok [where al = "\<lambda>i. al (18 + i)" and ds = "store_dirs s" and path_max = path_max and fs = fs, OF al i(1)] len i(2)
  obtain s' where s': "vdb_load_directories (us_num s) (\<lambda>i. al (18 + i)) path_max ?s
      (concat (map (directory_fields path_max) (store_dirs s)) @ fs) = VOk (s', fs)"
    "us_inv s'" "us_keeps ?s s'" "store_dirs s' = store_dirs s" "us_mtime s' = us_mtime s"
    "us_last_updated s' = us_last_updated s" "us_time_taken s' = us_time_taken s" by auto
  have "us_directory s' = None \<Longrightarrow> us_usage s' = 0 \<and> us_count s' = 0"
  proof -
    assume "us_directory s' = None"
    then have "store_dirs s' = []" by (simp add: store_dirs_def us_items_def list_items_def)
    with s'(4) len have "us_num s = 0" by simp
    with ok have "us_directory s = None" by (auto simp: us_ok_def us_inv_def list_inv_def split: option.splits)
    with ok s'(3) show ?thesis by (simp add: us_ok_def us_keeps_def)
  qed
  with s' al show ?thesis
    by (auto simp: vdb_load_store_def store_fields_def vdb_get_def us_ok_def same_store_def us_keeps_def)
qed

subsection \<open>Domains\<close>

text \<open>A name shorter than the buffer is found when it is the name of a live domain.\<close>

lemma domain_name_cached:
  "users_inv st \<Longrightarrow> domain_name st a = Some n \<Longrightarrow> cache_lookup (ds_cache st) (domain_key n) = Some a"
  unfolding users_inv_def domains_inv_def domcache_inv_alt by blast

lemma domain_get_iff:
  assumes inv: "users_inv st" and len: "length name < DOMAIN_MAX_DOMAIN" and low: "lowercase name = name"
  shows "domain_get st name = Some a \<longleftrightarrow> domain_name st a = Some name"
proof
  assume "domain_get st name = Some a"
  moreover have "domains_inv st" using inv by (simp add: users_inv_def)
  ultimately obtain d where d: "ds_domains st a = Some d" "lowercase (dm_domain d) = lowercase name"
    using domain_get_live len by blast
  then have n: "domain_name st a = Some (dm_domain d)" by (simp add: domain_name_def)
  have "dm_domain d = name" using users_inv_lower [OF inv n] d(2) low by (metis (no_types))
  with n show "domain_name st a = Some name" by simp
next
  assume "domain_name st a = Some name"
  with domain_name_cached [OF inv] len show "domain_get st name = Some a" by (simp add: domain_get_key)
qed

lemma domain_name_inj:
  assumes "users_inv st" and "domain_name st a = Some n" and "domain_name st b = Some n"
  shows "a = b"
  using domain_name_cached [OF assms(1,2)] domain_name_cached [OF assms(1,3)] by simp

lemma domain_name_len: "users_inv st \<Longrightarrow> domain_name st a = Some n \<Longrightarrow> length n < DOMAIN_MAX_DOMAIN"
  unfolding users_inv_def domains_inv_def domcache_inv_alt by blast

lemma users_inv_totals:
  assumes inv: "users_inv st" and st': "st' = st\<lparr>ds_domains := ds\<rparr>" and n: "domain_name st' = domain_name st"
  shows "users_inv st'"
proof -
  have "domains_inv st'" using inv domains_inv_cong [OF _ _ _ _ n] st' by (simp add: users_inv_def)
  moreover have "user_ok st' = user_ok st" "user_key st' = user_key st"
    using st' n by (simp_all add: user_ok_def user_key_def fun_eq_iff)
  ultimately show ?thesis
    using inv st' n by (simp add: users_inv_def usercache_inv_def)
qed

lemma vdb_load_domain_ok:
  assumes inv: "users_inv st" and len: "length (dm_domain d) < DOMAIN_MAX_DOMAIN" and low: "lowercase (dm_domain d) = dm_domain d"
    and new: "dm_domain d \<notin> ran (domain_name st)" and al: "\<And>i. al i"
  shows "\<exists>st'. vdb_load_domain al st (domain_fields d @ fs) = VOk (st', fs) \<and> users_inv st' \<and>
    ran (ds_domains st') = insert d (ran (ds_domains st)) \<and> dn_users st' = dn_users st \<and>
    dn_userlist st' = dn_userlist st \<and> dn_userlist_num st' = dn_userlist_num st"
proof -
  from new domain_get_iff [OF inv len low] have none: "domain_get st (dm_domain d) = None"
    by (cases "domain_get st (dm_domain d)") (auto simp: ran_def)
  from users_domain_load [where al = al, OF inv len low al al al al] none obtain a st' where
    l: "domain_load al st (dm_domain d) = Some (Some a, st')" "users_inv st'" "domain_name st a = None"
    "dn_users st' = dn_users st" "dn_userlist st' = dn_userlist st" "dn_userlist_num st' = dn_userlist_num st"
    and doms: "ds_domains st' = (ds_domains st)(a \<mapsto> \<lparr>dm_domain = dm_domain d, dm_usage = 0, dm_count = 0\<rparr>)"
    by auto
  let ?st = "st'\<lparr>ds_domains := (ds_domains st)(a \<mapsto> d)\<rparr>"
  have "vdb_load_domain al st (domain_fields d @ fs) = VOk (?st, fs)"
    using l(1) doms by (cases d) (simp add: vdb_load_domain_def domain_fields_def vdb_get_def)
  moreover have "users_inv ?st"
    by (rule users_inv_totals [OF l(2) refl]) (simp add: domain_name_def doms fun_eq_iff)
  moreover have "ran (ds_domains ?st) = insert d (ran (ds_domains st))"
    using l(3) by (simp add: domain_name_def)
  ultimately show ?thesis using l by (intro exI [of _ ?st]) simp
qed

lemma ran_domain_name: "ran (domain_name st) = dm_domain ` ran (ds_domains st)"
  by (auto simp: ran_def domain_name_def)

lemma vdb_load_domains_ok:
  assumes al: "\<And>i j. al i j"
  shows "users_inv st \<Longrightarrow> distinct (map dm_domain ds) \<Longrightarrow>
   (\<forall>d\<in>set ds. length (dm_domain d) < DOMAIN_MAX_DOMAIN \<and> lowercase (dm_domain d) = dm_domain d \<and>
      dm_domain d \<notin> ran (domain_name st)) \<Longrightarrow>
   \<exists>st'. vdb_load_domains (length ds) al st (concat (map domain_fields ds) @ fs) = VOk (st', fs) \<and> users_inv st' \<and>
     ran (ds_domains st') = set ds \<union> ran (ds_domains st) \<and> dn_users st' = dn_users st \<and>
     dn_userlist st' = dn_userlist st \<and> dn_userlist_num st' = dn_userlist_num st"
proof (induction ds arbitrary: st)
  case (Cons d ds)
  from vdb_load_domain_ok [where al = "al (length ds)" and d = d and fs = "concat (map domain_fields ds) @ fs", OF Cons.prems(1)]
    Cons.prems(3) al obtain st1 where
    s1: "vdb_load_domain (al (length ds)) st (domain_fields d @ concat (map domain_fields ds) @ fs) =
      VOk (st1, concat (map domain_fields ds) @ fs)" "users_inv st1"
    "ran (ds_domains st1) = insert d (ran (ds_domains st))" "dn_users st1 = dn_users st"
    "dn_userlist st1 = dn_userlist st" "dn_userlist_num st1 = dn_userlist_num st" by auto
  have "dm_domain x \<notin> ran (domain_name st1)" if "x \<in> set ds" for x
  proof -
    have "dm_domain x \<noteq> dm_domain d" using that Cons.prems(2) by (metis distinct.simps(2) imageI list.map(2) list.set_map)
    with that Cons.prems(3) show ?thesis by (simp add: ran_domain_name s1(3))
  qed
  with Cons.IH [OF s1(2)] Cons.prems obtain st' where
    "vdb_load_domains (length ds) al st1 (concat (map domain_fields ds) @ fs) = VOk (st', fs)" "users_inv st'"
     "ran (ds_domains st') = set ds \<union> ran (ds_domains st1)" "dn_users st' = dn_users st1"
     "dn_userlist st' = dn_userlist st1" "dn_userlist_num st' = dn_userlist_num st1" by auto
  with s1 show ?case by auto
qed simp

subsection \<open>Users\<close>

definition store_totals :: "user_t \<Rightarrow> storage_t \<times> storage_t" where
  "store_totals u = (case u_userstore u of None \<Rightarrow> (0, 0) | Some s \<Rightarrow> userstore_use s)"

text \<open>What a loaded user \<open>u'\<close> has of the saved user \<open>u\<close>.\<close>

definition user_saved :: "user_t \<Rightarrow> user_t \<Rightarrow> bool" where
  "user_saved u u' \<longleftrightarrow> u_user u' = u_user u \<and> u_home u' = u_home u \<and> u_pw u' = u_pw u \<and> \<not> u_processing u' \<and>
     (\<exists>s'. u_userstore u' = Some s' \<and> us_path s' = u_home u \<and>
       (case u_userstore u of None \<Rightarrow> store_dirs s' = [] \<and> userstore_use s' = (0, 0) | Some s \<Rightarrow> same_store s s'))"

lemma user_saved_totals: "user_saved u u' \<Longrightarrow> store_totals u' = store_totals u"
  by (auto simp: user_saved_def store_totals_def same_store_def userstore_use_def split: option.splits)

lemma vdb_load_store_ok:
  assumes al: "\<And>i. al i" and ok: "list_all us_ok (case u_userstore u of None \<Rightarrow> [] | Some s \<Rightarrow> [s])"
  shows "\<exists>s'. vdb_load_store al path_max (u_home u) (store_fields path_max (u_userstore u) @ fs) = VOk (s', fs) \<and> us_ok s' \<and>
    us_path s' = u_home u \<and>
    (case u_userstore u of None \<Rightarrow> store_dirs s' = [] \<and> userstore_use s' = (0, 0) | Some s \<Rightarrow> same_store s s')"
proof (cases "u_userstore u")
  case None
  with al show ?thesis
    by (simp add: vdb_load_store_def store_fields_def vdb_get_def us_ok_def us_inv_def us_items_def list_inv_def
        list_items_def store_dirs_def userstore_use_def)
next
  case (Some s)
  with ok vdb_load_store_some [of al s path_max "u_home u" fs] al show ?thesis by auto
qed

text \<open>The address \<open>a\<close> of the daemon holds the entry \<open>(u, name)\<close>.\<close>

definition holds_entry :: "daemon \<Rightarrow> addr \<Rightarrow> user_t \<times> string \<Rightarrow> bool" where
  "holds_entry st a e \<longleftrightarrow> (\<exists>u'. dn_users st a = Some u' \<and> user_saved (fst e) u' \<and> domain_name st (u_domain u') = Some (snd e))"

definition entry_key :: "user_t \<times> string \<Rightarrow> string" where
  "entry_key e = u_user (fst e) @ ''@'' @ snd e"

definition entry_ok :: "user_t \<times> string \<Rightarrow> bool" where
  "entry_ok e \<longleftrightarrow> u_user (fst e) \<noteq> [] \<and> CHR ''@'' \<notin> set (u_user (fst e)) \<and> u_pw (fst e) \<noteq> None \<and>
     list_all us_ok (case u_userstore (fst e) of None \<Rightarrow> [] | Some s \<Rightarrow> [s]) \<and>
     length (entry_key e) < USER_MAX_USERNAME \<and> lowercase (entry_key e) = entry_key e"

definition loaded :: "daemon \<Rightarrow> addr list \<Rightarrow> (user_t \<times> string) list \<Rightarrow> bool" where
  "loaded st us es \<longleftrightarrow> users_inv st \<and> dll_rep (dn_userlist st) us \<and> set us = dom (dn_users st) \<and>
     dn_userlist_num st = of_nat (length us) \<and> list_all2 (holds_entry st) us es"

lemma loaded_cached:
  assumes l: "loaded st us es" and k: "take 1 k \<noteq> ''@''" and c: "cache_lookup (ds_cache st) k = Some a"
  shows "k \<in> set (map entry_key es)"
proof -
  from l users_inv_cached [OF _ c k] obtain u' where u': "dn_users st a = Some u'" "user_key st u' = Some k"
    by (auto simp: loaded_def)
  with l obtain i where i: "i < length us" "us ! i = a" unfolding loaded_def by (metis domI in_set_conv_nth)
  with l have "holds_entry st a (es ! i)" "i < length es" by (auto simp: loaded_def list_all2_conv_all_nth)
  with u' show ?thesis
    by (auto simp: holds_entry_def user_saved_def user_key_def entry_key_def intro!: image_eqI [of _ _ "es ! i"])
qed

lemma loaded_push:
  assumes l: "loaded st us es" and h: "holds_entry st' a e" and inv: "users_inv st'" and rep: "dll_rep (dn_userlist st') (a # us)"
    and num: "dn_userlist_num st' = dn_userlist_num st + 1" and users: "dn_users st' = (dn_users st)(a \<mapsto> u')" "dn_users st a = None"
    and doms: "ds_domains st' = ds_domains st"
  shows "loaded st' (a # us) (e # es)"
proof -
  have "holds_entry st' p x" if "holds_entry st p x" for p x
    using that users doms by (auto simp: holds_entry_def domain_name_def)
  then have "list_all2 (holds_entry st') us es"
    using l by (auto simp: loaded_def elim!: list_all2_mono)
  with l h inv rep num users show ?thesis by (auto simp: loaded_def)
qed

lemma vdb_load_user_ok:
  assumes l: "loaded st us es" and e: "entry_ok (u, name)" and new: "entry_key (u, name) \<notin> set (map entry_key es)"
    and dm: "name \<in> ran (domain_name st)" and al: "\<And>i. al i"
  shows "\<exists>st' a. vdb_load_user al path_max st (user_fields path_max name u @ fs) = VOk (st', fs) \<and>
    loaded st' (a # us) ((u, name) # es) \<and> ds_domains st' = ds_domains st"
proof -
  let ?k = "u_user u @ ''@'' @ name"
  from l have inv: "users_inv st" by (simp add: loaded_def)
  from dm obtain d where d: "domain_name st d = Some name" by (auto simp: ran_def)
  note len = domain_name_len [OF inv d] and low = users_inv_lower [OF inv d]
  have "domain_get st name = Some d" using d domain_get_iff [OF inv len low] by simp
  then have load: "domain_load x st name = Some (Some d, st)" for x by (simp add: domain_load_def)
  from e obtain p where p: "u_pw u = Some p" by (auto simp: entry_ok_def)
  from e have key: "u_user u \<noteq> []" "CHR ''@'' \<notin> set (u_user u)" "length ?k < USER_MAX_USERNAME" "lowercase ?k = ?k"
    and ok: "list_all us_ok (case u_userstore u of None \<Rightarrow> [] | Some s \<Rightarrow> [s])"
    by (simp_all add: entry_ok_def entry_key_def)
  have "take 1 ?k \<noteq> ''@''" using key(1,2) by (cases "u_user u") auto
  with new loaded_cached [OF l] have none: "cache_lookup (ds_cache st) ?k = None"
    by (cases "cache_lookup (ds_cache st) ?k") (auto simp: entry_key_def)
  from vdb_load_store_ok [where al = al and u = u and path_max = path_max and fs = fs, OF al ok] obtain s' where
    s': "vdb_load_store al path_max (u_home u) (store_fields path_max (u_userstore u) @ fs) = VOk (s', fs)" "us_ok s'"
    "us_path s' = u_home u"
    "case u_userstore u of None \<Rightarrow> store_dirs s' = [] \<and> userstore_use s' = (0, 0) | Some s \<Rightarrow> same_store s s'" by blast
  let ?u = "\<lparr>u_user = u_user u, u_home = u_home u, u_pw = Some p, u_domain = d, u_userstore = Some s', u_processing = False\<rparr>"
  have k: "user_key st ?u = Some ?k" using d by (simp add: user_key_def)
  from users_userlist_add [where u = ?u, OF inv _ _ _ k key(3,4) none, of us] key(1,2) s'(2) l obtain st' where
    st': "user_userlist_add True True (st\<lparr>dn_users := (dn_users st)(ds_brk st \<mapsto> ?u), ds_brk := Suc (ds_brk st)\<rparr>) (ds_brk st) =
      Some (True, st')" "users_inv st'" "dll_rep (dn_userlist st') (ds_brk st # us)"
    "dn_userlist_num st' = dn_userlist_num st + 1" "dn_users st' = (dn_users st)(ds_brk st \<mapsto> ?u)"
    "ds_domains st' = ds_domains st" by (auto simp: loaded_def)
  have "vdb_load_user al path_max st (user_fields path_max name u @ fs) = VOk (st', fs)"
    using al load p s'(1) st'(1) vdb_load_pw_ok [of al path_max p] 
    by (simp add: vdb_load_user_def user_fields_def vdb_get_def)
  moreover have "holds_entry st' (ds_brk st) (u, name)"
    using st'(5,6) s'(3,4) d p by (simp add: holds_entry_def user_saved_def domain_name_def)
  moreover have "dn_users st (ds_brk st) = None" using inv by (simp add: users_inv_def)
  ultimately show ?thesis
    using loaded_push [OF l _ st'(2-5) _ st'(6)] st'(6) by blast
qed

lemma vdb_load_users_ok:
  assumes al: "\<And>i j. al i j"
  shows "loaded st us es \<Longrightarrow> list_all entry_ok xs \<Longrightarrow> distinct (map entry_key (xs @ es)) \<Longrightarrow>
   snd ` set xs \<subseteq> ran (domain_name st) \<Longrightarrow>
   \<exists>st' us'. vdb_load_users (length xs) al path_max st (concat (map (\<lambda>(u, name). user_fields path_max name u) xs) @ fs) =
      VOk (st', fs) \<and> loaded st' us' (rev xs @ es) \<and> ds_domains st' = ds_domains st"
proof (induction xs arbitrary: st us es)
  case (Cons e xs)
  obtain u name where e: "e = (u, name)" by (cases e)
  let ?r = "concat (map (\<lambda>(u, name). user_fields path_max name u) xs) @ fs"
  from vdb_load_user_ok [where al = "al (length xs)" and path_max = path_max and fs = ?r and u = u and name = name, OF Cons.prems(1)]
    Cons.prems(2-4) al e obtain st1 a where
    s1: "vdb_load_user (al (length xs)) path_max st (user_fields path_max name u @ ?r) = VOk (st1, ?r)"
    "loaded st1 (a # us) (e # es)" "ds_domains st1 = ds_domains st" by auto
  have "domain_name st1 = domain_name st" by (simp add: domain_name_def s1(3) fun_eq_iff)
  with Cons.IH [OF s1(2)] Cons.prems obtain st' us' where
    "vdb_load_users (length xs) al path_max st1 ?r = VOk (st', fs)" "loaded st' us' (rev xs @ e # es)"
    "ds_domains st' = ds_domains st1" by auto
  with s1 e show ?case by auto
qed auto

subsection \<open>The books of a loaded state\<close>

definition entry_totals :: "daemon \<Rightarrow> addr \<Rightarrow> user_t \<times> string \<Rightarrow> bool" where
  "entry_totals st a e \<longleftrightarrow> (\<exists>u'. dn_users st a = Some u' \<and> store_totals u' = store_totals (fst e) \<and>
     domain_name st (u_domain u') = Some (snd e))"

lemma owned_sum_entries:
  assumes inv: "users_inv st" and d: "domain_name st d = Some n" and es: "list_all2 (entry_totals st) us es"
  shows "owned_sum us (user_own st) d (f \<circ> user_contrib st) =
    sum_list (map (\<lambda>e. if snd e = n then f (store_totals (fst e)) else 0) es)"
  using es
proof (induction rule: list_all2_induct)
  case (Cons a us e es)
  then obtain u' where u': "dn_users st a = Some u'" "store_totals u' = store_totals (fst e)"
    "domain_name st (u_domain u') = Some (snd e)" by (auto simp: entry_totals_def)
  then have "user_own st a = Some d \<longleftrightarrow> snd e = n"
    using d domain_name_inj [OF inv, of "u_domain u'" n d] by (auto simp: user_own_def)
  moreover have "user_contrib st a = store_totals (fst e)"
    using u'(1,2) by (simp add: user_contrib_def store_totals_def)
  ultimately show ?case using Cons.IH by (simp add: owned_sum_Cons)
qed (simp add: owned_sum_def)

lemma user_entry_totals:
  assumes inv: "users_inv st" and us: "set us \<subseteq> dom (dn_users st)"
  shows "list_all2 (entry_totals st) us (map (user_entry st) us)"
proof -
  have "entry_totals st a (user_entry st a)" if "a \<in> set us" for a
  proof -
    from that us obtain u where u: "dn_users st a = Some u" by blast
    with users_inv_domain [OF inv u] show ?thesis by (auto simp: entry_totals_def user_entry_def Let_def)
  qed
  then show ?thesis by (simp add: list_all2_conv_all_nth)
qed

lemma user_entry_ok:
  assumes inv: "users_inv st" and u: "dn_users st a = Some u" and fit: "user_fits path_max u"
  shows "entry_ok (user_entry st a) \<and> user_key st u = Some (entry_key (user_entry st a)) \<and>
    vdb_save_user path_max st u = VOk (user_fields path_max (snd (user_entry st a)) u) \<and>
    fst (user_entry st a) = u \<and> snd (user_entry st a) \<in> ran (domain_name st)"
proof -
  from users_inv_domain [OF inv u] obtain n where n: "domain_name st (u_domain u) = Some n" by blast
  with u have e: "user_entry st a = (u, n)" by (simp add: user_entry_def)
  have key: "user_key st u = Some (entry_key (u, n))" using n by (simp add: user_key_def entry_key_def)
  with users_inv_ok [OF inv u] have ok: "length (entry_key (u, n)) < USER_MAX_USERNAME" "lowercase (entry_key (u, n)) = entry_key (u, n)"
    "u_user u \<noteq> []" "CHR ''@'' \<notin> set (u_user u)" "list_all us_ok (case u_userstore u of None \<Rightarrow> [] | Some s \<Rightarrow> [s])"
    unfolding user_ok_def by auto
  have "u_pw u \<noteq> None" using fit by (auto simp: user_fits_def split: option.splits)
  with ok have "entry_ok (u, n)" by (simp add: entry_ok_def)
  moreover have "length (u_user u) < USER_MAX_USERNAME" using ok(1) by (simp add: entry_key_def)
  ultimately show ?thesis
    using vdb_save_user_ok [OF fit n domain_name_len [OF inv n] _ ok(5)] key n e by (auto simp: ran_def)
qed

lemma entry_keys_distinct:
  assumes inv: "users_inv st" and us: "distinct us" "set us \<subseteq> dom (dn_users st)"
    and fit: "\<forall>a u. dn_users st a = Some u \<longrightarrow> user_fits path_max u"
  shows "distinct (map entry_key (map (user_entry st) us))"
proof -
  have "a = b" if ab: "a \<in> set us" "b \<in> set us" "entry_key (user_entry st a) = entry_key (user_entry st b)" for a b
  proof -
    from ab us obtain u v where u: "dn_users st a = Some u" and v: "dn_users st b = Some v" by blast
    from users_inv_key [OF inv u] users_inv_key [OF inv v] user_entry_ok [OF inv u] user_entry_ok [OF inv v] fit u v ab(3)
    show "a = b" by (metis option.inject)
  qed
  with us(1) show ?thesis by (simp add: distinct_map inj_on_def)
qed

text \<open>The state that holds the entries of \<open>st\<close>, and the same domains, is well formed.\<close>

lemma loaded_daemon_inv:
  assumes st: "users_inv st" "users_rep st us" and l: "loaded st' us' (rev (map (user_entry st) us))"
    and doms: "ran (ds_domains st') = ran (ds_domains st)"
  shows "daemon_inv st'"
proof -
  from l have inv': "users_inv st'" by (simp add: loaded_def)
  have holds: "list_all2 (entry_totals st') us' (rev (map (user_entry st) us))"
    using l user_saved_totals by (auto simp: loaded_def holds_entry_def entry_totals_def elim!: list_all2_mono)
  have here: "list_all2 (entry_totals st) us (map (user_entry st) us)"
    using st by (intro user_entry_totals) (auto simp: users_rep_def)
  have "x = owned_sum us' (user_own st') d (fst \<circ> user_contrib st') \<and> y = owned_sum us' (user_own st') d (snd \<circ> user_contrib st')"
    if b: "domain_balance st' d = Some (x, y)" for d x y
  proof -
    from b obtain r where r: "ds_domains st' d = Some r" "x = dm_usage r" "y = dm_count r" by (auto simp: domain_balance_def)
    with doms obtain d0 where d0: "ds_domains st d0 = Some r" by (auto simp: ran_def)
    have names: "domain_name st' d = Some (dm_domain r)" "domain_name st d0 = Some (dm_domain r)"
      using r d0 by (simp_all add: domain_name_def)
    have "owned_sum us' (user_own st') d (f \<circ> user_contrib st') = owned_sum us (user_own st) d0 (f \<circ> user_contrib st)"
      for f :: "storage_t \<times> storage_t \<Rightarrow> storage_t"
      unfolding owned_sum_entries [OF inv' names(1) holds] owned_sum_entries [OF st(1) names(2) here]
      by (simp add: rev_map [symmetric] sum_list_rev)
    moreover have "x = owned_sum us (user_own st) d0 (fst \<circ> user_contrib st) \<and> y = owned_sum us (user_own st) d0 (snd \<circ> user_contrib st)"
      using st(2) d0 r by (simp add: users_rep_def balanced_def domain_balance_def)
    ultimately show ?thesis by simp
  qed
  then have "balanced (domain_balance st') us' (user_own st') (user_contrib st')" by (simp add: balanced_def)
  with l have "users_rep st' us'" by (simp add: users_rep_def loaded_def)
  with inv' show ?thesis by (auto simp: daemon_inv_iff)
qed

lemma domain_get_use_live:
  assumes inv: "users_inv st" and d: "ds_domains st a = Some d" and n: "dm_domain d = lowercase name"
  shows "domain_get_use st name = Some (Some (dm_usage d, dm_count d))"
proof -
  have nm: "domain_name st a = Some (lowercase name)" using d n by (simp add: domain_name_def)
  from domain_name_len [OF inv nm] have "length name < DOMAIN_MAX_DOMAIN" by simp
  with domain_name_cached [OF inv nm] d show ?thesis
    by (simp add: domain_get_use_def domain_get_key domain_key_def)
qed

lemma domain_get_use_none:
  assumes inv: "users_inv st" and len: "length name < DOMAIN_MAX_DOMAIN" and n: "lowercase name \<notin> dm_domain ` ran (ds_domains st)"
  shows "domain_get_use st name = Some None"
proof -
  have "domain_get st name = None"
  proof (cases "domain_get st name")
    case (Some a)
    have "domain_get st (lowercase name) = Some a" using Some len by (simp add: domain_get_key domain_key_def)
    with domain_get_iff [OF inv, of "lowercase name" a] len have "domain_name st a = Some (lowercase name)" by simp
    with n show ?thesis unfolding ran_domain_name [symmetric] by (metis ranI)
  qed simp
  then show ?thesis by (simp add: domain_get_use_def)
qed

lemma domain_get_use_ran:
  assumes inv: "users_inv st" "users_inv st'" and doms: "ran (ds_domains st') = ran (ds_domains st)"
    and len: "length name < DOMAIN_MAX_DOMAIN"
  shows "domain_get_use st' name = domain_get_use st name"
proof (cases "lowercase name \<in> dm_domain ` ran (ds_domains st)")
  case True
  then obtain r where r: "r \<in> ran (ds_domains st)" "dm_domain r = lowercase name" by auto
  from r(1) obtain a where "ds_domains st a = Some r" by (auto simp: ran_def)
  moreover from r(1) obtain a' where "ds_domains st' a' = Some r" unfolding doms [symmetric] by (auto simp: ran_def)
  ultimately show ?thesis using r(2) domain_get_use_live inv by metis
next
  case False
  with domain_get_use_none inv doms len show ?thesis by metis
qed

lemma user_get_use_live:
  assumes "users_inv st" and "dn_users st a = Some u" and "user_key st u = Some k"
  shows "user_get_use st k = Some (case u_userstore u of None \<Rightarrow> UseWaiting | Some s \<Rightarrow> case userstore_use s of (x, y) \<Rightarrow> Use x y)"
proof -
  from users_inv_key [OF assms(1,2)] assms(3) have "cache_lookup (ds_cache st) k = Some a" by auto
  with assms(2) show ?thesis by (simp add: user_get_use_def)
qed

lemma user_get_use_unknown:
  assumes "users_inv st" and "take 1 k \<noteq> ''@''" and "\<And>a u. dn_users st a = Some u \<Longrightarrow> user_key st u \<noteq> Some k"
  shows "user_get_use st k = Some UseUnknown"
  using users_inv_cached [OF assms(1) _ assms(2)] assms(3) by (auto simp: user_get_use_def split: option.splits)

subsection \<open>The whole file\<close>

lemma list_of_ran: "set xs = dom m \<Longrightarrow> set (map (\<lambda>a. the (m a)) xs) = ran m"
  by (force simp: ran_def dom_def image_def)

lemma vdb_save_fields:
  assumes inv: "users_inv st" and rep: "users_rep st us" and fit: "\<forall>a u. dn_users st a = Some u \<longrightarrow> user_fits path_max u"
    and small: "card (dom (ds_domains st)) \<le> n" "card (dom (dn_users st)) \<le> n" and ok: "\<forall>k. ok k"
  shows "\<exists>ds. set ds = ran (ds_domains st) \<and> distinct (map dm_domain ds) \<and> length ds \<le> n \<and> length us \<le> n \<and>
    vdb_save path_max ok n st = VOk (VHeader VDB_HEADER_ID 3 (of_nat (length ds)) (of_nat (length us)) #
      concat (map domain_fields ds) @ concat (map (\<lambda>(u, name). user_fields path_max name u) (map (user_entry st) us)))"
proof -
  from inv obtain ds where ds: "dll_rep (ds_domainlist st) ds" "set ds = dom (ds_domains st)"
    "ds_domainlist_num st = of_nat (length ds)" by (auto simp: users_inv_def domains_inv_def domlist_inv_def)
  from rep have us: "dll_rep (dn_userlist st) us" "set us = dom (dn_users st)" "dn_userlist_num st = of_nat (length us)"
    by (simp_all add: users_rep_def)
  have len: "length ds \<le> n" "length us \<le> n"
    using small ds(1,2) us(1,2) by (simp_all add: dll_rep_def flip: distinct_card)
  let ?ds = "map (\<lambda>a. the (ds_domains st a)) ds"
  have live: "\<exists>d. ds_domains st a = Some d \<and> length (dm_domain d) < DOMAIN_MAX_DOMAIN" if "a \<in> set ds" for a
  proof -
    from that ds(2) obtain d where d: "ds_domains st a = Some d" by auto
    with domain_name_len [OF inv, of a "dm_domain d"] show ?thesis by (simp add: domain_name_def)
  qed
  from ds(1) obtain q where q: "dll_seg (ds_domainlist st) None (dl_head (ds_domainlist st)) ds q None" by (auto simp: dll_rep_def)
  from us(1) obtain r where r: "dll_seg (dn_userlist st) None (dl_head (dn_userlist st)) us r None" by (auto simp: dll_rep_def)
  have "vdb_save_domains n st (dl_head (ds_domainlist st)) = VOk (concat (map domain_fields ?ds))"
    using vdb_save_domains_ok [OF q len(1)] live by (simp add: comp_def)
  moreover have "\<exists>u. dn_users st a = Some u \<and> vdb_save_user path_max st u = VOk (user_fields path_max (snd (user_entry st a)) u)"
    if "a \<in> set us" for a
    using that us(2) user_entry_ok [OF inv] fit by blast
  ultimately have "vdb_save path_max ok n st = VOk (VHeader VDB_HEADER_ID 3 (of_nat (length ?ds)) (of_nat (length us)) #
      concat (map domain_fields ?ds) @ concat (map (\<lambda>(u, name). user_fields path_max name u) (map (user_entry st) us)))"
    using vdb_save_users_ok [OF r len(2), of path_max] ok ds(3) us(3) by (simp add: vdb_save_def list_all_iff)
  moreover have "a = b" if ab: "a \<in> set ds" "b \<in> set ds" "dm_domain (the (ds_domains st a)) = dm_domain (the (ds_domains st b))" for a b
  proof -
    from live [OF ab(1)] live [OF ab(2)] have "domain_name st a = Some (dm_domain (the (ds_domains st a)))"
      "domain_name st b = Some (dm_domain (the (ds_domains st b)))" by (auto simp: domain_name_def)
    with domain_name_inj [OF inv] ab(3) show ?thesis by metis
  qed
  then have "distinct (map dm_domain ?ds)" using ds(1) by (simp add: distinct_map inj_on_def dll_rep_def)
  ultimately show ?thesis
    using len list_of_ran [OF ds(2)] by (intro exI [of _ ?ds]) (simp only: length_map)
qed

lemma vdb_load_fields:
  assumes inv: "users_inv st" and rep: "users_rep st us" and fit: "\<forall>a u. dn_users st a = Some u \<longrightarrow> user_fits path_max u"
    and ds: "set ds = ran (ds_domains st)" "distinct (map dm_domain ds)"
    and small: "length ds < 2 ^ 64" "length us < 2 ^ 64" and al: "\<And>i j. al i j"
  shows "\<exists>st' us'. vdb_load al path_max daemon_start (VHeader VDB_HEADER_ID 3 (of_nat (length ds)) (of_nat (length us)) #
      concat (map domain_fields ds) @ concat (map (\<lambda>(u, name). user_fields path_max name u) (map (user_entry st) us))) = VOk st' \<and>
    loaded st' us' (rev (map (user_entry st) us)) \<and> ran (ds_domains st') = ran (ds_domains st)"
proof -
  let ?es = "map (user_entry st) us"
  let ?uf = "concat (map (\<lambda>(u, name). user_fields path_max name u) ?es)"
  have names: "length (dm_domain d) < DOMAIN_MAX_DOMAIN \<and> lowercase (dm_domain d) = dm_domain d" if d: "d \<in> set ds" for d
  proof -
    from d ds(1) obtain a where "domain_name st a = Some (dm_domain d)" by (auto simp: ran_def domain_name_def)
    then show ?thesis using domain_name_len [OF inv] users_inv_lower [OF inv] by blast
  qed
  have start: "dn_users daemon_start = Map.empty" "dll_rep (dn_userlist daemon_start) []" "dn_userlist_num daemon_start = 0"
    "ds_domains daemon_start = Map.empty" by (simp_all add: daemon_start_def)
  from vdb_load_domains_ok [where al = al and ds = ds and fs = ?uf and st = daemon_start, OF al daemon_users_inv [OF daemon_inv_start] ds(2)]
    names start(4) obtain st1 where
    st1: "vdb_load_domains (length ds) al daemon_start (concat (map domain_fields ds) @ ?uf) = VOk (st1, ?uf)" "users_inv st1"
    "ran (ds_domains st1) = set ds" "dn_users st1 = dn_users daemon_start" "dn_userlist st1 = dn_userlist daemon_start"
    "dn_userlist_num st1 = dn_userlist_num daemon_start" by (auto simp: ran_domain_name)
  have "loaded st1 [] []" using st1 start by (simp add: loaded_def)
  moreover have us: "distinct us" "set us \<subseteq> dom (dn_users st)" using rep by (auto simp: users_rep_def dll_rep_def)
  moreover have "entry_ok e \<and> snd e \<in> ran (domain_name st1)" if "e \<in> set ?es" for e
  proof -
    from that us(2) obtain a u where e: "e = user_entry st a" and u: "dn_users st a = Some u" by auto
    from fit u have "user_fits path_max u" by blast
    from user_entry_ok [OF inv u this] e st1(3) ds(1) show ?thesis by (simp add: ran_domain_name)
  qed
  then have "list_all entry_ok ?es" "snd ` set ?es \<subseteq> ran (domain_name st1)" by (simp_all only: list_all_iff) blast+
  ultimately obtain st' us' where
    st': "vdb_load_users (length us) al path_max st1 ?uf = VOk (st', [])" "loaded st' us' (rev ?es)"
    "ds_domains st' = ds_domains st1"
    using vdb_load_users_ok [where al = al and st = st1 and us = "[]" and es = "[]" and xs = ?es and fs = "[]" and path_max = path_max, OF al]
      entry_keys_distinct [OF inv us fit] by auto
  have "unat (of_nat (length ds) :: storage_t) = length ds" "unat (of_nat (length us) :: storage_t) = length us"
    using small by (simp_all add: unsigned_of_nat take_bit_nat_eq_self)
  with st1(1) st' have "vdb_load al path_max daemon_start (VHeader VDB_HEADER_ID 3 (of_nat (length ds)) (of_nat (length us)) #
      concat (map domain_fields ds) @ ?uf) = VOk st'" by (simp add: vdb_load_def VDB_HEADER_ID_def)
  with st' st1(3) ds(1) show ?thesis by auto
qed

lemma loaded_user:
  assumes inv: "users_inv st" and rep: "users_rep st us" and fit: "\<forall>a u. dn_users st a = Some u \<longrightarrow> user_fits path_max u"
    and l: "loaded st' us' (rev (map (user_entry st) us))" and u: "dn_users st a = Some u"
  shows "\<exists>a' u'. dn_users st' a' = Some u' \<and> user_saved u u' \<and> user_key st' u' = user_key st u"
proof -
  from fit u have "user_fits path_max u" by blast
  note e = user_entry_ok [OF inv u this]
  from u rep have "user_entry st a \<in> set (rev (map (user_entry st) us))" by (auto simp: users_rep_def)
  then obtain i where i: "i < length (rev (map (user_entry st) us))" "rev (map (user_entry st) us) ! i = user_entry st a"
    unfolding in_set_conv_nth by blast
  with l have "holds_entry st' (us' ! i) (user_entry st a)" unfolding loaded_def list_all2_conv_all_nth by metis
  with e obtain u' where u': "dn_users st' (us' ! i) = Some u'" "user_saved u u'"
    "domain_name st' (u_domain u') = Some (snd (user_entry st a))" unfolding holds_entry_def by auto
  then have "user_key st' u' = Some (entry_key (user_entry st a))"
    using e by (simp add: user_key_def entry_key_def user_saved_def)
  with u'(1,2) e show ?thesis by auto
qed

lemma loaded_user_back:
  assumes inv: "users_inv st" and rep: "users_rep st us" and fit: "\<forall>a u. dn_users st a = Some u \<longrightarrow> user_fits path_max u"
    and l: "loaded st' us' (rev (map (user_entry st) us))" and k: "take 1 k \<noteq> ''@''" "cache_lookup (ds_cache st') k = Some a'"
  shows "\<exists>a u. dn_users st a = Some u \<and> user_key st u = Some k"
proof -
  from loaded_cached [OF l k] obtain a where a: "a \<in> set us" "k = entry_key (user_entry st a)" by auto
  with rep obtain u where u: "dn_users st a = Some u" by (auto simp: users_rep_def)
  with fit user_entry_ok [OF inv u] a show ?thesis by blast
qed

lemma loaded_get_use:
  assumes inv: "users_inv st" and rep: "users_rep st us" and fit: "\<forall>a u. dn_users st a = Some u \<longrightarrow> user_fits path_max u"
    and l: "loaded st' us' (rev (map (user_entry st) us))" and k: "take 1 k \<noteq> ''@''"
  shows "user_get_use st' k = (if user_get_use st k = Some UseWaiting then Some (Use 0 0) else user_get_use st k)"
proof (cases "\<exists>a u. dn_users st a = Some u \<and> user_key st u = Some k")
  case True
  then obtain a u where u: "dn_users st a = Some u" "user_key st u = Some k" by blast
  from loaded_user [OF inv rep fit l u(1)] u(2) obtain a' u' where
    u': "dn_users st' a' = Some u'" "user_saved u u'" "user_key st' u' = Some k" by auto
  have "users_inv st'" using l by (simp add: loaded_def)
  from user_get_use_live [OF this u'(1,3)] user_get_use_live [OF inv u] u'(2) show ?thesis
    by (auto simp: user_saved_def same_store_def userstore_use_def split: option.splits)
next
  case False
  then have "cache_lookup (ds_cache st') k = None"
    using loaded_user_back [OF inv rep fit l k] by (cases "cache_lookup (ds_cache st') k") auto
  moreover have "user_get_use st k = Some UseUnknown" using user_get_use_unknown [OF inv k] False by blast
  ultimately show ?thesis by (simp add: user_get_use_def)
qed

section \<open>Properties\<close>

text \<open>
  C11. The snapshot is faithful: when the writes succeed, saving a well-formed state whose strings fit
  the buffers returns a file, and a daemon that starts with that file, given memory, gets a state that is
  well formed again, books included. It answers every query for a domain and for a user as before, except
  that a user that had no userstore yet is answered with 0 instead of being reported as not ready, and
  every saved user is there again under its address with its password entry, home, totals and the
  directories in their order.
\<close>

theorem vdb_roundtrip:
  assumes inv: "daemon_inv st" and fit: "\<forall>a u. dn_users st a = Some u \<longrightarrow> user_fits path_max u"
    and small: "card (dom (ds_domains st)) \<le> n" "card (dom (dn_users st)) \<le> n" "n < 2 ^ 64"
    and ok: "\<forall>k. ok k" and al: "\<forall>i j. al i j"
  shows "\<exists>fs st'. vdb_save path_max ok n st = VOk fs \<and> vdb_load al path_max daemon_start fs = VOk st' \<and> daemon_inv st' \<and>
    (\<forall>name. length name < DOMAIN_MAX_DOMAIN \<longrightarrow> domain_get_use st' name = domain_get_use st name) \<and>
    (\<forall>k. take 1 k \<noteq> ''@'' \<longrightarrow> user_get_use st' k =
       (if user_get_use st k = Some UseWaiting then Some (Use 0 0) else user_get_use st k)) \<and>
    (\<forall>a u. dn_users st a = Some u \<longrightarrow>
       (\<exists>a' u'. dn_users st' a' = Some u' \<and> user_saved u u' \<and> user_key st' u' = user_key st u))"
proof -
  from inv obtain us where uinv: "users_inv st" and rep: "users_rep st us" by (auto simp: daemon_inv_iff)
  from vdb_save_fields [OF uinv rep fit small(1,2) ok] obtain ds where
    ds: "set ds = ran (ds_domains st)" "distinct (map dm_domain ds)" "length ds \<le> n" "length us \<le> n" and
    fs: "vdb_save path_max ok n st = VOk (VHeader VDB_HEADER_ID 3 (of_nat (length ds)) (of_nat (length us)) #
      concat (map domain_fields ds) @ concat (map (\<lambda>(u, name). user_fields path_max name u) (map (user_entry st) us)))"
      (is "_ = VOk ?fs") by blast
  have "length ds < 2 ^ 64" "length us < 2 ^ 64" using ds(3,4) small(3) by simp_all
  from vdb_load_fields [where al = al, OF uinv rep fit ds(1,2) this] al obtain st' us' where
    l: "vdb_load al path_max daemon_start ?fs = VOk st'" "loaded st' us' (rev (map (user_entry st) us))"
    "ran (ds_domains st') = ran (ds_domains st)" by blast
  from l(2) have uinv': "users_inv st'" by (simp add: loaded_def)
  have saved: "\<exists>a' u'. dn_users st' a' = Some u' \<and> user_saved u u' \<and> user_key st' u' = user_key st u"
    if u: "dn_users st a = Some u" for a u
    using loaded_user [OF uinv rep fit l(2) u] .
  have "daemon_inv st'" by (rule loaded_daemon_inv [OF uinv rep l(2,3)])
  moreover have "user_get_use st' k = (if user_get_use st k = Some UseWaiting then Some (Use 0 0) else user_get_use st k)"
    if k: "take 1 k \<noteq> ''@''" for k
    by (rule loaded_get_use [OF uinv rep fit l(2) k])
  ultimately show ?thesis
    using fs l(1) domain_get_use_ran [OF uinv uinv' l(3)] saved by blast
qed

text \<open>
  A snapshot cut off inside the password entry of its first user is not refused cleanly: after the
  name has been read, a missing password makes the loader free the six strings of an entry that was
  never zeroed, of which one only has been set.
\<close>

theorem vdb_load_truncated:
  assumes "name \<in> ran (domain_name st)" and "users_inv st" and "\<forall>i. al i"
  shows "vdb_load_user al path_max st
      [VBuf USER_MAX_USERNAME user, VBuf DOMAIN_MAX_DOMAIN name, VBuf path_max home, VBuf USER_MAX_USERNAME nm] = VFault"
proof -
  from assms(1) obtain d where d: "domain_name st d = Some name" by (auto simp: ran_def)
  have "domain_get st name = Some d"
    using domain_get_iff [OF assms(2) domain_name_len [OF assms(2) d] users_inv_lower [OF assms(2) d]] d by simp
  then show ?thesis
    using assms(3) by (simp add: vdb_load_user_def vdb_get_def domain_load_def vdb_load_pw_def)
qed

text \<open>
  A file that does not start with the header of version 3, an empty one included, is refused
  whatever follows.
\<close>

theorem vdb_load_refuses:
  assumes "\<forall>hid nd nu fs'. take 3 hid = VDB_HEADER_ID \<longrightarrow> fs \<noteq> VHeader hid 3 nd nu # fs'"
  shows "vdb_load al path_max st fs = VFail"
  using assms by (auto simp: vdb_load_def split: list.splits vdb_field.splits)

section \<open>Witnesses\<close>

lemma daemon_example_brk: "ds_brk daemon_example = 3"
  by code_simp

lemma daemon_example_inv: "daemon_inv daemon_example"
  by (rule daemon_run_inv [OF daemon_example_run])

lemma daemon_example_doms: "dom (ds_domains daemon_example) \<subseteq> {..<3}" "dom (dn_users daemon_example) \<subseteq> {..<3}"
  using daemon_example_inv daemon_example_brk by (auto simp: daemon_inv_def domains_inv_def not_less [symmetric])

lemma daemon_example_fits: "dn_users daemon_example a = Some u \<Longrightarrow> user_fits 4096 u"
proof -
  assume u: "dn_users daemon_example a = Some u"
  have "list_all (\<lambda>a. case dn_users daemon_example a of None \<Rightarrow> True | Some u \<Rightarrow> user_fits 4096 u) [0..<3]"
    by code_simp
  moreover have "a < 3" using u daemon_example_doms(2) by auto
  ultimately have "case dn_users daemon_example a of None \<Rightarrow> True | Some u \<Rightarrow> user_fits 4096 u"
    by (simp add: list_all_iff)
  with u show ?thesis by simp
qed

theorem vdb_roundtrip_witness:
  "user_get_use daemon_example ''bob@x.org'' = Some UseWaiting \<and>
   (\<exists>fs st'. vdb_save 4096 (\<lambda>_. True) 3 daemon_example = VOk fs \<and> vdb_load (\<lambda>_ _. True) 4096 daemon_start fs = VOk st' \<and>
      daemon_inv st' \<and> domain_get_use st' ''x.org'' = domain_get_use daemon_example ''x.org'' \<and>
      user_get_use st' ''bob@x.org'' = Some (Use 0 0) \<and> user_get_use st' ''eve@x.org'' = Some UseUnknown)"
proof -
  have u: "user_get_use daemon_example ''bob@x.org'' = Some UseWaiting"
    "user_get_use daemon_example ''eve@x.org'' = Some UseUnknown" by code_simp+
  have c: "card (dom (ds_domains daemon_example)) \<le> 3" "card (dom (dn_users daemon_example)) \<le> 3"
    using card_mono [OF finite_lessThan daemon_example_doms(1)] card_mono [OF finite_lessThan daemon_example_doms(2)] by simp_all
  from vdb_roundtrip [where ok = "\<lambda>_. True" and al = "\<lambda>_ _. True" and path_max = 4096, OF daemon_example_inv _ c] daemon_example_fits
  obtain fs st' where r: "vdb_save 4096 (\<lambda>_. True) 3 daemon_example = VOk fs" "vdb_load (\<lambda>_ _. True) 4096 daemon_start fs = VOk st'"
    "daemon_inv st'" "\<forall>name. length name < DOMAIN_MAX_DOMAIN \<longrightarrow> domain_get_use st' name = domain_get_use daemon_example name"
    "\<forall>k. take 1 k \<noteq> ''@'' \<longrightarrow> user_get_use st' k =
       (if user_get_use daemon_example k = Some UseWaiting then Some (Use 0 0) else user_get_use daemon_example k)" by auto
  have "user_get_use st' ''bob@x.org'' = Some (Use 0 0)" "user_get_use st' ''eve@x.org'' = Some UseUnknown"
    using r(5) u by simp_all
  moreover have "domain_get_use st' ''x.org'' = domain_get_use daemon_example ''x.org''"
    using r(4) by (simp add: DOMAIN_MAX_DOMAIN_def)
  ultimately show ?thesis using r u by blast
qed

theorem vdb_load_truncated_witness:
  "''x.org'' \<in> ran (domain_name daemon_example) \<and>
   vdb_load_user (\<lambda>_. True) 4096 daemon_example [VBuf USER_MAX_USERNAME ''eve'', VBuf DOMAIN_MAX_DOMAIN ''x.org'',
     VBuf 4096 ''/d/eve'', VBuf USER_MAX_USERNAME ''eve''] = VFault"
proof -
  have "domain_name daemon_example 1 = Some ''x.org''" by code_simp
  then have r: "''x.org'' \<in> ran (domain_name daemon_example)" by (rule ranI)
  from r vdb_load_truncated [OF r daemon_users_inv [OF daemon_example_inv]] show ?thesis by simp
qed

theorem vdb_load_refuses_witness:
  "vdb_load (\<lambda>_ _. True) 4096 daemon_start [VHeader ''vDB'' 2 0 0] = VFail"
  by (rule vdb_load_refuses) simp

end
