(* ===== verification/Cfmt.thy ===== *)
theory Cfmt
  imports Prelude
begin

text \<open>
  More of the C library, for the parts of the program that keep their state in text files: arrays
  accessed by a signed index, the decimal output of \<open>printf\<close> (\<^verbatim>\<open>%d\<close>, \<^verbatim>\<open>%lu\<close>), lines read with
  \<open>fgets\<close>, and the lemmas that \<open>atoi\<close> and \<open>strtoll\<close> read back what \<open>printf\<close> wrote.
\<close>

section \<open>Arrays\<close>

text \<open>An access outside the array is \<open>None\<close>.\<close>

definition aref :: "'a list \<Rightarrow> int \<Rightarrow> 'a option" where
  "aref xs i = (if 0 \<le> i \<and> i < int (length xs) then Some (xs ! nat i) else None)"

definition aset :: "'a list \<Rightarrow> int \<Rightarrow> 'a \<Rightarrow> 'a list option" where
  "aset xs i x = (if 0 \<le> i \<and> i < int (length xs) then Some (xs[nat i := x]) else None)"

lemma aref_int [simp]: "aref xs (int n) = (if n < length xs then Some (xs ! n) else None)"
  by (simp add: aref_def)

lemma aset_int [simp]: "aset xs (int n) x = (if n < length xs then Some (xs[n := x]) else None)"
  by (simp add: aset_def)

lemma aref_numeral [simp]:
  "aref xs (numeral k) = (if numeral k < length xs then Some (xs ! numeral k) else None)"
  "aref xs 0 = (if 0 < length xs then Some (xs ! 0) else None)"
  "aref xs 1 = (if 1 < length xs then Some (xs ! 1) else None)"
  by (auto simp: aref_def)

lemma aset_numeral [simp]:
  "aset xs (numeral k) x = (if numeral k < length xs then Some (xs[numeral k := x]) else None)"
  "aset xs 0 x = (if 0 < length xs then Some (xs[0 := x]) else None)"
  "aset xs 1 x = (if 1 < length xs then Some (xs[1 := x]) else None)"
  by (auto simp: aset_def)

section \<open>Decimal output\<close>

fun show_nat :: "nat \<Rightarrow> string" where
  "show_nat n =
     (if n < 10 then [char_of (48 + n)] else show_nat (n div 10) @ [char_of (48 + n mod 10)])"

declare show_nat.simps [simp del]

definition show_int :: "int \<Rightarrow> string" where
  "show_int i = (if i < 0 then CHR ''-'' # show_nat (nat (- i)) else show_nat (nat i))"

lemma digit_char [simp]:
  assumes "d < 10"
  shows "is_digit (char_of (48 + d))" "(of_char (char_of (48 + d) :: char) :: nat) = 48 + d"
  using assms by (simp_all add: is_digit_def)

lemma digits_val_show: "digits_val 0 (show_nat n @ r) = digits_val n r"
proof (induction n arbitrary: r rule: show_nat.induct)
  case (1 n)
  show ?case
  proof (cases "n < 10")
    case True
    then show ?thesis by (subst show_nat.simps) simp
  next
    case False
    have "digits_val 0 (show_nat n @ r)
        = digits_val 0 (show_nat (n div 10) @ char_of (48 + n mod 10) # r)"
      using False by (subst show_nat.simps) simp
    also have "\<dots> = digits_val (n div 10) (char_of (48 + n mod 10) # r)"
      using 1 False by simp
    also have "\<dots> = digits_val (10 * (n div 10) + n mod 10) r" by (simp del: mult_div_mod_eq)
    finally show ?thesis by simp
  qed
qed

lemma digits_val_stop [simp]: "(r = [] \<or> \<not> is_digit (hd r)) \<Longrightarrow> digits_val n r = n"
  by (cases r) auto

lemma show_nat_digits: "c \<in> set (show_nat n) \<Longrightarrow> is_digit c"
proof (induction n rule: show_nat.induct)
  case (1 n)
  then show ?case by (subst (asm) show_nat.simps) (auto split: if_splits simp: digit_char)
qed

lemma show_nat_Nil [simp]: "show_nat n \<noteq> []"
  by (subst show_nat.simps) simp

lemma is_digit_not:
  assumes "is_digit c"
  shows "\<not> is_space c" "c \<noteq> CHR ''-''" "c \<noteq> CHR ''+''" "c \<noteq> NUL" "c \<noteq> CHR 0x0A" "c \<noteq> CHR 0x0D"
    "c \<noteq> CHR '' ''" "c \<noteq> CHR 0x09" "c \<noteq> CHR '':''" "c \<noteq> CHR '',''" "c \<noteq> CHR ''S''" "c \<noteq> CHR ''C''"
    "c \<noteq> CHR ''#''" "c \<noteq> CHR ''/''"
  using assms by (auto simp: is_digit_def is_space_def)

lemma show_nat_ex: "\<exists>c t. show_nat n = c # t \<and> is_digit c"
  using show_nat_digits [of _ n] by (cases "show_nat n") auto

lemma show_nat_skip [simp]: "dropWhile is_space (show_nat n @ r) = show_nat n @ r"
  using show_nat_ex [of n] is_digit_not by auto

lemma strip_sign_show [simp]: "strip_sign (show_nat n @ r) = (False, show_nat n @ r)"
  using show_nat_ex [of n] is_digit_not by (auto simp: strip_sign_def)

lemma not_space_minus: "\<not> is_space CHR ''-''"
  by (simp add: is_space_def)

lemma strtoll_show_nat:
  assumes "r = [] \<or> \<not> is_digit (hd r)" "n < 2 ^ 63"
  shows "strtoll (show_nat n @ r) = int n"
  using assms by (simp add: strtoll_def digits_val_show)

lemma strtoll_show_int:
  assumes "r = [] \<or> \<not> is_digit (hd r)" "- (2 ^ 63) \<le> i" "i < 2 ^ 63"
  shows "strtoll (show_int i @ r) = i"
proof (cases "i < 0")
  case True
  have "digits_val 0 (show_nat (nat (- i)) @ r) = nat (- i)"
    using assms(1) by (simp add: digits_val_show)
  with True assms show ?thesis
    by (simp add: strtoll_def show_int_def strip_sign_def not_space_minus)
next
  case False
  with assms show ?thesis by (simp add: show_int_def strtoll_show_nat)
qed

lemma sint_word_of_int_32:
  "- (2 ^ 31) \<le> i \<Longrightarrow> i < 2 ^ 31 \<Longrightarrow> sint (word_of_int i :: 32 word) = i"
  using signed_take_bit_int_eq_self [of 31 i] by (simp add: signed_of_int)

lemma atoi_show_int:
  assumes "r = [] \<or> \<not> is_digit (hd r)" "- (2 ^ 31) \<le> i" "i < 2 ^ 31"
  shows "atoi (show_int i @ r) = i"
  using assms by (simp add: atoi_def strtoll_show_int sint_word_of_int_32)

lemma show_int_chars:
  assumes "c \<in> set (show_int i)"
  shows "c \<noteq> NUL" "c \<noteq> CHR 0x0A" "c \<noteq> CHR 0x0D" "c \<noteq> CHR '' ''" "c \<noteq> CHR 0x09" "c \<noteq> CHR '':''"
    "c \<noteq> CHR '',''"
proof -
  have "is_digit c \<or> c = CHR ''-''"
    using assms show_nat_digits by (auto simp: show_int_def split: if_splits)
  then show "c \<noteq> NUL" "c \<noteq> CHR 0x0A" "c \<noteq> CHR 0x0D" "c \<noteq> CHR '' ''" "c \<noteq> CHR 0x09" "c \<noteq> CHR '':''"
    "c \<noteq> CHR '',''"
    by (auto simp: is_digit_def)
qed

lemma length_show_nat: "n < 10 ^ k \<Longrightarrow> 0 < k \<Longrightarrow> length (show_nat n) \<le> k"
proof (induction n arbitrary: k rule: show_nat.induct)
  case (1 n)
  show ?case
  proof (cases "n < 10")
    case True
    with 1 show ?thesis by (subst show_nat.simps) simp
  next
    case False
    with 1(2) obtain j where k: "k = Suc j" "0 < j"
      by (cases k; cases "k - 1") auto
    from 1(2) k have "n div 10 < 10 ^ j" by (simp add: less_mult_imp_div_less mult.commute)
    with 1(1) [of j] False k show ?thesis by (subst show_nat.simps) simp
  qed
qed

lemma length_show_int:
  assumes "- (2 ^ 31) \<le> i" "i < 2 ^ 31"
  shows "length (show_int i) \<le> 11"
proof -
  have "nat \<bar>i\<bar> < 10 ^ 10" using assms by simp
  then have "length (show_nat (nat \<bar>i\<bar>)) \<le> 10" by (rule length_show_nat) simp
  then show ?thesis by (auto simp: show_int_def)
qed

text \<open>The range of an \<open>int\<close>.\<close>

definition int32 :: "int \<Rightarrow> bool" where
  "int32 i \<longleftrightarrow> - (2 ^ 31) \<le> i \<and> i < 2 ^ 31"

section \<open>Lines\<close>

abbreviation LF :: char where
  "LF \<equiv> CHR 0x0A"

text \<open>
  \<open>fgets(b, n, fs)\<close>: the characters up to and including the next newline, at most \<open>n - 1\<close>, and the
  rest of the stream; \<open>None\<close> at the end of the file, where the buffer keeps its contents.
\<close>

definition fgets_buf :: "nat \<Rightarrow> char list \<Rightarrow> (char list \<times> char list) option" where
  "fgets_buf n s =
     (if s = [] then None
      else let l = takeWhile (\<lambda>c. c \<noteq> LF) s;
               k = min (n - 1) (if length l < length s then length l + 1 else length l)
           in Some (take k s, drop k s))"

lemma takeWhile_stop: "x \<notin> set l \<Longrightarrow> takeWhile (\<lambda>c. c \<noteq> x) (l @ x # s) = l"
  by (induction l) auto

lemma takeWhile_all: "x \<notin> set l \<Longrightarrow> takeWhile (\<lambda>c. c \<noteq> x) l = l"
  by (induction l) auto

lemma fgets_buf_line [simp]:
  assumes "LF \<notin> set l" "length l + 1 < n"
  shows "fgets_buf n (l @ LF # s) = Some (l @ [LF], s)"
proof -
  have "min (n - 1) (length l + 1) = length l + 1" using assms by simp
  then show ?thesis using assms(1) by (simp add: fgets_buf_def takeWhile_stop Let_def)
qed

lemma fgets_buf_Nil [simp]: "fgets_buf n [] = None"
  by (simp add: fgets_buf_def)

section \<open>Sizes\<close>

definition MAX_BUFF :: nat where
  "MAX_BUFF = 300"

definition MAX_PW_DIR :: nat where
  "MAX_PW_DIR = 160"

section \<open>Return codes\<close>

text \<open>The codes of \<^verbatim>\<open>vpopmail.h\<close> that the modelled functions return.\<close>

type_synonym va = int

abbreviation (input) VA_SUCCESS :: va where
  "VA_SUCCESS \<equiv> 0"

abbreviation (input) VA_ILLEGAL_USERNAME :: va where
  "VA_ILLEGAL_USERNAME \<equiv> - 1"

abbreviation (input) VA_BAD_CHAR :: va where
  "VA_BAD_CHAR \<equiv> - 20"

abbreviation (input) VA_DOMAIN_DOES_NOT_EXIST :: va where
  "VA_DOMAIN_DOES_NOT_EXIST \<equiv> - 11"

abbreviation (input) VA_CANNOT_READ_ASSIGN :: va where
  "VA_CANNOT_READ_ASSIGN \<equiv> - 37"

abbreviation (input) VA_INTERNAL_BUFFER_EXCEEDED :: va where
  "VA_INTERNAL_BUFFER_EXCEEDED \<equiv> - 68"

abbreviation (input) VA_USERNAME_EXISTS :: va where
  "VA_USERNAME_EXISTS \<equiv> - 2"

abbreviation (input) VA_BAD_DIR :: va where
  "VA_BAD_DIR \<equiv> - 3"

abbreviation (input) VA_BAD_U_DIR :: va where
  "VA_BAD_U_DIR \<equiv> - 4"

abbreviation (input) VA_BAD_D_DIR :: va where
  "VA_BAD_D_DIR \<equiv> - 5"

abbreviation (input) VA_BAD_UID :: va where
  "VA_BAD_UID \<equiv> - 22"

abbreviation (input) VA_USER_DOES_NOT_EXIST :: va where
  "VA_USER_DOES_NOT_EXIST \<equiv> - 10"

abbreviation (input) VA_INVALID_DOMAIN_NAME :: va where
  "VA_INVALID_DOMAIN_NAME \<equiv> - 12"

abbreviation (input) VA_DOMAIN_ALREADY_EXISTS :: va where
  "VA_DOMAIN_ALREADY_EXISTS \<equiv> - 13"

abbreviation (input) VA_COULD_NOT_MAKE_DOMAIN_DIR :: va where
  "VA_COULD_NOT_MAKE_DOMAIN_DIR \<equiv> - 14"

abbreviation (input) VA_COULD_NOT_OPEN_QMAIL_DEFAULT :: va where
  "VA_COULD_NOT_OPEN_QMAIL_DEFAULT \<equiv> - 15"

abbreviation (input) VA_CAN_NOT_MAKE_DOMAINS_DIR :: va where
  "VA_CAN_NOT_MAKE_DOMAINS_DIR \<equiv> - 16"

abbreviation (input) VA_NO_AUTH_CONNECTION :: va where
  "VA_NO_AUTH_CONNECTION \<equiv> - 23"

abbreviation (input) VA_USER_NAME_TOO_LONG :: va where
  "VA_USER_NAME_TOO_LONG \<equiv> - 25"

abbreviation (input) VA_DOMAIN_NAME_TOO_LONG :: va where
  "VA_DOMAIN_NAME_TOO_LONG \<equiv> - 26"

abbreviation (input) VA_PASSWD_TOO_LONG :: va where
  "VA_PASSWD_TOO_LONG \<equiv> - 27"

abbreviation (input) VA_GECOS_TOO_LONG :: va where
  "VA_GECOS_TOO_LONG \<equiv> - 28"

abbreviation (input) VA_QUOTA_TOO_LONG :: va where
  "VA_QUOTA_TOO_LONG \<equiv> - 29"

abbreviation (input) VA_DIR_TOO_LONG :: va where
  "VA_DIR_TOO_LONG \<equiv> - 30"

abbreviation (input) VA_CLEAR_PASSWD_TOO_LONG :: va where
  "VA_CLEAR_PASSWD_TOO_LONG \<equiv> - 31"

abbreviation (input) VA_CANNOT_READ_LIMITS :: va where
  "VA_CANNOT_READ_LIMITS \<equiv> - 36"

abbreviation (input) VA_CANNOT_DELETE_CATCHALL :: va where
  "VA_CANNOT_DELETE_CATCHALL \<equiv> - 55"

abbreviation (input) VA_UNKNOWN_UIDGID :: va where
  "VA_UNKNOWN_UIDGID \<equiv> - 67"

abbreviation (input) VA_PWSTR_EMPTY :: va where
  "VA_PWSTR_EMPTY \<equiv> - 69"

abbreviation (input) VA_PWSTR_LENGTH :: va where
  "VA_PWSTR_LENGTH \<equiv> - 70"

abbreviation (input) VA_PWSTR_ALPHA :: va where
  "VA_PWSTR_ALPHA \<equiv> - 71"

abbreviation (input) VA_PWSTR_NUMERIC :: va where
  "VA_PWSTR_NUMERIC \<equiv> - 72"

abbreviation (input) VA_PWSTR_OTHER :: va where
  "VA_PWSTR_OTHER \<equiv> - 73"

abbreviation (input) VA_PWSTR_DELTA :: va where
  "VA_PWSTR_DELTA \<equiv> - 74"

end
