(* ===== verification/Vlimits.thy ===== *)
theory Vlimits
  imports Cfmt
begin

unbundle bit_operations_syntax

text \<open>
  The limits of a domain (\<^verbatim>\<open>vlimits.c\<close>): the structure, the parser and the printer of the file
  \<^verbatim>\<open>.qmailadmin-limits\<close>, the mask of user flags it gives, and \<open>vget_limits\<close>, \<open>vset_limits\<close>,
  \<open>vdel_limits\<close> and \<open>vlimits_setflags\<close> over a file system.

  A file is the list of its bytes, the file system a map from path to contents. \<open>vget_assign\<close> belongs
  to another part of the program: it is a parameter that gives the directory of a domain. A read of a
  regular file returns all of it up to the size of the buffer. \<open>None\<close> is an access outside the
  buffer or of its uninitialised contents.
\<close>

section \<open>Model\<close>

record vlimits =
  maxpopaccounts :: int
  maxaliases :: int
  maxforwards :: int
  maxautoresponders :: int
  maxmailinglists :: int
  diskquota :: int
  maxmsgcount :: int
  defaultquota :: int
  defaultmaxmsgcount :: int
  disable_pop :: int
  disable_imap :: int
  disable_dialup :: int
  disable_passwordchanging :: int
  disable_webmail :: int
  disable_relay :: int
  disable_smtp :: int
  disable_spamassassin :: int
  delete_spam :: int
  disable_maildrop :: int
  perm_account :: int
  perm_alias :: int
  perm_forward :: int
  perm_autoresponder :: int
  perm_maillist :: int
  perm_maillist_users :: int
  perm_maillist_moderators :: int
  perm_quota :: int
  perm_defaultquota :: int

definition vdefault_limits :: vlimits where
  "vdefault_limits = \<lparr>maxpopaccounts = - 1, maxaliases = - 1, maxforwards = - 1, maxautoresponders = - 1,
     maxmailinglists = - 1, diskquota = 0, maxmsgcount = 0, defaultquota = 0, defaultmaxmsgcount = 0, disable_pop = 0, disable_imap = 0, disable_dialup = 0, disable_passwordchanging = 0, disable_webmail = 0, disable_relay = 0, disable_smtp = 0, disable_spamassassin = 0, delete_spam = 0, disable_maildrop = 0, perm_account = 0, perm_alias = 0, perm_forward = 0, perm_autoresponder = 0, perm_maillist = 0, perm_maillist_users = 0, perm_maillist_moderators = 0, perm_quota = 0, perm_defaultquota = 0\<rparr>"

definition VLIMIT_DISABLE_ALL :: int where
  "VLIMIT_DISABLE_ALL = 7"

text \<open>A number stored only when the line has a value (\<open>if (s2)\<close>).\<close>

definition set_num :: "((int \<Rightarrow> int) \<Rightarrow> vlimits \<Rightarrow> vlimits) \<Rightarrow> string option \<Rightarrow> vlimits \<Rightarrow> vlimits" where
  "set_num upd s2 l = (case s2 of None \<Rightarrow> l | Some v \<Rightarrow> upd (\<lambda>_. atoi v) l)"

definition set_perm :: "((int \<Rightarrow> int) \<Rightarrow> vlimits \<Rightarrow> vlimits) \<Rightarrow> string option \<Rightarrow> vlimits \<Rightarrow> vlimits" where
  "set_perm upd s2 l = (case s2 of None \<Rightarrow> l | Some v \<Rightarrow> upd (\<lambda>_. atoi v AND VLIMIT_DISABLE_ALL) l)"

definition set_maillist :: "string option \<Rightarrow> vlimits \<Rightarrow> vlimits" where
  "set_maillist s2 l =
     (case s2 of
        None \<Rightarrow> l
      | Some v \<Rightarrow>
          let perm = (word_of_int (strtoll v) :: 64 word)
          in l\<lparr>perm_maillist := uint (perm AND 7),
                perm_maillist_users := uint (drop_bit 3 perm AND 7),
                perm_maillist_moderators := uint (drop_bit 3 (drop_bit 3 perm) AND 7)\<rparr>)"

text \<open>The first chain of comparisons, up to \<open>maxmsgcount\<close>.\<close>

definition limit_counts :: "string \<Rightarrow> string option \<Rightarrow> vlimits \<Rightarrow> vlimits" where
  "limit_counts s1 s2 l =
     (if s1 = ''maxpopaccounts'' then set_num maxpopaccounts_update s2 l
      else if s1 = ''maxaliases'' then set_num maxaliases_update s2 l
      else if s1 = ''maxforwards'' then set_num maxforwards_update s2 l
      else if s1 = ''maxautoresponders'' then set_num maxautoresponders_update s2 l
      else if s1 = ''maxmailinglists'' then set_num maxmailinglists_update s2 l
      else if s1 = ''quota'' then set_num diskquota_update s2 l
      else if s1 = ''maxmsgcount'' then set_num maxmsgcount_update s2 l
      else l)"

text \<open>The second chain, from \<open>default_quota\<close> on.\<close>

definition limit_rest :: "string \<Rightarrow> string option \<Rightarrow> vlimits \<Rightarrow> vlimits" where
  "limit_rest s1 s2 l =
     (if s1 = ''default_quota'' then set_num defaultquota_update s2 l
      else if s1 = ''default_maxmsgcount'' then set_num defaultmaxmsgcount_update s2 l
      else if s1 = ''disable_pop'' then l\<lparr>disable_pop := 1\<rparr>
      else if s1 = ''disable_imap'' then l\<lparr>disable_imap := 1\<rparr>
      else if s1 = ''disable_dialup'' then l\<lparr>disable_dialup := 1\<rparr>
      else if s1 = ''disable_password_changing'' then l\<lparr>disable_passwordchanging := 1\<rparr>
      else if s1 = ''disable_external_relay'' then l\<lparr>disable_relay := 1\<rparr>
      else if s1 = ''disable_smtp'' then l\<lparr>disable_smtp := 1\<rparr>
      else if s1 = ''disable_webmail'' then l\<lparr>disable_webmail := 1\<rparr>
      else if s1 = ''disable_spamassassin'' then l\<lparr>disable_spamassassin := 1\<rparr>
      else if s1 = ''delete_spam'' then l\<lparr>delete_spam := 1\<rparr>
      else if s1 = ''disable_maildrop'' then l\<lparr>disable_maildrop := 1\<rparr>
      else if s1 = ''perm_account'' then set_perm perm_account_update s2 l
      else if s1 = ''perm_alias'' then set_perm perm_alias_update s2 l
      else if s1 = ''perm_forward'' then set_perm perm_forward_update s2 l
      else if s1 = ''perm_autoresponder'' then set_perm perm_autoresponder_update s2 l
      else if s1 = ''perm_maillist'' then set_maillist s2 l
      else if s1 = ''perm_quota'' then set_perm perm_quota_update s2 l
      else if s1 = ''perm_defaultquota'' then set_perm perm_defaultquota_update s2 l
      else l)"

definition is_sep :: "char \<Rightarrow> bool" where
  "is_sep c \<longleftrightarrow> c = CHR '' '' \<or> c = CHR 0x09 \<or> c = CHR '':''"

definition is_eol :: "char \<Rightarrow> bool" where
  "is_eol c \<longleftrightarrow> c = CHR 0x0D \<or> c = LF"

text \<open>One line: its name and, when there is one, its value.\<close>

definition vlimits_line :: "string \<Rightarrow> vlimits \<Rightarrow> vlimits" where
  "vlimits_line t l =
     (if t = [] \<or> hd t = CHR ''#'' then l
      else let s1 = takeWhile (\<lambda>c. \<not> is_sep c) t;
               r = dropWhile (\<lambda>c. \<not> is_sep c) t;
               s2 = (if r = [] then None else Some (dropWhile is_sep (tl r)))
           in limit_rest s1 s2 (limit_counts s1 s2 l))"

function vlimits_lines :: "string \<Rightarrow> vlimits \<Rightarrow> vlimits" where
  "vlimits_lines h l =
     (let t = takeWhile (\<lambda>c. \<not> is_eol c) h; r = dropWhile (\<lambda>c. \<not> is_eol c) h
      in if r = [] then vlimits_line t l else vlimits_lines (tl r) (vlimits_line t l))"
  by pat_completeness auto
termination
proof (relation "measure (\<lambda>(h, l). length h)")
  fix h x r
  assume "r = dropWhile (\<lambda>c. \<not> is_eol c) h" "r \<noteq> []"
  then have "length (tl r) < length r" "length r \<le> length h" by (simp_all add: length_dropWhile_le)
  then show "((tl r, y), h, z) \<in> measure (\<lambda>(h, l). length h)" for y z by simp
qed simp

declare vlimits_lines.simps [simp del]

text \<open>\<open>vlimits_read_limits_file\<close>: whether it returns 0, and the structure.\<close>

definition vlimits_read_limits_file :: "char list option \<Rightarrow> vlimits \<Rightarrow> (bool \<times> vlimits) option" where
  "vlimits_read_limits_file file l =
     (case file of
        None \<Rightarrow> Some (False, l)
      | Some bytes \<Rightarrow>
          if bytes = [] \<or> length bytes \<ge> 2048 then None
          else Some (True, vlimits_lines (c_str bytes) l))"

definition num_line :: "string \<Rightarrow> int \<Rightarrow> string" where
  "num_line name i = name @ '': '' @ show_int i @ [LF]"

definition flag_line :: "string \<Rightarrow> int \<Rightarrow> string" where
  "flag_line name i = (if i \<noteq> 0 then name @ [LF] else [])"

definition vlimits_write_limits_file :: "vlimits \<Rightarrow> char list" where
  "vlimits_write_limits_file l =
     num_line ''maxpopaccounts'' (maxpopaccounts l) @
     num_line ''maxaliases'' (maxaliases l) @
     num_line ''maxforwards'' (maxforwards l) @
     num_line ''maxautoresponders'' (maxautoresponders l) @
     num_line ''maxmailinglists'' (maxmailinglists l) @
     num_line ''quota'' (diskquota l) @
     num_line ''maxmsgcount'' (maxmsgcount l) @
     num_line ''default_quota'' (defaultquota l) @
     num_line ''default_maxmsgcount'' (defaultmaxmsgcount l) @
     flag_line ''disable_pop'' (disable_pop l) @
     flag_line ''disable_imap'' (disable_imap l) @
     flag_line ''disable_dialup'' (disable_dialup l) @
     flag_line ''disable_password_changing'' (disable_passwordchanging l) @
     flag_line ''disable_webmail'' (disable_webmail l) @
     flag_line ''disable_external_relay'' (disable_relay l) @
     flag_line ''disable_smtp'' (disable_smtp l) @
     flag_line ''disable_spamassassin'' (disable_spamassassin l) @
     flag_line ''delete_spam'' (delete_spam l) @
     flag_line ''disable_maildrop'' (disable_maildrop l) @
     num_line ''perm_account'' (perm_account l) @
     num_line ''perm_alias'' (perm_alias l) @
     num_line ''perm_forward'' (perm_forward l) @
     num_line ''perm_autoresponder'' (perm_autoresponder l) @
     num_line ''perm_maillist'' (perm_maillist l) @
     num_line ''perm_quota''
       (perm_quota l OR push_bit 3 (perm_maillist_users l) OR push_bit 6 (perm_maillist_moderators l)) @
     num_line ''perm_defaultquota'' (perm_defaultquota l)"

section \<open>User flags\<close>

definition NO_POP :: "32 word" where
  "NO_POP = 0x2"

definition NO_SMTP :: "32 word" where
  "NO_SMTP = 0x800"

definition NO_IMAP :: "32 word" where
  "NO_IMAP = 0x8"

definition NO_RELAY :: "32 word" where
  "NO_RELAY = 0x20"

definition NO_WEBMAIL :: "32 word" where
  "NO_WEBMAIL = 0x4"

definition NO_PASSWD_CHNG :: "32 word" where
  "NO_PASSWD_CHNG = 0x1"

definition NO_DIALUP :: "32 word" where
  "NO_DIALUP = 0x40"

definition NO_SPAMASSASSIN :: "32 word" where
  "NO_SPAMASSASSIN = 0x4000"

definition DELETE_SPAM :: "32 word" where
  "DELETE_SPAM = 0x8000"

definition NO_MAILDROP :: "32 word" where
  "NO_MAILDROP = 0x40000"

definition V_OVERRIDE :: "32 word" where
  "V_OVERRIDE = 0x2000"

lemmas flag_defs = NO_POP_def NO_SMTP_def NO_IMAP_def NO_RELAY_def NO_WEBMAIL_def NO_PASSWD_CHNG_def NO_DIALUP_def NO_SPAMASSASSIN_def DELETE_SPAM_def NO_MAILDROP_def V_OVERRIDE_def

definition vlimits_get_flag_mask :: "vlimits \<Rightarrow> 32 word" where
  "vlimits_get_flag_mask l =
     (if disable_pop l \<noteq> 0 then NO_POP else 0) OR
     (if disable_smtp l \<noteq> 0 then NO_SMTP else 0) OR
     (if disable_imap l \<noteq> 0 then NO_IMAP else 0) OR
     (if disable_relay l \<noteq> 0 then NO_RELAY else 0) OR
     (if disable_webmail l \<noteq> 0 then NO_WEBMAIL else 0) OR
     (if disable_passwordchanging l \<noteq> 0 then NO_PASSWD_CHNG else 0) OR
     (if disable_dialup l \<noteq> 0 then NO_DIALUP else 0) OR
     (if disable_spamassassin l \<noteq> 0 then NO_SPAMASSASSIN else 0) OR
     (if delete_spam l \<noteq> 0 then DELETE_SPAM else 0) OR
     (if disable_maildrop l \<noteq> 0 then NO_MAILDROP else 0)"

section \<open>Limits of a domain\<close>

type_synonym filesystem = "string \<Rightarrow> char list option"

text \<open>The path of the limits file: both \<open>snprintf\<close> and \<open>strncat\<close> cut at the buffer.\<close>

definition limits_path :: "(string \<Rightarrow> string option) \<Rightarrow> string \<Rightarrow> string option" where
  "limits_path vget_assign domain =
     (case vget_assign (snprintf_str MAX_BUFF domain) of
        None \<Rightarrow> None
      | Some dir \<Rightarrow> Some (take (MAX_BUFF - 1) (dir @ ''/.qmailadmin-limits'')))"

definition vget_limits ::
  "(string \<Rightarrow> string option) \<Rightarrow> string \<Rightarrow> filesystem \<Rightarrow> string \<Rightarrow> (bool \<times> vlimits) option" where
  "vget_limits vget_assign default_file fs domain =
     (case limits_path vget_assign domain of
        None \<Rightarrow> Some (False, vdefault_limits)
      | Some dir \<Rightarrow>
          (case vlimits_read_limits_file (fs dir) vdefault_limits of
             None \<Rightarrow> None
           | Some (True, l) \<Rightarrow> Some (True, l)
           | Some (False, l) \<Rightarrow> vlimits_read_limits_file (fs default_file) l))"

text \<open>\<open>writable\<close> says for which paths \<open>fopen(dir, "w+")\<close> succeeds.\<close>

definition vset_limits ::
  "(string \<Rightarrow> bool) \<Rightarrow> (string \<Rightarrow> string option) \<Rightarrow> filesystem \<Rightarrow> string \<Rightarrow> vlimits \<Rightarrow> bool \<times> filesystem" where
  "vset_limits writable vget_assign fs domain l =
     (case limits_path vget_assign domain of
        None \<Rightarrow> (False, fs)
      | Some dir \<Rightarrow>
          if writable dir then (True, fs(dir := Some (vlimits_write_limits_file l))) else (False, fs))"

definition vdel_limits :: "(string \<Rightarrow> string option) \<Rightarrow> filesystem \<Rightarrow> string \<Rightarrow> bool \<times> filesystem" where
  "vdel_limits vget_assign fs domain =
     (case limits_path vget_assign domain of
        None \<Rightarrow> (False, fs)
      | Some dir \<Rightarrow> (fs dir \<noteq> None, fs(dir := None)))"

text \<open>The flags of a user: \<open>pw_gid\<close>, with the mask of the domain unless the user overrides it.\<close>

definition vlimits_setflags ::
  "(string \<Rightarrow> string option) \<Rightarrow> string \<Rightarrow> filesystem \<Rightarrow> 32 word \<Rightarrow> string \<Rightarrow> 32 word option" where
  "vlimits_setflags vget_assign default_file fs pw_gid domain =
     (if pw_gid AND V_OVERRIDE = 0
      then (case vget_limits vget_assign default_file fs domain of
              None \<Rightarrow> None
            | Some (ok, l) \<Rightarrow> Some (if ok then pw_gid OR vlimits_get_flag_mask l else pw_gid))
      else Some pw_gid)"

section \<open>Reading what was written\<close>

text \<open>A name of the file format.\<close>

definition limit_name :: "string \<Rightarrow> bool" where
  "limit_name s \<longleftrightarrow> s \<noteq> [] \<and> hd s \<noteq> CHR ''#'' \<and> list_all (\<lambda>c. c \<noteq> NUL \<and> \<not> is_sep c \<and> \<not> is_eol c) s"

lemma lines_step:
  assumes "list_all (\<lambda>c. \<not> is_eol c) t"
  shows "vlimits_lines (t @ LF # r) l = vlimits_lines r (vlimits_line t l)"
proof -
  have "takeWhile (\<lambda>c. \<not> is_eol c) (t @ LF # r) = t" "dropWhile (\<lambda>c. \<not> is_eol c) (t @ LF # r) = LF # r"
    using assms by (simp_all add: list_all_iff takeWhile_append2 dropWhile_append2 is_eol_def)
  then show ?thesis by (subst vlimits_lines.simps) simp
qed

lemma lines_end [simp]: "vlimits_lines [] l = l"
  by (subst vlimits_lines.simps) (simp add: vlimits_line_def)

lemma show_int_no_sep: "c \<in> set (show_int i) \<Longrightarrow> \<not> is_sep c \<and> \<not> is_eol c"
  using show_int_chars [of c i] by (auto simp: is_sep_def is_eol_def)

lemma show_int_Nil [simp]: "show_int i \<noteq> []"
  by (simp add: show_int_def)

lemma drop_sep_show [simp]: "dropWhile is_sep (show_int i) = show_int i"
  using show_int_no_sep [of "hd (show_int i)" i] by (cases "show_int i") auto

lemma name_line:
  assumes "limit_name s"
  shows "vlimits_line s l = limit_rest s None (limit_counts s None l)"
proof -
  have eq: "takeWhile (\<lambda>c. \<not> is_sep c) s = s" "dropWhile (\<lambda>c. \<not> is_sep c) s = []"
    using assms by (simp_all add: limit_name_def list_all_iff)
  have "s \<noteq> []" "hd s \<noteq> CHR ''#''" using assms by (simp_all add: limit_name_def)
  then show ?thesis unfolding vlimits_line_def Let_def eq by simp
qed

lemma value_line:
  assumes "limit_name s"
  shows "vlimits_line (s @ '': '' @ show_int i) l
     = limit_rest s (Some (show_int i)) (limit_counts s (Some (show_int i)) l)"
proof -
  have "takeWhile (\<lambda>c. \<not> is_sep c) (s @ '': '' @ show_int i) = s"
    "dropWhile (\<lambda>c. \<not> is_sep c) (s @ '': '' @ show_int i) = '': '' @ show_int i"
    using assms by (simp_all add: limit_name_def list_all_iff takeWhile_append2 dropWhile_append2 is_sep_def)
  moreover have "is_sep CHR '' ''" by (simp add: is_sep_def)
  ultimately show ?thesis using assms by (simp add: vlimits_line_def limit_name_def Let_def)
qed

lemma num_line_read:
  assumes "limit_name s"
  shows "vlimits_lines (num_line s i @ r) l
     = vlimits_lines r (limit_rest s (Some (show_int i)) (limit_counts s (Some (show_int i)) l))"
proof -
  have "list_all (\<lambda>c. \<not> is_eol c) (s @ '': '' @ show_int i)"
    using assms show_int_no_sep by (auto simp: limit_name_def list_all_iff is_eol_def)
  from lines_step [OF this, of r l] value_line [OF assms, of i l] show ?thesis
    by (simp add: num_line_def)
qed

lemma flag_line_read:
  assumes "limit_name s"
  shows "vlimits_lines (flag_line s i @ r) l
     = vlimits_lines r (if i \<noteq> 0 then limit_rest s None (limit_counts s None l) else l)"
proof -
  have "list_all (\<lambda>c. \<not> is_eol c) s" using assms by (auto simp: limit_name_def list_all_iff)
  from lines_step [OF this, of r l] name_line [OF assms, of l] show ?thesis
    by (simp add: flag_line_def)
qed

lemma limit_names:
  "list_all limit_name
     [''maxpopaccounts'', ''maxaliases'', ''maxforwards'', ''maxautoresponders'', ''maxmailinglists'',
      ''quota'', ''maxmsgcount'', ''default_quota'', ''default_maxmsgcount'', ''disable_pop'',
      ''disable_imap'', ''disable_dialup'', ''disable_password_changing'', ''disable_webmail'',
      ''disable_external_relay'', ''disable_smtp'', ''disable_spamassassin'', ''delete_spam'',
      ''disable_maildrop'', ''perm_account'', ''perm_alias'', ''perm_forward'', ''perm_autoresponder'',
      ''perm_maillist'', ''perm_quota'', ''perm_defaultquota'']"
  by code_simp


text \<open>Limits whose numbers fit their C types, with flags 0 or 1 and permissions of three bits.\<close>

definition limits_ok :: "vlimits \<Rightarrow> bool" where
  "limits_ok l \<longleftrightarrow>
     list_all int32 [maxpopaccounts l, maxaliases l, maxforwards l, maxautoresponders l, maxmailinglists l,
       diskquota l, maxmsgcount l, defaultquota l, defaultmaxmsgcount l]
     \<and> list_all (\<lambda>i. i = 0 \<or> i = 1) [disable_pop l, disable_imap l, disable_dialup l,
       disable_passwordchanging l, disable_webmail l, disable_relay l, disable_smtp l,
       disable_spamassassin l, delete_spam l, disable_maildrop l]
     \<and> list_all (\<lambda>i. 0 \<le> i \<and> i < 8) [perm_account l, perm_alias l, perm_forward l, perm_autoresponder l,
       perm_maillist l, perm_maillist_users l, perm_maillist_moderators l, perm_quota l, perm_defaultquota l]"

text \<open>Each name sets its own field.\<close>

lemma limit_set_simps:
  "limit_rest ''maxpopaccounts'' s2 (limit_counts ''maxpopaccounts'' s2 l) = set_num maxpopaccounts_update s2 l"
  "limit_rest ''maxaliases'' s2 (limit_counts ''maxaliases'' s2 l) = set_num maxaliases_update s2 l"
  "limit_rest ''maxforwards'' s2 (limit_counts ''maxforwards'' s2 l) = set_num maxforwards_update s2 l"
  "limit_rest ''maxautoresponders'' s2 (limit_counts ''maxautoresponders'' s2 l) = set_num maxautoresponders_update s2 l"
  "limit_rest ''maxmailinglists'' s2 (limit_counts ''maxmailinglists'' s2 l) = set_num maxmailinglists_update s2 l"
  "limit_rest ''quota'' s2 (limit_counts ''quota'' s2 l) = set_num diskquota_update s2 l"
  "limit_rest ''maxmsgcount'' s2 (limit_counts ''maxmsgcount'' s2 l) = set_num maxmsgcount_update s2 l"
  "limit_rest ''default_quota'' s2 (limit_counts ''default_quota'' s2 l) = set_num defaultquota_update s2 l"
  "limit_rest ''default_maxmsgcount'' s2 (limit_counts ''default_maxmsgcount'' s2 l) = set_num defaultmaxmsgcount_update s2 l"
  "limit_rest ''disable_pop'' s2 (limit_counts ''disable_pop'' s2 l) = l\<lparr>disable_pop := 1\<rparr>"
  "limit_rest ''disable_imap'' s2 (limit_counts ''disable_imap'' s2 l) = l\<lparr>disable_imap := 1\<rparr>"
  "limit_rest ''disable_dialup'' s2 (limit_counts ''disable_dialup'' s2 l) = l\<lparr>disable_dialup := 1\<rparr>"
  "limit_rest ''disable_password_changing'' s2 (limit_counts ''disable_password_changing'' s2 l) = l\<lparr>disable_passwordchanging := 1\<rparr>"
  "limit_rest ''disable_webmail'' s2 (limit_counts ''disable_webmail'' s2 l) = l\<lparr>disable_webmail := 1\<rparr>"
  "limit_rest ''disable_external_relay'' s2 (limit_counts ''disable_external_relay'' s2 l) = l\<lparr>disable_relay := 1\<rparr>"
  "limit_rest ''disable_smtp'' s2 (limit_counts ''disable_smtp'' s2 l) = l\<lparr>disable_smtp := 1\<rparr>"
  "limit_rest ''disable_spamassassin'' s2 (limit_counts ''disable_spamassassin'' s2 l) = l\<lparr>disable_spamassassin := 1\<rparr>"
  "limit_rest ''delete_spam'' s2 (limit_counts ''delete_spam'' s2 l) = l\<lparr>delete_spam := 1\<rparr>"
  "limit_rest ''disable_maildrop'' s2 (limit_counts ''disable_maildrop'' s2 l) = l\<lparr>disable_maildrop := 1\<rparr>"
  "limit_rest ''perm_account'' s2 (limit_counts ''perm_account'' s2 l) = set_perm perm_account_update s2 l"
  "limit_rest ''perm_alias'' s2 (limit_counts ''perm_alias'' s2 l) = set_perm perm_alias_update s2 l"
  "limit_rest ''perm_forward'' s2 (limit_counts ''perm_forward'' s2 l) = set_perm perm_forward_update s2 l"
  "limit_rest ''perm_autoresponder'' s2 (limit_counts ''perm_autoresponder'' s2 l) = set_perm perm_autoresponder_update s2 l"
  "limit_rest ''perm_quota'' s2 (limit_counts ''perm_quota'' s2 l) = set_perm perm_quota_update s2 l"
  "limit_rest ''perm_defaultquota'' s2 (limit_counts ''perm_defaultquota'' s2 l) = set_perm perm_defaultquota_update s2 l"
  "limit_rest ''perm_maillist'' s2 (limit_counts ''perm_maillist'' s2 l) = set_maillist s2 l"
  by (simp_all add: limit_rest_def limit_counts_def)

lemma set_num_show [simp]: "int32 i \<Longrightarrow> set_num upd (Some (show_int i)) l = upd (\<lambda>_. i) l"
  using atoi_show_int [of "[]" i] by (simp add: set_num_def int32_def)

lemma and_7: "i AND 7 = i mod 8" for i :: int
  using take_bit_eq_mask [of 3 i] by (simp add: take_bit_eq_mod mask_eq_exp_minus_1)

lemma set_perm_show [simp]: "int32 i \<Longrightarrow> set_perm upd (Some (show_int i)) l = upd (\<lambda>_. i mod 8) l"
  using atoi_show_int [of "[]" i] by (simp add: set_perm_def int32_def VLIMIT_DISABLE_ALL_def and_7)

lemma set_maillist_show [simp]:
  assumes "0 \<le> i" "i < 8"
  shows "set_maillist (Some (show_int i)) l
    = l\<lparr>perm_maillist := i, perm_maillist_users := 0, perm_maillist_moderators := 0\<rparr>"
proof -
  have "i \<in> {0, 1, 2, 3, 4, 5, 6, 7}" using assms by auto
  moreover have "strtoll (show_int i) = i" using strtoll_show_int [of "[]" i] assms by simp
  ultimately show ?thesis by (auto simp: set_maillist_def)
qed

lemma perm_quota_low:
  fixes q u m :: int
  assumes "0 \<le> q" "q < 8" "0 \<le> u" "u < 8" "0 \<le> m" "m < 8"
  shows "int32 (q OR push_bit 3 u OR push_bit 6 m)" "(q OR push_bit 3 u OR push_bit 6 m) mod 8 = q"
proof -
  have "push_bit 3 u < 2 ^ 9" "push_bit 6 m < 2 ^ 9" "0 \<le> push_bit 3 u" "0 \<le> push_bit 6 m"
    using assms by (simp_all add: push_bit_eq_mult)
  moreover from this have "push_bit 3 u OR push_bit 6 m < 2 ^ 9" "0 \<le> push_bit 3 u OR push_bit 6 m"
    by (simp_all only: OR_upper or_nonnegative_int_iff)
  ultimately have "q OR push_bit 3 u OR push_bit 6 m < 2 ^ 9" "0 \<le> q OR push_bit 3 u OR push_bit 6 m"
    using assms OR_upper [of q 9 "push_bit 3 u OR push_bit 6 m"] by (simp_all add: or_nonnegative_int_iff)
  then show "int32 (q OR push_bit 3 u OR push_bit 6 m)" by (simp add: int32_def del: or_nonnegative_int_iff)
  have "take_bit 3 (q OR push_bit 3 u OR push_bit 6 m) = take_bit 3 q"
    by (simp add: take_bit_push_bit)
  then show "(q OR push_bit 3 u OR push_bit 6 m) mod 8 = q"
    using assms by (simp add: take_bit_eq_mod)
qed

lemma length_num_line: "int32 i \<Longrightarrow> length (num_line s i) \<le> length s + 14"
  using length_show_int [of i] by (simp add: num_line_def int32_def)

lemma length_flag_line: "length (flag_line s i) \<le> length s + 1"
  by (simp add: flag_line_def)

lemma nul_free_lines [simp]:
  "nul_free s \<Longrightarrow> nul_free (num_line s i)" "nul_free s \<Longrightarrow> nul_free (flag_line s i)"
  using show_int_chars(1) [of _ i] by (auto simp: num_line_def flag_line_def nul_free_def)

lemma limits_ok_int32:
  assumes "limits_ok l"
  shows "int32 (maxpopaccounts l)" "int32 (maxaliases l)" "int32 (maxforwards l)"
    "int32 (maxautoresponders l)" "int32 (maxmailinglists l)" "int32 (diskquota l)" "int32 (maxmsgcount l)"
    "int32 (defaultquota l)" "int32 (defaultmaxmsgcount l)" "int32 (perm_account l)" "int32 (perm_alias l)"
    "int32 (perm_forward l)" "int32 (perm_autoresponder l)" "int32 (perm_maillist l)"
    "int32 (perm_quota l OR push_bit 3 (perm_maillist_users l) OR push_bit 6 (perm_maillist_moderators l))"
    "int32 (perm_defaultquota l)"
  using assms perm_quota_low(1) [of "perm_quota l" "perm_maillist_users l" "perm_maillist_moderators l"]
  by (auto simp: limits_ok_def int32_def)

lemma length_limits_file:
  assumes "limits_ok l"
  shows "length (vlimits_write_limits_file l) < 2048"
proof -
  note b = limits_ok_int32 [OF assms, THEN length_num_line]
  show ?thesis
    unfolding vlimits_write_limits_file_def length_append
    using b(1) [of "''maxpopaccounts''"] b(2) [of "''maxaliases''"] b(3) [of "''maxforwards''"]
      b(4) [of "''maxautoresponders''"] b(5) [of "''maxmailinglists''"] b(6) [of "''quota''"]
      b(7) [of "''maxmsgcount''"] b(8) [of "''default_quota''"] b(9) [of "''default_maxmsgcount''"]
      b(10) [of "''perm_account''"] b(11) [of "''perm_alias''"] b(12) [of "''perm_forward''"]
      b(13) [of "''perm_autoresponder''"] b(14) [of "''perm_maillist''"] b(15) [of "''perm_quota''"]
      b(16) [of "''perm_defaultquota''"]
      length_flag_line [of "''disable_pop''" "disable_pop l"]
      length_flag_line [of "''disable_imap''" "disable_imap l"]
      length_flag_line [of "''disable_dialup''" "disable_dialup l"]
      length_flag_line [of "''disable_password_changing''" "disable_passwordchanging l"]
      length_flag_line [of "''disable_webmail''" "disable_webmail l"]
      length_flag_line [of "''disable_external_relay''" "disable_relay l"]
      length_flag_line [of "''disable_smtp''" "disable_smtp l"]
      length_flag_line [of "''disable_spamassassin''" "disable_spamassassin l"]
      length_flag_line [of "''delete_spam''" "delete_spam l"]
      length_flag_line [of "''disable_maildrop''" "disable_maildrop l"]
    by simp
qed

lemma flag_update:
  "disable_pop l = 0 \<Longrightarrow> i = 0 \<or> i = 1 \<Longrightarrow> (if i \<noteq> 0 then l\<lparr>disable_pop := 1\<rparr> else l) = l\<lparr>disable_pop := i\<rparr>"
  "disable_imap l = 0 \<Longrightarrow> i = 0 \<or> i = 1 \<Longrightarrow> (if i \<noteq> 0 then l\<lparr>disable_imap := 1\<rparr> else l) = l\<lparr>disable_imap := i\<rparr>"
  "disable_dialup l = 0 \<Longrightarrow> i = 0 \<or> i = 1 \<Longrightarrow> (if i \<noteq> 0 then l\<lparr>disable_dialup := 1\<rparr> else l) = l\<lparr>disable_dialup := i\<rparr>"
  "disable_passwordchanging l = 0 \<Longrightarrow> i = 0 \<or> i = 1 \<Longrightarrow> (if i \<noteq> 0 then l\<lparr>disable_passwordchanging := 1\<rparr> else l) = l\<lparr>disable_passwordchanging := i\<rparr>"
  "disable_webmail l = 0 \<Longrightarrow> i = 0 \<or> i = 1 \<Longrightarrow> (if i \<noteq> 0 then l\<lparr>disable_webmail := 1\<rparr> else l) = l\<lparr>disable_webmail := i\<rparr>"
  "disable_relay l = 0 \<Longrightarrow> i = 0 \<or> i = 1 \<Longrightarrow> (if i \<noteq> 0 then l\<lparr>disable_relay := 1\<rparr> else l) = l\<lparr>disable_relay := i\<rparr>"
  "disable_smtp l = 0 \<Longrightarrow> i = 0 \<or> i = 1 \<Longrightarrow> (if i \<noteq> 0 then l\<lparr>disable_smtp := 1\<rparr> else l) = l\<lparr>disable_smtp := i\<rparr>"
  "disable_spamassassin l = 0 \<Longrightarrow> i = 0 \<or> i = 1 \<Longrightarrow> (if i \<noteq> 0 then l\<lparr>disable_spamassassin := 1\<rparr> else l) = l\<lparr>disable_spamassassin := i\<rparr>"
  "delete_spam l = 0 \<Longrightarrow> i = 0 \<or> i = 1 \<Longrightarrow> (if i \<noteq> 0 then l\<lparr>delete_spam := 1\<rparr> else l) = l\<lparr>delete_spam := i\<rparr>"
  "disable_maildrop l = 0 \<Longrightarrow> i = 0 \<or> i = 1 \<Longrightarrow> (if i \<noteq> 0 then l\<lparr>disable_maildrop := 1\<rparr> else l) = l\<lparr>disable_maildrop := i\<rparr>"
  by auto

lemma limits_ok_flags:
  assumes "limits_ok l"
  shows "disable_pop l = 0 \<or> disable_pop l = 1"
    "disable_imap l = 0 \<or> disable_imap l = 1"
    "disable_dialup l = 0 \<or> disable_dialup l = 1"
    "disable_passwordchanging l = 0 \<or> disable_passwordchanging l = 1"
    "disable_webmail l = 0 \<or> disable_webmail l = 1"
    "disable_relay l = 0 \<or> disable_relay l = 1"
    "disable_smtp l = 0 \<or> disable_smtp l = 1"
    "disable_spamassassin l = 0 \<or> disable_spamassassin l = 1"
    "delete_spam l = 0 \<or> delete_spam l = 1"
    "disable_maildrop l = 0 \<or> disable_maildrop l = 1"
  using assms by (simp_all add: limits_ok_def)

lemma limits_ok_perms:
  assumes "limits_ok l"
  shows "perm_account l mod 8 = perm_account l" "perm_alias l mod 8 = perm_alias l"
    "perm_forward l mod 8 = perm_forward l" "perm_autoresponder l mod 8 = perm_autoresponder l"
    "perm_defaultquota l mod 8 = perm_defaultquota l" "0 \<le> perm_maillist l" "perm_maillist l < 8"
    "(perm_quota l OR push_bit 3 (perm_maillist_users l) OR push_bit 6 (perm_maillist_moderators l)) mod 8
       = perm_quota l"
  using assms perm_quota_low(2) [of "perm_quota l" "perm_maillist_users l" "perm_maillist_moderators l"]
  by (simp_all add: limits_ok_def)

lemma lines_written:
  assumes "limits_ok l"
  shows "vlimits_lines (vlimits_write_limits_file l) vdefault_limits
    = l\<lparr>perm_maillist_users := 0, perm_maillist_moderators := 0\<rparr>"
proof -
  note n = limit_names [simplified list.pred_inject]
  show ?thesis
    unfolding vlimits_write_limits_file_def
    using n
    by (simp only: num_line_read flag_line_read num_line_read [where r = "[]", simplified append_Nil2]
          lines_end limit_set_simps set_num_show set_perm_show set_maillist_show limits_ok_int32 [OF assms]
          limits_ok_perms [OF assms])
       (simp add: flag_update limits_ok_flags [OF assms] vdefault_limits_def)
qed

text \<open>
  C27. Limits written by \<open>vset_limits\<close> come back from \<open>vget_limits\<close> as they were, except that the
  permissions of mailing list users and moderators are lost: they are printed with \<open>perm_quota\<close>
  instead of \<open>perm_maillist\<close>. The file always fits the 2048 bytes of the reader.
\<close>

theorem vset_vget_limits:
  assumes "limits_ok l" "vset_limits writable vget_assign fs domain l = (True, fs')"
  shows "vget_limits vget_assign default_file fs' domain
    = Some (True, l\<lparr>perm_maillist_users := 0, perm_maillist_moderators := 0\<rparr>)"
proof -
  have "nul_free (vlimits_write_limits_file l)"
    by (simp add: vlimits_write_limits_file_def)
  then have "c_str (vlimits_write_limits_file l) = vlimits_write_limits_file l"
    by (simp add: c_str_def nul_free_def takeWhile_all)
  moreover have "vlimits_write_limits_file l \<noteq> []"
    by (simp add: vlimits_write_limits_file_def num_line_def)
  ultimately show ?thesis
    using assms length_limits_file [OF assms(1)] lines_written [OF assms(1)]
    by (auto simp: vset_limits_def vget_limits_def vlimits_read_limits_file_def split: option.splits if_splits)
qed

theorem vset_vget_limits_witness:
  "\<exists>fs'. vset_limits (\<lambda>_. True) (\<lambda>_. Some ''/domains/x'') (\<lambda>_. None) ''x''
      (vdefault_limits\<lparr>maxaliases := 7, perm_maillist_users := 3\<rparr>) = (True, fs')
    \<and> vget_limits (\<lambda>_. Some ''/domains/x'') ''/etc/vlimits.default'' fs' ''x''
      = Some (True, vdefault_limits\<lparr>maxaliases := 7\<rparr>)"
proof -
  let ?l = "vdefault_limits\<lparr>maxaliases := 7, perm_maillist_users := 3\<rparr>"
  have ok: "limits_ok ?l" by (simp add: limits_ok_def vdefault_limits_def int32_def)
  obtain fs' where fs': "vset_limits (\<lambda>_. True) (\<lambda>_. Some ''/domains/x'') (\<lambda>_. None) ''x'' ?l = (True, fs')"
    by (simp add: vset_limits_def limits_path_def)
  with vset_vget_limits [OF ok fs', of "''/etc/vlimits.default''"] show ?thesis
    by (simp add: vdefault_limits_def)
qed

lemma flag_bits:
  "x AND NO_POP = 0 \<longleftrightarrow> \<not> bit x 1"
  "x AND NO_SMTP = 0 \<longleftrightarrow> \<not> bit x 11"
  "x AND NO_IMAP = 0 \<longleftrightarrow> \<not> bit x 3"
  "x AND NO_RELAY = 0 \<longleftrightarrow> \<not> bit x 5"
  "x AND NO_WEBMAIL = 0 \<longleftrightarrow> \<not> bit x 2"
  "x AND NO_PASSWD_CHNG = 0 \<longleftrightarrow> \<not> bit x 0"
  "x AND NO_DIALUP = 0 \<longleftrightarrow> \<not> bit x 6"
  "x AND NO_SPAMASSASSIN = 0 \<longleftrightarrow> \<not> bit x 14"
  "x AND DELETE_SPAM = 0 \<longleftrightarrow> \<not> bit x 15"
  "x AND NO_MAILDROP = 0 \<longleftrightarrow> \<not> bit x 18"
  using and_exp_eq_0_iff_not_bit [of x 1]
    and_exp_eq_0_iff_not_bit [of x 11]
    and_exp_eq_0_iff_not_bit [of x 3]
    and_exp_eq_0_iff_not_bit [of x 5]
    and_exp_eq_0_iff_not_bit [of x 2]
    and_exp_eq_0_iff_not_bit [of x 0]
    and_exp_eq_0_iff_not_bit [of x 6]
    and_exp_eq_0_iff_not_bit [of x 14]
    and_exp_eq_0_iff_not_bit [of x 15]
    and_exp_eq_0_iff_not_bit [of x 18]
  by (simp_all add: flag_defs)

lemma mask_bits:
  "bit (vlimits_get_flag_mask l) 1 \<longleftrightarrow> disable_pop l \<noteq> 0"
  "bit (vlimits_get_flag_mask l) 11 \<longleftrightarrow> disable_smtp l \<noteq> 0"
  "bit (vlimits_get_flag_mask l) 3 \<longleftrightarrow> disable_imap l \<noteq> 0"
  "bit (vlimits_get_flag_mask l) 5 \<longleftrightarrow> disable_relay l \<noteq> 0"
  "bit (vlimits_get_flag_mask l) 2 \<longleftrightarrow> disable_webmail l \<noteq> 0"
  "bit (vlimits_get_flag_mask l) 0 \<longleftrightarrow> disable_passwordchanging l \<noteq> 0"
  "bit (vlimits_get_flag_mask l) 6 \<longleftrightarrow> disable_dialup l \<noteq> 0"
  "bit (vlimits_get_flag_mask l) 14 \<longleftrightarrow> disable_spamassassin l \<noteq> 0"
  "bit (vlimits_get_flag_mask l) 15 \<longleftrightarrow> delete_spam l \<noteq> 0"
  "bit (vlimits_get_flag_mask l) 18 \<longleftrightarrow> disable_maildrop l \<noteq> 0"
  by (simp_all add: vlimits_get_flag_mask_def flag_defs bit_or_iff)

text \<open>
  C31. For a user without the override flag in a domain whose limits can be read, a service is switched
  off in the flags \<open>vlimits_setflags\<close> computes exactly when the user's own flags or the limits of the
  domain switch it off; with the override flag the limits play no part.
\<close>

theorem vlimits_setflags_services:
  assumes "vget_limits vget_assign default_file fs domain = Some (True, l)"
  shows "\<exists>flags. vlimits_setflags vget_assign default_file fs pw_gid domain = Some flags
    \<and> (pw_gid AND V_OVERRIDE \<noteq> 0 \<longrightarrow> flags = pw_gid)
    \<and> (pw_gid AND V_OVERRIDE = 0 \<longrightarrow>
        list_all (\<lambda>(service, limit). flags AND service \<noteq> 0 \<longleftrightarrow> pw_gid AND service \<noteq> 0 \<or> limit l \<noteq> 0)
          [(NO_POP, disable_pop),
           (NO_SMTP, disable_smtp),
           (NO_IMAP, disable_imap),
           (NO_RELAY, disable_relay),
           (NO_WEBMAIL, disable_webmail),
           (NO_PASSWD_CHNG, disable_passwordchanging),
           (NO_DIALUP, disable_dialup),
           (NO_SPAMASSASSIN, disable_spamassassin),
           (DELETE_SPAM, delete_spam),
           (NO_MAILDROP, disable_maildrop)])"
proof (cases "pw_gid AND V_OVERRIDE = 0")
  case True
  with assms have "vlimits_setflags vget_assign default_file fs pw_gid domain
      = Some (pw_gid OR vlimits_get_flag_mask l)"
    by (simp add: vlimits_setflags_def)
  with True show ?thesis by (simp add: flag_bits mask_bits bit_or_iff disj_imp del: One_nat_def)
next
  case False
  then show ?thesis by (simp add: vlimits_setflags_def)
qed

theorem vlimits_setflags_services_witness:
  "\<exists>flags. vlimits_setflags (\<lambda>_. Some ''/d'') ''/etc/vlimits.default''
     (\<lambda>p. if p = ''/d/.qmailadmin-limits'' then Some ''disable_pop'' else None) NO_IMAP ''x'' = Some flags
   \<and> flags AND NO_POP \<noteq> 0 \<and> flags AND NO_IMAP \<noteq> 0 \<and> flags AND NO_SMTP = 0"
proof -
  let ?fs = "\<lambda>p. if p = ''/d/.qmailadmin-limits'' then Some ''disable_pop'' else None"
  have "vlimits_lines ''disable_pop'' vdefault_limits = vdefault_limits\<lparr>disable_pop := 1\<rparr>" by code_simp
  then have "vget_limits (\<lambda>_. Some ''/d'') ''/etc/vlimits.default'' ?fs ''x''
      = Some (True, vdefault_limits\<lparr>disable_pop := 1\<rparr>)"
    by (simp add: vget_limits_def limits_path_def vlimits_read_limits_file_def MAX_BUFF_def c_str_def)
  from vlimits_setflags_services [OF this, of NO_IMAP] show ?thesis
    by (auto simp: flag_defs vdefault_limits_def)
qed

end
