(* ===== verification/Quota.thy ===== *)
theory Quota
  imports Vlimits Socket
begin

text \<open>
  The quota decision (\<^verbatim>\<open>quota.c\<close>) and the client of the usage daemon it asks (\<^verbatim>\<open>client.c\<close>): parsing of a
  Maildir++ quota, the comparison of the totals the daemon reports for a user and for a domain with the
  quota of the user and the limits of the domain, and the configuration of the client.

  A connection has a state of some type; \<open>exchange\<close> gives what a read returns after the client has
  written its bytes (\<open>None\<close> when writing, waiting or reading fails) and the state afterwards. The
  interface \<open>usage_server\<close> states what the quota code relies on, and the daemon of \<open>Query\<close> is shown to
  provide it. The password entry comes from the back end, a parameter; \<open>limits_of\<close> is
  \<open>vget_limits\<close>, applied to the file system in the properties. The percentage of
  \<open>quota_percent\<close> is computed in single precision and is not modelled.
\<close>

section \<open>The client\<close>

definition client_query ::
  "('c \<Rightarrow> char list \<Rightarrow> char list option \<times> 'c) \<Rightarrow> 'c \<Rightarrow> string \<Rightarrow> (storage_t \<times> storage_t) option \<times> 'c" where
  "client_query exchange c entry =
     (case exchange c (client_request entry) of
        (None, c') \<Rightarrow> (None, c')
      | (Some b, c') \<Rightarrow> (client_response b, c'))"

text \<open>\<open>client_query_quick\<close>: \<open>connection\<close> is what \<open>client_connect\<close> returned.\<close>

definition client_query_quick ::
  "('c \<Rightarrow> char list \<Rightarrow> char list option \<times> 'c) \<Rightarrow> 'c option \<Rightarrow> string \<Rightarrow> (storage_t \<times> storage_t) option" where
  "client_query_quick exchange connection entry =
     (case connection of None \<Rightarrow> None | Some c \<Rightarrow> fst (client_query exchange c entry))"

text \<open>
  The configuration part of \<open>client_connect\<close>: where to connect and with which timeout. \<open>NoAddress\<close> is
  the case in which neither an address nor a file is set: the code then connects to an address
  structure it has never written. The outer \<open>None\<close> is the overflow in \<open>ippp_parse\<close>, the inner one a
  \<open>NULL\<close> result.
\<close>

datatype client_target = Remote nat nat | SocketFile string | NoAddress

definition client_timeout :: "config_t \<Rightarrow> int" where
  "client_timeout c =
     (case config_fetch_by_name c ''Server'' ''Timeout'' of
        None \<Rightarrow> 1
      | Some str \<Rightarrow> if atoi str = - 1 \<or> atoi str = 0 then 1 else atoi str)"

definition client_connect_conf ::
  "(string \<Rightarrow> nat option) \<Rightarrow> config_t option \<Rightarrow> (client_target \<times> int) option option" where
  "client_connect_conf inet_addr conf =
     (case conf of
        None \<Rightarrow> Some (Some (NoAddress, 1))
      | Some c \<Rightarrow>
          if (case config_fetch_by_name c ''Server'' ''Disable'' of
                None \<Rightarrow> False | Some str \<Rightarrow> str \<noteq> [] \<and> strcasecmp_eq str ''True'')
          then Some None
          else
            (case config_fetch_by_name c ''Server'' ''Remote'' of
               Some str \<Rightarrow>
                 (case ippp_parse inet_addr str of
                    None \<Rightarrow> None
                  | Some None \<Rightarrow> Some None
                  | Some (Some (ip, port)) \<Rightarrow> Some (Some (Remote ip port, client_timeout c)))
             | None \<Rightarrow>
                 (case config_fetch_by_name c ''Server'' ''Filename'' of
                    None \<Rightarrow> Some (Some (NoAddress, client_timeout c))
                  | Some str \<Rightarrow>
                      if str = [] then Some None
                      else Some (Some (SocketFile (take 106 str), client_timeout c)))))"

section \<open>Quotas\<close>

text \<open>
  The loop of \<open>quota_mtos\<close>. \<open>prev\<close> is the character before \<open>h\<close> (\<open>None\<close> at the start of the string,
  where the code reads in front of it), \<open>t\<close> the text from the start of the part; a number that has been
  set is not set again.
\<close>

definition mtos_store :: "string \<Rightarrow> storage_t \<times> bool \<Rightarrow> storage_t \<times> bool" where
  "mtos_store t v =
     (if snd v then v
      else let ts = (word_of_int (strtoll t) :: storage_t) in (if ts \<noteq> - 1 then ts else fst v, True))"

function mtos_loop ::
  "char option \<Rightarrow> string \<Rightarrow> storage_t \<times> bool \<Rightarrow> storage_t \<times> bool \<Rightarrow> string \<Rightarrow> (storage_t \<times> storage_t) option" where
  "mtos_loop prev t s c h =
     (if h = [] \<or> hd h = CHR '',''
      then case prev of
             None \<Rightarrow> None
           | Some p \<Rightarrow>
               let s' = (if p = CHR ''S'' \<or> (p \<noteq> CHR ''C'' \<and> h = []) then mtos_store t s else s);
                   c' = (if p = CHR ''C'' then mtos_store t c else c)
               in if h = [] then Some (fst s', fst c')
                  else let h' = dropWhile (\<lambda>x. x = CHR '','') h in mtos_loop (Some (CHR '','')) h' s' c' h'
      else mtos_loop (Some (hd h)) t s c (tl h))"
  by pat_completeness auto
termination
proof (relation "measure (\<lambda>(p, t, s, c, h). length h)", goal_cases)
  case (2 prev t s c h p s' c' h')
  then have "length h' \<le> length (tl h)"
    by (cases h) (auto simp: length_dropWhile_le)
  with 2 show ?case by (cases h) auto
next
  case (3 prev t s c h)
  then show ?case by (cases h) auto
qed simp

declare mtos_loop.simps [simp del]

definition quota_mtos :: "string \<Rightarrow> (storage_t \<times> storage_t) option" where
  "quota_mtos quota = mtos_loop None quota (0, False) (0, False) quota"

text \<open>The two comparisons; the \<open>int\<close> limits are converted to \<open>storage_t\<close>.\<close>

definition over_quota :: "storage_t \<Rightarrow> storage_t \<Rightarrow> storage_t \<Rightarrow> storage_t \<Rightarrow> bool" where
  "over_quota squota cquota usage count \<longleftrightarrow>
     squota \<noteq> 0 \<and> usage \<ge> squota \<or> cquota \<noteq> 0 \<and> count \<ge> cquota"

definition over_limits :: "vlimits \<Rightarrow> storage_t \<Rightarrow> storage_t \<Rightarrow> bool" where
  "over_limits vl usage count \<longleftrightarrow>
     diskquota vl \<noteq> 0 \<and> usage \<noteq> 0 \<and> usage div 1000000 \<ge> word_of_int (diskquota vl)
     \<or> maxmsgcount vl \<noteq> 0 \<and> count \<ge> word_of_int (maxmsgcount vl)"

definition quota_compare ::
  "('c \<Rightarrow> char list \<Rightarrow> char list option \<times> 'c) \<Rightarrow> 'c option \<Rightarrow> (string \<Rightarrow> (bool \<times> vlimits) option)
     \<Rightarrow> string \<Rightarrow> string \<Rightarrow> int option" where
  "quota_compare exchange connection limits_of email quota =
     (case quota_mtos quota of
        None \<Rightarrow> None
      | Some (squota, cquota) \<Rightarrow>
          let wanted = (squota \<noteq> 0 \<or> cquota \<noteq> 0) in
          if wanted \<and> Option.is_none connection then Some 0
          else
            let (answer, handle) =
              (if wanted then (\<lambda>(a, c). (a, Some c)) (client_query exchange (the connection) email)
               else (None, None))
            in if (case answer of None \<Rightarrow> False
                   | Some (usage, count) \<Rightarrow> usage \<noteq> no_usage \<and> over_quota squota cquota usage count)
               then Some 1
               else
                 let p = dropWhile (\<lambda>x. x \<noteq> CHR ''@'') email in
                 if p = [] then Some 0
                 else (case limits_of (tl p) of
                         None \<Rightarrow> None
                       | Some (False, vl) \<Rightarrow> Some 0
                       | Some (True, vl) \<Rightarrow>
                           (case (case handle of None \<Rightarrow> connection | Some c \<Rightarrow> Some c) of
                              None \<Rightarrow> Some 0
                            | Some c \<Rightarrow>
                                (case fst (client_query exchange c p) of
                                   None \<Rightarrow> Some 0
                                 | Some (usage, count) \<Rightarrow>
                                     Some (if usage \<noteq> no_usage \<and> over_limits vl usage count then 2 else 0)))))"

definition quota_check ::
  "('c \<Rightarrow> char list \<Rightarrow> char list option \<times> 'c) \<Rightarrow> 'c option \<Rightarrow> (string \<Rightarrow> (bool \<times> vlimits) option)
     \<Rightarrow> (string \<Rightarrow> vqpasswd option) \<Rightarrow> string \<Rightarrow> int option" where
  "quota_check exchange connection limits_of vauth_getpw email =
     (case vauth_getpw email of
        None \<Rightarrow> Some 0
      | Some pw \<Rightarrow>
          map_option (\<lambda>ret. if ret = 2 then 1 else ret) (quota_compare exchange connection limits_of email (pw_shell pw)))"

definition quota_check_domain ::
  "('c \<Rightarrow> char list \<Rightarrow> char list option \<times> 'c) \<Rightarrow> 'c option \<Rightarrow> (string \<Rightarrow> (bool \<times> vlimits) option)
     \<Rightarrow> string \<Rightarrow> int option" where
  "quota_check_domain exchange connection limits_of domain =
     (case limits_of domain of
        None \<Rightarrow> None
      | Some (False, vl) \<Rightarrow> Some 0
      | Some (True, vl) \<Rightarrow>
          if length domain \<ge> 254 then Some 0
          else (case client_query_quick exchange connection (''@'' @ domain) of
                  None \<Rightarrow> Some 0
                | Some (bytes, count) \<Rightarrow>
                    Some (if bytes \<noteq> no_usage \<and> over_limits vl bytes count then 1 else 0)))"

definition quota_get_usage ::
  "('c \<Rightarrow> char list \<Rightarrow> char list option \<times> 'c) \<Rightarrow> 'c option \<Rightarrow> string \<Rightarrow> bool \<times> storage_t \<times> storage_t" where
  "quota_get_usage exchange connection record =
     (case client_query_quick exchange connection record of
        None \<Rightarrow> (False, 0, 0)
      | Some (bytes, count) \<Rightarrow> if bytes = no_usage then (False, 0, 0) else (True, bytes, count))"

text \<open>\<open>stat_mtime\<close> is the modification time of a file, \<open>None\<close> when \<open>stat\<close> fails.\<close>

definition quota_should_warn :: "(string \<Rightarrow> time_t option) \<Rightarrow> time_t \<Rightarrow> vqpasswd \<Rightarrow> bool" where
  "quota_should_warn stat_mtime tm pw =
     (case stat_mtime (snprintf_str 255 (pw_dir pw @ ''/quotawarn'')) of
        None \<Rightarrow> False
      | Some mtime \<Rightarrow> \<not> mtime + 86400 > tm)"

section \<open>Printed quotas\<close>

text \<open>A quota of \<open>n\<close> bytes and \<open>m\<close> messages as the tools write it.\<close>

definition print_quota :: "nat \<Rightarrow> nat \<Rightarrow> string" where
  "print_quota n m = show_nat n @ ''S,'' @ show_nat m @ ''C''"

lemma mtos_skip:
  assumes "CHR '','' \<notin> set ds"
  shows "mtos_loop prev t s c (ds @ r) = mtos_loop (if ds = [] then prev else Some (last ds)) t s c r"
  using assms
proof (induction ds arbitrary: prev)
  case (Cons d ds)
  then have "mtos_loop prev t s c ((d # ds) @ r) = mtos_loop (Some d) t s c (ds @ r)"
    by (subst mtos_loop.simps) auto
  with Cons show ?case by auto
qed simp

lemma mtos_store_show:
  assumes "n < 2 ^ 63" "\<not> is_digit x"
  shows "mtos_store (show_nat n @ x # r) (0, False) = (of_nat n, True)"
proof -
  have "strtoll (show_nat n @ x # r) = int n" using assms by (simp add: strtoll_show_nat)
  moreover have "(of_nat n :: storage_t) \<noteq> - 1"
  proof
    assume "(of_nat n :: storage_t) = - 1"
    then have "unat (of_nat n :: storage_t) = unat (- 1 :: storage_t)" by simp
    then show False using assms(1) by (simp add: unsigned_of_nat take_bit_nat_eq_self unsigned_minus_1_eq_mask)
        (simp add: mask_eq_exp_minus_1)
  qed
  ultimately show ?thesis by (simp add: mtos_store_def)
qed

lemma comma_show [simp]: "CHR '','' \<notin> set (show_nat n)"
  using show_nat_digits [of "CHR '',''" n] by (auto simp: is_digit_def)

lemma quota_mtos_print:
  assumes "n < 2 ^ 63" "m < 2 ^ 63"
  shows "quota_mtos (print_quota n m) = Some (of_nat n, of_nat m)"
proof -
  have d: "\<not> is_digit CHR ''S''" "\<not> is_digit CHR ''C''" by (simp_all add: is_digit_def)
  have m: "dropWhile (\<lambda>x. x = CHR '','') (show_nat m @ ''C'') = show_nat m @ ''C''"
    using comma_show [of m] by (cases "show_nat m") auto
  have "quota_mtos (print_quota n m)
      = mtos_loop (Some CHR ''S'') (print_quota n m) (0, False) (0, False) ('','' @ show_nat m @ ''C'')"
    using mtos_skip [of "show_nat n @ ''S''"] by (simp add: quota_mtos_def print_quota_def)
  also have "\<dots> = mtos_loop (Some CHR '','') (show_nat m @ ''C'') (of_nat n, True) (0, False) (show_nat m @ ''C'')"
    using mtos_store_show [OF assms(1) d(1)] m by (subst mtos_loop.simps) (simp add: print_quota_def Let_def)
  also have "\<dots> = mtos_loop (Some CHR ''C'') (show_nat m @ ''C'') (of_nat n, True) (0, False) []"
    using mtos_skip [of "show_nat m @ ''C''" "Some CHR '',''" _ _ _ "[]"] by simp
  also have "\<dots> = Some (of_nat n, of_nat m)"
    using mtos_store_show [OF assms(2) d(2), of "[]"] by (subst mtos_loop.simps) simp
  finally show ?thesis .
qed

section \<open>What the quota code relies on\<close>

text \<open>The verdicts on the answer of the server, if it has data.\<close>

definition user_over :: "storage_t \<Rightarrow> storage_t \<Rightarrow> storage_t \<times> storage_t \<Rightarrow> bool" where
  "user_over squota cquota a \<longleftrightarrow> fst a \<noteq> no_usage \<and> over_quota squota cquota (fst a) (snd a)"

definition domain_over :: "vlimits \<Rightarrow> storage_t \<times> storage_t \<Rightarrow> bool" where
  "domain_over vl a \<longleftrightarrow> fst a \<noteq> no_usage \<and> over_limits vl (fst a) (snd a)"

text \<open>
  A usage server: in a ready connection it answers every request with its totals and is ready again.
\<close>

locale usage_server =
  fixes exchange :: "'c \<Rightarrow> char list \<Rightarrow> char list option \<times> 'c"
    and ready :: "'c \<Rightarrow> bool"
    and totals :: "'c \<Rightarrow> string \<Rightarrow> storage_t \<times> storage_t"
  assumes answers: "ready c \<Longrightarrow> good_query q \<Longrightarrow>
    \<exists>b c'. exchange c (client_request q) = (Some b, c') \<and> client_response b = Some (totals c q)
      \<and> ready c' \<and> totals c' = totals c"
begin

lemma query:
  assumes "ready c" "good_query q"
  shows "\<exists>c'. client_query exchange c q = (Some (totals c q), c') \<and> ready c' \<and> totals c' = totals c"
  using answers [OF assms] by (auto simp: client_query_def)

lemma query_fst:
  "ready c \<Longrightarrow> good_query q \<Longrightarrow> fst (client_query exchange c q) = Some (totals c q)"
  using query by fastforce

lemma quota_compare_verdict:
  assumes "ready c" "good_query email" "email = u @ ''@'' @ dm" "CHR ''@'' \<notin> set u"
    "quota_mtos quota = Some (squota, cquota)" "limits_of dm = Some (True, vl)"
  shows "quota_compare exchange (Some c) limits_of email quota
    = Some (if user_over squota cquota (totals c email) then 1
            else if domain_over vl (totals c (''@'' @ dm)) then 2 else 0)"
proof -
  have p: "dropWhile (\<lambda>x. x \<noteq> CHR ''@'') email = ''@'' @ dm"
    using assms(3,4) by (auto simp: dropWhile_append3)
  have q: "good_query (''@'' @ dm)"
    using assms(2,3) by (auto simp: good_query_def)
  from query [OF assms(1,2)] obtain c' where
    c': "client_query exchange c email = (Some (totals c email), c')" "ready c'" "totals c' = totals c" by blast
  have last: "fst (client_query exchange x (''@'' @ dm)) = Some (totals c (''@'' @ dm))"
    if "x = c \<or> x = c'" for x
    using that query_fst [OF assms(1) q] query_fst [OF c'(2) q] c'(3) by auto
  show ?thesis
  proof (cases "squota \<noteq> 0 \<or> cquota \<noteq> 0")
    case True
    with c'(1) assms(5,6) p last [of c'] show ?thesis
      by (auto simp: quota_compare_def user_over_def domain_over_def split: prod.splits)
  next
    case False
    with assms(5,6) p last [of c] show ?thesis
      by (auto simp: quota_compare_def user_over_def domain_over_def over_quota_def split: prod.splits)
  qed
qed

end

section \<open>The daemon as usage server\<close>

text \<open>
  What the daemon sends back for the bytes of one request, and its state after the bytes have left the
  output buffer.
\<close>

definition daemon_exchange :: "(nat \<Rightarrow> char) \<Rightarrow> serv \<Rightarrow> char list \<Rightarrow> char list option \<times> serv" where
  "daemon_exchange junk sv b =
     (case serve_chunks junk sv [b] of
        Some (True, sv') \<Rightarrow>
          (case grow_cut (sv_out sv') (g_bytes (sv_out sv')) of
             Some (True, g) \<Rightarrow> (Some (grow_contents (sv_out sv')), sv'\<lparr>sv_out := g\<rparr>)
           | _ \<Rightarrow> (None, sv'))
      | _ \<Rightarrow> (None, sv))"

definition daemon_ready :: "serv \<Rightarrow> bool" where
  "daemon_ready sv \<longleftrightarrow> serv_ok sv \<and> grow_contents (sv_in sv) = [] \<and> grow_contents (sv_out sv) = []"

definition daemon_totals :: "serv \<Rightarrow> string \<Rightarrow> storage_t \<times> storage_t" where
  "daemon_totals sv q = spec_answer (sv_daemon sv) q"

lemma daemon_exchange_answers:
  assumes "daemon_ready sv" "good_query q"
  shows "\<exists>b sv'. daemon_exchange junk sv (client_request q) = (Some b, sv')
    \<and> client_response b = Some (daemon_totals sv q) \<and> daemon_ready sv' \<and> daemon_totals sv' = daemon_totals sv"
proof -
  from client_request_served [of sv q junk] assms obtain sv1 where
    sv1: "serve_chunks junk sv [client_request q] = Some (True, sv1)" "serv_ok sv1"
      "sv_daemon sv1 = sv_daemon sv" "grow_contents (sv_in sv1) = []"
      "client_response (grow_contents (sv_out sv1)) = Some (spec_answer (sv_daemon sv) q)"
    by (auto simp: daemon_ready_def)
  have inv: "grow_inv (sv_out sv1)" using sv1(2) by (simp add: serv_ok_def)
  from grow_cut_spec [OF inv le_refl] obtain g where
    g: "grow_cut (sv_out sv1) (g_bytes (sv_out sv1)) = Some (True, g)" "grow_inv g" "grow_contents g = []"
    using grow_contents_length [OF inv] by auto
  with sv1 show ?thesis
    by (auto simp: daemon_exchange_def daemon_ready_def serv_ok_def daemon_totals_def fun_eq_iff)
qed

interpretation daemon_server: usage_server "daemon_exchange junk" daemon_ready daemon_totals
  for junk
  by unfold_locales (rule daemon_exchange_answers)

section \<open>Properties\<close>

lemma over_quota_nat:
  assumes "n < 2 ^ 63" "m < 2 ^ 63"
  shows "over_quota (of_nat n) (of_nat m) usage count
    \<longleftrightarrow> 0 < n \<and> n \<le> unat usage \<or> 0 < m \<and> m \<le> unat count"
proof -
  have u: "unat (of_nat k :: storage_t) = k" if "k < 2 ^ 63" for k
    using that by (simp add: unsigned_of_nat take_bit_nat_eq_self)
  then have "(of_nat k :: storage_t) = 0 \<longleftrightarrow> k = 0" if "k < 2 ^ 63" for k
    using u [OF that] by (auto dest: arg_cong [of _ _ unat])
  with u [OF assms(1)] u [OF assms(2)] assms show ?thesis by (simp add: over_quota_def word_le_nat_alt)
qed

lemma over_limits_int:
  "over_limits vl usage count \<longleftrightarrow>
     diskquota vl \<noteq> 0 \<and> usage \<noteq> 0 \<and> diskquota vl mod 2 ^ 64 \<le> uint usage div 1000000
     \<or> maxmsgcount vl \<noteq> 0 \<and> maxmsgcount vl mod 2 ^ 64 \<le> uint count"
proof -
  have "uint (usage div 1000000) = uint usage div 1000000"
    by (simp add: uint_div_distrib)
  then show ?thesis
    by (simp add: over_limits_def word_le_def uint_word_of_int)
qed

text \<open>
  C13. From the quota string to the answer over the connection: for a user with a printed quota of \<open>n\<close>
  bytes and \<open>m\<close> messages in a domain with readable limits, \<open>quota_check\<close> on a connection to the daemon
  says 1, over quota, exactly when the daemon holds totals \<open>(ub, uc)\<close> for the user of at least \<open>n\<close> bytes or
  \<open>m\<close> messages, or totals \<open>(db, dc)\<close> for the domain whose whole millions of bytes are at least
  \<open>diskquota\<close> or whose messages are at least \<open>maxmsgcount\<close>. A quota or limit of 0 is none, a total of
  \<open>- 1\<close> means that the daemon has none, and a domain without any bytes is within \<open>diskquota\<close>. The limits are
  read as unsigned numbers of 64 bits.
\<close>

theorem quota_check_verdict:
  assumes "daemon_ready sv" "good_query email" "email = u @ ''@'' @ dm" "CHR ''@'' \<notin> set u"
    "vauth_getpw email = Some pw" "pw_shell pw = print_quota n m" "n < 2 ^ 63" "m < 2 ^ 63"
    "vget_limits vget_assign default_file fs dm = Some (True, vl)"
    "spec_answer (sv_daemon sv) email = (ub, uc)" "spec_answer (sv_daemon sv) (''@'' @ dm) = (db, dc)"
  shows "quota_check (daemon_exchange junk) (Some sv) (vget_limits vget_assign default_file fs) vauth_getpw email
    = Some (if ub \<noteq> - 1 \<and> (0 < n \<and> n \<le> unat ub \<or> 0 < m \<and> m \<le> unat uc)
              \<or> db \<noteq> - 1 \<and> (diskquota vl \<noteq> 0 \<and> db \<noteq> 0 \<and> diskquota vl mod 2 ^ 64 \<le> uint db div 1000000
                           \<or> maxmsgcount vl \<noteq> 0 \<and> maxmsgcount vl mod 2 ^ 64 \<le> uint dc)
            then 1 else 0)"
proof -
  from quota_mtos_print [OF assms(7,8)]
  have "quota_mtos (pw_shell pw) = Some (of_nat n, of_nat m)" by (simp add: assms(6))
  from daemon_server.quota_compare_verdict [where limits_of = "vget_limits vget_assign default_file fs" and junk = junk,
      OF assms(1-4) this assms(9)]
  have c: "quota_compare (daemon_exchange junk) (Some sv) (vget_limits vget_assign default_file fs) email (pw_shell pw)
      = Some (if user_over (of_nat n) (of_nat m) (ub, uc) then 1 else if domain_over vl (db, dc) then 2 else 0)"
    by (simp only: daemon_totals_def assms(10,11))
  show ?thesis unfolding over_quota_nat [OF assms(7,8), symmetric] over_limits_int [symmetric]
    using c assms(5) by (simp add: quota_check_def user_over_def domain_over_def no_usage_def)
qed

definition pw_example :: vqpasswd where
  "pw_example = \<lparr>pw_name = ''bob'', pw_passwd = [], pw_uid = 0, pw_gid = 0, pw_flags = 0, pw_gecos = [],
     pw_dir = ''/h'', pw_shell = ''5000S,20C'', pw_clear_passwd = []\<rparr>"

lemma limits_example:
  "vget_limits (\<lambda>_. Some ''/d'') ''/etc/v''
     (\<lambda>p. if p = ''/d/.qmailadmin-limits'' then Some ''maxmsgcount 5'' else None) ''x.org''
   = Some (True, vdefault_limits\<lparr>maxmsgcount := 5\<rparr>)"
proof -
  have "vlimits_lines ''maxmsgcount 5'' vdefault_limits = vdefault_limits\<lparr>maxmsgcount := 5\<rparr>" by code_simp
  then show ?thesis
    by (simp add: vget_limits_def limits_path_def vlimits_read_limits_file_def MAX_BUFF_def c_str_def)
qed

theorem quota_check_verdict_witness:
  "quota_check (daemon_exchange (\<lambda>_. NUL)) (Some serv_example)
     (vget_limits (\<lambda>_. Some ''/d'') ''/etc/v'' (\<lambda>p. if p = ''/d/.qmailadmin-limits'' then Some ''maxmsgcount 5'' else None))
     (\<lambda>_. Some pw_example) ''bob@x.org'' = Some 0"
proof -
  have r: "daemon_ready serv_example"
    using serv_example_ok by (simp add: daemon_ready_def serv_example_def grow_example_def grow_contents_def)
  have e: "good_query ''bob@x.org''" "CHR ''@'' \<notin> set ''bob''" by code_simp+
  have s: "pw_shell pw_example = print_quota 5000 20"
    by (simp add: pw_example_def print_quota_def show_nat.simps char_of_def bit_0)
  have a: "spec_answer (sv_daemon serv_example) ''bob@x.org'' = (no_usage, no_usage)"
    "spec_answer (sv_daemon serv_example) (''@'' @ ''x.org'') = (0, 0)" by code_simp+
  show ?thesis
    using quota_check_verdict [OF r e(1) _ e(2), of "''x.org''" "\<lambda>_. Some pw_example" pw_example 5000 20
        "\<lambda>_. Some ''/d''" "''/etc/v''" _ _ _ _ _ _ "\<lambda>_. NUL", OF _ refl s _ _ limits_example a]
    by (simp add: no_usage_def vdefault_limits_def)
qed

end
