(* ===== verification/Bigdir.thy ===== *)
theory Bigdir
  imports Cfmt "HOL-Library.Monad_Syntax"
begin

text \<open>
  The balanced directory trees of \<^verbatim>\<open>bigdir.c\<close> and the control file that keeps their state between
  runs, as the cdb back end reads and writes it (\<^verbatim>\<open>read_dir_control\<close>, \<^verbatim>\<open>write_dir_control\<close> in
  \<^verbatim>\<open>backends/cdb/vcdb.c\<close>). Every hundredth user opens the next directory: first the empty name (the
  home of the domain), then \<open>0\<close> to \<open>z\<close>, then \<open>0/0\<close> to \<open>z/z\<close>, then \<open>0/0/0\<close> to \<open>z/z/z\<close>.

  The C arrays are lists, an access outside them is \<open>None\<close>; \<open>the_dir\<close> is the whole 300 byte buffer,
  \<open>c_str\<close> of it the name.
\<close>

section \<open>Model\<close>

definition MAX_USERS_PER_LEVEL :: nat where
  "MAX_USERS_PER_LEVEL = 100"

definition MAX_DIR_NAME :: nat where
  "MAX_DIR_NAME = 300"

record vdir_type =
  level_cur :: int
  level_max :: int
  level_start :: "int list"
  level_end :: "int list"
  level_mod :: "int list"
  level_index :: "int list"
  cur_users :: "64 word"
  the_dir :: "char list"

definition dirlist :: "char list" where
  "dirlist = ''0123456789ABCDEFGHIJKLMNOPQRSTUVWXYZabcdefghijklmnopqrstuvwxyz''"

text \<open>The loop of \<open>next_char\<close>: the index at which it stops.\<close>

function next_char_scan :: "char \<Rightarrow> int \<Rightarrow> int \<Rightarrow> int option" where
  "next_char_scan c i e =
     (if i < e + 1
      then do { d \<leftarrow> aref dirlist i; if d \<noteq> c then next_char_scan c (i + 1) e else Some i }
      else Some i)"
  by pat_completeness auto
termination by (relation "measure (\<lambda>(c, i, e). nat (e + 1 - i))") auto

definition next_char :: "char \<Rightarrow> int \<Rightarrow> int \<Rightarrow> char option" where
  "next_char in_char in_start in_end =
     do { i \<leftarrow> next_char_scan in_char in_start in_end;
          aref dirlist (if i + 1 \<ge> in_end + 1 then in_start else i + 1) }"

function inc_dir :: "vdir_type \<Rightarrow> int \<Rightarrow> vdir_type option" where
  "inc_dir v in_level =
     do { m \<leftarrow> aref (level_mod v) in_level;
          c \<leftarrow> aref (the_dir v) m;
          e \<leftarrow> aref (level_end v) in_level;
          last_char \<leftarrow> aref dirlist e;
          s \<leftarrow> aref (level_start v) in_level;
          if c = last_char
          then do {
            first_char \<leftarrow> aref dirlist s;
            dir' \<leftarrow> aset (the_dir v) m first_char;
            index' \<leftarrow> aset (level_index v) in_level s;
            let v' = v\<lparr>the_dir := dir', level_index := index'\<rparr>;
            if in_level > 0 then inc_dir v' (in_level - 1) else Some v' }
          else do {
            n \<leftarrow> next_char c s e;
            dir' \<leftarrow> aset (the_dir v) m n;
            i \<leftarrow> aref (level_index v) in_level;
            index' \<leftarrow> aset (level_index v) in_level (i + 1);
            Some (v\<lparr>the_dir := dir', level_index := index'\<rparr>) } }"
  by pat_completeness auto
termination by (relation "measure (\<lambda>(v, l). nat l)") auto

declare next_char_scan.simps [simp del] inc_dir.simps [simp del]

text \<open>\<open>strcat(the_dir, "/")\<close>.\<close>

definition strcat_slash :: "vdir_type \<Rightarrow> vdir_type option" where
  "strcat_slash v =
     do { let n = int (length (c_str (the_dir v)));
          d \<leftarrow> aset (the_dir v) n (CHR ''/'');
          d' \<leftarrow> aset d (n + 1) NUL;
          Some (v\<lparr>the_dir := d'\<rparr>) }"

definition inc_dir_control :: "vdir_type \<Rightarrow> vdir_type option" where
  "inc_dir_control v0 =
     (let v = v0\<lparr>cur_users := cur_users v0 + 1\<rparr> in
      if unat (cur_users v) mod MAX_USERS_PER_LEVEL \<noteq> 0 then Some v
      else if c_str (the_dir v) = []
      then do {
        s \<leftarrow> aref (level_start v) 0;
        c \<leftarrow> aref dirlist s;
        d \<leftarrow> aset (the_dir v) 0 c;
        d' \<leftarrow> aset d 1 NUL;
        Some (v\<lparr>the_dir := d'\<rparr>) }
      else do {
        index \<leftarrow> aref (level_index v) (level_cur v);
        e \<leftarrow> aref (level_end v) (level_cur v);
        v' \<leftarrow>
          (if index \<noteq> e then Some v
           else if level_cur v = 0
           then do {
             v1 \<leftarrow> inc_dir v (level_cur v);
             strcat_slash (v1\<lparr>level_cur := level_cur v1 + 1\<rparr>) }
           else if level_cur v = 1
           then do {
             i0 \<leftarrow> aref (level_index v) 0; e0 \<leftarrow> aref (level_end v) 0;
             i1 \<leftarrow> aref (level_index v) 1; e1 \<leftarrow> aref (level_end v) 1;
             if i0 = e0 \<and> i1 = e1
             then do {
               v1 \<leftarrow> inc_dir v (level_cur v);
               strcat_slash (v1\<lparr>level_cur := level_cur v1 + 1\<rparr>) }
             else Some v }
           else Some v);
        inc_dir v' (level_cur v') })"

text \<open>
  \<open>next_big_dir\<close> returns the new state and, when the name is not empty, the directory it hands to
  \<open>r_mkdir\<close>.
\<close>

definition next_big_dir :: "vdir_type \<Rightarrow> (vdir_type \<times> string option) option" where
  "next_big_dir v =
     do { v' \<leftarrow> inc_dir_control v;
          Some (v', if c_str (the_dir v') \<noteq> [] then Some (c_str (the_dir v')) else None) }"

section \<open>The control file\<close>

text \<open>\<open>the_dir\<close> after \<open>strncpy\<close>: the string and NULs up to the end of the buffer.\<close>

definition dir_buf :: "string \<Rightarrow> char list" where
  "dir_buf s = take MAX_DIR_NAME s @ replicate (MAX_DIR_NAME - length s) NUL"

text \<open>What \<open>read_dir_control\<close> sets when there is no control file (the rest is zeroed by
  \<open>open_big_dir\<close>).\<close>

definition fresh_dir :: vdir_type where
  "fresh_dir = \<lparr>level_cur = 0, level_max = 3, level_start = [0, 0, 0], level_end = [61, 61, 61],
     level_mod = [0, 2, 4], level_index = [0, 0, 0], cur_users = 0, the_dir = dir_buf []\<rparr>"

text \<open>
  One \<open>fgets\<close> into \<open>dir_control_file\<close>: the buffer as a string and the rest of the file.
\<close>

definition dc_line :: "string \<times> char list \<Rightarrow> string \<times> char list" where
  "dc_line bs =
     (case fgets_buf MAX_DIR_NAME (snd bs) of None \<Rightarrow> bs | Some (l, r) \<Rightarrow> (c_str l, r))"

text \<open>
  \<open>for(i=0;dir_control_file[i]!=' ';++i); ++i;\<close>: the text after the first blank; \<open>None\<close> when the
  loop leaves the string.
\<close>

definition after_blank :: "string \<Rightarrow> string option" where
  "after_blank s =
     (if CHR '' '' \<in> set s then Some (tl (dropWhile (\<lambda>c. c \<noteq> CHR '' '') s)) else None)"

text \<open>
  The three numbers of a line. Both searches start at index 0, so the third number is read from the
  place of the second.
\<close>

definition three_ints :: "string \<Rightarrow> int list option" where
  "three_ints b =
     do { t \<leftarrow> after_blank b;
          t' \<leftarrow> after_blank b;
          Some [atoi b, atoi t, atoi t'] }"

definition strip_lf :: "string \<Rightarrow> string" where
  "strip_lf s = c_str (map (\<lambda>c. if c = LF then NUL else c) s)"

definition read_dir_control :: "string \<Rightarrow> char list option \<Rightarrow> vdir_type option" where
  "read_dir_control dc_filename fs =
     (case fs of
        None \<Rightarrow> Some fresh_dir
      | Some bytes \<Rightarrow>
          do { let s0 = (take MAX_DIR_NAME dc_filename, bytes);
               let s1 = dc_line s0;
               let s2 = dc_line s1;
               let s3 = dc_line s2;
               let s4 = dc_line s3;
               start \<leftarrow> three_ints (fst s4);
               let s5 = dc_line s4;
               ends \<leftarrow> three_ints (fst s5);
               let s6 = dc_line s5;
               mods \<leftarrow> three_ints (fst s6);
               let s7 = dc_line s6;
               index \<leftarrow> three_ints (fst s7);
               let s8 = dc_line s7;
               let s9 = dc_line (strip_lf (fst s8), snd s8);
               Some \<lparr>level_cur = atoi (fst s2), level_max = atoi (fst s3), level_start = start,
                 level_end = ends, level_mod = mods, level_index = index,
                 cur_users = word_of_int (strtoll (fst s1)),
                 the_dir = dir_buf (strip_lf (fst s9))\<rparr> })"

definition show_three :: "int list \<Rightarrow> string" where
  "show_three xs = show_int (xs ! 0) @ '' '' @ show_int (xs ! 1) @ '' '' @ show_int (xs ! 2)"

definition write_dir_control :: "vdir_type \<Rightarrow> char list" where
  "write_dir_control v =
     show_nat (unat (cur_users v)) @ [LF] @ show_int (level_cur v) @ [LF] @
     show_int (level_max v) @ [LF] @ show_three (level_start v) @ [LF] @
     show_three (level_end v) @ [LF] @ show_three (level_mod v) @ [LF] @
     show_three (level_index v) @ [LF] @ c_str (the_dir v) @ [LF]"

text \<open>
  \<open>open_big_dir\<close>, \<open>next_big_dir\<close>, \<open>close_big_dir\<close>: what adding a user does to the control file, and
  the directory the user gets; \<open>dec_dir_control\<close> on the file.
\<close>

definition add_user_dir :: "string \<Rightarrow> char list option \<Rightarrow> (char list \<times> string) option" where
  "add_user_dir dc_filename fs =
     do { v \<leftarrow> read_dir_control dc_filename fs;
          (v', _) \<leftarrow> next_big_dir v;
          Some (write_dir_control v', c_str (the_dir v')) }"

definition dec_dir_control :: "string \<Rightarrow> char list option \<Rightarrow> char list option" where
  "dec_dir_control dc_filename fs =
     do { v \<leftarrow> read_dir_control dc_filename fs;
          Some (write_dir_control (v\<lparr>cur_users := cur_users v - 1\<rparr>)) }"

section \<open>The reference numbering\<close>

text \<open>
  The name of the \<open>k\<close>-th directory: the empty name, then \<open>k - 1\<close> as one digit, then as two, then as
  three digits of base 62, most significant first; after \<open>z/z/z\<close> it starts again at \<open>0/0/0\<close>.
\<close>

definition digit62 :: "nat \<Rightarrow> char" where
  "digit62 i = dirlist ! i"

definition bigdir_name :: "nat \<Rightarrow> string" where
  "bigdir_name k =
     (if k = 0 then ''''
      else if k \<le> 62 then [digit62 (k - 1)]
      else if k \<le> 62 + 62 ^ 2
      then let j = k - 63 in [digit62 (j div 62), CHR ''/'', digit62 (j mod 62)]
      else let j = (k - 63 - 62 ^ 2) mod 62 ^ 3
           in [digit62 (j div 62 ^ 2), CHR ''/'', digit62 (j div 62 mod 62), CHR ''/'', digit62 (j mod 62)])"

section \<open>Single steps\<close>

lemma length_dirlist [simp]: "length dirlist = 62"
  by (simp add: dirlist_def)

lemma next_char_dirlist: "list_all (\<lambda>i. next_char (dirlist ! i) 0 61 = Some (dirlist ! (i + 1))) [0..<61]"
  by code_simp

lemma next_char_digit [simp]: "i < 61 \<Longrightarrow> next_char (digit62 i) 0 61 = Some (digit62 (Suc i))"
  using next_char_dirlist by (auto simp: list_all_iff digit62_def)

lemma next_char_NUL [simp]: "next_char NUL 0 61 = Some (digit62 0)"
  by code_simp

lemma dirlist_last [simp]: "dirlist ! 61 = digit62 61" "dirlist ! 0 = digit62 0"
  by (simp_all add: digit62_def)

lemma distinct_dirlist: "distinct dirlist"
  by code_simp

lemma digit62_eq [simp]: "i < 62 \<Longrightarrow> j < 62 \<Longrightarrow> digit62 i = digit62 j \<longleftrightarrow> i = j"
  using distinct_dirlist by (simp add: digit62_def nth_eq_iff_index_eq)

lemma dirlist_chars: "list_all (\<lambda>c. c \<noteq> NUL \<and> c \<noteq> LF \<and> c \<noteq> CHR '' '') dirlist"
  by code_simp

lemma digit62_char [simp]: "i < 62 \<Longrightarrow> digit62 i \<noteq> NUL" "i < 62 \<Longrightarrow> digit62 i \<noteq> LF"
  using dirlist_chars by (auto simp: list_all_iff digit62_def)

lemmas digit62_char' [simp] = digit62_char [symmetric]

lemma dir_buf_set [simp]:
  "p < length s \<Longrightarrow> length s \<le> 300 \<Longrightarrow> (dir_buf s)[p := c] = dir_buf (s[p := c])"
  by (simp add: dir_buf_def MAX_DIR_NAME_def list_update_append)

lemma dir_buf_snoc [simp]:
  "length s < 300 \<Longrightarrow> (dir_buf s)[length s := c] = dir_buf (s @ [c])"
proof -
  assume "length s < 300"
  then obtain k where "300 - length s = Suc k" by (metis Suc_diff_Suc)
  moreover from this have "299 - length s = k" by simp
  ultimately show ?thesis by (simp add: dir_buf_def MAX_DIR_NAME_def list_update_append)
qed

lemma dir_buf_end: "length s < 300 \<Longrightarrow> (dir_buf s)[length s := NUL] = dir_buf s"
  by (rule list_update_same_conv [THEN iffD2]) (simp_all add: dir_buf_def MAX_DIR_NAME_def nth_append)

lemma length_dir_buf [simp]: "length (dir_buf s) = 300"
  by (simp add: dir_buf_def MAX_DIR_NAME_def)

lemma dir_buf_nth [simp]:
  "length s \<le> 300 \<Longrightarrow> p < 300 \<Longrightarrow> dir_buf s ! p = (if p < length s then s ! p else NUL)"
  by (simp add: dir_buf_def MAX_DIR_NAME_def nth_append)

lemma c_str_dir_buf [simp]: "nul_free s \<Longrightarrow> length s \<le> 300 \<Longrightarrow> c_str (dir_buf s) = s"
  by (simp add: c_str_def dir_buf_def MAX_DIR_NAME_def nul_free_def takeWhile_append takeWhile_replicate)

text \<open>The states the counter goes through.\<close>

definition dst :: "64 word \<Rightarrow> int \<Rightarrow> int \<Rightarrow> int \<Rightarrow> int \<Rightarrow> int \<Rightarrow> string \<Rightarrow> vdir_type" where
  "dst u c i0 i1 i2 m s = \<lparr>level_cur = c, level_max = 3, level_start = [0, 0, 0],
     level_end = [61, 61, 61], level_mod = [0, 2, m], level_index = [i0, i1, i2], cur_users = u,
     the_dir = dir_buf s\<rparr>"

lemma dst_simps [simp]:
  "level_cur (dst u c i0 i1 i2 m s) = c"
  "level_start (dst u c i0 i1 i2 m s) = [0, 0, 0]"
  "level_end (dst u c i0 i1 i2 m s) = [61, 61, 61]"
  "level_mod (dst u c i0 i1 i2 m s) = [0, 2, m]"
  "level_index (dst u c i0 i1 i2 m s) = [i0, i1, i2]"
  "cur_users (dst u c i0 i1 i2 m s) = u"
  "the_dir (dst u c i0 i1 i2 m s) = dir_buf s"
  "(dst u c i0 i1 i2 m s)\<lparr>level_cur := c'\<rparr> = dst u c' i0 i1 i2 m s"
  "(dst u c i0 i1 i2 m s)\<lparr>cur_users := u'\<rparr> = dst u' c i0 i1 i2 m s"
  "(dst u c i0 i1 i2 m s)\<lparr>the_dir := dir_buf s'\<rparr> = dst u c i0 i1 i2 m s'"
  "(dst u c i0 i1 i2 m s)\<lparr>level_index := [j0, j1, j2]\<rparr> = dst u c j0 j1 j2 m s"
  by (simp_all add: dst_def)

lemma inc_dir_0 [simp]:
  "length s \<le> 300 \<Longrightarrow> s \<noteq> [] \<Longrightarrow> s ! 0 = digit62 a \<Longrightarrow> a < 62 \<Longrightarrow>
   inc_dir (dst u c i0 i1 i2 m s) 0 =
     (if a = 61 then Some (dst u c 0 i1 i2 m (s[0 := digit62 0]))
      else Some (dst u c (i0 + 1) i1 i2 m (s[0 := digit62 (Suc a)])))"
  by (subst inc_dir.simps) simp

lemma inc_dir_1 [simp]:
  "length s \<le> 300 \<Longrightarrow> 2 < length s \<Longrightarrow> s ! 2 = digit62 b \<Longrightarrow> b < 62 \<Longrightarrow>
   inc_dir (dst u c i0 i1 i2 m s) 1 =
     (if b = 61 then inc_dir (dst u c i0 0 i2 m (s[2 := digit62 0])) 0
      else Some (dst u c i0 (i1 + 1) i2 m (s[2 := digit62 (Suc b)])))"
  by (subst inc_dir.simps) simp

lemma inc_dir_1_new [simp]:
  "length s = 2 \<Longrightarrow>
   inc_dir (dst u c i0 i1 i2 m s) 1 = Some (dst u c i0 (i1 + 1) i2 m (s @ [digit62 0]))"
  using dir_buf_snoc [of s] by (subst inc_dir.simps) simp

lemma inc_dir_2 [simp]:
  "length s \<le> 300 \<Longrightarrow> nat m < length s \<Longrightarrow> 0 \<le> m \<Longrightarrow> s ! nat m = digit62 b \<Longrightarrow> b < 62 \<Longrightarrow>
   inc_dir (dst u c i0 i1 i2 m s) 2 =
     (if b = 61 then inc_dir (dst u c i0 i1 0 m (s[nat m := digit62 0])) 1
      else Some (dst u c i0 i1 (i2 + 1) m (s[nat m := digit62 (Suc b)])))"
  by (subst inc_dir.simps) (simp add: aref_def aset_def)

lemma inc_dir_2_new [simp]:
  "length s = 4 \<Longrightarrow>
   inc_dir (dst u c i0 i1 i2 4 s) 2 = Some (dst u c i0 i1 (i2 + 1) 4 (s @ [digit62 0]))"
  using dir_buf_snoc [of s] by (subst inc_dir.simps) simp

lemma strcat_slash_dst [simp]:
  "length s < 299 \<Longrightarrow> nul_free s \<Longrightarrow>
   strcat_slash (dst u c i0 i1 i2 m s) = Some (dst u c i0 i1 i2 m (s @ ''/''))"
  unfolding strcat_slash_def
  using dir_buf_end [of "s @ ''/''"] by (simp add: aset_def nat_add_distrib)

text \<open>One call of \<open>inc_dir_control\<close>, between the hundreds and on each of them.\<close>

lemma inc_control_same:
  "unat (u + 1) mod 100 \<noteq> 0 \<Longrightarrow>
   inc_dir_control (dst u c i0 i1 i2 m s) = Some (dst (u + 1) c i0 i1 i2 m s)"
  by (simp add: inc_dir_control_def MAX_USERS_PER_LEVEL_def)

lemma inc_first:
  "unat (u + 1) mod 100 = 0 \<Longrightarrow>
   inc_dir_control (dst u 0 i0 i1 i2 m []) = Some (dst (u + 1) 0 i0 i1 i2 m [digit62 0])"
  using dir_buf_snoc [of "[]"] dir_buf_end [of "[digit62 0]"]
  by (simp add: inc_dir_control_def MAX_USERS_PER_LEVEL_def Let_def)

lemma inc_one:
  "unat (u + 1) mod 100 = 0 \<Longrightarrow>
   a < 61 \<Longrightarrow> inc_dir_control (dst u 0 (int a) i1 i2 m [digit62 a])
     = Some (dst (u + 1) 0 (int a + 1) i1 i2 m [digit62 (Suc a)])"
  by (simp add: inc_dir_control_def MAX_USERS_PER_LEVEL_def Let_def)

lemma inc_one_two:
  "unat (u + 1) mod 100 = 0 \<Longrightarrow>
   inc_dir_control (dst u 0 61 i1 i2 m [digit62 61])
     = Some (dst (u + 1) 1 0 (i1 + 1) i2 m [digit62 0, CHR ''/'', digit62 0])"
  by (simp add: inc_dir_control_def MAX_USERS_PER_LEVEL_def Let_def)

lemma inc_two:
  "unat (u + 1) mod 100 = 0 \<Longrightarrow>
   a < 62 \<Longrightarrow> b < 61 \<Longrightarrow> \<not> (i0 = 61 \<and> i1 = 61) \<Longrightarrow>
   inc_dir_control (dst u 1 i0 i1 i2 m [digit62 a, CHR ''/'', digit62 b])
     = Some (dst (u + 1) 1 i0 (i1 + 1) i2 m [digit62 a, CHR ''/'', digit62 (Suc b)])"
  by (auto simp: inc_dir_control_def MAX_USERS_PER_LEVEL_def Let_def)

lemma inc_two_carry:
  "unat (u + 1) mod 100 = 0 \<Longrightarrow>
   a < 61 \<Longrightarrow> inc_dir_control (dst u 1 (int a) i1 i2 m [digit62 a, CHR ''/'', digit62 61])
     = Some (dst (u + 1) 1 (int a + 1) 0 i2 m [digit62 (Suc a), CHR ''/'', digit62 0])"
  by (auto simp: inc_dir_control_def MAX_USERS_PER_LEVEL_def Let_def)

lemma inc_two_three:
  "unat (u + 1) mod 100 = 0 \<Longrightarrow>
   inc_dir_control (dst u 1 61 61 i2 4 [digit62 61, CHR ''/'', digit62 61])
     = Some (dst (u + 1) 2 0 0 (i2 + 1) 4 [digit62 0, CHR ''/'', digit62 0, CHR ''/'', digit62 0])"
  by (simp add: inc_dir_control_def MAX_USERS_PER_LEVEL_def Let_def)

lemma inc_three:
  "unat (u + 1) mod 100 = 0 \<Longrightarrow>
   a < 62 \<Longrightarrow> b < 62 \<Longrightarrow> c < 62 \<Longrightarrow>
   inc_dir_control
     (dst u 2 (int a) (int b) i2 4 [digit62 a, CHR ''/'', digit62 b, CHR ''/'', digit62 c])
   = Some (if c < 61
           then dst (u + 1) 2 (int a) (int b) (i2 + 1) 4
                  [digit62 a, CHR ''/'', digit62 b, CHR ''/'', digit62 (Suc c)]
           else if b < 61
           then dst (u + 1) 2 (int a) (int b + 1) 0 4
                  [digit62 a, CHR ''/'', digit62 (Suc b), CHR ''/'', digit62 0]
           else if a < 61
           then dst (u + 1) 2 (int a + 1) 0 0 4
                  [digit62 (Suc a), CHR ''/'', digit62 0, CHR ''/'', digit62 0]
           else dst (u + 1) 2 0 0 0 4 [digit62 0, CHR ''/'', digit62 0, CHR ''/'', digit62 0])"
  by (auto simp: inc_dir_control_def MAX_USERS_PER_LEVEL_def Let_def)

text \<open>The third level with the position that \<open>read_dir_control\<close> gives it.\<close>

lemma inc_two_three_reload:
  "unat (u + 1) mod 100 = 0 \<Longrightarrow>
   inc_dir_control (dst u 1 61 61 i2 2 [digit62 61, CHR ''/'', digit62 61])
     = Some (dst (u + 1) 2 0 0 (i2 + 1) 2 [digit62 0, CHR ''/'', digit62 1, CHR ''/''])"
  by (simp add: inc_dir_control_def MAX_USERS_PER_LEVEL_def Let_def)

lemma inc_three_reload:
  "unat (u + 1) mod 100 = 0 \<Longrightarrow>
   b < 62 \<Longrightarrow>
   inc_dir_control (dst u 2 i0 i1 i2 2 [digit62 0, CHR ''/'', digit62 b, CHR ''/''])
   = Some (if b < 61
           then dst (u + 1) 2 i0 i1 (i2 + 1) 2 [digit62 0, CHR ''/'', digit62 (Suc b), CHR ''/'']
           else dst (u + 1) 2 i0 (i1 + 1) 0 2 [digit62 0, CHR ''/'', digit62 1, CHR ''/''])"
  by (auto simp: inc_dir_control_def MAX_USERS_PER_LEVEL_def Let_def)

section \<open>The counter follows the numbering\<close>

definition low_state :: "64 word \<Rightarrow> nat \<Rightarrow> int \<Rightarrow> int \<Rightarrow> vdir_type" where
  "low_state u k i2 m =
     (if k = 0 then dst u 0 0 0 i2 m (bigdir_name k)
      else if k \<le> 62 then dst u 0 (int (k - 1)) 0 i2 m (bigdir_name k)
      else let a = (k - 63) div 62; b = (k - 63) mod 62
           in dst u 1 (int a) (int b + (if a = 0 then 1 else 0)) i2 m (bigdir_name k))"

definition high_state :: "64 word \<Rightarrow> nat \<Rightarrow> vdir_type" where
  "high_state u j =
     (let i = j mod 62 ^ 3
      in dst u 2 (int (i div 62 ^ 2)) (int (i div 62 mod 62)) (int (i mod 62) + (if j < 62 then 1 else 0)) 4
           (bigdir_name (63 + 62 ^ 2 + j)))"

lemma low_step:
  assumes "unat (u + 1) mod 100 = 0" "k < 62 + 62 ^ 2"
  shows "inc_dir_control (low_state u k i2 m) = Some (low_state (u + 1) (Suc k) i2 m)"
proof -
  consider "k = 0" | "0 < k" "k < 62" | "k = 62" | "62 < k" by linarith
  then show ?thesis
  proof cases
    case 1
    with inc_first [OF assms(1)] show ?thesis by (simp add: low_state_def bigdir_name_def)
  next
    case 2
    with inc_one [OF assms(1), of "k - 1"] show ?thesis
      by (simp add: low_state_def bigdir_name_def)
  next
    case 3
    with inc_one_two [OF assms(1), of 0] show ?thesis
      by (simp add: low_state_def bigdir_name_def)
  next
    case 4
    define j where "j = k - 63"
    have k: "k = 63 + j" "j < 3843" using 4 assms(2) by (simp_all add: j_def)
    have a: "j div 62 < 62" using k by (simp add: less_mult_imp_div_less)
    show ?thesis
    proof (cases "j mod 62 = 61")
      case True
      have "j div 62 < 61"
      proof (rule ccontr)
        assume "\<not> j div 62 < 61"
        with True div_mult_mod_eq [of j 62] k(2) show False by simp
      qed
      with True k inc_two_carry [OF assms(1), of "j div 62"] show ?thesis
        by (simp add: low_state_def bigdir_name_def div_Suc mod_Suc Let_def add.commute [of 1])
    next
      case False
      then have b: "j mod 62 < 61" using mod_less_divisor [of 62 j] by linarith
      with k a inc_two [OF assms(1) a b, of "int (j div 62)" "int (j mod 62) + (if j div 62 = 0 then 1 else 0)"]
      show ?thesis
        by (simp add: low_state_def bigdir_name_def div_Suc mod_Suc Let_def algebra_simps)
    qed
  qed
qed

lemma high_first:
  "unat (u + 1) mod 100 = 0 \<Longrightarrow>
   inc_dir_control (low_state u (62 + 62 ^ 2) 0 4) = Some (high_state (u + 1) 0)"
  using inc_two_three [of u 0] by (simp add: low_state_def high_state_def bigdir_name_def)

definition digits3 :: "nat \<Rightarrow> nat \<times> nat \<times> nat" where
  "digits3 i = (i div 62 ^ 2, i div 62 mod 62, i mod 62)"

lemma digits3_of:
  "b < 62 \<Longrightarrow> c < 62 \<Longrightarrow> digits3 (3844 * a + 62 * b + c) = (a, b, c)"
proof -
  assume bc: "b < 62" "c < 62"
  have x: "3844 * a + 62 * b + c = c + (b + a * 62) * 62" by simp
  have "(c + (b + a * 62) * 62) div 62 = b + a * 62" "(c + (b + a * 62) * 62) mod 62 = c"
    using bc(2) mod_mult_self1 [of c "b + a * 62" 62] by (simp_all del: distrib_right_numeral mod_mult_self1)
  moreover have "n div 62 ^ 2 = n div 62 div 62" for n :: nat
    by (simp add: div_mult2_eq [symmetric])
  ultimately show ?thesis using bc by (simp only: digits3_def x) simp
qed

lemma digits3_ex:
  assumes "(i :: nat) < 62 ^ 3"
  obtains a b c where "i = 3844 * a + 62 * b + c" "a < 62" "b < 62" "c < 62"
proof
  show "i = 3844 * (i div 62 div 62) + 62 * (i div 62 mod 62) + i mod 62"
    using div_mult_mod_eq [of i 62] div_mult_mod_eq [of "i div 62" 62] by linarith
  show "i div 62 div 62 < 62" using assms by (simp add: less_mult_imp_div_less div_mult2_eq [symmetric])
qed simp_all

lemma digits3_Suc:
  assumes "a < 62" "b < 62" "c < 62" "i = 3844 * a + 62 * b + c"
  shows "digits3 (if Suc i = 62 ^ 3 then 0 else Suc i) =
     (if c < 61 then (a, b, Suc c) else if b < 61 then (a, Suc b, 0)
      else if a < 61 then (Suc a, 0, 0) else (0, 0, 0))"
proof -
  consider "c < 61" | "c = 61" "b < 61" | "c = 61" "b = 61" "a < 61" | "c = 61" "b = 61" "a = 61"
    using assms by linarith
  then show ?thesis
  proof cases
    case 1
    with assms have "Suc i = 3844 * a + 62 * b + Suc c" "Suc i \<noteq> 62 ^ 3" by simp_all
    moreover have "digits3 (3844 * a + 62 * b + Suc c) = (a, b, Suc c)"
      by (rule digits3_of) (use 1 assms in simp_all)
    ultimately show ?thesis using 1 by (simp only: if_False if_True)
  next
    case 2
    with assms have "Suc i = 3844 * a + 62 * Suc b + 0" "Suc i \<noteq> 62 ^ 3" by simp_all
    moreover have "digits3 (3844 * a + 62 * Suc b + 0) = (a, Suc b, 0)"
      by (rule digits3_of) (use 2 assms in simp_all)
    ultimately have "digits3 (Suc i) = (a, Suc b, 0)" by (simp only:)
    then show ?thesis using 2 \<open>Suc i \<noteq> 62 ^ 3\<close> by simp
  next
    case 3
    with assms have "Suc i = 3844 * Suc a + 62 * 0 + 0" "Suc i \<noteq> 62 ^ 3" by simp_all
    moreover have "digits3 (3844 * Suc a + 62 * 0 + 0) = (Suc a, 0, 0)"
      by (rule digits3_of) simp_all
    ultimately have "digits3 (Suc i) = (Suc a, 0, 0)" by (simp only:)
    then show ?thesis using 3 \<open>Suc i \<noteq> 62 ^ 3\<close> by simp
  next
    case 4
    with assms digits3_of [of 0 0 0] show ?thesis by simp
  qed
qed

lemma high_state_digits:
  "digits3 (j mod 62 ^ 3) = (a, b, c) \<Longrightarrow>
   high_state u j = dst u 2 (int a) (int b) (int c + (if j < 62 then 1 else 0)) 4
     [digit62 a, CHR ''/'', digit62 b, CHR ''/'', digit62 c]"
  by (auto simp: high_state_def digits3_def bigdir_name_def Let_def)

lemma high_step:
  assumes "unat (u + 1) mod 100 = 0"
  shows "inc_dir_control (high_state u j) = Some (high_state (u + 1) (Suc j))"
proof -
  have "j mod 62 ^ 3 < 62 ^ 3" by simp
  then obtain a b c where
    i: "j mod 62 ^ 3 = 3844 * a + 62 * b + c" and d: "a < 62" "b < 62" "c < 62"
    by (rule digits3_ex)
  have "Suc j mod 62 ^ 3 = (if Suc (j mod 62 ^ 3) = 62 ^ 3 then 0 else Suc (j mod 62 ^ 3))"
    by (rule mod_Suc)
  then have next': "digits3 (Suc j mod 62 ^ 3) =
     (if c < 61 then (a, b, Suc c) else if b < 61 then (a, Suc b, 0)
      else if a < 61 then (Suc a, 0, 0) else (0, 0, 0))"
    using digits3_Suc [OF d i] by simp
  have this': "digits3 (j mod 62 ^ 3) = (a, b, c)" using digits3_of d i by simp
  have m: "j mod 62 = c"
    using this' mod_mod_cancel [of 62 "62 ^ 3" j] by (simp add: digits3_def)
  have small: "Suc j < 62 \<longleftrightarrow> j < 62" if "c < 61"
    using that m by (cases "j < 62") auto
  have none: "\<not> Suc j < 62" if "c = 61"
    using that m by (cases "j < 61") auto
  show ?thesis
    unfolding high_state_digits [OF this'] inc_three [OF assms d]
    using next' small none d
    by (auto simp: high_state_digits algebra_simps split: if_splits)
qed

text \<open>\<open>n\<close> calls of \<open>inc_dir_control\<close> on one structure.\<close>

fun inc_times :: "nat \<Rightarrow> vdir_type \<Rightarrow> vdir_type option" where
  "inc_times 0 v = Some v"
| "inc_times (Suc n) v = inc_times n v \<bind> inc_dir_control"

definition bigdir_state :: "nat \<Rightarrow> vdir_type" where
  "bigdir_state n =
     (let k = n div 100
      in if k \<le> 62 + 62 ^ 2 then low_state (of_nat n) k 0 4
         else high_state (of_nat n) (k - 63 - 62 ^ 2))"

lemma word_hundred:
  "Suc n < 2 ^ 64 \<Longrightarrow> unat ((of_nat n :: 64 word) + 1) = Suc n"
proof -
  assume "Suc n < 2 ^ 64"
  then have "unat (of_nat (Suc n) :: 64 word) = Suc n"
    using take_bit_nat_eq_self [of "Suc n" 64] by (simp only: unsigned_of_nat) simp
  then show ?thesis by (simp add: add.commute)
qed

lemma low_state_same:
  "unat (u + 1) mod 100 \<noteq> 0 \<Longrightarrow> inc_dir_control (low_state u k i2 m) = Some (low_state (u + 1) k i2 m)"
  by (simp add: low_state_def inc_control_same Let_def)

lemma high_state_same:
  "unat (u + 1) mod 100 \<noteq> 0 \<Longrightarrow> inc_dir_control (high_state u j) = Some (high_state (u + 1) j)"
  by (simp add: high_state_def inc_control_same Let_def)

lemma bigdir_state_Suc:
  assumes "Suc n < 2 ^ 64"
  shows "inc_dir_control (bigdir_state n) = Some (bigdir_state (Suc n))"
proof (cases "Suc n mod 100 = 0")
  case True
  then have k: "Suc n div 100 = Suc (n div 100)" by (simp add: div_Suc mod_Suc split: if_splits)
  have u: "unat ((of_nat n :: 64 word) + 1) mod 100 = 0" using True word_hundred [OF assms] by simp
  consider "n div 100 < 62 + 62 ^ 2" | "n div 100 = 62 + 62 ^ 2" | "62 + 62 ^ 2 < n div 100" by linarith
  then show ?thesis
  proof cases
    case 1
    with low_step [OF u 1] k show ?thesis by (simp add: bigdir_state_def add.commute)
  next
    case 2
    with high_first [OF u] k show ?thesis by (simp add: bigdir_state_def add.commute)
  next
    case 3
    then have "Suc (n div 100 - 3907) = n div 100 - 3906" by simp
    with 3 high_step [OF u, of "n div 100 - 63 - 62 ^ 2"] k show ?thesis
      by (simp add: bigdir_state_def add.commute)
  qed
next
  case False
  then have k: "Suc n div 100 = n div 100" by (simp add: div_Suc mod_Suc split: if_splits)
  have u: "unat ((of_nat n :: 64 word) + 1) mod 100 \<noteq> 0" using False word_hundred [OF assms] by simp
  show ?thesis
    using low_state_same [OF u] high_state_same [OF u] k by (simp add: bigdir_state_def Let_def add.commute)
qed

lemma fresh_bigdir_state: "fresh_dir = bigdir_state 0"
  by (simp add: bigdir_state_def low_state_def dst_def fresh_dir_def bigdir_name_def)

lemma inc_times_state: "n < 2 ^ 64 \<Longrightarrow> inc_times n fresh_dir = Some (bigdir_state n)"
  by (induction n) (simp_all add: fresh_bigdir_state bigdir_state_Suc)

lemma bigdir_state_dir: "the_dir (bigdir_state n) = dir_buf (bigdir_name (n div 100))"
  by (simp add: bigdir_state_def low_state_def high_state_def Let_def)

lemma bigdir_name_ok: "nul_free (bigdir_name k)" "LF \<notin> set (bigdir_name k)" "length (bigdir_name k) \<le> 5"
proof -
  have d: "i div 62 ^ 2 < 62" if "i < 62 ^ 3" for i :: nat
    using that by (simp add: less_mult_imp_div_less)
  have d2: "i div 62 < 62" if "i < 62 ^ 2" for i :: nat
    using that by (simp add: less_mult_imp_div_less)
  show "nul_free (bigdir_name k)" "LF \<notin> set (bigdir_name k)" "length (bigdir_name k) \<le> 5"
    using d [of "(k - 63 - 62 ^ 2) mod 62 ^ 3"] d2 [of "k - 63"]
    by (simp_all add: bigdir_name_def Let_def)
qed

text \<open>
  C28. After any number of users below \<open>2^64\<close>, the directory \<open>inc_dir_control\<close> has reached is the one of
  the reference numbering: the number of users over one hundred, written with one, two and then three
  digits of base 62, although \<open>level_index\<close> runs one ahead of the digit after each new level.
\<close>

theorem inc_dir_numbering:
  assumes "n < 2 ^ 64"
  shows "\<exists>v. inc_times n fresh_dir = Some v \<and> cur_users v = of_nat n
           \<and> c_str (the_dir v) = bigdir_name (n div MAX_USERS_PER_LEVEL)"
proof -
  have "cur_users (bigdir_state n) = of_nat n"
    by (simp add: bigdir_state_def low_state_def high_state_def Let_def)
  with inc_times_state [OF assms] bigdir_name_ok [of "n div 100"] show ?thesis
    by (simp add: bigdir_state_dir MAX_USERS_PER_LEVEL_def)
qed

theorem inc_dir_numbering_witness:
  "\<exists>v. inc_times 6300 fresh_dir = Some v \<and> cur_users v = 6300 \<and> c_str (the_dir v) = ''0/0''"
  using inc_dir_numbering [of 6300]
  by (simp add: MAX_USERS_PER_LEVEL_def bigdir_name_def digit62_def dirlist_def)

section \<open>The control file read back\<close>

definition three32 :: "int list \<Rightarrow> bool" where
  "three32 xs \<longleftrightarrow> length xs = 3 \<and> list_all int32 xs"

text \<open>A control structure whose numbers fit their C types and whose name is a line.\<close>

definition dir_ok :: "vdir_type \<Rightarrow> bool" where
  "dir_ok v \<longleftrightarrow> int32 (level_cur v) \<and> int32 (level_max v) \<and> three32 (level_start v)
     \<and> three32 (level_end v) \<and> three32 (level_mod v) \<and> three32 (level_index v)
     \<and> unat (cur_users v) < 2 ^ 63
     \<and> LF \<notin> set (c_str (the_dir v)) \<and> length (c_str (the_dir v)) < 299
     \<and> the_dir v = dir_buf (c_str (the_dir v))"

text \<open>The third number replaced by the second.\<close>

definition third_lost :: "int list \<Rightarrow> int list" where
  "third_lost xs = xs[2 := xs ! 1]"

lemma dc_line_line:
  assumes "nul_free l" "LF \<notin> set l" "length l < 299"
  shows "dc_line (b, l @ LF # r) = (l @ [LF], r)"
proof -
  have "c_str (l @ [LF]) = l @ [LF]"
    using assms(1) by (simp add: c_str_def nul_free_def takeWhile_append takeWhile_all)
  with assms show ?thesis by (simp add: dc_line_def MAX_DIR_NAME_def)
qed

lemma nul_free_show [simp]: "nul_free (show_nat n)" "nul_free (show_int i)"
  using show_int_chars(1) [of _ i] show_nat_digits [of NUL n]
  by (auto simp: nul_free_def is_digit_def)

lemma LF_show [simp]: "LF \<notin> set (show_nat n)" "LF \<notin> set (show_int i)"
  using show_int_chars(2) [of _ i] show_nat_digits [of LF n] by (auto simp: is_digit_def)

lemma blank_show [simp]: "CHR '' '' \<notin> set (show_int i)"
  using show_int_chars(4) [of _ i] by auto

lemma after_blank_show [simp]: "after_blank (show_int i @ CHR '' '' # r) = Some r"
proof -
  have "dropWhile (\<lambda>c. c \<noteq> CHR '' '') (show_int i @ CHR '' '' # r) = CHR '' '' # r"
    using show_int_chars(4) [of _ i] by (simp add: dropWhile_append3)
  then show ?thesis by (simp add: after_blank_def)
qed

lemma three32_ex: "three32 xs \<Longrightarrow> \<exists>a b c. xs = [a, b, c] \<and> int32 a \<and> int32 b \<and> int32 c"
  by (auto simp: three32_def list_all_iff numeral_3_eq_3 length_Suc_conv)

lemma three_ints_show:
  assumes "three32 xs"
  shows "three_ints (show_three xs @ [LF]) = Some (third_lost xs)"
proof -
  have nd: "\<not> is_digit CHR '' ''" by (simp add: is_digit_def)
  from three32_ex [OF assms] obtain a b c where "xs = [a, b, c]" "int32 a" "int32 b" "int32 c" by blast
  then show ?thesis
    by (simp add: three_ints_def show_three_def third_lost_def atoi_show_int int32_def nd)
qed

lemma three_line:
  assumes "three32 xs"
  shows "nul_free (show_three xs)" "LF \<notin> set (show_three xs)" "length (show_three xs) < 299"
proof -
  from three32_ex [OF assms] obtain a b c where xs: "xs = [a, b, c]" "int32 a" "int32 b" "int32 c" by blast
  have "length (show_int i) \<le> 11" if "int32 i" for i
    using length_show_int [of i] that by (simp add: int32_def)
  from this [OF xs(2)] this [OF xs(3)] this [OF xs(4)] xs(1)
  show "nul_free (show_three xs)" "LF \<notin> set (show_three xs)" "length (show_three xs) < 299"
    by (simp_all add: show_three_def)
qed

lemma int_line:
  assumes "int32 i"
  shows "length (show_int i) < 299" "atoi (show_int i @ [LF]) = i"
  using length_show_int [of i] atoi_show_int [of "[LF]" i] assms
  by (simp_all add: int32_def is_digit_def)

lemma users_line:
  assumes "n < 2 ^ 63"
  shows "length (show_nat n) < 299" "strtoll (show_nat n @ [LF]) = int n"
  using length_show_nat [of n 19] strtoll_show_nat [of "[LF]" n] assms by (simp_all add: is_digit_def)

lemma strip_lf_line: "nul_free l \<Longrightarrow> LF \<notin> set l \<Longrightarrow> strip_lf (l @ [LF]) = l"
proof -
  assume l: "nul_free l" "LF \<notin> set l"
  then have "map (\<lambda>c. if c = LF then NUL else c) l = l" by (induction l) auto
  with l show ?thesis by (simp add: strip_lf_def)
qed

lemma strip_lf_id: "nul_free l \<Longrightarrow> LF \<notin> set l \<Longrightarrow> strip_lf l = l"
proof -
  assume l: "nul_free l" "LF \<notin> set l"
  then have "map (\<lambda>c. if c = LF then NUL else c) l = l" by (induction l) auto
  with l show ?thesis by (simp add: strip_lf_def c_str_def nul_free_def takeWhile_all)
qed

lemma dc_line_eof [simp]: "dc_line (b, []) = (b, [])"
  by (simp add: dc_line_def)

lemma read_write_dir_control:
  assumes "dir_ok v"
  shows "read_dir_control f (Some (write_dir_control v)) =
     Some (v\<lparr>level_start := third_lost (level_start v), level_end := third_lost (level_end v),
             level_mod := third_lost (level_mod v), level_index := third_lost (level_index v)\<rparr>)"
proof -
  have users: "word_of_int (int (unat (cur_users v))) = cur_users v" by simp
  show ?thesis
    using assms unfolding dir_ok_def
    by (simp add: read_dir_control_def write_dir_control_def dc_line_line three_line three_ints_show
        int_line users_line strip_lf_line strip_lf_id users)
qed

section \<open>Users added one by one through the control file\<close>

fun add_users :: "string \<Rightarrow> nat \<Rightarrow> (char list option \<times> string) option" where
  "add_users f 0 = Some (None, '''')"
| "add_users f (Suc n) =
     do { (fs, _) \<leftarrow> add_users f n;
          (fs', d) \<leftarrow> add_user_dir f fs;
          Some (Some fs', d) }"

text \<open>
  What the users get: the reference numbering up to \<open>z/z\<close>, then for ever the names \<open>0/1/\<close> to \<open>0/z/\<close>.
\<close>

definition stored_name :: "nat \<Rightarrow> string" where
  "stored_name k =
     (if k \<le> 62 + 62 ^ 2 then bigdir_name k
      else [digit62 0, CHR ''/'', digit62 (1 + (k - 63 - 62 ^ 2) mod 61), CHR ''/''])"

definition stored_state :: "64 word \<Rightarrow> nat \<Rightarrow> int \<Rightarrow> int \<Rightarrow> vdir_type" where
  "stored_state u k i2 m =
     (if k \<le> 62 + 62 ^ 2 then low_state u k i2 m
      else dst u 2 0 (int ((k - 63 - 62 ^ 2) div 61)) i2 2 (stored_name k))"

lemma stored_step:
  assumes "k \<ge> 62 + 62 ^ 2 \<Longrightarrow> m = 2"
  shows "\<exists>i2'. inc_dir_control (stored_state u k i2 m) =
           Some (stored_state (u + 1) (if unat (u + 1) mod 100 = 0 then Suc k else k) i2' m)
         \<and> (i2' = 0 \<or> i2' = i2 \<or> i2' = i2 + 1)"
proof (cases "unat (u + 1) mod 100 = 0")
  case False
  then have "inc_dir_control (stored_state u k i2 m) = Some (stored_state (u + 1) k i2 m)"
    by (simp add: stored_state_def low_state_same inc_control_same)
  with False show ?thesis by auto
next
  case True
  consider "k < 62 + 62 ^ 2" | "k = 62 + 62 ^ 2" | "62 + 62 ^ 2 < k" by linarith
  then show ?thesis
  proof cases
    case 1
    with low_step [OF True 1, of i2 m] True show ?thesis
      by (intro exI [of _ i2]) (simp add: stored_state_def)
  next
    case 2
    with inc_two_three_reload [OF True, of i2] True assms show ?thesis
      by (intro exI [of _ "i2 + 1"])
         (simp add: stored_state_def stored_name_def low_state_def bigdir_name_def)
  next
    case 3
    define j where "j = k - 63 - 62 ^ 2"
    have k: "k = 3907 + j" using 3 by (simp add: j_def)
    have b: "1 + j mod 61 < 62" using mod_less_divisor [of 61 j] by linarith
    have "inc_dir_control (stored_state u k i2 m)
        = Some (stored_state (u + 1) (Suc k) (if j mod 61 = 60 then 0 else i2 + 1) m)"
      using inc_three_reload [OF True b, of 0 "int (j div 61)" i2] k b
      by (auto simp: stored_state_def stored_name_def div_Suc mod_Suc algebra_simps)
    with True show ?thesis by (intro exI [of _ "if j mod 61 = 60 then 0 else i2 + 1"]) simp
  qed
qed

lemma stored_name_ok: "nul_free (stored_name k)" "LF \<notin> set (stored_name k)" "length (stored_name k) \<le> 5"
proof -
  have "1 + (k - 63 - 62 ^ 2) mod 61 < 62" using mod_less_divisor [of 61 "k - 63 - 62 ^ 2"] by linarith
  then show "nul_free (stored_name k)" "LF \<notin> set (stored_name k)" "length (stored_name k) \<le> 5"
    using bigdir_name_ok [of k] by (simp_all add: stored_name_def)
qed

text \<open>The level and the first two indices of a stored state.\<close>

definition stored_pos :: "nat \<Rightarrow> int \<times> int \<times> int" where
  "stored_pos k =
     (if k = 0 then (0, 0, 0)
      else if k \<le> 62 then (0, int (k - 1), 0)
      else if k \<le> 62 + 62 ^ 2
      then (1, int ((k - 63) div 62), int ((k - 63) mod 62) + (if (k - 63) div 62 = 0 then 1 else 0))
      else (2, 0, int ((k - 63 - 62 ^ 2) div 61)))"

lemma stored_state_pos:
  "stored_pos k = (c, i0, i1) \<Longrightarrow>
   stored_state u k i2 m = dst u c i0 i1 i2 (if k \<le> 62 + 62 ^ 2 then m else 2) (stored_name k)"
  by (auto simp: stored_state_def low_state_def stored_name_def stored_pos_def Let_def split: if_splits)

lemma stored_pos_bounds:
  assumes "stored_pos k = (c, i0, i1)"
  shows "0 \<le> c" "c \<le> 2" "0 \<le> i0" "i0 \<le> int k" "0 \<le> i1" "i1 \<le> int k + 62"
proof -
  have a: "(k - 63) div 62 \<le> k" by (meson diff_le_self div_le_dividend le_trans)
  have b: "int ((k - 63) mod 62) \<le> int k" by (simp add: le_trans [OF mod_less_eq_dividend])
  have c: "(k - 63 - 62 ^ 2) div 61 \<le> k" by (meson diff_le_self div_le_dividend le_trans)
  show "0 \<le> c" "c \<le> 2" "0 \<le> i0" "i0 \<le> int k" "0 \<le> i1" "i1 \<le> int k + 62"
    using assms a b c by (auto simp: stored_pos_def split: if_splits)
qed

lemma stored_reload:
  assumes "unat u < 2 ^ 63" "k < 2 ^ 30" "0 \<le> i2" "i2 \<le> int k + 64" "m = 2 \<or> m = 4"
  shows "\<exists>i2'. read_dir_control f (Some (write_dir_control (stored_state u k i2 m)))
           = Some (stored_state u k i2' 2) \<and> 0 \<le> i2' \<and> i2' \<le> int k + 62"
proof -
  obtain c i0 i1 where pos: "stored_pos k = (c, i0, i1)" by (metis prod_cases3)
  note b = stored_pos_bounds [OF pos] and n = stored_name_ok [of k]
  define m' where "m' = (if k \<le> 62 + 62 ^ 2 then m else 2)"
  have m': "m' = 2 \<or> m' = 4" using assms(5) by (auto simp: m'_def)
  have st: "stored_state u k i2 m = dst u c i0 i1 i2 m' (stored_name k)"
    by (simp add: stored_state_pos [OF pos] m'_def)
  have "dir_ok (dst u c i0 i1 i2 m' (stored_name k))"
    using b n assms m' by (auto simp: dir_ok_def dst_def int32_def three32_def)
  from read_write_dir_control [OF this, of f]
  have "read_dir_control f (Some (write_dir_control (stored_state u k i2 m)))
      = Some (dst u c i0 i1 i1 2 (stored_name k))"
    by (simp add: st) (simp add: dst_def third_lost_def numeral_2_eq_2)
  then show ?thesis using b by (auto simp: stored_state_pos [OF pos])
qed

lemma add_users_stored:
  assumes "n < 2 ^ 31"
  shows "\<exists>fs i2 m. add_users f n = Some (fs, stored_name (n div 100))
     \<and> read_dir_control f fs = Some (stored_state (of_nat n) (n div 100) i2 m)
     \<and> 0 \<le> i2 \<and> i2 \<le> int (n div 100) + 62 \<and> (if n = 0 then m = 4 else m = 2)"
  using assms
proof (induction n)
  case 0
  have "read_dir_control f None = Some (stored_state 0 0 0 4)"
    by (simp add: read_dir_control_def fresh_bigdir_state bigdir_state_def stored_state_def)
  then show ?case by (auto simp: stored_name_def bigdir_name_def)
next
  case (Suc n)
  then obtain fs i2 m where IH: "add_users f n = Some (fs, stored_name (n div 100))"
    "read_dir_control f fs = Some (stored_state (of_nat n) (n div 100) i2 m)"
    "0 \<le> i2" "i2 \<le> int (n div 100) + 62" "if n = 0 then m = 4 else m = 2"
    by auto
  let ?u = "of_nat n :: 64 word"
  have u: "unat (?u + 1) = Suc n" using Suc.prems by (intro word_hundred) simp
  define k' where "k' = Suc n div 100"
  have k': "(if unat (?u + 1) mod 100 = 0 then Suc (n div 100) else n div 100) = k'"
    by (simp add: u k'_def div_Suc mod_Suc)
  have m: "m = 2" if "n div 100 \<ge> 62 + 62 ^ 2" using that IH(5) by (auto split: if_splits)
  obtain i2' where step: "inc_dir_control (stored_state ?u (n div 100) i2 m) = Some (stored_state (?u + 1) k' i2' m)"
    "i2' = 0 \<or> i2' = i2 \<or> i2' = i2 + 1"
    using stored_step [of "n div 100" m ?u i2] m k' by auto
  have k'_le: "n div 100 \<le> k'" by (simp add: k'_def div_le_mono)
  have "k' \<le> Suc n" by (simp add: k'_def)
  moreover have "k' < 2 ^ 30" using Suc.prems by (simp add: k'_def less_mult_imp_div_less)
  ultimately obtain j where re: "read_dir_control f (Some (write_dir_control (stored_state (?u + 1) k' i2' m)))
      = Some (stored_state (?u + 1) k' j 2)" "0 \<le> j" "j \<le> int k' + 62"
    using stored_reload [of "?u + 1" k' i2' m f] u Suc.prems IH(3-5) step(2) k'_le
    by (auto split: if_splits)
  have name: "c_str (the_dir (stored_state (?u + 1) k' i2' m)) = stored_name k'"
    using stored_name_ok [of k'] by (cases "stored_pos k'") (simp add: stored_state_pos)
  have "add_users f (Suc n) = Some (Some (write_dir_control (stored_state (?u + 1) k' i2' m)), stored_name k')"
    using IH(1,2) step(1) name by (simp add: add_user_dir_def next_big_dir_def)
  moreover have "of_nat (Suc n) = ?u + 1" by simp
  ultimately show ?case using re by (auto simp: k'_def add.commute)
qed

text \<open>
  C32. Users are added one at a time, each through the control file. Up to \<open>z/z\<close> they get the
  directories of the reference numbering; from the \<open>390700\<close>th on, since \<open>read_dir_control\<close> reads
  the third number of a line where the second stands, they all share the 61 directories \<open>0/1/\<close> to
  \<open>0/z/\<close>, which already hold the users of the second level.
\<close>

theorem control_file_numbering:
  assumes "n < 2 ^ 31"
  shows "\<exists>fs. add_users f n = Some (fs,
           (let k = n div MAX_USERS_PER_LEVEL in
            if k \<le> 62 + 62 ^ 2 then bigdir_name k
            else [digit62 0, CHR ''/'', digit62 (1 + (k - 63 - 62 ^ 2) mod 61), CHR ''/'']))"
  using add_users_stored [OF assms, of f] by (auto simp: stored_name_def MAX_USERS_PER_LEVEL_def Let_def)

theorem control_file_numbering_witness:
  "\<exists>fs. add_users ''/home/vpopmail/domains/.dir-control'' 390700 = Some (fs, ''0/1/'')"
  using control_file_numbering [of 390700 "''/home/vpopmail/domains/.dir-control''"]
  by (simp add: MAX_USERS_PER_LEVEL_def digit62_def dirlist_def)

text \<open>
  Reading the control file back after writing it restores the user count, the level and the name,
  but replaces the third start, end, position and index by the second.
\<close>

theorem dir_control_roundtrip:
  assumes "dir_ok v"
  shows "read_dir_control f (Some (write_dir_control v)) =
     Some (v\<lparr>level_start := third_lost (level_start v), level_end := third_lost (level_end v),
             level_mod := third_lost (level_mod v), level_index := third_lost (level_index v)\<rparr>)"
  using assms by (rule read_write_dir_control)

theorem dir_control_roundtrip_witness:
  "\<exists>v. read_dir_control ''x'' (Some (write_dir_control fresh_dir)) = Some v \<and> level_mod v = [0, 2, 2]"
proof -
  have "dir_ok fresh_dir" by (simp add: dir_ok_def fresh_dir_def int32_def three32_def)
  from dir_control_roundtrip [OF this, of "''x''"] show ?thesis
    by (simp add: fresh_dir_def third_lost_def numeral_2_eq_2)
qed

end
