(* ===== verification/Base64.thy ===== *)
theory Base64
  imports Cfmt
begin

text \<open>
  Base64 as \<^verbatim>\<open>base64.c\<close> encodes and decodes it: \<open>base64_init\<close>, \<open>base64_encode\<close> and \<open>base64_decode\<close>, byte
  by byte with the accumulator \<open>bits\<close>, the check of the output buffer before each write and the line
  breaks after 72 columns.

  \<open>bits\<close> is a natural number: it is reset after three bytes or four digits and so never exceeds 24
  bits, and the shifts of the C \<open>int\<close> do not overflow. An output buffer is the list of the bytes written to it; the bytes
  after them are the zeros of the \<open>memset\<close>.
\<close>

section \<open>Model\<close>

definition alphabet :: "char list" where
  "alphabet = ''ABCDEFGHIJKLMNOPQRSTUVWXYZabcdefghijklmnopqrstuvwxyz0123456789+/''"

record base64_t =
  inalphabet :: "char \<Rightarrow> bool"
  decoder :: "char \<Rightarrow> nat"

text \<open>The loop runs from the last letter down to the first.\<close>

fun base64_init_loop :: "nat \<Rightarrow> base64_t \<Rightarrow> base64_t" where
  "base64_init_loop 0 b = b"
| "base64_init_loop (Suc i) b =
     base64_init_loop i
       (b\<lparr>inalphabet := (inalphabet b)(alphabet ! i := True), decoder := (decoder b)(alphabet ! i := i)\<rparr>)"

definition base64_init :: base64_t where
  "base64_init = base64_init_loop (length alphabet) \<lparr>inalphabet = (\<lambda>_. False), decoder = (\<lambda>_. 0)\<rparr>"

definition b64_tail :: "nat \<Rightarrow> nat \<Rightarrow> nat \<Rightarrow> char list \<Rightarrow> va \<times> char list" where
  "b64_tail bufsz bits char_count out =
     (if char_count = 1 then (VA_BAD_CHAR, out)
      else if char_count = 2
      then if length out + 1 \<ge> bufsz then (VA_INTERNAL_BUFFER_EXCEEDED, out)
           else (VA_SUCCESS, out @ [char_of (bits div 2 ^ 10)])
      else if char_count = 3
      then if length out + 2 \<ge> bufsz then (VA_INTERNAL_BUFFER_EXCEEDED, out)
           else (VA_SUCCESS, out @ [char_of (bits div 2 ^ 16), char_of (bits div 2 ^ 8 mod 256)])
      else (VA_SUCCESS, out))"

fun base64_decode_loop ::
  "base64_t \<Rightarrow> nat \<Rightarrow> nat \<Rightarrow> nat \<Rightarrow> char list \<Rightarrow> string \<Rightarrow> va \<times> char list" where
  "base64_decode_loop b bufsz bits char_count out [] =
     (if char_count \<noteq> 0 then (VA_BAD_CHAR, out) else (VA_SUCCESS, out))"
| "base64_decode_loop b bufsz bits char_count out (c # p) =
     (if c = CHR ''='' then b64_tail bufsz bits char_count out
      else if \<not> inalphabet b c then base64_decode_loop b bufsz bits char_count out p
      else let bits = bits + decoder b c; char_count = char_count + 1 in
           if char_count = 4
           then if length out + 3 \<ge> bufsz then (VA_INTERNAL_BUFFER_EXCEEDED, out)
                else base64_decode_loop b bufsz 0 0
                       (out @ [char_of (bits div 2 ^ 16), char_of (bits div 2 ^ 8 mod 256), char_of (bits mod 256)]) p
           else base64_decode_loop b bufsz (bits * 2 ^ 6) char_count out p)"

definition base64_decode :: "base64_t \<Rightarrow> string \<Rightarrow> nat \<Rightarrow> va \<times> char list" where
  "base64_decode b data bufsz = base64_decode_loop b bufsz 0 0 [] data"

definition CRLF :: "char list" where
  "CRLF = [CHR 0x0D, CHR 0x0A]"

text \<open>One checked \<open>memcpy\<close> to the output.\<close>

definition b64_put :: "nat \<Rightarrow> char list \<Rightarrow> char list \<Rightarrow> (char list \<Rightarrow> va \<times> char list) \<Rightarrow> va \<times> char list" where
  "b64_put outsz out s k =
     (if length out + length s \<ge> outsz then (VA_INTERNAL_BUFFER_EXCEEDED, out) else k (out @ s))"

definition base64_encode_end :: "nat \<Rightarrow> nat \<Rightarrow> nat \<Rightarrow> nat \<Rightarrow> char list \<Rightarrow> va \<times> char list" where
  "base64_encode_end outsz bits char_count cols out =
     (if char_count = 0 then (VA_SUCCESS, out)
      else let bits = bits * 2 ^ (16 - 8 * char_count) in
        b64_put outsz out [alphabet ! (bits div 2 ^ 18), alphabet ! (bits div 2 ^ 12 mod 64)] (\<lambda>out.
        b64_put outsz out
          (if char_count = 1 then ''=='' else [alphabet ! (bits div 2 ^ 6 mod 64), CHR ''='']) (\<lambda>out.
        if cols > 0 then b64_put outsz out CRLF (\<lambda>out. (VA_SUCCESS, out)) else (VA_SUCCESS, out))))"

fun base64_encode_loop ::
  "nat \<Rightarrow> nat \<Rightarrow> nat \<Rightarrow> nat \<Rightarrow> char list \<Rightarrow> char list \<Rightarrow> va \<times> char list" where
  "base64_encode_loop outsz bits char_count cols out [] = base64_encode_end outsz bits char_count cols out"
| "base64_encode_loop outsz bits char_count cols out (p # r) =
     (let bits = bits + of_char p; char_count = char_count + 1 in
      if char_count = 3
      then b64_put outsz out
             [alphabet ! (bits div 2 ^ 18), alphabet ! (bits div 2 ^ 12 mod 64),
              alphabet ! (bits div 2 ^ 6 mod 64), alphabet ! (bits mod 64)] (\<lambda>out.
           let cols = cols + 4 in
           if cols = 72 then b64_put outsz out CRLF (\<lambda>out. base64_encode_loop outsz 0 0 0 out r)
           else base64_encode_loop outsz 0 0 cols out r)
      else base64_encode_loop outsz (bits * 2 ^ 8) char_count cols out r)"

definition base64_encode :: "char list \<Rightarrow> nat \<Rightarrow> va \<times> char list" where
  "base64_encode inbuf outsz = base64_encode_loop outsz 0 0 0 [] inbuf"

section \<open>The reference encoding\<close>

text \<open>
  Groups of three bytes as four letters, a last group of one or two bytes padded, a line break after
  every 18 groups and after a last padded group that does not stand at the start of a line.
\<close>

definition b64_digits :: "nat \<Rightarrow> string" where
  "b64_digits v = [alphabet ! (v div 2 ^ 18), alphabet ! (v div 2 ^ 12 mod 64),
     alphabet ! (v div 2 ^ 6 mod 64), alphabet ! (v mod 64)]"

fun b64_text :: "nat \<Rightarrow> char list \<Rightarrow> string" where
  "b64_text g [] = ''''"
| "b64_text g [a] = take 2 (b64_digits (of_char a * 2 ^ 16)) @ ''=='' @ (if g = 0 then '''' else CRLF)"
| "b64_text g [a, b] =
     take 3 (b64_digits (of_char a * 2 ^ 16 + of_char b * 2 ^ 8)) @ ''='' @ (if g = 0 then '''' else CRLF)"
| "b64_text g (a # b # c # r) =
     b64_digits (of_char a * 2 ^ 16 + of_char b * 2 ^ 8 + of_char c)
     @ (if Suc g = 18 then CRLF @ b64_text 0 r else b64_text (Suc g) r)"

section \<open>Encoding\<close>

lemma b64_put_simps [simp]:
  "length out + length s < outsz \<Longrightarrow> b64_put outsz out s k = k (out @ s)"
  "outsz \<le> length out + length s \<Longrightarrow> b64_put outsz out s k = (VA_INTERNAL_BUFFER_EXCEEDED, out)"
  by (simp_all add: b64_put_def)

lemma length_b64_digits [simp]: "length (b64_digits v) = 4"
  by (simp add: b64_digits_def)

lemma length_CRLF [simp]: "length CRLF = 2"
  by (simp add: CRLF_def)

lemma encode_loop_group:
  "base64_encode_loop outsz 0 0 (4 * g) out (a # b # c # r) =
     b64_put outsz out (b64_digits (of_char a * 2 ^ 16 + of_char b * 2 ^ 8 + of_char c)) (\<lambda>out.
       if Suc g = 18 then b64_put outsz out CRLF (\<lambda>out. base64_encode_loop outsz 0 0 (4 * 0) out r)
       else base64_encode_loop outsz 0 0 (4 * Suc g) out r)"
  by (simp add: b64_digits_def Let_def algebra_simps mult_Suc_right cong: if_cong)

text \<open>
  What writing \<open>text\<close> after \<open>out\<close> piece by piece has to give: all of it when it fits with a byte to
  spare, the error otherwise, and never a byte past the buffer.
\<close>

definition b64_written :: "nat \<Rightarrow> char list \<Rightarrow> string \<Rightarrow> va \<times> char list \<Rightarrow> bool" where
  "b64_written outsz out txt r \<longleftrightarrow>
     (if txt = [] \<or> length out + length txt < outsz then r = (VA_SUCCESS, out @ txt)
      else fst r = VA_INTERNAL_BUFFER_EXCEEDED \<and> (snd r = [] \<or> length (snd r) < outsz))"

lemma b64_written_done: "b64_written outsz out [] (VA_SUCCESS, out)"
  by (simp add: b64_written_def)

lemma b64_written_put:
  assumes "out = [] \<or> length out < outsz" "s \<noteq> []"
    "length (out @ s) < outsz \<Longrightarrow> b64_written outsz (out @ s) t (k (out @ s))"
  shows "b64_written outsz out (s @ t) (b64_put outsz out s k)"
  using assms by (cases "length (out @ s) < outsz") (auto simp: b64_written_def split: if_splits)

lemmas b64_written_step = b64_written_put [where t = "[]", simplified]

lemma encode_end_text:
  fixes cols :: nat
  assumes "out = [] \<or> length out < outsz" "length s = 2" "length t = 2"
    "b64_put outsz out s (\<lambda>out. b64_put outsz out t (\<lambda>out.
       if cols > 0 then b64_put outsz out CRLF (\<lambda>out. (VA_SUCCESS, out)) else (VA_SUCCESS, out))) = r"
  shows "b64_written outsz out (s @ t @ (if cols = 0 then [] else CRLF)) r"
proof -
  have ne: "s \<noteq> []" "t \<noteq> []" "CRLF \<noteq> []" using assms by (auto simp: CRLF_def)
  show ?thesis
    unfolding assms(4) [symmetric] using assms(1) ne
    by (intro b64_written_put) (auto intro!: b64_written_step b64_written_done)
qed

lemma encode_loop_text:
  "g < 18 \<Longrightarrow> out = [] \<or> length out < outsz \<Longrightarrow>
   b64_written outsz out (b64_text g data) (base64_encode_loop outsz 0 0 (4 * g) out data)"
proof (induction g data arbitrary: out rule: b64_text.induct)
  case (1 g)
  show ?case by (simp add: base64_encode_end_def b64_written_done)
next
  case (2 g a)
  let ?v = "of_char a * 2 ^ 16 :: nat"
  have "b64_written outsz out
      ([alphabet ! (?v div 2 ^ 18), alphabet ! (?v div 2 ^ 12 mod 64)] @ ''=='' @ (if 4 * g = 0 then [] else CRLF))
      (base64_encode_loop outsz 0 0 (4 * g) out [a])"
    by (rule encode_end_text [OF 2(2)]) (simp_all add: base64_encode_end_def Let_def)
  then show ?case by (simp add: b64_digits_def)
next
  case (3 g a b)
  define v :: nat where "v = of_char a * 2 ^ 16 + of_char b * 2 ^ 8"
  have v: "base64_encode_loop outsz 0 0 (4 * g) out [a, b] = base64_encode_end outsz v 2 (4 * g) out"
    by (simp add: v_def algebra_simps numeral_2_eq_2)
  have "b64_written outsz out
      ([alphabet ! (v div 2 ^ 18), alphabet ! (v div 2 ^ 12 mod 64)]
       @ [alphabet ! (v div 2 ^ 6 mod 64), CHR ''=''] @ (if 4 * g = 0 then [] else CRLF))
      (base64_encode_end outsz v 2 (4 * g) out)"
    by (rule encode_end_text [OF 3(2)]) (simp_all add: base64_encode_end_def)
  then show ?case unfolding v b64_text.simps v_def [symmetric] by (simp add: b64_digits_def)
next
  case (4 g a b c r)
  have ne: "b64_digits v \<noteq> []" "CRLF \<noteq> []" for v by (simp_all add: b64_digits_def CRLF_def)
  show ?case
    unfolding b64_text.simps encode_loop_group
  proof (rule b64_written_put [OF 4(4) ne(1)], goal_cases)
    case 1
    then show ?case
    proof (cases "Suc g = 18")
      case True
      show ?thesis
        unfolding if_P [OF True] by (rule b64_written_put) (use 1 ne(2) 4(1) [OF True] in simp_all)
    next
      case False
      show ?thesis
        unfolding if_not_P [OF False] by (rule 4(2) [OF False]) (use 1 False 4(3) in simp_all)
    qed
  qed
qed

text \<open>
  C29. \<open>base64_encode\<close> computes the reference encoding: it succeeds exactly when the encoded text and one
  more byte fit the output buffer and has then written that text; otherwise it returns
  \<open>VA_INTERNAL_BUFFER_EXCEEDED\<close>, and it never writes past the buffer.
\<close>

theorem base64_encode_reference:
  "if data = [] \<or> length (b64_text 0 data) < outsz
   then base64_encode data outsz = (VA_SUCCESS, b64_text 0 data)
   else fst (base64_encode data outsz) = VA_INTERNAL_BUFFER_EXCEEDED
        \<and> length (snd (base64_encode data outsz)) \<le> outsz"
proof -
  have "b64_text 0 data = [] \<longleftrightarrow> data = []"
    by (induction "0 :: nat" data rule: b64_text.induct) (auto simp: b64_digits_def)
  with encode_loop_text [of 0 "[]" outsz data] show ?thesis
    by (auto simp: base64_encode_def b64_written_def split: if_splits)
qed

section \<open>Decoding\<close>

lemma length_alphabet [simp]: "length alphabet = 64"
  by (simp add: alphabet_def)

lemma init_decodes:
  "list_all (\<lambda>i. alphabet ! i \<noteq> CHR ''='' \<and> inalphabet base64_init (alphabet ! i)
     \<and> decoder base64_init (alphabet ! i) = i) [0..<64]"
  by code_simp

lemma alphabet_digit [simp]:
  assumes "i < 64"
  shows "alphabet ! i \<noteq> CHR ''=''" "inalphabet base64_init (alphabet ! i)"
    "decoder base64_init (alphabet ! i) = i"
  using init_decodes assms by (auto simp: list_all_iff)

lemma CRLF_skipped [simp]:
  "base64_decode_loop base64_init n bits k out (CRLF @ p) = base64_decode_loop base64_init n bits k out p"
proof -
  have "\<not> inalphabet base64_init CHR 0x0D" "\<not> inalphabet base64_init CHR 0x0A" by code_simp+
  then show ?thesis by (simp add: CRLF_def)
qed

text \<open>The four digits of a 24 bit number give the number back.\<close>

lemma digits_24:
  fixes v :: nat
  assumes "v < 2 ^ 24"
  shows "((v div 2 ^ 18 * 64 + v div 2 ^ 12 mod 64) * 64 + v div 2 ^ 6 mod 64) * 64 + v mod 64 = v"
    "v div 2 ^ 18 < 64"
proof -
  have "v div 2 ^ 18 = v div 64 div 64 div 64" "v div 2 ^ 12 = v div 64 div 64" "v div 2 ^ 6 = v div 64"
    by (simp_all add: div_mult2_eq [symmetric])
  then show "((v div 2 ^ 18 * 64 + v div 2 ^ 12 mod 64) * 64 + v div 2 ^ 6 mod 64) * 64 + v mod 64 = v"
    using div_mult_mod_eq [of "v div 64 div 64" 64] div_mult_mod_eq [of "v div 64" 64]
      div_mult_mod_eq [of v 64] by presburger
  show "v div 2 ^ 18 < 64" using assms by (simp add: less_mult_imp_div_less)
qed

lemma decode_group:
  assumes v: "v < 2 ^ 24" and fits: "length out + 3 < n"
  shows "base64_decode_loop base64_init n 0 0 out (b64_digits v @ p) =
     base64_decode_loop base64_init n 0 0
       (out @ [char_of (v div 2 ^ 16), char_of (v div 2 ^ 8 mod 256), char_of (v mod 256)]) p"
proof -
  have "(((v div 2 ^ 18 * 2 ^ 6 + v div 2 ^ 12 mod 64) * 2 ^ 6 + v div 2 ^ 6 mod 64) * 2 ^ 6) + v mod 64 = v"
    using digits_24(1) [OF v] by simp
  with digits_24(2) [OF v] fits show ?thesis
    by (simp only: b64_digits_def append.simps base64_decode_loop.simps alphabet_digit Let_def) simp
qed

lemma byte_value [simp]:
  fixes a b c :: char
  shows "(of_char a * 2 ^ 16 + of_char b * 2 ^ 8 + of_char c) div 2 ^ 16 = (of_char a :: nat)"
    "(of_char a * 2 ^ 16 + of_char b * 2 ^ 8 + of_char c) div 2 ^ 8 mod 256 = (of_char b :: nat)"
    "(of_char a * 2 ^ 16 + of_char b * 2 ^ 8 + of_char c) mod 256 = (of_char c :: nat)"
    "(of_char a * 2 ^ 16 + of_char b * 2 ^ 8 + of_char c :: nat) < 2 ^ 24"
proof -
  have bound: "x < 256 \<Longrightarrow> y < 256 \<Longrightarrow> z < 256 \<Longrightarrow> x * 65536 + y * 256 + z < 16777216" for x y z :: nat
    by linarith
  have x: "of_char a * 2 ^ 16 + of_char b * 2 ^ 8 + of_char c
      = (of_char c + (of_char b + of_char a * 256) * 256 :: nat)" by simp
  have m: "\<dots> mod 256 = of_char c" and d: "\<dots> div 256 = of_char b + of_char a * 256"
    by (simp_all del: distrib_right_numeral add: mod_mult_self1 div_mult_self1)
  have "n div 2 ^ 16 = n div 256 div 256" "n div 2 ^ 8 = n div 256" for n :: nat
    by (simp_all add: div_mult2_eq [symmetric])
  then show "(of_char a * 2 ^ 16 + of_char b * 2 ^ 8 + of_char c) div 2 ^ 16 = (of_char a :: nat)"
    "(of_char a * 2 ^ 16 + of_char b * 2 ^ 8 + of_char c) div 2 ^ 8 mod 256 = (of_char b :: nat)"
    "(of_char a * 2 ^ 16 + of_char b * 2 ^ 8 + of_char c) mod 256 = (of_char c :: nat)"
    unfolding x using m d by simp_all
  show "(of_char a * 2 ^ 16 + of_char b * 2 ^ 8 + of_char c :: nat) < 2 ^ 24"
    using bound [OF of_char_lt_256 [of a] of_char_lt_256 [of b] of_char_lt_256 [of c]] by simp
qed

lemma decode_pair:
  assumes "length out + 1 < n" "i < 64" "j < 64"
  shows "base64_decode_loop base64_init n 0 0 out ([alphabet ! i, alphabet ! j] @ ''=='' @ p)
    = (VA_SUCCESS, out @ [char_of ((i * 64 + j) * 64 div 2 ^ 10)])"
  using assms by (simp add: b64_tail_def)

lemma decode_triple:
  assumes "length out + 2 < n" "i < 64" "j < 64" "k < 64"
  shows "base64_decode_loop base64_init n 0 0 out ([alphabet ! i, alphabet ! j, alphabet ! k] @ ''='' @ p)
    = (VA_SUCCESS, out @ [char_of (((i * 64 + j) * 64 + k) * 64 div 2 ^ 16),
                          char_of (((i * 64 + j) * 64 + k) * 64 div 2 ^ 8 mod 256)])"
proof -
  define w where "w = ((i * 2 ^ 6 + j) * 2 ^ 6 + k) * 2 ^ 6"
  have "base64_decode_loop base64_init n 0 0 out ([alphabet ! i, alphabet ! j, alphabet ! k] @ ''='' @ p)
      = b64_tail n w 3 out"
    using assms by (simp add: w_def numeral_3_eq_3)
  moreover have "w = ((i * 64 + j) * 64 + k) * 64" by (simp add: w_def)
  ultimately show ?thesis using assms(1) by (simp only: b64_tail_def) simp
qed

lemma decode_one:
  assumes "length out + 1 < n"
  shows "base64_decode_loop base64_init n 0 0 out (take 2 (b64_digits (of_char a * 2 ^ 16)) @ ''=='' @ p)
    = (VA_SUCCESS, out @ [a])"
proof -
  define v :: nat where "v = of_char a * 2 ^ 16"
  have v: "v < 2 ^ 24" using byte_value(4) [of a NUL NUL] by (simp add: v_def)
  have "v div 2 ^ 12 = of_char a * 16" "v div 2 ^ 18 = v div 2 ^ 12 div 64"
    by (simp_all add: v_def div_mult2_eq [symmetric])
  then have "(v div 2 ^ 18 * 64 + v div 2 ^ 12 mod 64) * 64 div 2 ^ 10 = of_char a"
    using div_mult_mod_eq [of "of_char a * 16 :: nat" 64] by (simp del: mult_mod_left)
  moreover have "take 2 (b64_digits v) = [alphabet ! (v div 2 ^ 18), alphabet ! (v div 2 ^ 12 mod 64)]"
    by (simp add: b64_digits_def)
  ultimately show ?thesis
    unfolding v_def [symmetric] using decode_pair [OF assms digits_24(2) [OF v], of "v div 2 ^ 12 mod 64" p]
    by simp
qed

lemma decode_two:
  assumes "length out + 2 < n"
  shows "base64_decode_loop base64_init n 0 0 out
      (take 3 (b64_digits (of_char a * 2 ^ 16 + of_char b * 2 ^ 8)) @ ''='' @ p)
    = (VA_SUCCESS, out @ [a, b])"
proof -
  define v :: nat where "v = of_char a * 2 ^ 16 + of_char b * 2 ^ 8"
  have v: "v < 2 ^ 24" using byte_value(4) [of a b NUL] by (simp add: v_def)
  have "v mod 64 = 0" by (simp add: v_def)
  then have "((v div 2 ^ 18 * 64 + v div 2 ^ 12 mod 64) * 64 + v div 2 ^ 6 mod 64) * 64 = v"
    using digits_24(1) [OF v] by simp
  moreover have "v div 2 ^ 16 = of_char a" "v div 2 ^ 8 mod 256 = of_char b"
    using byte_value(1,2) [of a b NUL] by (simp_all add: v_def)
  moreover have "take 3 (b64_digits v)
      = [alphabet ! (v div 2 ^ 18), alphabet ! (v div 2 ^ 12 mod 64), alphabet ! (v div 2 ^ 6 mod 64)]"
    by (simp add: b64_digits_def numeral_3_eq_3)
  moreover note decode_triple [OF assms digits_24(2) [OF v], of "v div 2 ^ 12 mod 64" "v div 2 ^ 6 mod 64" p]
  ultimately show ?thesis unfolding v_def [symmetric] by (simp only: char_of_char)
qed

lemma decode_three:
  assumes "length out + 3 < n"
  shows "base64_decode_loop base64_init n 0 0 out
      (b64_digits (of_char a * 2 ^ 16 + of_char b * 2 ^ 8 + of_char c) @ p)
    = base64_decode_loop base64_init n 0 0 (out @ [a, b, c]) p"
  using decode_group [OF byte_value(4) assms, of a b c p] by (simp only: byte_value char_of_char)

lemma decode_text:
  "length out + length data < n \<Longrightarrow>
   base64_decode_loop base64_init n 0 0 out (b64_text g data) = (VA_SUCCESS, out @ data)"
proof (induction g data arbitrary: out rule: b64_text.induct)
  case (4 g a b c r)
  have "length out + 3 < n" using 4(3) by simp
  then show ?case
    unfolding b64_text.simps using 4 by (subst decode_three) simp_all
next
  case (2 g a)
  then show ?case unfolding b64_text.simps by (subst decode_one) simp_all
next
  case (3 g a b)
  then show ?case unfolding b64_text.simps by (subst decode_two) simp_all
qed simp

lemma decode_loop_bounds:
  "out = [] \<or> length out < bufsz \<Longrightarrow>
   snd (base64_decode_loop b bufsz bits k out p) = [] \<or> length (snd (base64_decode_loop b bufsz bits k out p)) < bufsz"
  by (induction b bufsz bits k out p rule: base64_decode_loop.induct) (auto simp: Let_def b64_tail_def)

text \<open>
  C30. Decoding undoes encoding: whatever bytes \<open>base64_encode\<close> accepts, \<open>base64_decode\<close> of the text it
  writes returns exactly these bytes, line breaks and padding included, when the buffer has room for
  them and one more byte.
\<close>

theorem base64_roundtrip:
  assumes "base64_encode data outsz = (VA_SUCCESS, txt)" "length data < bufsz"
  shows "base64_decode base64_init txt bufsz = (VA_SUCCESS, data)"
proof -
  have "txt = b64_text 0 data"
    using encode_loop_text [of 0 "[]" outsz data] assms(1)
    by (auto simp: base64_encode_def b64_written_def split: if_splits)
  with decode_text [of "[]" data bufsz 0] assms(2) show ?thesis by (simp add: base64_decode_def)
qed

theorem base64_roundtrip_witness:
  "base64_encode ''pop!'' 64 = (VA_SUCCESS, ''cG9wIQ=='' @ CRLF)
   \<and> base64_decode base64_init (''cG9wIQ=='' @ CRLF) 16 = (VA_SUCCESS, ''pop!'')"
proof -
  have "base64_encode ''pop!'' 64 = (VA_SUCCESS, ''cG9wIQ=='' @ CRLF)"
    by (simp add: base64_encode_def base64_encode_end_def Let_def b64_put_def alphabet_def CRLF_def)
  with base64_roundtrip [OF this, of 16] show ?thesis by simp
qed

text \<open>
  Whatever text it is given, \<open>base64_decode\<close> writes fewer bytes than the buffer has.
\<close>

theorem base64_decode_bounds:
  "length (snd (base64_decode b data bufsz)) \<le> bufsz - 1"
  using decode_loop_bounds [of "[]" bufsz b 0 0 data] by (auto simp: base64_decode_def)

end
