(* ===== verification/Email.thy ===== *)
theory Email
  imports Cfmt
begin

text \<open>
  Addresses (\<^verbatim>\<open>vpopmail.c\<close>): \<open>lowerit\<close>, the character checks of user and domain names, the default domain
  and the two parsers \<open>parse_email\<close> and \<open>parse_email_safe\<close>.

  The environment, the IP map of the back end and the two control files are the record \<open>domenv\<close>. The
  outer \<open>None\<close> of an operation that may set a domain is an access outside a buffer.
\<close>

section \<open>Names\<close>

definition lowerit :: "string \<Rightarrow> string" where
  "lowerit s = lowercase (take 156 s)"

definition username_char :: "char \<Rightarrow> bool" where
  "username_char c =
     (let n = (of_char c :: nat)
      in n = 33 \<or> n = 35 \<or> n = 36 \<or> n = 38 \<or> n = 39 \<or> n = 42 \<or> n = 43 \<or> (45 \<le> n \<and> n \<le> 57) \<or> n = 61
         \<or> n = 63 \<or> (65 \<le> n \<and> n \<le> 90) \<or> (94 \<le> n \<and> n \<le> 126))"

definition domain_char :: "char \<Rightarrow> bool" where
  "domain_char c =
     (let n = (of_char c :: nat)
      in n = 45 \<or> n = 46 \<or> (48 \<le> n \<and> n \<le> 57) \<or> (65 \<le> n \<and> n \<le> 90) \<or> (97 \<le> n \<and> n \<le> 122))"

definition is_username_valid :: "string \<Rightarrow> bool" where
  "is_username_valid s = list_all username_char s"

definition is_domain_valid :: "string \<Rightarrow> bool" where
  "is_domain_valid s = list_all domain_char s"

definition MAX_PW_DOMAIN :: nat where
  "MAX_PW_DOMAIN = 96"

definition ATCHARS :: string where
  "ATCHARS = ''@%/''"

section \<open>The default domain\<close>

record domenv =
  de_vpopmail_domain :: "string option"      \<comment> \<open>\<open>VPOPMAIL_DOMAIN\<close>\<close>
  de_tcplocalip :: "string option"           \<comment> \<open>\<open>TCPLOCALIP\<close>\<close>
  de_ip_alias :: bool                        \<comment> \<open>the back end has \<open>IP_ALIAS_DOMAINS\<close>\<close>
  de_ip_map :: "string option \<Rightarrow> string option"
  de_locals :: "char list option"            \<comment> \<open>\<^verbatim>\<open>control/locals\<close>\<close>
  de_defaultdomain :: "char list option"     \<comment> \<open>\<^verbatim>\<open>defaultdomain\<close>\<close>

definition ok_env_chars :: string where
  "ok_env_chars = ''abcdefghijklmnopqrstuvwxyzABCDEFGHIJKLMNOPQRSTUVWXYZ1234567890_-.@''"

definition clean_env :: "string \<Rightarrow> string" where
  "clean_env s = map (\<lambda>c. if c \<in> set ok_env_chars then c else CHR ''_'') s"

text \<open>The line read into \<open>d\<close>; an empty file leaves \<open>d\<close> empty and \<open>d[dlen]\<close> is then \<open>d[-1]\<close>.\<close>

definition default_domain :: "char list option \<Rightarrow> string option" where
  "default_domain file =
     (case file of
        None \<Rightarrow> Some []
      | Some bytes \<Rightarrow>
          (case fgets_buf (MAX_PW_DOMAIN + 1) bytes of
             None \<Rightarrow> None
           | Some (l, _) \<Rightarrow>
               let d = c_str l
               in if d = [] then None else Some (if last d = LF then butlast d else d)))"

definition locals_line :: "char list \<Rightarrow> string" where
  "locals_line l = takeWhile (\<lambda>c. c \<noteq> LF) (c_str l)"

lemma fgets_buf_shorter:
  assumes "fgets_buf n s = Some (l, r)" "1 < n"
  shows "length r < length s"
proof -
  obtain c t where "s = c # t" using assms(1) by (cases s) (simp_all add: fgets_buf_def)
  then show ?thesis using assms by (auto simp: fgets_buf_def Let_def min_def split: if_splits)
qed

function locals_loop :: "string \<Rightarrow> char list \<Rightarrow> bool" where
  "locals_loop host s =
     (case fgets_buf MAX_BUFF s of
        None \<Rightarrow> False
      | Some (l, r) \<Rightarrow> if host = locals_line l \<or> host = ''localhost'' then True else locals_loop host r)"
  by pat_completeness auto

termination
  by (relation "measure (\<lambda>(h, s). length s)") (auto dest: fgets_buf_shorter simp: MAX_BUFF_def)

declare locals_loop.simps [simp del]

definition host_in_locals :: "char list option \<Rightarrow> string \<Rightarrow> bool" where
  "host_in_locals file host = (case file of None \<Rightarrow> False | Some bytes \<Rightarrow> locals_loop host bytes)"

text \<open>The address behind an IPv6 prefix: two characters are skipped, then all up to the next colon.\<close>

definition skip_v6 :: "string \<Rightarrow> string option" where
  "skip_v6 s =
     (if s \<noteq> [] \<and> hd s = CHR '':''
      then if length s < 2 then None
           else (case dropWhile (\<lambda>c. c \<noteq> CHR '':'') (drop 2 s) of [] \<Rightarrow> None | _ # t \<Rightarrow> Some t)
      else Some s)"

definition host_from_ip :: "nat \<Rightarrow> domenv \<Rightarrow> string option \<Rightarrow> string option" where
  "host_from_ip n E ip =
     (case de_ip_map E ip of
        None \<Rightarrow> None
      | Some h \<Rightarrow>
          let host = snprintf_str n h
          in if host_in_locals (de_locals E) host then None else Some host)"

definition vset_default_domain :: "domenv \<Rightarrow> string \<Rightarrow> string option" where
  "vset_default_domain E d =
     (if d \<noteq> [] then Some d
      else case de_vpopmail_domain E of
        Some s \<Rightarrow> Some (snprintf_str (MAX_PW_DOMAIN + 1) (clean_env s))
      | None \<Rightarrow>
          (case (if de_ip_alias E
                 then (case de_tcplocalip E of
                         None \<Rightarrow> Some (host_from_ip MAX_BUFF E None)
                       | Some s \<Rightarrow> map_option (\<lambda>ip. host_from_ip MAX_BUFF E (Some ip)) (skip_v6 (clean_env s)))
                 else Some None) of
             None \<Rightarrow> None
           | Some (Some host) \<Rightarrow> Some (if host \<noteq> [] then snprintf_str (MAX_PW_DOMAIN + 1) host else d)
           | Some None \<Rightarrow>
               map_option (snprintf_str (MAX_PW_DOMAIN + 1)) (default_domain (de_defaultdomain E))))"

section \<open>Parsing\<close>

text \<open>The position of the first separator, looked for in the order of \<open>ATCHARS\<close>.\<close>

fun index_of :: "char \<Rightarrow> string \<Rightarrow> nat option" where
  "index_of c [] = None"
| "index_of c (x # s) = (if x = c then Some 0 else map_option Suc (index_of c s))"

fun find_at :: "string \<Rightarrow> string \<Rightarrow> nat option" where
  "find_at [] s = None"
| "find_at (c # cs) s = (case index_of c s of Some i \<Rightarrow> Some i | None \<Rightarrow> find_at cs s)"

definition split_email :: "string \<Rightarrow> nat \<Rightarrow> string \<times> string" where
  "split_email e buff_size =
     (case find_at ATCHARS e of
        Some at \<Rightarrow>
          let n = (if at + 1 > buff_size then buff_size else at + 1)
          in (snprintf_str n e, snprintf_str buff_size (drop (at + 1) e))
      | None \<Rightarrow> (snprintf_str buff_size e, []))"

text \<open>
  \<open>parse_email\<close>: user and domain, or the refusal of a name with a character that is not allowed. The
  argument itself is left lower case and cut, which is \<open>lowerit\<close> of it.
\<close>

definition parse_email :: "domenv \<Rightarrow> string \<Rightarrow> nat \<Rightarrow> (string \<times> string) option option" where
  "parse_email E email buff_size =
     (let (u, d) = split_email (lowerit email) buff_size
      in if \<not> is_username_valid u then Some None
         else if \<not> is_domain_valid d then Some None
         else map_option (\<lambda>d'. Some (u, d')) (vset_default_domain E d))"

text \<open>
  \<open>vset_default_domain_safe\<close>: a host found through the IP map is copied with the size of the buffer and
  then terminated at \<open>domain + dlen\<close>, which is behind the buffer.
\<close>

definition vset_default_domain_safe :: "domenv \<Rightarrow> string \<Rightarrow> nat \<Rightarrow> string option" where
  "vset_default_domain_safe E d dlen =
     (if dlen = 0 \<or> d \<noteq> [] then Some d
      else case de_vpopmail_domain E of
        Some (c # s) \<Rightarrow> Some (take (dlen - 1) (c # s))
      | _ \<Rightarrow>
          (case (if de_ip_alias E \<and> de_tcplocalip E \<noteq> None then host_from_ip 256 E (de_tcplocalip E) else None) of
             Some _ \<Rightarrow> None
           | None \<Rightarrow>
               (case default_domain (de_defaultdomain E) of
                  None \<Rightarrow> None
                | Some t \<Rightarrow> Some (take (dlen - 1) t))))"

definition parse_email_safe ::
  "domenv \<Rightarrow> string \<Rightarrow> nat \<Rightarrow> string \<Rightarrow> nat \<Rightarrow> (string \<times> string) option option" where
  "parse_email_safe E email ulen domain0 dlen =
     (if email = [] then Some None
      else let u = lowerit (take (ulen - 1) (takeWhile (\<lambda>c. c \<noteq> CHR ''@'') email));
               p = dropWhile (\<lambda>c. c \<noteq> CHR ''@'') email
           in if \<not> is_username_valid u then Some None
              else case (if p \<noteq> [] then Some (take (dlen - 1) (tl p))
                         else vset_default_domain_safe E domain0 dlen) of
                     None \<Rightarrow> None
                   | Some d \<Rightarrow>
                       if \<not> is_domain_valid (lowerit d) then Some None else Some (Some (u, lowerit d)))"


section \<open>Results\<close>

lemma username_char_not:
  assumes "username_char c"
  shows "c \<noteq> CHR ''@''" "c \<noteq> CHR ''%''" "c \<noteq> NUL" "c \<noteq> CHR '' ''" "c \<noteq> LF"  "c \<noteq> CHR 0x0D"
  using assms by (auto simp: username_char_def)

lemma domain_char_not:
  assumes "domain_char c"
  shows "c \<noteq> CHR ''@''" "c \<noteq> CHR ''%''" "c \<noteq> CHR ''/''" "c \<noteq> NUL" "c \<noteq> CHR '' ''"
  using assms by (auto simp: domain_char_def)

lemma index_of_append: "c \<notin> set u \<Longrightarrow> index_of c (u @ c # d) = Some (length u)"
  by (induction u) auto

lemma index_of_None: "index_of c s = None \<longleftrightarrow> c \<notin> set s"
  by (induction s) auto

lemma index_of_Some: "index_of c s = Some i \<Longrightarrow> i < length s \<and> c \<notin> set (take i s)"
  by (induction s arbitrary: i) (auto split: if_splits)

lemma find_at_Some: "find_at cs s = Some i \<Longrightarrow> i < length s"
  by (induction cs) (auto split: option.splits dest: index_of_Some)

lemma lowerit_simps [simp]: "length (lowerit s) \<le> 156" "lowercase (lowerit s) = lowerit s"
  by (simp_all add: lowerit_def)

lemma lowercase_take_fixed: "lowercase s = s \<Longrightarrow> lowercase (take n s) = take n s"
  by (simp add: lowercase_take)

lemma lowercase_drop_fixed: "lowercase s = s \<Longrightarrow> lowercase (drop n s) = drop n s"
  by (simp add: lowercase_def drop_map [symmetric])

lemma length_vset_default_domain:
  assumes "vset_default_domain E d = Some d'"
  shows "d' = d \<or> length d' \<le> MAX_PW_DOMAIN"
  using assms
  by (auto simp: vset_default_domain_def snprintf_str_def split: if_splits option.splits)

lemma index_of_split: "index_of c s = Some i \<Longrightarrow> s = take i s @ c # drop (Suc i) s"
proof (induction s arbitrary: i)
  case (Cons x s)
  then show ?case by (cases "x = c") (auto split: if_splits)
qed simp

lemma find_at_split: "find_at cs s = Some i \<Longrightarrow> \<exists>c \<in> set cs. s = take i s @ c # drop (Suc i) s"
  by (induction cs) (auto split: option.splits dest: index_of_split)

lemma find_at_None: "find_at cs s = None \<longleftrightarrow> (\<forall>c \<in> set cs. c \<notin> set s)"
  by (induction cs) (auto split: option.splits simp flip: index_of_None)

lemma split_email_cases:
  assumes "split_email e n = (u, d)" "length e \<le> 156" "156 \<le> n"
  shows "(\<exists>c \<in> set ATCHARS. e = u @ c # d) \<or> (\<forall>c \<in> set ATCHARS. c \<notin> set e) \<and> u = take (n - 1) e \<and> d = []"
proof (cases "find_at ATCHARS e")
  case (Some i)
  from find_at_Some [OF Some] have "i < length e" .
  with assms Some have "u = take i e" "d = drop (Suc i) e"
    by (auto simp: split_email_def snprintf_str_def)
  with find_at_split [OF Some] show ?thesis by blast
next
  case None
  with assms show ?thesis by (simp add: split_email_def snprintf_str_def find_at_None)
qed



lemma parse_email_pair:
  assumes "is_username_valid u" "is_domain_valid d" "lowercase u = u" "lowercase d = d" "d \<noteq> []"
    "length u + length d < 156"  "156 \<le> n"
  shows "parse_email E (u @ CHR ''@'' # d) n = Some (Some (u, d))"
proof -
  have "CHR ''@'' \<notin> set u" using assms(1) username_char_not(1) by (auto simp: is_username_valid_def list_all_iff)
  then have at: "find_at ATCHARS (u @ CHR ''@'' # d) = Some (length u)"
    by (simp add: ATCHARS_def index_of_append)
  have low: "lowerit (u @ CHR ''@'' # d) = u @ CHR ''@'' # d"
    using assms by (simp add: lowerit_def tolower_c_def)
  have "split_email (u @ CHR ''@'' # d) n = (u, d)"
    using assms(6,7) by (simp add: split_email_def at snprintf_str_def Let_def)
  with assms low show ?thesis by (simp add: parse_email_def vset_default_domain_def)
qed

lemma clean_env_no_colon: "CHR '':'' \<notin> set (clean_env s)"
  by (auto simp: clean_env_def ok_env_chars_def)

lemma clean_env_idem: "clean_env (clean_env s) = clean_env s"
  by (auto simp: clean_env_def ok_env_chars_def)

lemma skip_v6_clean: "skip_v6 (clean_env s) = Some (clean_env s)"
  using clean_env_no_colon [of s] by (cases "clean_env s") (auto simp: skip_v6_def)
lemma index_of_takeWhile:
  assumes "c \<in> set s"
  shows "index_of c s = Some (length (takeWhile (\<lambda>x. x \<noteq> c) s))"
  using assms by (induction s) auto

lemma drop_after_takeWhile: "drop (Suc (length (takeWhile P s))) s = tl (dropWhile P s)"
  by (induction s) auto

lemma tolower_c_at: "tolower_c c = CHR ''@'' \<longleftrightarrow> c = CHR ''@''"
proof
  assume "tolower_c c = CHR ''@''"
  then have "(of_char (tolower_c c) :: nat) = 64" by simp
  then have "(of_char c :: nat) = 64" by (simp add: tolower_c_code split: if_splits)
  then have "char_of (of_char c :: nat) = (char_of (64 :: nat) :: char)" by (rule arg_cong)
  moreover have "char_of (64 :: nat) = CHR ''@''" by (simp add: char_of_def bit_0)
  ultimately show "c = CHR ''@''" by (simp only: char_of_char)
qed (simp add: tolower_c_def)

lemma takeWhile_lowercase:
  "takeWhile (\<lambda>x. x \<noteq> CHR ''@'') (lowercase s) = lowercase (takeWhile (\<lambda>x. x \<noteq> CHR ''@'') s)"
  "dropWhile (\<lambda>x. x \<noteq> CHR ''@'') (lowercase s) = lowercase (dropWhile (\<lambda>x. x \<noteq> CHR ''@'') s)"
  by (induction s) (auto simp: tolower_c_at)

lemma lowercase_tl: "lowercase (tl s) = tl (lowercase s)"
  by (cases s) simp_all

text \<open>
  C25. For an address that contains an at sign followed by something and that is shorter than 156
  characters, \<open>parse_email_safe\<close> gives what \<open>parse_email\<close> gives: the same user and domain, or the same
  refusal.
\<close>

theorem parse_email_agree:
  assumes "CHR ''@'' \<in> set email" "last email \<noteq> CHR ''@''" "length email < 156"
    "156 \<le> ulen" "156 \<le> dlen" "156 \<le> n"
  shows "parse_email_safe E email ulen d0 dlen = parse_email E email n"
proof -
  let ?P = "\<lambda>x. x \<noteq> CHR ''@''"
  let ?u = "takeWhile ?P email" and ?p = "dropWhile ?P email"
  have e: "email \<noteq> []" using assms(1) by auto
  have p: "?p \<noteq> []" using assms(1) by (auto simp: dropWhile_eq_Nil_conv)
  have hp: "hd ?p = CHR ''@''" using hd_dropWhile [OF p] by (rule notnotD)
  have tl: "tl ?p \<noteq> []"
  proof
    assume t: "tl ?p = []"
    have q: "?p = [CHR ''@'']" using list.collapse [OF p] unfolding hp t by (rule sym)
    have "last (?u @ ?p) = CHR ''@''" unfolding q by simp
    with assms(2) show False by (simp only: takeWhile_dropWhile_id)
  qed
  have len: "length ?u < 156" "length (tl ?p) < 156"
    using assms(3) length_takeWhile_le [of ?P email] length_dropWhile_le [of ?P email] by auto
  have low: "lowerit email = lowercase email" using assms(3) by (simp add: lowerit_def)
  have at: "find_at ATCHARS (lowercase email) = Some (length ?u)"
  proof -
    have "CHR ''@'' \<in> set (lowercase email)" using assms(1) by (auto simp: lowercase_def image_iff tolower_c_def intro!: bexI [of _ "CHR ''@''"])
    then show ?thesis by (simp add: ATCHARS_def index_of_takeWhile takeWhile_lowercase)
  qed
  have tk: "take (length ?u) (lowercase email) = lowercase ?u"
    unfolding lowercase_take [symmetric] takeWhile_eq_take [symmetric] ..
  have dr: "drop (Suc (length ?u)) (lowercase email) = lowercase (tl ?p)"
    using drop_after_takeWhile [of ?P "lowercase email"] by (simp add: takeWhile_lowercase lowercase_tl)
  have "split_email (lowercase email) n = (lowercase ?u, lowercase (tl ?p))"
    using len assms(6) by (simp add: split_email_def at snprintf_str_def tk dr)
  moreover have "lowerit (take (ulen - 1) ?u) = lowercase ?u"
    "lowerit (take (dlen - 1) (tl ?p)) = lowercase (tl ?p)"
    using len assms(4,5) by (simp_all add: lowerit_def)
  moreover have "lowercase (tl ?p) \<noteq> []" using tl by (simp add: lowercase_def)
  ultimately show ?thesis using e p low
    by (simp add: parse_email_safe_def parse_email_def vset_default_domain_def Let_def)
qed

theorem parse_email_agree_witness:
  "parse_email_safe \<lparr>de_vpopmail_domain = None, de_tcplocalip = None, de_ip_alias = False,
       de_ip_map = (\<lambda>_. None), de_locals = None, de_defaultdomain = None\<rparr> ''Joe@Example.org'' 200 [] 200
   = parse_email \<lparr>de_vpopmail_domain = None, de_tcplocalip = None, de_ip_alias = False,
       de_ip_map = (\<lambda>_. None), de_locals = None, de_defaultdomain = None\<rparr> ''Joe@Example.org'' 156"
  by (rule parse_email_agree) simp_all

text \<open>
  The IP map in \<open>vset_default_domain_safe\<close>: whenever it gives a host that is not local, the terminating
  NUL is written behind the buffer.
\<close>

lemma safe_default_ip:
  assumes "de_vpopmail_domain E = None" "de_ip_alias E" "de_tcplocalip E = Some ip"
    "de_ip_map E (Some ip) = Some h" "\<not> host_in_locals (de_locals E) (snprintf_str 256 h)" "0 < n"
  shows "vset_default_domain_safe E [] n = None"
  using assms by (simp add: vset_default_domain_safe_def host_from_ip_def Let_def)


lemma split_email_lower:
  assumes "split_email (lowerit e) n = (u, d)"
  shows "lowercase u = u" "lowercase d = d"
  using assms
  by (auto simp: split_email_def snprintf_str_def Let_def lowercase_take_fixed lowercase_drop_fixed
      split: option.splits if_splits)

lemma parse_email_lower:
  assumes "parse_email E email n = Some (Some (u, d))"
  shows "lowercase u = u"
proof -
  obtain u' d' where s: "split_email (lowerit email) n = (u', d')" by fastforce
  with assms have "u = u'" by (auto simp: parse_email_def split: if_splits)
  with split_email_lower [OF s] show ?thesis by simp
qed


end
