(* ===== verification/Session.thy ===== *)
theory Session
  imports User Vlimits Email
begin

unbundle bit_operations_syntax

text \<open>
  The state of a session of the administration daemon (\<^verbatim>\<open>vpopmaild.c\<close>) and what its handlers share: the
  input and output buffers, \<open>strtok\<close>, the error messages, who has logged in, the calls into the rest of
  the program and the check of a path, \<open>validate_path\<close>.

  The library functions that a handler calls (\<open>vadduser\<close>, \<open>vauth_setpw\<close>, \<open>vdelfiles\<close>, ...) belong to
  other parts. They are the record \<open>backend\<close> over a state of the world of type \<open>'w\<close>; every such call
  that changes something, and every reply that discloses something, is an \<open>effect\<close>, kept in the order
  of the calls. \<open>permitted\<close> says which effects a session may have.
\<close>

section \<open>Effects\<close>

datatype effect =
    AddUser string string string string          \<comment> \<open>\<open>vadduser\<close>: user, domain, password, gecos\<close>
  | DelUser string string
  | SetPw vqpasswd string
  | UpdateMaildirsize string string string       \<comment> \<open>domain, directory, quota\<close>
  | AddDomain string
  | DelDomain string
  | AddAliasDomain string string                 \<comment> \<open>alias, domain\<close>
  | AliasInsert string string string
  | AliasRemove string string string
  | AliasDelete string string
  | Mkdir string
  | Chown string nat nat
  | DelFiles string
  | RenameFile string string
  | Unlink string
  | WriteFile string "char list"
  | SetLimits string vlimits
  | DelLimits string
  | AddIpMap string string
  | DelIpMap string string
  | ShowUser string string
  | ShowUsers string
  | ShowLastAuth string string
  | ShowUserSize string string
  | ShowDomainSize string
  | ShowAliases string
  | ShowAlias string string
  | ShowLists string
  | ShowDir string
  | ShowFile string
  | ShowStat string
  | ShowDomains
  | ShowDomain string
  | ShowLimits string
  | ShowIpMap

text \<open>What an effect is about: files, an account, a domain, or the system.\<close>

datatype scope = Files | OfUser string string | OfDomain string | OfSystem

fun scope_of :: "effect \<Rightarrow> scope" where
  "scope_of (AddUser u d p g) = OfUser u d"
| "scope_of (DelUser u d) = OfUser u d"
| "scope_of (SetPw pw d) = OfUser (pw_name pw) d"
| "scope_of (UpdateMaildirsize d dir q) = OfDomain d"
| "scope_of (AliasInsert u d l) = OfUser u d"
| "scope_of (AliasRemove u d l) = OfUser u d"
| "scope_of (AliasDelete u d) = OfUser u d"
| "scope_of (Mkdir p) = Files"
| "scope_of (Chown p u g) = Files"
| "scope_of (DelFiles p) = Files"
| "scope_of (RenameFile p q) = Files"
| "scope_of (Unlink p) = Files"
| "scope_of (WriteFile p b) = Files"
| "scope_of (ShowDir p) = Files"
| "scope_of (ShowFile p) = Files"
| "scope_of (ShowStat p) = Files"
| "scope_of (ShowUser u d) = OfUser u d"
| "scope_of (ShowUsers d) = OfDomain d"
| "scope_of (ShowLastAuth u d) = OfUser u d"
| "scope_of (ShowUserSize u d) = OfUser u d"
| "scope_of (ShowDomainSize d) = OfDomain d"
| "scope_of (ShowAliases d) = OfDomain d"
| "scope_of (ShowAlias u d) = OfUser u d"
| "scope_of (ShowLists d) = OfDomain d"
| "scope_of _ = OfSystem"

fun paths_of :: "effect \<Rightarrow> string list" where
  "paths_of (Mkdir p) = [p]"
| "paths_of (Chown p u g) = [p]"
| "paths_of (DelFiles p) = [p]"
| "paths_of (RenameFile p q) = [p, q]"
| "paths_of (Unlink p) = [p]"
| "paths_of (WriteFile p b) = [p]"
| "paths_of (ShowDir p) = [p]"
| "paths_of (ShowFile p) = [p]"
| "paths_of (ShowStat p) = [p]"
| "paths_of _ = []"

fun is_setpw :: "effect \<Rightarrow> bool" where
  "is_setpw (SetPw pw d) = True"
| "is_setpw _ = False"

section \<open>State\<close>

record domain_entry =
  e_domain :: string
  e_realdomain :: string
  e_uid :: int
  e_gid :: int
  e_path :: string

datatype ftype = RegFile | Dir | CharDev | BlkDev | Fifo | Link | Sock | OtherType

record 'w backend =
  bk_getpw :: "'w \<Rightarrow> string \<Rightarrow> string \<Rightarrow> (vqpasswd \<times> string) option"
    \<comment> \<open>\<open>vauth_getpw\<close>: the entry, and the domain, which the call rewrites to the real one\<close>
  bk_crypt :: "'w \<Rightarrow> string \<Rightarrow> string \<Rightarrow> string \<Rightarrow> vqpasswd \<Rightarrow> bool"
  bk_assign :: "'w \<Rightarrow> string \<Rightarrow> (string \<times> string \<times> nat \<times> nat) option"
    \<comment> \<open>\<open>vget_assign\<close>: real domain, directory, uid and gid\<close>
  bk_perform :: "'w \<Rightarrow> effect \<Rightarrow> int \<times> 'w"
  bk_getall :: "'w \<Rightarrow> string \<Rightarrow> vqpasswd list"
  bk_entries :: "'w \<Rightarrow> string \<Rightarrow> domain_entry list option"
  bk_valias :: "'w \<Rightarrow> string \<Rightarrow> string \<Rightarrow> string list"
  bk_valias_all :: "'w \<Rightarrow> string \<Rightarrow> (string \<times> string) list"
  bk_limits :: "'w \<Rightarrow> string \<Rightarrow> vlimits option"
  bk_ip_map :: "'w \<Rightarrow> string \<Rightarrow> string option"
  bk_ip_list :: "'w \<Rightarrow> (string \<times> string) list"
  bk_quota :: "'w \<Rightarrow> string \<Rightarrow> (int \<times> int) option"
  bk_lastauth :: "'w \<Rightarrow> vqpasswd \<Rightarrow> string \<Rightarrow> int \<times> string"
  bk_chdir :: "'w \<Rightarrow> string \<Rightarrow> bool"
  bk_dir :: "'w \<Rightarrow> string \<Rightarrow> (string \<times> ftype option) list option"
    \<comment> \<open>the entries of a directory with what \<open>lstat\<close> says of each\<close>
  bk_file :: "'w \<Rightarrow> string \<Rightarrow> char list option"
  bk_stat :: "'w \<Rightarrow> string \<Rightarrow> nat option"
  bk_writable :: "'w \<Rightarrow> string \<Rightarrow> bool"
  bk_strerror :: "'w \<Rightarrow> string"
  bk_feature :: "string \<Rightarrow> bool"
  bk_env :: domenv
  bk_uidgid :: "(nat \<times> nat) option"
  bk_mkpasswd3 :: "string \<Rightarrow> string"
  bk_format_quota :: "string \<Rightarrow> string"
  bk_pw_strength_error :: string
  DIR_BIN :: string
  DIR_ETC :: string
  DIR_LIB :: string
  DIR_INCLUDE :: string
  DIR_DOMAINS :: string

record identity =
  AuthVpw :: vqpasswd
  TheUser :: string
  TheDomain :: string
  TheDomainDir :: string
  TheUserDir :: string
  TheVpopmailDomains :: string
  logged_in :: nat

record 'w session =
  world :: 'w
  stdin :: "char list"
  s_rest :: string                  \<comment> \<open>where the next \<open>strtok(NULL, ..)\<close> starts\<close>
  WriteBuf :: string
  s_out :: "string list"            \<comment> \<open>what has been written\<close>
  output_type :: nat
  rf_tmpbuf :: "char list"          \<comment> \<open>the static buffer of \<open>read_file\<close>\<close>
  ll_tmpbuf :: "char list"          \<comment> \<open>the static buffer of \<open>list_lists\<close>\<close>
  auth :: identity
  effects :: "effect list"

text \<open>The result of a handler: it returns, it ends the process, or it accesses memory it must not.\<close>

datatype 'w hres = Ret int "'w session" | Exit int "'w session" | Fault

section \<open>Flags\<close>

definition BOUNCE_MAIL :: "32 word" where
  "BOUNCE_MAIL = 0x10"

definition V_USER0 :: "32 word" where
  "V_USER0 = 0x80"

definition V_USER1 :: "32 word" where
  "V_USER1 = 0x100"

definition V_USER2 :: "32 word" where
  "V_USER2 = 0x200"

definition V_USER3 :: "32 word" where
  "V_USER3 = 0x400"

definition QA_ADMIN :: "32 word" where
  "QA_ADMIN = 0x1000"

definition SA_ADMIN :: "32 word" where
  "SA_ADMIN = 0x10000"

definition SA_EXPERT :: "32 word" where
  "SA_EXPERT = 0x20000"

definition gid_word :: "vqpasswd \<Rightarrow> 32 word" where
  "gid_word pw = word_of_nat (pw_gid pw)"

definition has_flag :: "vqpasswd \<Rightarrow> 32 word \<Rightarrow> bool" where
  "has_flag pw f \<longleftrightarrow> gid_word pw AND f \<noteq> 0"

definition is_sa :: "identity \<Rightarrow> bool" where
  "is_sa i = has_flag (AuthVpw i) SA_ADMIN"

definition is_qa :: "identity \<Rightarrow> bool" where
  "is_qa i = has_flag (AuthVpw i) QA_ADMIN"

section \<open>Buffers and messages\<close>

definition MAX_TMP_BUFF :: nat where
  "MAX_TMP_BUFF = 1024"

definition MAXPATH :: nat where
  "MAXPATH = 256"

definition AUTH_SIZE :: nat where
  "AUTH_SIZE = 156"

definition TOKENS :: string where
  "TOKENS = [CHR '' '', CHR 0x0A, CHR 0x09, CHR 0x0D]"

definition PASS_TOKENS :: string where
  "PASS_TOKENS = [CHR 0x0A, CHR 0x0D]"

definition PARAM_TOKENS :: string where
  "PARAM_TOKENS = [CHR '' '', CHR ''='', CHR '':'', CHR 0x0A, CHR 0x0D]"

definition RET_CRLF :: string where
  "RET_CRLF = [CHR 0x0D, CHR 0x0A]"

definition RET_OK :: string where
  "RET_OK = ''+OK '' @ RET_CRLF"

definition RET_OK_MORE :: string where
  "RET_OK_MORE = ''+OK+'' @ RET_CRLF"

definition RET_ERR :: string where
  "RET_ERR = ''-ERR ''"

text \<open>\<open>strtok\<close>: the next token and what follows the character that ends it.\<close>

definition strtok :: "string \<Rightarrow> string \<Rightarrow> (string \<times> string) option" where
  "strtok delims s =
     (let t = dropWhile (\<lambda>c. c \<in> set delims) s
      in if t = [] then None
         else Some (takeWhile (\<lambda>c. c \<notin> set delims) t, tl (dropWhile (\<lambda>c. c \<notin> set delims) t)))"

definition ErrorMessages :: "string list" where
  "ErrorMessages =
     [''Dummy entry so it starts with 1'', ''Can't open authentication database'',
      ''Too many actions before login'', ''Read Timeout'', ''Invalid Command'',
      ''Too many invalid login attempts'', ''Email Address Required'', ''Password Required'',
      ''Invalid Login'', ''Not Authorized'', ''Invalid Email Address'', ''Not Authorized for domain'',
      ''User does not exist'', ''Domain Required'', ''Alias Name Required'',
      ''Invalid Alias Name Supplied'', ''Alias Line Required'', ''Alias Insertion Failed'',
      ''Alias Removal Failed'', ''Alias Deletion Failed'',
      ''Invalid Directory.  .. not allowed in path'', ''Invalid Directory.  % not allowed in path'',
      ''Invalid Directory.  Do you need a trailing '/'?'', ''Invalid Directory. Found / before @'',
      ''Invalid Directory. Can't parse email address'', ''Invalid Directory. Unknown email address'',
      ''Unauthorized Directory.'', ''Directory Required.'', ''Source File Name Required'',
      ''Destination File Name Required'', ''Filename Required'', ''Could not open assign file'',
      ''IP Required'', ''Not Available'', ''Could not get limits'', ''Could not set limits'',
      ''Not Implemented yet'', ''Cannot determine my UID or GID'']"


abbreviation (input) ERR_CANT_OPEN_AUTH :: nat where "ERR_CANT_OPEN_AUTH \<equiv> 1"
abbreviation (input) ERR_TOO_MANY_ACTION :: nat where "ERR_TOO_MANY_ACTION \<equiv> 2"
abbreviation (input) ERR_RD_TIMEOUT :: nat where "ERR_RD_TIMEOUT \<equiv> 3"
abbreviation (input) ERR_INVALID_COMMAND :: nat where "ERR_INVALID_COMMAND \<equiv> 4"
abbreviation (input) ERR_TOO_MANY_LOGIN :: nat where "ERR_TOO_MANY_LOGIN \<equiv> 5"
abbreviation (input) ERR_EMAIL_REQD :: nat where "ERR_EMAIL_REQD \<equiv> 6"
abbreviation (input) ERR_PASSWORD_REQD :: nat where "ERR_PASSWORD_REQD \<equiv> 7"
abbreviation (input) ERR_INVALID_LOGIN :: nat where "ERR_INVALID_LOGIN \<equiv> 8"
abbreviation (input) ERR_NOT_AUTHORIZED :: nat where "ERR_NOT_AUTHORIZED \<equiv> 9"
abbreviation (input) ERR_INVALID_EMAIL :: nat where "ERR_INVALID_EMAIL \<equiv> 10"
abbreviation (input) ERR_NOT_AUTH_DOMAIN :: nat where "ERR_NOT_AUTH_DOMAIN \<equiv> 11"
abbreviation (input) ERR_NO_USER :: nat where "ERR_NO_USER \<equiv> 12"
abbreviation (input) ERR_DOMAIN_REQD :: nat where "ERR_DOMAIN_REQD \<equiv> 13"
abbreviation (input) ERR_ALIAS_REQD :: nat where "ERR_ALIAS_REQD \<equiv> 14"
abbreviation (input) ERR_INVALID_ALIAS :: nat where "ERR_INVALID_ALIAS \<equiv> 15"
abbreviation (input) ERR_ALIAS_LINE_REQD :: nat where "ERR_ALIAS_LINE_REQD \<equiv> 16"
abbreviation (input) ERR_ALIAS_INSERT_FAIL :: nat where "ERR_ALIAS_INSERT_FAIL \<equiv> 17"
abbreviation (input) ERR_ALIAS_REMOVE_FAIL :: nat where "ERR_ALIAS_REMOVE_FAIL \<equiv> 18"
abbreviation (input) ERR_ALIAS_DELETE_FAIL :: nat where "ERR_ALIAS_DELETE_FAIL \<equiv> 19"
abbreviation (input) ERR_INVALID_DIR_DOTDOT :: nat where "ERR_INVALID_DIR_DOTDOT \<equiv> 20"
abbreviation (input) ERR_INVALID_DIR_PCT :: nat where "ERR_INVALID_DIR_PCT \<equiv> 21"
abbreviation (input) ERR_INVALID_DIR_SLASH :: nat where "ERR_INVALID_DIR_SLASH \<equiv> 22"
abbreviation (input) ERR_INVALID_DIR_AT :: nat where "ERR_INVALID_DIR_AT \<equiv> 23"
abbreviation (input) ERR_INVALID_DIR_PARSE :: nat where "ERR_INVALID_DIR_PARSE \<equiv> 24"
abbreviation (input) ERR_INVALID_DIR_UNK :: nat where "ERR_INVALID_DIR_UNK \<equiv> 25"
abbreviation (input) ERR_UNAUTH_DIR :: nat where "ERR_UNAUTH_DIR \<equiv> 26"
abbreviation (input) ERR_DIR_REQD :: nat where "ERR_DIR_REQD \<equiv> 27"
abbreviation (input) ERR_SOURCE_REQD :: nat where "ERR_SOURCE_REQD \<equiv> 28"
abbreviation (input) ERR_DEST_REQD :: nat where "ERR_DEST_REQD \<equiv> 29"
abbreviation (input) ERR_FNAME_REQD :: nat where "ERR_FNAME_REQD \<equiv> 30"
abbreviation (input) ERR_NO_OPEN_ASSIGN :: nat where "ERR_NO_OPEN_ASSIGN \<equiv> 31"
abbreviation (input) ERR_IP_REQD :: nat where "ERR_IP_REQD \<equiv> 32"
abbreviation (input) ERR_NOT_AVAIL :: nat where "ERR_NOT_AVAIL \<equiv> 33"
abbreviation (input) ERR_NO_GET_LIMITS :: nat where "ERR_NO_GET_LIMITS \<equiv> 34"
abbreviation (input) ERR_NO_SET_LIMITS :: nat where "ERR_NO_SET_LIMITS \<equiv> 35"
abbreviation (input) ERR_NOT_IMPLEMENT :: nat where "ERR_NOT_IMPLEMENT \<equiv> 36"
abbreviation (input) ERR_IP_REQUIRED :: nat where "ERR_IP_REQUIRED \<equiv> 37"
abbreviation (input) ERR_INVALID_DOMAIN :: nat where "ERR_INVALID_DOMAIN \<equiv> 38"
abbreviation (input) ERR_UNKNOWN_UIDGID :: nat where "ERR_UNKNOWN_UIDGID \<equiv> 39"

text \<open>\<open>%03d\<close>.\<close>

definition show3 :: "nat \<Rightarrow> string" where
  "show3 n = replicate (3 - length (show_nat n)) (CHR ''0'') @ show_nat n"

definition set_write :: "string \<Rightarrow> 'w session \<Rightarrow> 'w session" where
  "set_write m st = st\<lparr>WriteBuf := snprintf_str MAX_TMP_BUFF m\<rparr>"

text \<open>\<open>wait_write\<close> sends the contents of \<open>WriteBuf\<close>, and \<open>say\<close> is \<open>snprintf\<close> followed by it.\<close>

definition wait_write :: "'w session \<Rightarrow> 'w session" where
  "wait_write st = st\<lparr>s_out := s_out st @ [WriteBuf st]\<rparr>"

definition say :: "string \<Rightarrow> 'w session \<Rightarrow> 'w session" where
  "say m st = wait_write (set_write m st)"

text \<open>\<open>show_error\<close>: \<open>None\<close> when the number is outside the table of messages.\<close>

definition show_error :: "nat \<Rightarrow> nat \<Rightarrow> 'w session \<Rightarrow> 'w session option" where
  "show_error major minor st =
     (if major < length ErrorMessages
      then Some (set_write (RET_ERR @ show_nat major @ ''.'' @ show3 minor @ '' '' @ ErrorMessages ! major
             @ RET_CRLF) st)
      else None)"

text \<open>\<open>show_error(..); return(-1);\<close>\<close>

definition fail_with :: "nat \<Rightarrow> nat \<Rightarrow> 'w session \<Rightarrow> 'w hres" where
  "fail_with major minor st =
     (case show_error major minor st of None \<Rightarrow> Fault | Some s \<Rightarrow> Ret (- 1) s)"

definition reply :: "int \<Rightarrow> string \<Rightarrow> 'w session \<Rightarrow> 'w hres" where
  "reply r m st = Ret r (set_write m st)"

text \<open>A reply that carries the text of a code of \<^verbatim>\<open>vpopmail.h\<close> or of \<open>errno\<close>.\<close>

definition err_text :: "string \<Rightarrow> string \<Rightarrow> string" where
  "err_text num t = RET_ERR @ num @ '' '' @ t @ RET_CRLF"

text \<open>\<open>verror\<close>: the text of a return code of \<^verbatim>\<open>vpopmail.h\<close>; \<open>bk_pw_strength_error\<close> is the
  message that \<^verbatim>\<open>pwstr.c\<close> keeps.\<close>

definition verror_texts :: "'w backend \<Rightarrow> (int \<times> string) list" where
  "verror_texts B =
     [(0, ''Success''),
      (- 1, ''Illegal username''),
      (- 2, ''Username exists''),
      (- 3, ''Unable to chdir to vpopmail directory''),
      (- 4, ''Unable to chdir to vpopmail/users directory''),
      (- 5, ''Unable to chdir to '' @ DIR_DOMAINS B),
      (- 6, ''Unable to chdir to '' @ DIR_DOMAINS B @ '' domain directory''),
      (- 7, ''User's directory already exists''),
      (- 8, ''Unable to chdir to user's directory''),
      (- 9, ''Creation of user's subdirectories failed''),
      (- 10, ''User does not exist''),
      (- 11, ''Domain does not exist''),
      (- 12, ''Invalid domain name''),
      (- 13, ''Domain already exists''),
      (- 14, ''Could not make domain dir''),
      (- 15, ''Could not open qmail default''),
      (- 16, ''Can not make '' @ DIR_DOMAINS B @ '' directory''),
      (- 17, ''Could not update file''),
      (- 18, ''Crypt failed''),
      (- 19, ''Could not open dot qmail file''),
      (- 20, ''bad character''),
      (- 22, ''running as invalid uid''),
      (- 23, ''no authentication database connection''),
      (- 24, ''memory allocation error''),
      (- 25, ''user name too long''),
      (- 26, ''domain name too long''),
      (- 27, ''password too long''),
      (- 28, ''gecos too long''),
      (- 29, ''quota too long''),
      (- 30, ''dir too long''),
      (- 31, ''clear password too long''),
      (- 32, ''alias line too long''),
      (- 33, ''null pointer''),
      (- 34, ''invalid email character''),
      (- 35, ''parsing database configuration file''),
      (- 45, ''parsing database configuration file - update server''),
      (- 46, ''parsing database configuration file - update port''),
      (- 47, ''parsing database configuration file - update user''),
      (- 48, ''parsing database configuration file - update password''),
      (- 49, ''parsing database configuration file - update database''),
      (- 50, ''parsing database configuration file - readonly server''),
      (- 51, ''parsing database configuration file - readonly port''),
      (- 52, ''parsing database configuration file - readonly user''),
      (- 53, ''parsing database configuration file - readonly password''),
      (- 54, ''parsing database configuration file - readonly database''),
      (- 36, ''can't read domain limits''),
      (- 37, ''can't read users/assign file''),
      (- 38, ''can't open database''),
      (- 55, ''can't delete catchall account''),
      (- 66, ''no authentication module loaded''),
      (- 67, ''cannot determine my uid or gid''),
      (- 68, ''internal buffer limit exceeded'')]"

definition verror :: "'w backend \<Rightarrow> int \<Rightarrow> string" where
  "verror B va_err =
     (case map_of (verror_texts B) va_err of
        Some t \<Rightarrow> t
      | None \<Rightarrow> if - 74 \<le> va_err \<and> va_err \<le> - 69 then bk_pw_strength_error B else ''Unknown error'')"

section \<open>Calls into the rest of the program\<close>

definition perform :: "'w backend \<Rightarrow> effect \<Rightarrow> 'w session \<Rightarrow> int \<times> 'w session" where
  "perform B e st =
     (let (r, w) = bk_perform B (world st) e in (r, st\<lparr>world := w, effects := effects st @ [e]\<rparr>))"

text \<open>A reply that shows what \<open>e\<close> names.\<close>

definition disclose :: "effect \<Rightarrow> 'w session \<Rightarrow> 'w session" where
  "disclose e st = st\<lparr>effects := effects st @ [e]\<rparr>"

section \<open>What a session may do\<close>

definition starts_with :: "string \<Rightarrow> string \<Rightarrow> bool" where
  "starts_with a b \<longleftrightarrow> take (length a) b = a"

text \<open>
  Where a path leads, when no component is a symbolic link: the components from the root, with empty ones
  and \<^verbatim>\<open>.\<close> skipped and \<^verbatim>\<open>..\<close> going one up.
\<close>

fun components :: "string \<Rightarrow> string list" where
  "components [] = [[]]"
| "components (c # s) =
     (if c = CHR ''/'' then [] # components s
      else (c # hd (components s)) # tl (components s))"

fun walk :: "string list \<Rightarrow> string list \<Rightarrow> string list" where
  "walk cwd [] = cwd"
| "walk cwd (w # ws) =
     walk (if w = [] \<or> w = ''.'' then cwd else if w = ''..'' then butlast cwd else cwd @ [w]) ws"

definition resolve :: "string \<Rightarrow> string list" where
  "resolve p = walk [] (components p)"

text \<open>
  What a session may reach through a directory: the directory, what lies below it and, since the code
  compares bare prefixes, a sibling whose name starts with the name of the directory and what lies below
  that. \<open>below_or_sibling\<close> is said of where the two paths lead.
\<close>

definition below_or_sibling :: "string \<Rightarrow> string \<Rightarrow> bool" where
  "below_or_sibling d p \<longleftrightarrow>
     (let ds = resolve d; ps = resolve p
      in ds = [] \<or> length ds \<le> length ps \<and> take (length ds - 1) ps = butlast ds
           \<and> starts_with (last ds) (ps ! (length ds - 1)))"

text \<open>
  A system administrator may do anything, on files of the domains directory; a domain
  administrator what concerns its own domain and the files of the directory of that domain; a mailbox
  user may change its own entry and use the files of its own directory.
\<close>

definition permitted :: "identity \<Rightarrow> effect \<Rightarrow> bool" where
  "permitted i e \<longleftrightarrow>
     0 < logged_in i \<and>
     (if is_sa i then list_all (below_or_sibling (TheVpopmailDomains i)) (paths_of e)
      else if is_qa i then
        (case scope_of e of
           Files \<Rightarrow> list_all (below_or_sibling (TheDomainDir i)) (paths_of e)
         | OfUser u d \<Rightarrow> d = TheDomain i
         | OfDomain d \<Rightarrow> d = TheDomain i
         | OfSystem \<Rightarrow> False)
      else
        (case scope_of e of
           Files \<Rightarrow> list_all (below_or_sibling (TheUserDir i)) (paths_of e)
         | OfUser u d \<Rightarrow> is_setpw e \<and> u = TheUser i \<and> d = TheDomain i
         | _ \<Rightarrow> False))"

text \<open>A session goes on as the same identity and has only permitted effects.\<close>

definition grown :: "'w session \<Rightarrow> 'w session \<Rightarrow> bool" where
  "grown st st' \<longleftrightarrow>
     auth st' = auth st \<and> (\<exists>es. effects st' = effects st @ es \<and> list_all (permitted (auth st)) es)"

definition confined :: "'w session \<Rightarrow> 'w hres \<Rightarrow> bool" where
  "confined st r \<longleftrightarrow> (case r of Ret x s \<Rightarrow> grown st s | Exit x s \<Rightarrow> grown st s | Fault \<Rightarrow> True)"

named_theorems session_simps \<open>what the buffers do not change\<close>

lemma set_write_fields [session_simps, simp]:
  "effects (set_write m st) = effects st" "auth (set_write m st) = auth st" "world (set_write m st) = world st"
  "stdin (set_write m st) = stdin st" "s_out (set_write m st) = s_out st" "s_rest (set_write m st) = s_rest st"
  "output_type (set_write m st) = output_type st"
  by (simp_all add: set_write_def)

lemma wait_write_fields [session_simps, simp]:
  "effects (wait_write st) = effects st" "auth (wait_write st) = auth st" "world (wait_write st) = world st"
  "stdin (wait_write st) = stdin st" "s_rest (wait_write st) = s_rest st"
  "output_type (wait_write st) = output_type st" "WriteBuf (wait_write st) = WriteBuf st"
  by (simp_all add: wait_write_def)

lemma say_fields [session_simps, simp]:
  "effects (say m st) = effects st" "auth (say m st) = auth st" "world (say m st) = world st"
  "stdin (say m st) = stdin st" "s_rest (say m st) = s_rest st" "output_type (say m st) = output_type st"
  by (simp_all add: say_def)

lemma grown_refl [simp]: "grown st st"
  by (simp add: grown_def)

lemma grown_trans: "grown st st' \<Longrightarrow> grown st' st'' \<Longrightarrow> grown st st''"
  by (fastforce simp: grown_def)

lemma grown_cong: "effects s = effects t \<Longrightarrow> auth s = auth t \<Longrightarrow> grown st s = grown st t"
  by (simp add: grown_def)

lemma grown_buffers [simp]:
  "grown st (set_write m s) = grown st s" "grown st (wait_write s) = grown st s"
  "grown st (say m s) = grown st s" "grown st (s\<lparr>stdin := i\<rparr>) = grown st s"
  "grown st (s\<lparr>s_rest := r\<rparr>) = grown st s"
  "grown st (s\<lparr>rf_tmpbuf := b\<rparr>) = grown st s" "grown st (s\<lparr>ll_tmpbuf := b\<rparr>) = grown st s"
  "grown st (s\<lparr>world := w\<rparr>) = grown st s"
  by (rule grown_cong; simp)+

lemma grown_effect:
  assumes "grown st s" "permitted (auth st) e"
  shows "grown st (s\<lparr>effects := effects s @ [e]\<rparr>)"
  using assms by (auto simp: grown_def)

lemma grown_perform:
  assumes "grown st s" "permitted (auth st) e"
  shows "grown st (snd (perform B e s))"
  using assms by (auto simp: grown_def perform_def split: prod.split)

lemma grown_disclose:
  assumes "grown st s" "permitted (auth st) e"
  shows "grown st (disclose e s)"
  using grown_effect [OF assms] by (simp add: disclose_def)

lemma perform_fields [simp]:
  "auth (snd (perform B e st)) = auth st" "stdin (snd (perform B e st)) = stdin st"
  "s_out (snd (perform B e st)) = s_out st" "s_rest (snd (perform B e st)) = s_rest st"
  "output_type (snd (perform B e st)) = output_type st"
  "effects (snd (perform B e st)) = effects st @ [e]"
  by (simp_all add: perform_def split: prod.split)

lemma disclose_fields [simp]:
  "auth (disclose e st) = auth st" "stdin (disclose e st) = stdin st" "world (disclose e st) = world st"
  "s_out (disclose e st) = s_out st" "s_rest (disclose e st) = s_rest st"
  "effects (disclose e st) = effects st @ [e]" "output_type (disclose e st) = output_type st"
  by (simp_all add: disclose_def)

lemma confined_simps [simp]:
  "confined st (Ret x s) = grown st s" "confined st (Exit x s) = grown st s" "confined st Fault"
  by (simp_all add: confined_def)

lemma confined_fail [simp]: "grown st s \<Longrightarrow> confined st (fail_with m n s)"
  by (simp add: fail_with_def show_error_def)

lemma confined_reply [simp]: "confined st (reply r m s) = grown st s"
  by (simp add: reply_def)

section \<open>Paths that stay below\<close>

definition dotless :: "string \<Rightarrow> bool" where
  "dotless p \<longleftrightarrow> ''..'' \<notin> set (components p)"

lemma components_not_Nil [simp]: "components p \<noteq> []"
  by (cases p) auto

lemma components_append:
  "components (a @ b) =
     butlast (components a) @ (last (components a) @ hd (components b)) # tl (components b)"
proof (induction a)
  case (Cons c a)
  then show ?case by (cases "components a") auto
qed simp

lemma walk_append: "walk cwd (u @ v) = walk (walk cwd u) v"
  by (induction u arbitrary: cwd) auto

lemma walk_dotless: "''..'' \<notin> set ws \<Longrightarrow> walk cwd ws = cwd @ filter (\<lambda>w. w \<noteq> [] \<and> w \<noteq> ''.'') ws"
  by (induction ws arbitrary: cwd) auto

lemma components_split: "components p = butlast (components p) @ [last (components p)]"
  by simp

lemma below_prefix:
  assumes "starts_with d p" "dotless d" "dotless p"
  shows "below_or_sibling d p"
proof -
  obtain s where p: "p = d @ s"
    using assms(1) unfolding starts_with_def by (metis append_take_drop_id)
  let ?f = "filter (\<lambda>w. w \<noteq> [] \<and> w \<noteq> ''.'')"
  let ?l = "last (components d)"
  have d: "resolve d = ?f (butlast (components d)) @ ?f [?l]"
    using assms(2) walk_dotless [of "components d" "[]"] components_split [of d]
    by (metis append_Nil dotless_def filter_append resolve_def)
  have q: "resolve p = ?f (butlast (components d)) @ ?f [?l @ hd (components s)] @ ?f (tl (components s))"
    using assms(3) walk_dotless [of "components p" "[]"] unfolding p resolve_def dotless_def components_append
    by simp
  show ?thesis
  proof (cases "?l \<noteq> [] \<and> ?l \<noteq> ''.''")
    case True
    then have "?l @ hd (components s) \<noteq> [] \<and> ?l @ hd (components s) \<noteq> ''.''"
      by (cases ?l; cases "hd (components s)") auto
    with True d q show ?thesis by (simp add: below_or_sibling_def Let_def starts_with_def)
  next
    case False
    then have d': "resolve d = ?f (butlast (components d))" using d by auto
    then obtain t where t: "resolve p = resolve d @ t" using q by simp
    then show ?thesis
      by (cases "resolve d" rule: rev_cases) (simp_all add: below_or_sibling_def Let_def starts_with_def)
  qed
qed

section \<open>Paths\<close>

text \<open>\<open>strncat\<close> onto a path of \<open>MAXPATH\<close> bytes, with the size the code passes: \<open>None\<close> when the NUL
  falls behind the buffer.\<close>

definition strncat_path :: "string \<Rightarrow> string \<Rightarrow> string option" where
  "strncat_path base r = (if MAXPATH - length base \<le> length r then None else Some (base @ r))"

fun contains :: "string \<Rightarrow> string \<Rightarrow> bool" where
  "contains p [] = (p = [])"
| "contains p (c # s) = (starts_with p (c # s) \<or> contains p s)"

datatype vpath =
    VFault                       \<comment> \<open>a buffer of the function is left\<close>
  | VErr nat nat nat             \<comment> \<open>returned code and numbers of the message\<close>
  | VPath string

definition check_prefix :: "identity \<Rightarrow> string \<Rightarrow> vpath" where
  "check_prefix i newpath =
     (if is_sa i then
        (if \<not> starts_with (TheVpopmailDomains i) newpath then VErr 10 ERR_UNAUTH_DIR 1510 else VPath newpath)
      else if is_qa i then
        (if \<not> starts_with (TheDomainDir i) newpath then VErr 11 ERR_UNAUTH_DIR 1511 else VPath newpath)
      else
        (if \<not> starts_with (TheUserDir i) newpath then VErr 12 ERR_UNAUTH_DIR 1512 else VPath newpath))"

text \<open>A path that starts with an address: the part up to the first slash.\<close>

definition expand_email :: "'w backend \<Rightarrow> 'w session \<Rightarrow> string \<Rightarrow> vpath" where
  "expand_email B st path =
     (let theemail = takeWhile (\<lambda>c. c \<noteq> CHR ''/'') path; r = dropWhile (\<lambda>c. c \<noteq> CHR ''/'') path;
          i = auth st
      in if length theemail \<ge> MAXPATH then VFault
         else case parse_email (bk_env B) theemail MAXPATH of
           None \<Rightarrow> VFault
         | Some None \<Rightarrow> VErr 5 ERR_INVALID_DIR_PARSE 1505
         | Some (Some (theuser, d)) \<Rightarrow>
             (case bk_getpw B (world st) theuser d of
                None \<Rightarrow> VErr 6 ERR_INVALID_DIR_UNK 1506
              | Some (myvpw, thedomain) \<Rightarrow>
                  if is_qa i \<and> \<not> starts_with (TheDomain i) thedomain then VErr 7 ERR_NOT_AUTH_DOMAIN 1507
                  else if \<not> is_qa i \<and> \<not> is_sa i \<and> (TheUser i \<noteq> theuser \<or> TheDomain i \<noteq> thedomain)
                  then VErr 8 ERR_NO_USER 1508
                  else case strncat_path (snprintf_str MAXPATH (pw_dir myvpw)) r of
                         None \<Rightarrow> VFault
                       | Some newpath \<Rightarrow> check_prefix i newpath))"

text \<open>A path that starts with a domain.\<close>

definition expand_domain :: "'w backend \<Rightarrow> 'w session \<Rightarrow> string \<Rightarrow> vpath" where
  "expand_domain B st path =
     (let thedomain = takeWhile (\<lambda>c. c \<noteq> CHR ''/'') path; r = dropWhile (\<lambda>c. c \<noteq> CHR ''/'') path
      in if length thedomain \<ge> MAXPATH then VFault
         else case bk_assign B (world st) thedomain of
           None \<Rightarrow> VErr 9 ERR_NOT_AUTH_DOMAIN 1509
         | Some (_, thedir, _, _) \<Rightarrow>
             (case strncat_path (snprintf_str MAXPATH thedir) r of
                None \<Rightarrow> VFault
              | Some newpath \<Rightarrow> check_prefix (auth st) newpath))"

definition validate_path :: "'w backend \<Rightarrow> 'w session \<Rightarrow> string \<Rightarrow> vpath" where
  "validate_path B st path =
     (if contains ''..'' path then VErr 1 ERR_INVALID_DIR_DOTDOT 1501
      else if contains ''%'' path then VErr 2 ERR_INVALID_DIR_PCT 1502
      else if path \<noteq> [] \<and> hd path = CHR ''/'' then check_prefix (auth st) (snprintf_str MAXPATH path)
      else case index_of (CHR ''/'') path of
        None \<Rightarrow> VErr 3 ERR_INVALID_DIR_SLASH 1503
      | Some slash \<Rightarrow>
          (case index_of (CHR ''@'') path of
             Some atsign \<Rightarrow> if atsign > slash then VErr 4 ERR_INVALID_DIR_AT 1504 else expand_email B st path
           | None \<Rightarrow> expand_domain B st path))"

text \<open>A path without two dots in a row has no component \<^verbatim>\<open>..\<close>, nor has it behind a directory without one.\<close>

lemma contains_iff: "contains p s \<longleftrightarrow> (\<exists>u v. s = u @ p @ v)"
proof
  show "contains p s \<Longrightarrow> \<exists>u v. s = u @ p @ v"
  proof (induction s)
    case (Cons c s)
    show ?case
    proof (cases "starts_with p (c # s)")
      case True
      then have "c # s = [] @ p @ drop (length p) (c # s)"
        unfolding starts_with_def by (metis append_Nil append_take_drop_id)
      then show ?thesis by blast
    next
      case False
      with Cons obtain u v where "c # s = (c # u) @ p @ v" by auto
      then show ?thesis by blast
    qed
  qed simp
next
  have "contains p (u @ p @ v)" for u v
  proof (induction u)
    case Nil
    show ?case by (cases p; cases v) (simp_all add: starts_with_def)
  qed simp
  then show "\<exists>u v. s = u @ p @ v \<Longrightarrow> contains p s" by blast
qed

lemma component_contained: "w \<in> set (components s) \<Longrightarrow> \<exists>u v. s = u @ w @ v"
proof (induction s arbitrary: w)
  case (Cons c s)
  have "\<exists>u v. c # s = u @ w @ v" if "w \<in> set (components s)"
    using Cons.IH [OF that] by (metis append_Cons)
  moreover have "\<exists>u v. c # s = u @ (c # hd (components s)) @ v"
  proof -
    have "\<exists>v. s = hd (components s) @ v" by (induction s) auto
    then show ?thesis by (metis append_Cons append_Nil)
  qed
  moreover have "\<exists>u v. c # s = u @ [] @ v" by auto
  moreover have "w = [] \<or> w = c # hd (components s) \<or> w \<in> set (components s)"
    using Cons(2) by (cases "components s") (auto split: if_splits)
  ultimately show ?case by blast
qed simp

lemma not_contains_dotless:
  assumes "\<not> contains ''..'' (u @ p @ v)"
  shows "dotless p"
proof -
  have "''..'' \<notin> set (components p)"
  proof
    assume "''..'' \<in> set (components p)"
    from component_contained [OF this] obtain a b where "p = a @ ''..'' @ b" by blast
    then have "u @ p @ v = (u @ a) @ ''..'' @ (b @ v)" by simp
    then show False using assms unfolding contains_iff by blast
  qed
  then show ?thesis by (simp add: dotless_def)
qed

lemma dotless_append:
  assumes "dotless a" "dotless r" "r = [] \<or> hd r = CHR ''/''"
  shows "dotless (a @ r)"
  using assms components_split [of a]
  by (cases r) (auto simp: dotless_def components_append dest: in_set_butlastD)

definition home_dir :: "identity \<Rightarrow> string" where
  "home_dir i = (if is_sa i then TheVpopmailDomains i else if is_qa i then TheDomainDir i else TheUserDir i)"

lemma check_prefix_path: "check_prefix i p = VPath q \<Longrightarrow> q = p \<and> starts_with (home_dir i) q"
  by (auto simp: check_prefix_def home_dir_def split: if_splits)

definition dotless_dirs :: "'w backend \<Rightarrow> bool" where
  "dotless_dirs B \<longleftrightarrow>
     (\<forall>w u d pw d'. bk_getpw B w u d = Some (pw, d') \<longrightarrow> dotless (snprintf_str 256 (pw_dir pw)))
     \<and> (\<forall>w d r p x. bk_assign B w d = Some (r, p, x) \<longrightarrow> dotless (snprintf_str 256 p))
     \<and> dotless (snprintf_str 256 (DIR_DOMAINS B))"

lemma strncat_dotless:
  assumes "strncat_path a (dropWhile (\<lambda>c. c \<noteq> CHR ''/'') path) = Some p" "dotless a" "\<not> contains ''..'' path"
  shows "dotless p"
proof -
  let ?r = "dropWhile (\<lambda>c. c \<noteq> CHR ''/'') path"
  have "\<not> contains ''..'' (takeWhile (\<lambda>c. c \<noteq> CHR ''/'') path @ ?r @ [])" using assms(3) by simp
  from not_contains_dotless [OF this] have "dotless ?r" .
  moreover have "?r = [] \<or> hd ?r = CHR ''/''" using hd_dropWhile [of "\<lambda>c. c \<noteq> CHR ''/''" path] by blast
  moreover have "p = a @ ?r" using assms(1) by (simp add: strncat_path_def split: if_splits)
  ultimately show ?thesis using dotless_append [OF assms(2)] by blast
qed

lemma dotless_dirsD:
  assumes "dotless_dirs B"
  shows "bk_getpw B w u d = Some (pw, d') \<Longrightarrow> dotless (snprintf_str 256 (pw_dir pw))"
    "bk_assign B w d = Some (r, t, x) \<Longrightarrow> dotless (snprintf_str 256 t)"
    "dotless (snprintf_str 256 (DIR_DOMAINS B))"
  using assms unfolding dotless_dirs_def by blast+

lemma expand_dotless:
  assumes "\<not> contains ''..'' path" "dotless_dirs B"
    "expand_email B st path = VPath p \<or> expand_domain B st path = VPath p"
  shows "\<exists>q. check_prefix (auth st) q = VPath p \<and> dotless q"
  using assms(3)
proof
  assume "expand_email B st path = VPath p"
  then obtain u d pw d' q where "bk_getpw B (world st) u d = Some (pw, d')"
    "strncat_path (snprintf_str 256 (pw_dir pw)) (dropWhile (\<lambda>c. c \<noteq> CHR ''/'') path) = Some q"
    "check_prefix (auth st) q = VPath p"
    by (auto simp: expand_email_def Let_def MAXPATH_def split: if_splits option.splits prod.splits)
  then show ?thesis using dotless_dirsD(1) [OF assms(2)] strncat_dotless [OF _ _ assms(1)] by blast
next
  assume "expand_domain B st path = VPath p"
  then obtain d r t x q where "bk_assign B (world st) d = Some (r, t, x)"
    "strncat_path (snprintf_str 256 t) (dropWhile (\<lambda>c. c \<noteq> CHR ''/'') path) = Some q"
    "check_prefix (auth st) q = VPath p"
    by (auto simp: expand_domain_def Let_def MAXPATH_def split: if_splits option.splits prod.splits)
  then show ?thesis using dotless_dirsD(2) [OF assms(2)] strncat_dotless [OF _ _ assms(1)] by blast
qed

lemma validate_path_below:
  assumes "validate_path B st path = VPath p" "dotless_dirs B" "dotless (home_dir (auth st))"
  shows "below_or_sibling (home_dir (auth st)) p"
proof -
  have nc: "\<not> contains ''..'' path" using assms(1) by (auto simp: validate_path_def split: if_splits)
  have "\<not> contains ''..'' ([] @ snprintf_str MAXPATH path @ drop (MAXPATH - 1) path)"
    using nc by (simp add: snprintf_str_def)
  from not_contains_dotless [OF this] have "dotless (snprintf_str MAXPATH path)" .
  then have "\<exists>q. check_prefix (auth st) q = VPath p \<and> dotless q"
    using assms(1) expand_dotless [OF nc assms(2)]
    by (auto simp: validate_path_def split: if_splits option.splits)
  then show ?thesis using below_prefix check_prefix_path assms(3) by blast
qed

end
