(* ===== verification/Vduser.thy ===== *)
theory Vduser
  imports Session
begin

text \<open>
  The commands of the administration daemon about accounts (\<^verbatim>\<open>vpopmaild.c\<close>): logging in, adding, deleting,
  changing and showing users, their last authentication and their sizes.
\<close>

section \<open>Showing a user\<close>

definition flag_info :: "string \<Rightarrow> 32 word \<Rightarrow> vqpasswd \<Rightarrow> string" where
  "flag_info name f pw = name @ (if has_flag pw f then '' 1'' else '' 0'') @ RET_CRLF"

definition line :: "string \<Rightarrow> string \<Rightarrow> string" where
  "line name v = name @ '' '' @ v @ RET_CRLF"

text \<open>\<open>%d\<close> of an unsigned id.\<close>

definition show_id :: "nat \<Rightarrow> string" where
  "show_id n = show_int (sint (word_of_nat n :: 32 word))"

definition user_lines :: "nat \<Rightarrow> vqpasswd \<Rightarrow> string list" where
  "user_lines out pw =
     [line ''name'' (pw_name pw), line ''comment'' (pw_gecos pw), line ''quota'' (pw_shell pw),
      line ''user_dir'' (pw_dir pw), line ''encrypted_password'' (pw_passwd pw),
      line ''clear_text_password'' (pw_clear_passwd pw)] @
     (if out > 0 then [line ''gidflags'' (show_id (pw_gid pw))]
      else
       [flag_info ''no_password_change'' NO_PASSWD_CHNG pw, flag_info ''no_pop'' NO_POP pw,
        flag_info ''no_webmail'' NO_WEBMAIL pw, flag_info ''no_imap'' NO_IMAP pw,
        flag_info ''bounce_mail'' BOUNCE_MAIL pw, flag_info ''no_relay'' NO_RELAY pw,
        flag_info ''no_dialup'' NO_DIALUP pw, flag_info ''user_flag_0'' V_USER0 pw,
        flag_info ''user_flag_1'' V_USER1 pw, flag_info ''user_flag_2'' V_USER2 pw,
        flag_info ''user_flag_3'' V_USER3 pw, flag_info ''no_smtp'' NO_SMTP pw,
        flag_info ''domain_admin_privileges'' QA_ADMIN pw,
        flag_info ''override_domain_limits'' V_OVERRIDE pw,
        flag_info ''no_spamassassin'' NO_SPAMASSASSIN pw, flag_info ''delete_spam'' DELETE_SPAM pw,
        flag_info ''no_maildrop'' NO_MAILDROP pw, flag_info ''system_admin_privileges'' SA_ADMIN pw])"

definition final_dot :: string where
  "final_dot = ''.'' @ RET_CRLF"

definition send_user_info :: "vqpasswd \<Rightarrow> 'w session \<Rightarrow> 'w session" where
  "send_user_info pw st = set_write final_dot (fold say (user_lines (output_type st) pw) st)"

section \<open>Logging in\<close>

text \<open>A failed attempt has already overwritten \<open>TheUser\<close> and \<open>TheDomain\<close>.\<close>

definition login_refused :: "nat \<Rightarrow> string \<Rightarrow> string \<Rightarrow> 'w session \<Rightarrow> 'w hres" where
  "login_refused minor u d st =
     (case show_error ERR_INVALID_LOGIN minor st of
        None \<Rightarrow> Fault
      | Some s \<Rightarrow> Ret (- 2) (s\<lparr>auth := (auth st)\<lparr>TheUser := u, TheDomain := d\<rparr>\<rparr>))"

text \<open>
  The identity after a login; \<open>None\<close> when \<open>strcpy\<close> of the domain directory, done for a domain
  administrator, leaves \<open>TheDomainDir\<close>.
\<close>

definition login_identity :: "string \<Rightarrow> vqpasswd \<Rightarrow> string \<Rightarrow> string \<Rightarrow> string \<Rightarrow> identity option" where
  "login_identity domains pw u d dir =
     (let i = \<lparr>AuthVpw = pw, TheUser = u, TheDomain = d, TheDomainDir = snprintf_str 256 dir,
               TheUserDir = snprintf_str 256 (pw_dir pw), TheVpopmailDomains = snprintf_str 256 domains,
               logged_in = 1\<rparr>
      in if has_flag pw SA_ADMIN then Some (i\<lparr>logged_in := 3\<rparr>)
         else if has_flag pw QA_ADMIN \<or> pw_name pw = ''postmaster''
         then (if 256 \<le> length dir then None
               else Some (i\<lparr>AuthVpw := pw\<lparr>pw_gid := unat (gid_word pw OR QA_ADMIN)\<rparr>, TheDomainDir := dir,
                       logged_in := 2\<rparr>))
         else Some i)"

definition login_reply :: "'w backend \<Rightarrow> nat \<Rightarrow> nat \<Rightarrow> 'w session \<Rightarrow> 'w hres" where
  "login_reply B uid gid st =
     (if output_type st < 2
      then reply 0 final_dot (send_user_info (AuthVpw (auth st))
             (fold say
                [RET_OK_MORE, line ''vpopmail_dir_bin'' (DIR_BIN B), line ''vpopmail_dir_etc'' (DIR_ETC B),
                 line ''vpopmail_dir_lib'' (DIR_LIB B), line ''vpopmail_dir_include'' (DIR_INCLUDE B),
                 line ''vpopmail_dir_domains'' (DIR_DOMAINS B), line ''domain_dir'' (TheDomainDir (auth st)),
                 line ''uid'' (show_id uid), line ''gid'' (show_id gid)] st))
      else reply 0 RET_OK st)"

text \<open>
  A domain that \<open>vget_assign\<close> no longer knows makes the code format a null pointer and print ids that are
  not set.
\<close>

definition login :: "'w backend \<Rightarrow> 'w session \<Rightarrow> 'w hres" where
  "login B st =
     (case strtok TOKENS (s_rest st) of
        None \<Rightarrow> fail_with ERR_EMAIL_REQD 203 st
      | Some (email, r) \<Rightarrow>
      (case strtok PASS_TOKENS r of
        None \<Rightarrow> fail_with ERR_PASSWORD_REQD 204 st
      | Some (pass, _) \<Rightarrow>
      (case parse_email (bk_env B) email AUTH_SIZE of
        None \<Rightarrow> Fault
      | Some None \<Rightarrow>
          (case split_email (lowerit email) AUTH_SIZE of (u, d) \<Rightarrow> login_refused 205 u d st)
      | Some (Some (u, d)) \<Rightarrow>
      (case bk_getpw B (world st) u d of
        None \<Rightarrow> login_refused 206 u d st
      | Some (pw, d1) \<Rightarrow>
      if \<not> bk_crypt B (world st) u d1 pass pw then login_refused 207 u d1 st
      else
      (case bk_assign B (world st) d1 of
        None \<Rightarrow> Fault
      | Some (d2, dir, uid, gid) \<Rightarrow>
      (case login_identity (DIR_DOMAINS B) pw u d2 dir of
        None \<Rightarrow> Fault
      | Some i \<Rightarrow> login_reply B uid gid (st\<lparr>auth := i\<rparr>)))))))"

section \<open>Adding and deleting users\<close>

text \<open>The check that most commands start with.\<close>

definition no_admin :: "identity \<Rightarrow> bool" where
  "no_admin i \<longleftrightarrow> \<not> is_qa i \<and> \<not> is_sa i"

definition other_domain :: "identity \<Rightarrow> string \<Rightarrow> bool" where
  "other_domain i d \<longleftrightarrow> \<not> is_sa i \<and> is_qa i \<and> TheDomain i \<noteq> d"

definition add_user :: "'w backend \<Rightarrow> 'w session \<Rightarrow> 'w hres" where
  "add_user B st =
     (if no_admin (auth st) then fail_with ERR_NOT_AUTHORIZED 301 st
      else case strtok TOKENS (s_rest st) of
        None \<Rightarrow> fail_with ERR_EMAIL_REQD 302 st
      | Some (email_address, r) \<Rightarrow>
      (case parse_email (bk_env B) email_address AUTH_SIZE of
        None \<Rightarrow> Fault
      | Some None \<Rightarrow> fail_with ERR_INVALID_EMAIL 303 st
      | Some (Some (u, d)) \<Rightarrow>
      if other_domain (auth st) d then fail_with ERR_NOT_AUTH_DOMAIN 304 st
      else case strtok PASS_TOKENS r of
        None \<Rightarrow> fail_with ERR_PASSWORD_REQD 305 st
      | Some (password, _) \<Rightarrow>
      (case perform B (AddUser u d password u) (set_write RET_OK st) of
        (ret, s) \<Rightarrow>
          if ret < 0 then reply (- 1) (err_text ''0.305'' (verror B ret)) s else Ret 0 s)))"

definition del_user :: "'w backend \<Rightarrow> 'w session \<Rightarrow> 'w hres" where
  "del_user B st =
     (if no_admin (auth st) then fail_with ERR_NOT_AUTHORIZED 401 st
      else case strtok TOKENS (s_rest st) of
        None \<Rightarrow> fail_with ERR_EMAIL_REQD 402 st
      | Some (email_address, r) \<Rightarrow>
      (case parse_email (bk_env B) email_address AUTH_SIZE of
        None \<Rightarrow> Fault
      | Some None \<Rightarrow> fail_with ERR_INVALID_EMAIL 403 st
      | Some (Some (u, d)) \<Rightarrow>
      if other_domain (auth st) d then fail_with ERR_NOT_AUTHORIZED 404 st
      else
      (case perform B (DelUser u d) st of
        (ret, s) \<Rightarrow>
          if ret \<noteq> VA_SUCCESS then reply (- 1) (err_text ''0,405'' (verror B ret)) s
          else reply 0 RET_OK s)))"

section \<open>Changing a user\<close>

definition set_flag :: "32 word \<Rightarrow> string \<Rightarrow> vqpasswd \<Rightarrow> vqpasswd" where
  "set_flag f v pw =
     (if atoi v = 1 then pw\<lparr>pw_gid := unat (gid_word pw OR f)\<rparr>
      else if atoi v = 0 then pw\<lparr>pw_gid := unat (gid_word pw AND NOT f)\<rparr>
      else pw)"

definition can_override :: "identity \<Rightarrow> bool" where
  "can_override i \<longleftrightarrow> is_sa i \<or> is_qa i \<and> has_flag (AuthVpw i) V_OVERRIDE"

text \<open>One parameter line; the quota is in \<open>mod_line\<close>, since it also changes the file \<^verbatim>\<open>maildirsize\<close>.\<close>

definition mod_param :: "(string \<Rightarrow> string) \<Rightarrow> identity \<Rightarrow> string \<Rightarrow> string \<Rightarrow> vqpasswd \<Rightarrow> vqpasswd" where
  "mod_param mkpasswd3 i param v pw =
     (let ov = can_override i in
      if param = ''comment'' then pw\<lparr>pw_gecos := v\<rparr>
      else if param = ''encrypted_password'' then pw\<lparr>pw_passwd := v\<rparr>
      else if param = ''clear_text_password'' \<and> (word_of_nat (pw_flags pw) :: 32 word) AND NO_PASSWD_CHNG = 0
      then pw\<lparr>pw_clear_passwd := v, pw_passwd := mkpasswd3 v\<rparr>
      else if ov \<and> param = ''clear_all_flags'' then pw\<lparr>pw_gid := 0\<rparr>
      else if ov \<and> param = ''no_password_change'' then set_flag NO_PASSWD_CHNG v pw
      else if ov \<and> param = ''no_pop'' then set_flag NO_POP v pw
      else if ov \<and> param = ''no_webmail'' then set_flag NO_WEBMAIL v pw
      else if ov \<and> param = ''no_imap'' then set_flag NO_IMAP v pw
      else if ov \<and> param = ''bounce_mail'' then set_flag BOUNCE_MAIL v pw
      else if ov \<and> param = ''no_relay'' then set_flag NO_RELAY v pw
      else if ov \<and> param = ''no_dialup'' then set_flag NO_DIALUP v pw
      else if ov \<and> param = ''user_flag_0'' then set_flag V_USER0 v pw
      else if ov \<and> param = ''user_flag_1'' then set_flag V_USER1 v pw
      else if param = ''user_flag_2'' then set_flag V_USER2 v pw
      else if param = ''user_flag_3'' then set_flag V_USER3 v pw
      else if ov \<and> param = ''no_smtp'' then set_flag NO_SMTP v pw
      else if is_sa i \<and> param = ''system_admin_privileges'' then set_flag SA_ADMIN v pw
      else if is_sa i \<and> param = ''system_expert_privileges'' then set_flag SA_EXPERT v pw
      else if (is_sa i \<or> is_qa i) \<and> param = ''domain_admin_privileges'' then set_flag QA_ADMIN v pw
      else if is_sa i \<and> param = ''override_domain_limits'' then set_flag V_OVERRIDE v pw
      else if param = ''no_spamassassin'' then set_flag NO_SPAMASSASSIN v pw
      else if param = ''delete_spam'' then set_flag DELETE_SPAM v pw
      else if param = ''no_maildrop'' then set_flag NO_MAILDROP v pw
      else pw)"

definition mod_line :: "'w backend \<Rightarrow> string \<Rightarrow> string \<Rightarrow> vqpasswd \<Rightarrow> 'w session \<Rightarrow> vqpasswd \<times> 'w session" where
  "mod_line B d b pw st =
     (case strtok PARAM_TOKENS b of
        None \<Rightarrow> (pw, st)
      | Some (param, t) \<Rightarrow>
      (case strtok PASS_TOKENS t of
        None \<Rightarrow> (pw, st)
      | Some (v, _) \<Rightarrow>
          if param \<noteq> ''comment'' \<and> can_override (auth st) \<and> param = ''quota''
          then let q = bk_format_quota B v
               in (pw\<lparr>pw_shell := q\<rparr>, snd (perform B (UpdateMaildirsize d (pw_dir pw) q) st))
          else (mod_param (bk_mkpasswd3 B) (auth st) param v pw, st)))"

lemma stdin_mod_line [simp]: "stdin (snd (mod_line B d b pw st)) = stdin st"
  by (auto simp: mod_line_def Let_def split: option.splits prod.splits)

text \<open>The lines up to one that starts with a dot, or the end of the input.\<close>

function mod_lines :: "'w backend \<Rightarrow> string \<Rightarrow> vqpasswd \<Rightarrow> 'w session \<Rightarrow> vqpasswd \<times> 'w session" where
  "mod_lines B d pw st =
     (case fgets_buf MAX_TMP_BUFF (stdin st) of
        None \<Rightarrow> (pw, st)
      | Some (l, r) \<Rightarrow>
          let s = st\<lparr>stdin := r\<rparr>; b = c_str l; y = mod_line B d b pw s
          in if b \<noteq> [] \<and> hd b = CHR ''.'' then (pw, s) else mod_lines B d (fst y) (snd y))"
  by pat_completeness auto

termination
  by (relation "measure (\<lambda>(B, d, pw, st). length (stdin st))")
    (auto dest: fgets_buf_shorter simp: MAX_TMP_BUFF_def case_prod_beta)

declare mod_lines.simps [simp del]

text \<open>The lines that \<open>mod_user\<close> discards when there is no such user.\<close>

function skip_lines :: "'w session \<Rightarrow> 'w session" where
  "skip_lines st =
     (case fgets_buf MAX_TMP_BUFF (stdin st) of
        None \<Rightarrow> st
      | Some (l, r) \<Rightarrow>
          if c_str l = [CHR ''.'', LF] then st\<lparr>stdin := r\<rparr> else skip_lines (st\<lparr>stdin := r\<rparr>))"
  by pat_completeness auto

termination
  by (relation "measure (\<lambda>st. length (stdin st))") (auto dest: fgets_buf_shorter simp: MAX_TMP_BUFF_def)

declare skip_lines.simps [simp del]

definition mod_user :: "'w backend \<Rightarrow> 'w session \<Rightarrow> 'w hres" where
  "mod_user B st =
     (case strtok TOKENS (s_rest st) of
        None \<Rightarrow> fail_with ERR_EMAIL_REQD 501 st
      | Some (email_address, r) \<Rightarrow>
      (case parse_email (bk_env B) email_address AUTH_SIZE of
        None \<Rightarrow> Fault
      | Some None \<Rightarrow> fail_with ERR_INVALID_EMAIL 502 st
      | Some (Some (u, d)) \<Rightarrow>
      if other_domain (auth st) d then fail_with ERR_NOT_AUTH_DOMAIN 503 st
      else if no_admin (auth st) \<and> (TheDomain (auth st) \<noteq> d \<or> TheUser (auth st) \<noteq> u)
      then fail_with ERR_NOT_AUTH_DOMAIN 504 st
      else case bk_getpw B (world st) u d of
        None \<Rightarrow>
          (case show_error ERR_NO_USER 505 st of None \<Rightarrow> Fault | Some s \<Rightarrow> Ret (- 1) (skip_lines s))
      | Some (pw, d1) \<Rightarrow>
      (case mod_lines B d1 pw (say RET_OK st) of
        (pw1, s) \<Rightarrow>
      (case perform B (SetPw pw1 d1) s of
        (ret, s1) \<Rightarrow>
          if ret \<noteq> 0 then reply 0 (err_text ''0.507'' (verror B ret)) s1 else reply 0 RET_OK s1))))"


section \<open>Showing users\<close>

definition user_info :: "'w backend \<Rightarrow> 'w session \<Rightarrow> 'w hres" where
  "user_info B st =
     (if no_admin (auth st) then fail_with ERR_NOT_AUTHORIZED 601 st
      else case strtok TOKENS (s_rest st) of
        None \<Rightarrow> fail_with ERR_EMAIL_REQD 602 st
      | Some (email_address, r) \<Rightarrow>
      (case parse_email (bk_env B) email_address AUTH_SIZE of
        None \<Rightarrow> Fault
      | Some None \<Rightarrow> fail_with ERR_INVALID_EMAIL 603 st
      | Some (Some (u, d)) \<Rightarrow>
      if other_domain (auth st) d then fail_with ERR_NOT_AUTH_DOMAIN 604 st
      else case bk_getpw B (world st) u d of
        None \<Rightarrow> fail_with ERR_NO_USER 605 st
      | Some (pw, d1) \<Rightarrow>
          reply 0 final_dot (send_user_info pw (disclose (ShowUser (pw_name pw) d1) (say RET_OK_MORE st)))))"

text \<open>Signed arithmetic of C, with the wrap-around of the machine.\<close>

definition imul :: "int \<Rightarrow> int \<Rightarrow> int" where
  "imul a b = sint (word_of_int (a * b) :: 32 word)"

text \<open>The optional \<open>page\<close> and \<open>lines_per_page\<close>: first and last entry, or 0 and 0 for all.\<close>

definition page_window :: "string \<Rightarrow> int \<times> int" where
  "page_window r =
     (case strtok TOKENS r of
        None \<Rightarrow> (0, 0)
      | Some (p, r') \<Rightarrow>
          let page = max 0 (atoi p);
              lines_per_page = (case strtok TOKENS r' of None \<Rightarrow> 0 | Some (l, _) \<Rightarrow> max 0 (atoi l))
          in if page > 0 \<and> lines_per_page > 0
             then (imul (page - 1) lines_per_page, imul page lines_per_page)
             else (0, 0))"

definition user_count :: "'w backend \<Rightarrow> 'w session \<Rightarrow> 'w hres" where
  "user_count B st =
     (if no_admin (auth st) then fail_with ERR_NOT_AUTHORIZED 2601 st
      else case strtok TOKENS (s_rest st) of
        None \<Rightarrow> fail_with ERR_DOMAIN_REQD 2602 st
      | Some (d, _) \<Rightarrow>
          if other_domain (auth st) d then fail_with ERR_NOT_AUTH_DOMAIN 2603 st
          else if other_domain (auth st) d then fail_with ERR_NOT_AUTH_DOMAIN 2604 st
          else reply 0 final_dot
                 (say (line ''count'' (show_nat (length (bk_getall B (world st) d))))
                   (disclose (ShowUsers d) (say RET_OK_MORE st))))"

text \<open>\<open>count\<close> is the number of users seen so far.\<close>

fun users_loop :: "int \<Rightarrow> int \<Rightarrow> int \<Rightarrow> vqpasswd list \<Rightarrow> 'w session \<Rightarrow> 'w session" where
  "users_loop start stop count [] st = st"
| "users_loop start stop count (pw # ps) st =
     (if stop > 0 \<and> \<not> (count \<ge> start \<and> count < stop) \<and> count \<ge> stop then st
      else users_loop start stop (count + 1) ps
             (say RET_CRLF
               (if stop > 0 \<and> \<not> (count \<ge> start \<and> count < stop) then st else send_user_info pw st)))"

definition list_users :: "'w backend \<Rightarrow> 'w session \<Rightarrow> 'w hres" where
  "list_users B st =
     (if no_admin (auth st) then fail_with ERR_NOT_AUTHORIZED 2701 st
      else case strtok TOKENS (s_rest st) of
        None \<Rightarrow> fail_with ERR_EMAIL_REQD 2702 st
      | Some (d, r) \<Rightarrow>
          if other_domain (auth st) d then fail_with ERR_NOT_AUTH_DOMAIN 2703 st
          else (case page_window r of
            (start, stop) \<Rightarrow>
              if other_domain (auth st) d then fail_with ERR_NOT_AUTH_DOMAIN 2704 st
              else reply 0 final_dot
                     (users_loop start stop 0 (bk_getall B (world st) d)
                       (disclose (ShowUsers d) (say RET_OK_MORE st)))))"

definition get_lastauth :: "'w backend \<Rightarrow> 'w session \<Rightarrow> 'w hres" where
  "get_lastauth B st =
     (if no_admin (auth st) then fail_with ERR_NOT_AUTHORIZED 3701 st
      else case strtok TOKENS (s_rest st) of
        None \<Rightarrow> fail_with ERR_EMAIL_REQD 3702 st
      | Some (email_address, r) \<Rightarrow>
      (case parse_email (bk_env B) email_address AUTH_SIZE of
        None \<Rightarrow> Fault
      | Some None \<Rightarrow> fail_with ERR_INVALID_EMAIL 3703 st
      | Some (Some (u, d)) \<Rightarrow>
      if other_domain (auth st) d then fail_with ERR_NOT_AUTH_DOMAIN 3704 st
      else case bk_getpw B (world st) u d of
        None \<Rightarrow> fail_with ERR_NO_USER 3705 st
      | Some (pw, d1) \<Rightarrow>
          if \<not> bk_feature B ''AUTH_LOGGING'' then reply 0 RET_OK st
          else (case bk_lastauth B (world st) pw d1 of
            (time, ip) \<Rightarrow>
              reply 0 final_dot
                (say (line ''ip'' ip) (say (line ''time'' (show_int time))
                  (disclose (ShowLastAuth (pw_name pw) d1) (say RET_OK_MORE st)))))))"

section \<open>Sizes\<close>

definition get_user_size :: "'w backend \<Rightarrow> 'w session \<Rightarrow> 'w hres" where
  "get_user_size B st =
     (if no_admin (auth st) then reply (- 1) (err_text ''3801'' ''not authorized'') st
      else case strtok TOKENS (s_rest st) of
        None \<Rightarrow> reply (- 1) (err_text ''3802'' ''email_address required'') st
      | Some (email_address, r) \<Rightarrow>
      (case parse_email (bk_env B) email_address AUTH_SIZE of
        None \<Rightarrow> Fault
      | Some None \<Rightarrow> reply (- 1) (err_text ''3803'' ''invalid email address'') st
      | Some (Some (u, d)) \<Rightarrow>
      if other_domain (auth st) d then reply (- 1) (err_text ''3804'' ''not authorized for domain'') st
      else case bk_getpw B (world st) u d of
        None \<Rightarrow> reply (- 1) (err_text ''3805'' ''user does not exist'') st
      | Some (pw, d1) \<Rightarrow>
      (case bk_quota B (world st) (pw_dir pw) of
        None \<Rightarrow> reply (- 1) (err_text ''3806'' ''unable to fetch size of user account'') st
      | Some (bytes, cnt) \<Rightarrow>
          reply 0 final_dot
            (say (line ''count'' (show_int cnt)) (say (line ''size'' (show_int bytes))
              (disclose (ShowUserSize (pw_name pw) d1) (say RET_OK_MORE st)))))))"

fun sizes_loop ::
  "'w backend \<Rightarrow> string \<Rightarrow> 64 word \<Rightarrow> 32 word \<Rightarrow> vqpasswd list \<Rightarrow> 'w session \<Rightarrow> 'w hres" where
  "sizes_loop B d totalbytes totalcnt [] st =
     reply 0 final_dot
       (say (line ''count'' (show_nat (unat totalcnt))) (say (line ''size'' (show_nat (unat totalbytes)))
         (say (line ''domain'' d) st)))"
| "sizes_loop B d totalbytes totalcnt (pw # ps) st =
     (case bk_quota B (world st) (snprintf_str 256 (pw_dir pw @ ''/Maildir'')) of
        None \<Rightarrow>
          reply (- 1)
            (err_text ''3904'' (''unable to fetch size of user accounts '' @ [CHR 0x27] @ pw_name pw @ [CHR 0x27])) st
      | Some (bytes, cnt) \<Rightarrow>
          sizes_loop B d (totalbytes + word_of_int bytes) (totalcnt + word_of_int cnt) ps
            (say (line ''count'' (show_int cnt)) (say (line ''size'' (show_int bytes))
              (say (line ''user'' (pw_name pw @ ''@'' @ d)) st))))"

definition get_domain_size :: "'w backend \<Rightarrow> 'w session \<Rightarrow> 'w hres" where
  "get_domain_size B st =
     (if no_admin (auth st) then reply (- 1) (err_text ''3901'' ''not authorized'') st
      else case strtok TOKENS (s_rest st) of
        None \<Rightarrow> reply (- 1) (err_text ''3902'' ''domain required'') st
      | Some (d, _) \<Rightarrow>
          if other_domain (auth st) d then reply (- 1) (err_text ''3903'' ''not authorized for domain'') st
          else sizes_loop B d 0 0 (bk_getall B (world st) d)
                 (disclose (ShowDomainSize d) (say RET_OK_MORE st)))"


section \<open>Confinement\<close>

definition backend_ok :: "(string \<Rightarrow> string) \<Rightarrow> 'w backend \<Rightarrow> bool" where
  "backend_ok real B \<longleftrightarrow>
     (\<forall>w u d pw d'. bk_getpw B w u d = Some (pw, d') \<longrightarrow> pw_name pw = lowercase u \<and> d' = real d)
     \<and> (\<forall>w d r x. bk_assign B w d = Some (r, x) \<longrightarrow> r = real d \<and> lowerit r = r \<and> is_domain_valid r)
     \<and> (\<forall>d. real (real d) = real d)"

definition session_ok :: "(string \<Rightarrow> string) \<Rightarrow> identity \<Rightarrow> bool" where
  "session_ok real i \<longleftrightarrow>
     0 < logged_in i \<and> real (TheDomain i) = TheDomain i \<and> lowerit (TheDomain i) = TheDomain i
     \<and> is_domain_valid (TheDomain i)"

lemma permitted_admin:
  assumes "\<not> no_admin i" "\<not> other_domain i d" "0 < logged_in i" "paths_of e = []"
    "scope_of e = OfDomain d \<or> (\<exists>u. scope_of e = OfUser u d)"
  shows "permitted i e"
  using assms by (auto simp: permitted_def no_admin_def other_domain_def)

lemma permitted_system:
  assumes "is_sa i" "0 < logged_in i" "paths_of e = []"
  shows "permitted i e"
  using assms by (simp add: permitted_def)

lemma grown_say_all [simp]: "grown st (fold say ms s) = grown st s"
  by (induction ms arbitrary: s) simp_all

lemma grown_send_user_info [simp]: "grown st (send_user_info pw s) = grown st s"
  by (simp add: send_user_info_def)


lemma grown_performI:
  assumes "perform B e s = (r, s')" "grown st s" "permitted (auth st) e"
  shows "grown st s'"
  using grown_perform [OF assms(2,3), of B] assms(1) by simp

lemma confined_show_error [simp]:
  "grown st s \<Longrightarrow> confined st (case show_error m n s of None \<Rightarrow> Fault | Some s' \<Rightarrow> Ret x s')"
  by (simp add: show_error_def)

lemma confined_add_user:
  assumes "session_ok real (auth st)"
  shows "confined st (add_user B st)"
  using assms unfolding add_user_def session_ok_def
  by (auto split: option.splits prod.splits intro!: permitted_admin elim!: grown_performI)

lemma confined_del_user:
  assumes "session_ok real (auth st)"
  shows "confined st (del_user B st)"
  using assms unfolding del_user_def session_ok_def
  by (auto split: option.splits prod.splits intro!: permitted_admin elim!: grown_performI)

lemma confined_user_info:
  assumes "session_ok real (auth st)" "backend_ok real B"
  shows "confined st (user_info B st)"
  using assms unfolding user_info_def session_ok_def backend_ok_def
  by (fastforce split: option.splits prod.splits simp: other_domain_def no_admin_def permitted_def
      intro!: grown_disclose permitted_admin)

lemma confined_user_count:
  assumes "session_ok real (auth st)"
  shows "confined st (user_count B st)"
  using assms unfolding user_count_def session_ok_def
  by (auto split: option.splits prod.splits intro!: permitted_admin grown_disclose)

lemma grown_users_loop [simp]: "grown st (users_loop a b c ps s) = grown st s"
  by (induction a b c ps s rule: users_loop.induct) simp_all

lemma confined_list_users:
  assumes "session_ok real (auth st)"
  shows "confined st (list_users B st)"
  using assms unfolding list_users_def session_ok_def
  by (auto split: option.splits prod.splits intro!: permitted_admin grown_disclose)

lemma confined_get_lastauth:
  assumes "session_ok real (auth st)" "backend_ok real B"
  shows "confined st (get_lastauth B st)"
  using assms unfolding get_lastauth_def session_ok_def backend_ok_def
  by (fastforce split: option.splits prod.splits simp: other_domain_def no_admin_def permitted_def
      intro!: grown_disclose permitted_admin)

lemma confined_get_user_size:
  assumes "session_ok real (auth st)" "backend_ok real B"
  shows "confined st (get_user_size B st)"
  using assms unfolding get_user_size_def session_ok_def backend_ok_def
  by (fastforce split: option.splits prod.splits simp: other_domain_def no_admin_def permitted_def
      intro!: grown_disclose permitted_admin)

lemma confined_sizes_loop: "grown st s \<Longrightarrow> confined st (sizes_loop B d x y ps s)"
  by (induction B d x y ps s rule: sizes_loop.induct) (auto split: option.splits)

lemma confined_get_domain_size:
  assumes "session_ok real (auth st)"
  shows "confined st (get_domain_size B st)"
  using assms unfolding get_domain_size_def session_ok_def
  by (auto split: option.splits prod.splits intro!: permitted_admin grown_disclose confined_sizes_loop)

section \<open>mod_user\<close>

lemma set_flag_fields [simp]:
  "pw_name (set_flag f v pw) = pw_name pw" "pw_dir (set_flag f v pw) = pw_dir pw"
  "pw_uid (set_flag f v pw) = pw_uid pw" "pw_shell (set_flag f v pw) = pw_shell pw"
  "pw_flags (set_flag f v pw) = pw_flags pw" "pw_passwd (set_flag f v pw) = pw_passwd pw"
  by (simp_all add: set_flag_def)

lemma mod_param_fields [simp]:
  "pw_name (mod_param mk i p v pw) = pw_name pw" "pw_dir (mod_param mk i p v pw) = pw_dir pw"
  "pw_uid (mod_param mk i p v pw) = pw_uid pw" "pw_shell (mod_param mk i p v pw) = pw_shell pw"
  by (simp_all add: mod_param_def Let_def)

lemma confined_skip_lines [simp]: "grown st (skip_lines s) = grown st s"
  by (induction s rule: skip_lines.induct) (subst skip_lines.simps, auto split: option.splits prod.splits)

lemma mod_line_fields [simp]:
  "pw_name (fst (mod_line B d b pw st)) = pw_name pw" "pw_dir (fst (mod_line B d b pw st)) = pw_dir pw"
  "auth (snd (mod_line B d b pw st)) = auth st"
  by (auto simp: mod_line_def Let_def split: option.splits prod.splits)

lemma mod_line_grown:
  assumes "grown st s" "0 < logged_in (auth st)" "\<not> other_domain (auth st) d"
  shows "grown st (snd (mod_line B d b pw s))"
proof -
  have a: "auth s = auth st" using assms(1) by (simp add: grown_def)
  have "can_override (auth st) \<Longrightarrow> grown st (snd (perform B (UpdateMaildirsize d p q) s))" for p q
    using assms by (intro grown_perform permitted_admin) (auto simp: can_override_def no_admin_def)
  then show ?thesis using assms a by (auto simp: mod_line_def Let_def split: option.splits prod.splits)
qed

lemma mod_lines_grown:
  assumes "grown st s" "0 < logged_in (auth st)" "\<not> other_domain (auth st) d"
  shows "grown st (snd (mod_lines B d pw s))"
  using assms
proof (induction B d pw s rule: mod_lines.induct)
  case (1 B d pw s)
  then show ?case
    by (simp add: mod_lines.simps [of B d pw s] mod_line_grown Let_def split: option.splits prod.splits)
qed

lemma mod_lines_fields [simp]:
  "pw_name (fst (mod_lines B d pw s)) = pw_name pw \<and> pw_dir (fst (mod_lines B d pw s)) = pw_dir pw"
proof (induction B d pw s rule: mod_lines.induct)
  case (1 B d pw s)
  then show ?case by (simp add: mod_lines.simps [of B d pw s] Let_def split: option.splits prod.splits)
qed

lemma confined_mod_user:
  assumes "session_ok real (auth st)" "backend_ok real B"
  shows "confined st (mod_user B st)"
proof -
  have "confined st (Ret x (skip_lines s)) = grown st s" for x s by simp
  have u: "grown st (snd (perform B (SetPw pw1 d1) s))"
    if "bk_getpw B (world st) u d = Some (pw, d1)" "mod_lines B d1 pw (say RET_OK st) = (pw1, s)"
      "lowercase u = u" "\<not> other_domain (auth st) d"
      "no_admin (auth st) \<Longrightarrow> TheDomain (auth st) = d \<and> TheUser (auth st) = u" for u d pw d1 pw1 s
  proof (rule grown_perform)
    have d1: "pw_name pw = u" "d1 = real d" using that(1,3) assms(2) by (auto simp: backend_ok_def)
    have "pw1 = fst (mod_lines B d1 pw (say RET_OK st))" using that(2) by simp
    then have "pw_name pw1 = pw_name pw" by simp
    with d1 have n: "pw_name pw1 = u" by simp
    have o: "\<not> other_domain (auth st) d1" 
      using that(4) assms(1) d1 by (auto simp: other_domain_def session_ok_def)
    show "grown st s"
      using mod_lines_grown [of st "say RET_OK st" d1 B pw] that(2) o assms(1) by (simp add: session_ok_def)
    show "permitted (auth st) (SetPw pw1 d1)"
      using assms(1) that(5) n o d1 by (auto simp: permitted_def other_domain_def no_admin_def session_ok_def)
  qed
  have p: "lowercase u = u" if "parse_email (bk_env B) e AUTH_SIZE = Some (Some (u, d))" for u d e
    using that by (rule parse_email_lower)
  show ?thesis unfolding mod_user_def
    using u p by (fastforce split: option.splits prod.splits simp: show_error_def)
qed


section \<open>What changing a user can change\<close>

lemma gid_word_upd [simp]: "gid_word (pw\<lparr>pw_gid := unat w\<rparr>) = w" "gid_word (pw\<lparr>pw_gid := 0\<rparr>) = 0"
  by (simp_all add: gid_word_def)

lemma gid_word_other [simp]:
  "gid_word (pw\<lparr>pw_gecos := s\<rparr>) = gid_word pw" "gid_word (pw\<lparr>pw_passwd := s\<rparr>) = gid_word pw"
  "gid_word (pw\<lparr>pw_clear_passwd := s\<rparr>) = gid_word pw"
  "gid_word (pw\<lparr>pw_shell := s\<rparr>) = gid_word pw"
  by (simp_all add: gid_word_def)

lemma set_flag_keeps:
  assumes "f AND m = 0"
  shows "gid_word (set_flag f v pw) AND m = gid_word pw AND m"
proof -
  have b: "\<not> (bit f n \<and> bit m n)" for n
    using assms by (metis bit_and_iff bit_0_eq bot_apply bot_bool_def)
  have "(w OR f) AND m = w AND m" for w
    by (rule bit_word_eqI) (use b in \<open>auto simp: bit_simps\<close>)
  moreover have "(w AND NOT f) AND m = w AND m" for w
    by (rule bit_word_eqI) (use b in \<open>auto simp: bit_simps\<close>)
  ultimately show ?thesis by (simp add: set_flag_def)
qed

definition user_mask :: "32 word" where
  "user_mask = V_USER2 OR V_USER3 OR NO_SPAMASSASSIN OR DELETE_SPAM OR NO_MAILDROP"

definition system_mask :: "32 word" where
  "system_mask = SA_ADMIN OR SA_EXPERT OR V_OVERRIDE"

lemmas flag_word_defs = flag_defs BOUNCE_MAIL_def V_USER0_def V_USER1_def V_USER2_def V_USER3_def QA_ADMIN_def
  SA_ADMIN_def SA_EXPERT_def user_mask_def system_mask_def

lemma mod_param_user:
  assumes "no_admin i"
  shows "gid_word (mod_param mk i p v pw) AND NOT user_mask = gid_word pw AND NOT user_mask"
proof -
  have "\<not> is_sa i" "\<not> is_qa i" "\<not> can_override i" using assms by (auto simp: no_admin_def can_override_def)
  moreover have "V_USER2 AND NOT user_mask = 0" "V_USER3 AND NOT user_mask = 0" "NO_SPAMASSASSIN AND NOT user_mask = 0"
    "DELETE_SPAM AND NOT user_mask = 0" "NO_MAILDROP AND NOT user_mask = 0"
    by (simp_all add: flag_word_defs)
  ultimately show ?thesis by (simp add: mod_param_def set_flag_keeps)
qed

lemma mod_param_system:
  assumes "\<not> is_sa i"
  shows "gid_word (mod_param mk i p v pw) AND system_mask = gid_word pw AND system_mask
     \<or> gid_word (mod_param mk i p v pw) AND system_mask = 0"
proof -
  have "list_all (\<lambda>f. f AND system_mask = 0) [NO_PASSWD_CHNG, NO_POP, NO_WEBMAIL, NO_IMAP, BOUNCE_MAIL, NO_RELAY, NO_DIALUP,
    V_USER0, V_USER1, V_USER2, V_USER3, NO_SMTP, QA_ADMIN, NO_SPAMASSASSIN, DELETE_SPAM, NO_MAILDROP]"
    by (simp add: flag_word_defs)
  then show ?thesis using assms by (simp add: mod_param_def set_flag_keeps Let_def)
qed

text \<open>A domain administrator without the permission to override limits can only add \<open>QA_ADMIN\<close> to these.\<close>

definition admin_mask :: "32 word" where
  "admin_mask = user_mask OR QA_ADMIN"

lemma mod_param_admin:
  assumes "\<not> is_sa i" "\<not> can_override i"
  shows "gid_word (mod_param mk i p v pw) AND NOT admin_mask = gid_word pw AND NOT admin_mask"
proof -
  have "V_USER2 AND NOT admin_mask = 0" "V_USER3 AND NOT admin_mask = 0" "NO_SPAMASSASSIN AND NOT admin_mask = 0"
    "DELETE_SPAM AND NOT admin_mask = 0" "NO_MAILDROP AND NOT admin_mask = 0" "QA_ADMIN AND NOT admin_mask = 0"
    by (simp_all add: flag_word_defs admin_mask_def)
  with assms show ?thesis by (simp add: mod_param_def set_flag_keeps)
qed

lemma mod_param_shell: "pw_shell (mod_param mk i p v pw) = pw_shell pw"
  by simp

lemma mod_line_changes:
  assumes "\<not> is_sa (auth st)"
  shows "gid_word (fst (mod_line B d b pw st)) AND system_mask \<in> {gid_word pw AND system_mask, 0}"
    "no_admin (auth st) \<Longrightarrow>
       gid_word (fst (mod_line B d b pw st)) AND NOT user_mask = gid_word pw AND NOT user_mask
       \<and> pw_shell (fst (mod_line B d b pw st)) = pw_shell pw"
proof -
  show "gid_word (fst (mod_line B d b pw st)) AND system_mask \<in> {gid_word pw AND system_mask, 0}"
    using mod_param_system [OF assms] by (auto simp: mod_line_def Let_def split: option.splits)
  assume n: "no_admin (auth st)"
  then have "\<not> can_override (auth st)" by (simp add: no_admin_def can_override_def)
  then show "gid_word (fst (mod_line B d b pw st)) AND NOT user_mask = gid_word pw AND NOT user_mask
       \<and> pw_shell (fst (mod_line B d b pw st)) = pw_shell pw"
    using mod_param_user [OF n] by (auto simp: mod_line_def Let_def split: option.splits)
qed

lemma mod_lines_invariant:
  assumes "P pw st" "\<And>pw s r. P pw s \<Longrightarrow> P pw (s\<lparr>stdin := r\<rparr>)"
    "\<And>b pw s. P pw s \<Longrightarrow> P (fst (mod_line B d b pw s)) (snd (mod_line B d b pw s))"
  shows "P (fst (mod_lines B d pw st)) (snd (mod_lines B d pw st))"
  using assms(1)
proof (induction "length (stdin st)" arbitrary: pw st rule: less_induct)
  case less
  show ?case
  proof (cases "fgets_buf MAX_TMP_BUFF (stdin st)")
    case None
    with less show ?thesis by (simp add: mod_lines.simps [of B d pw st])
  next
    case (Some x)
    obtain l r where x: "x = (l, r)" by fastforce
    let ?y = "mod_line B d (c_str l) pw (st\<lparr>stdin := r\<rparr>)"
    have "length r < length (stdin st)" using Some x by (auto dest: fgets_buf_shorter simp: MAX_TMP_BUFF_def)
    then have "P (fst (mod_lines B d (fst ?y) (snd ?y))) (snd (mod_lines B d (fst ?y) (snd ?y)))"
      using less(2) assms(2,3) by (intro less(1)) simp_all
    then show ?thesis using less(2) assms(2) Some x by (simp add: mod_lines.simps [of B d pw st] Let_def)
  qed
qed

lemma mod_lines_system:
  assumes "\<not> is_sa (auth st)"
  shows "gid_word (fst (mod_lines B d pw st)) AND system_mask \<in> {gid_word pw AND system_mask, 0}"
proof -
  let ?P = "\<lambda>p (s :: 'a session). \<not> is_sa (auth s) \<and> gid_word p AND system_mask \<in> {gid_word pw AND system_mask, 0}"
  have "?P (fst (mod_lines B d pw st)) (snd (mod_lines B d pw st))"
  proof (rule mod_lines_invariant)
    fix b p s assume "?P p s"
    then show "?P (fst (mod_line B d b p s)) (snd (mod_line B d b p s))"
      using mod_line_changes(1) [of s B d b p] by auto
  qed (use assms in simp_all)
  then show ?thesis by simp
qed

lemma mod_lines_user:
  assumes "no_admin (auth st)"
  shows "gid_word (fst (mod_lines B d pw st)) AND NOT user_mask = gid_word pw AND NOT user_mask
       \<and> pw_shell (fst (mod_lines B d pw st)) = pw_shell pw"
proof -
  let ?P = "\<lambda>p (s :: 'a session). no_admin (auth s) \<and> gid_word p AND NOT user_mask = gid_word pw AND NOT user_mask
    \<and> pw_shell p = pw_shell pw"
  have "?P (fst (mod_lines B d pw st)) (snd (mod_lines B d pw st))"
  proof (rule mod_lines_invariant)
    fix b p s assume "?P p s"
    then show "?P (fst (mod_line B d b p s)) (snd (mod_line B d b p s))"
      using mod_line_changes(2) [of s B d b p] mod_line_changes(1) by (auto simp: no_admin_def)
  qed (use assms in simp_all)
  then show ?thesis by simp
qed

lemma mod_lines_admin:
  assumes "\<not> is_sa (auth st)" "\<not> can_override (auth st)"
  shows "gid_word (fst (mod_lines B d pw st)) AND NOT admin_mask = gid_word pw AND NOT admin_mask
       \<and> pw_shell (fst (mod_lines B d pw st)) = pw_shell pw"
proof -
  let ?P = "\<lambda>p (s :: 'a session). \<not> is_sa (auth s) \<and> \<not> can_override (auth s)
    \<and> gid_word p AND NOT admin_mask = gid_word pw AND NOT admin_mask \<and> pw_shell p = pw_shell pw"
  have "?P (fst (mod_lines B d pw st)) (snd (mod_lines B d pw st))"
  proof (rule mod_lines_invariant)
    fix b p s assume "?P p s"
    then show "?P (fst (mod_line B d b p s)) (snd (mod_line B d b p s))"
      using mod_param_admin [of "auth s"] by (auto simp: mod_line_def Let_def split: option.splits)
  qed (use assms in simp_all)
  then show ?thesis by simp
qed

lemma mod_lines_no_setpw:
  "\<exists>es. effects (snd (mod_lines B d pw st)) = effects st @ es \<and> (\<forall>e \<in> set es. \<not> is_setpw e)"
proof (rule mod_lines_invariant)
  fix b p and s :: "'a session"
  assume "\<exists>es. effects s = effects st @ es \<and> (\<forall>e \<in> set es. \<not> is_setpw e)"
  then obtain es where es: "effects s = effects st @ es" "\<forall>e \<in> set es. \<not> is_setpw e" by blast
  have "\<exists>fs. effects (snd (mod_line B d b p s)) = effects s @ fs \<and> (\<forall>e \<in> set fs. \<not> is_setpw e)"
    by (auto simp: mod_line_def Let_def split: option.splits)
  then obtain fs where "effects (snd (mod_line B d b p s)) = effects s @ fs" "\<forall>e \<in> set fs. \<not> is_setpw e" by blast
  with es show "\<exists>es. effects (snd (mod_line B d b p s)) = effects st @ es \<and> (\<forall>e \<in> set es. \<not> is_setpw e)"
    by (intro exI [of _ "es @ fs"]) auto
qed simp_all

lemma effects_skip_lines [simp]: "effects (skip_lines s) = effects s"
  by (induction s rule: skip_lines.induct) (subst skip_lines.simps, auto split: option.splits)

section \<open>An example\<close>

text \<open>A back end with one domain, \<^verbatim>\<open>a.org\<close>, whose users all exist; for the witnesses.\<close>

definition demo_pw :: "string \<Rightarrow> vqpasswd" where
  "demo_pw u = \<lparr>pw_name = u, pw_passwd = ''x'', pw_uid = 0, pw_gid = 0, pw_flags = 0, pw_gecos = u,
     pw_dir = ''/v/a.org/'' @ u, pw_shell = ''NOQUOTA'', pw_clear_passwd = []\<rparr>"

definition demo_backend :: "unit backend" where
  "demo_backend =
     \<lparr>bk_getpw = \<lambda>w u d. if CHR ''.'' \<in> set u then None else Some (demo_pw (lowercase u), ''a.org''),
      bk_crypt = \<lambda>w u d pass pw. pass = ''secret'',
      bk_assign = \<lambda>w d. Some (''a.org'', ''/v/a.org'', 89, 89),
      bk_perform = \<lambda>w e. (0, ()),
      bk_getall = \<lambda>w d. [demo_pw ''joe''],
      bk_entries = \<lambda>w d. Some [],
      bk_valias = \<lambda>w u d. [],
      bk_valias_all = \<lambda>w d. [],
      bk_limits = \<lambda>w d. Some vdefault_limits,
      bk_ip_map = \<lambda>w ip. None,
      bk_ip_list = \<lambda>w. [],
      bk_quota = \<lambda>w dir. Some (0, 0),
      bk_lastauth = \<lambda>w pw d. (0, []),
      bk_chdir = \<lambda>w dir. True,
      bk_dir = \<lambda>w dir. None,
      bk_file = \<lambda>w p. None,
      bk_stat = \<lambda>w p. None,
      bk_writable = \<lambda>w p. True,
      bk_strerror = \<lambda>w. [],
      bk_feature = \<lambda>f. False,
      bk_env = \<lparr>de_vpopmail_domain = None, de_tcplocalip = None, de_ip_alias = False, de_ip_map = \<lambda>_. None,
        de_locals = None, de_defaultdomain = None\<rparr>,
      bk_uidgid = Some (89, 89),
      bk_mkpasswd3 = \<lambda>s. s,
      bk_format_quota = \<lambda>s. s,
      bk_pw_strength_error = [],
      DIR_BIN = ''/v/bin'', DIR_ETC = ''/v/etc'', DIR_LIB = ''/v/lib'', DIR_INCLUDE = ''/v/include'',
      DIR_DOMAINS = ''/v''\<rparr>"

definition demo_session :: "string \<Rightarrow> nat \<Rightarrow> nat \<Rightarrow> string \<Rightarrow> char list \<Rightarrow> unit session" where
  "demo_session u gid level r input =
     \<lparr>world = (), stdin = input, s_rest = r, WriteBuf = [], s_out = [], output_type = 0,
      rf_tmpbuf = [], ll_tmpbuf = [],
      auth = \<lparr>AuthVpw = (demo_pw u)\<lparr>pw_gid := gid\<rparr>, TheUser = u, TheDomain = ''a.org'',
        TheDomainDir = ''/v/a.org'', TheUserDir = ''/v/a.org/'' @ u, TheVpopmailDomains = ''/v'',
        logged_in = level\<rparr>,
      effects = []\<rparr>"

text \<open>
  C6. When somebody who is not a system administrator changes a user, the entry stored is that of the
  user that the line names, in the domain of the session and, for a mailbox user, the user of the session,
  with its name and directory. The flags of a system administrator and of an expert and the permission to
  override limits are the ones the entry had, or all three are gone (\<open>clear_all_flags\<close>): only a system
  administrator gives them. A domain administrator without that permission changes no flags but
  \<open>domain_admin_privileges\<close>, which it may give to any user of its domain, \<open>user_flag_2\<close>, \<open>user_flag_3\<close>,
  \<open>no_spamassassin\<close>, \<open>delete_spam\<close> and \<open>no_maildrop\<close>, and a mailbox user only the last five; neither changes
  the quota.
\<close>

theorem mod_user_no_escalation:
  assumes "mod_user B st = Ret x st'" "effects st' = effects st @ es" "SetPw pw1 d1 \<in> set es"
    "\<not> is_sa (auth st)"
  shows "\<exists>email r u d pw. strtok TOKENS (s_rest st) = Some (email, r)
    \<and> parse_email (bk_env B) email AUTH_SIZE = Some (Some (u, d))
    \<and> d = TheDomain (auth st) \<and> (no_admin (auth st) \<longrightarrow> u = TheUser (auth st))
    \<and> bk_getpw B (world st) u d = Some (pw, d1) \<and> pw_name pw1 = pw_name pw \<and> pw_dir pw1 = pw_dir pw
    \<and> gid_word pw1 AND (SA_ADMIN OR SA_EXPERT OR V_OVERRIDE)
        \<in> {gid_word pw AND (SA_ADMIN OR SA_EXPERT OR V_OVERRIDE), 0}
    \<and> (\<not> can_override (auth st) \<longrightarrow>
         gid_word pw1 AND NOT admin_mask = gid_word pw AND NOT admin_mask \<and> pw_shell pw1 = pw_shell pw)
    \<and> (no_admin (auth st) \<longrightarrow>
         gid_word pw1 AND NOT user_mask = gid_word pw AND NOT user_mask \<and> pw_shell pw1 = pw_shell pw)"
proof -
  obtain email r u d pw s where l: "strtok TOKENS (s_rest st) = Some (email, r)"
      "parse_email (bk_env B) email AUTH_SIZE = Some (Some (u, d))"
      "d = TheDomain (auth st)" "no_admin (auth st) \<longrightarrow> u = TheUser (auth st)"
    and g: "bk_getpw B (world st) u d = Some (pw, d1)"
    and m: "mod_lines B d1 pw (say RET_OK st) = (pw1, s)"
  proof -
    have "es = [] \<or> (\<exists>email r u d pw d' p s. strtok TOKENS (s_rest st) = Some (email, r)
        \<and> parse_email (bk_env B) email AUTH_SIZE = Some (Some (u, d))
        \<and> d = TheDomain (auth st) \<and> (no_admin (auth st) \<longrightarrow> u = TheUser (auth st))
        \<and> bk_getpw B (world st) u d = Some (pw, d')
        \<and> mod_lines B d' pw (say RET_OK st) = (p, s) \<and> effects s @ [SetPw p d'] = effects st @ es)"
      using assms(1,2,4) unfolding mod_user_def
      by (auto simp: fail_with_def reply_def show_error_def no_admin_def other_domain_def
          split: option.splits prod.splits if_splits dest!: arg_cong [of "perform _ _ _" _ "\<lambda>p. effects (snd p)"])
    then obtain email r u d pw d' p s where h: "strtok TOKENS (s_rest st) = Some (email, r)"
      "parse_email (bk_env B) email AUTH_SIZE = Some (Some (u, d))"
      "d = TheDomain (auth st)" "no_admin (auth st) \<longrightarrow> u = TheUser (auth st)"
      "bk_getpw B (world st) u d = Some (pw, d')"
      "mod_lines B d' pw (say RET_OK st) = (p, s)" "effects s @ [SetPw p d'] = effects st @ es"
      using assms(3) by auto
    obtain fs where fs: "effects s = effects st @ fs" "\<forall>e \<in> set fs. \<not> is_setpw e"
      using mod_lines_no_setpw [of B d' pw "say RET_OK st"] h(6) by auto
    with h(7) assms(2,3) have "SetPw pw1 d1 \<in> set (fs @ [SetPw p d'])" by simp
    with fs(2) have "p = pw1" "d' = d1" by auto
    with h show thesis by (intro that) auto
  qed
  have p: "pw1 = fst (mod_lines B d1 pw (say RET_OK st))" using m by simp
  then have "pw_name pw1 = pw_name pw" "pw_dir pw1 = pw_dir pw" by simp_all
  then show ?thesis
    using l g assms(4) mod_lines_system [of "say RET_OK st" B d1 pw] mod_lines_user [of "say RET_OK st" B d1 pw]
      mod_lines_admin [of "say RET_OK st" B d1 pw]
    unfolding p [symmetric] system_mask_def by auto
qed

lemma demo_mod_user:
  "(case mod_user demo_backend
           (demo_session ''joe'' 0 1 ''joe@a.org'' (''user_flag_2 1'' @ [LF] @ ''no_pop 1'' @ [LF] @ ''.'' @ [LF])) of
      Ret x s \<Rightarrow> (x, effects s)
    | _ \<Rightarrow> (1, [])) = (0, [SetPw ((demo_pw ''joe'')\<lparr>pw_gid := 512\<rparr>) ''a.org''])"
  by code_simp

theorem mod_user_no_escalation_witness:
  "\<exists>pw. bk_getpw demo_backend () ''joe'' ''a.org'' = Some (pw, ''a.org'')
    \<and> gid_word ((demo_pw ''joe'')\<lparr>pw_gid := 512\<rparr>) AND NOT user_mask = gid_word pw AND NOT user_mask"
proof -
  let ?st = "demo_session ''joe'' 0 1 ''joe@a.org'' (''user_flag_2 1'' @ [LF] @ ''no_pop 1'' @ [LF] @ ''.'' @ [LF])"
  obtain x s where m: "mod_user demo_backend ?st = Ret x s"
    and e: "effects s = [SetPw ((demo_pw ''joe'')\<lparr>pw_gid := 512\<rparr>) ''a.org'']"
    using demo_mod_user by (auto split: hres.splits)
  have f: "world ?st = ()" "effects ?st = []" "\<not> is_sa (auth ?st)" "no_admin (auth ?st)"
    "TheDomain (auth ?st) = ''a.org''" "TheUser (auth ?st) = ''joe''"
    by (simp_all add: demo_session_def no_admin_def is_qa_def is_sa_def has_flag_def gid_word_def)
  from mod_user_no_escalation [OF m _ _ f(3), of "[SetPw ((demo_pw ''joe'')\<lparr>pw_gid := 512\<rparr>) ''a.org'']"
      "(demo_pw ''joe'')\<lparr>pw_gid := 512\<rparr>" "''a.org''"] e f
  obtain pw where "bk_getpw demo_backend () ''joe'' ''a.org'' = Some (pw, ''a.org'')"
    "gid_word ((demo_pw ''joe'')\<lparr>pw_gid := 512\<rparr>) AND NOT user_mask = gid_word pw AND NOT user_mask"
    by auto
  then show ?thesis by blast
qed

end
