(* ===== verification/Vdadmin.thy ===== *)
theory Vdadmin
  imports Vduser
begin

text \<open>
  The commands of the administration daemon about domains, aliases, the IP map, limits, files and mailing
  lists (\<^verbatim>\<open>vpopmaild.c\<close>).
\<close>

section \<open>Domains\<close>

definition add_domain :: "'w backend \<Rightarrow> 'w session \<Rightarrow> 'w hres" where
  "add_domain B st =
     (if bk_uidgid B = None then fail_with ERR_UNKNOWN_UIDGID 2000 st
      else if \<not> is_sa (auth st) then fail_with ERR_NOT_AUTHORIZED 801 st
      else case strtok TOKENS (s_rest st) of
        None \<Rightarrow> fail_with ERR_DOMAIN_REQD 802 st
      | Some (d, r) \<Rightarrow>
      (case strtok PASS_TOKENS r of
        None \<Rightarrow> fail_with ERR_PASSWORD_REQD 803 st
      | Some (password, _) \<Rightarrow>
      (case perform B (AddDomain d) st of
        (ret, s) \<Rightarrow>
      if ret \<noteq> VA_SUCCESS then reply (- 1) (err_text ''0.804'' (verror B ret)) s
      else
      (case perform B (AddUser ''postmaster'' (lowerit d) password ''postmaster'') s of
        (ret', s') \<Rightarrow>
          if ret' < 0
          then Ret (- 1) (snd (perform B (DelDomain (lowerit d))
                 (set_write (err_text ''0.805'' (verror B ret')) s')))
          else reply 0 RET_OK s'))))"

definition add_alias_domain :: "'w backend \<Rightarrow> 'w session \<Rightarrow> 'w hres" where
  "add_alias_domain B st =
     (if \<not> is_sa (auth st) then fail_with ERR_NOT_AUTHORIZED 1201 st
      else case strtok TOKENS (s_rest st) of
        None \<Rightarrow> fail_with ERR_DOMAIN_REQD 1202 st
      | Some (d, r) \<Rightarrow>
      (case strtok TOKENS r of
        None \<Rightarrow> fail_with ERR_ALIAS_REQD 1203 st
      | Some (alias, _) \<Rightarrow>
      (case perform B (AddAliasDomain alias d) st of
        (ret, s) \<Rightarrow>
          if ret \<noteq> VA_SUCCESS then reply (- 1) (err_text ''0.1204'' (verror B ret)) s
          else reply 0 RET_OK s)))"

definition del_domain :: "'w backend \<Rightarrow> 'w session \<Rightarrow> 'w hres" where
  "del_domain B st =
     (if \<not> is_sa (auth st) then fail_with ERR_NOT_AUTHORIZED 1301 st
      else case strtok TOKENS (s_rest st) of
        None \<Rightarrow> fail_with ERR_DOMAIN_REQD 1302 st
      | Some (d, _) \<Rightarrow>
      (case perform B (DelDomain d) st of
        (ret, s) \<Rightarrow>
          if ret \<noteq> VA_SUCCESS then reply (- 1) (err_text ''0.1303'' (verror B ret)) s
          else reply 0 RET_OK s))"

text \<open>The lines of \<open>dom_info\<close>: first those of the real domain, then its aliases.\<close>

definition entry_lines :: "domain_entry \<Rightarrow> string list" where
  "entry_lines e =
     [line ''domain'' (e_domain e), line ''path'' (e_path e), line ''uid'' (show_int (e_uid e)),
      line ''gid'' (show_int (e_gid e))]"

definition dom_info :: "'w backend \<Rightarrow> 'w session \<Rightarrow> 'w hres" where
  "dom_info B st =
     (if \<not> is_sa (auth st) then fail_with ERR_NOT_AUTHORIZED 1401 st
      else case strtok TOKENS (s_rest st) of
        None \<Rightarrow> fail_with ERR_DOMAIN_REQD 1402 st
      | Some (d, _) \<Rightarrow>
      (case bk_entries B (world st) d of
        None \<Rightarrow> reply 0 (err_text ''0.1403'' (verror B VA_CANNOT_READ_ASSIGN)) st
      | Some [] \<Rightarrow> reply 0 (err_text ''0.1404'' (verror B VA_DOMAIN_DOES_NOT_EXIST)) st
      | Some (e # es) \<Rightarrow>
          let xs = e # es; aliases = filter (\<lambda>e. e_domain e \<noteq> e_realdomain e) xs;
              reals = filter (\<lambda>e. e_domain e = e_realdomain e) xs
          in reply 0 final_dot
               (fold say (map (\<lambda>e. line ''alias'' (e_domain e)) aliases)
                 (fold say (concat (map entry_lines reals))
                   (disclose (ShowDomain d) (say RET_OK_MORE st))))))"

fun domains_loop :: "int \<Rightarrow> int \<Rightarrow> int \<Rightarrow> domain_entry list \<Rightarrow> 'w session \<Rightarrow> 'w session" where
  "domains_loop start stop count [] st = st"
| "domains_loop start stop count (e # es) st =
     (if stop > 0 \<and> \<not> (count \<ge> start \<and> count < stop) \<and> count \<ge> stop then st
      else domains_loop start stop (count + 1) es
             (if stop > 0 \<and> \<not> (count \<ge> start \<and> count < stop) then st
              else say (line (e_realdomain e) (e_domain e)) st))"

definition list_domains :: "'w backend \<Rightarrow> 'w session \<Rightarrow> 'w hres" where
  "list_domains B st =
     (if \<not> is_sa (auth st) then fail_with ERR_NOT_AUTHORIZED 2301 st
      else case page_window (s_rest st) of
        (start, stop) \<Rightarrow>
      (case bk_entries B (world st) [] of
        Some (e # es) \<Rightarrow>
          reply 0 final_dot
            (domains_loop start stop 0 (e # es) (disclose ShowDomains (say RET_OK_MORE st)))
      | _ \<Rightarrow> fail_with ERR_NO_OPEN_ASSIGN 2302 st))"

text \<open>How many entries come before that of the domain; \<open>None\<close> when it has none.\<close>

fun entry_index :: "string \<Rightarrow> domain_entry list \<Rightarrow> nat option" where
  "entry_index d [] = None"
| "entry_index d (e # es) = (if d = e_domain e then Some 0 else map_option Suc (entry_index d es))"

definition find_domain :: "'w backend \<Rightarrow> 'w session \<Rightarrow> 'w hres" where
  "find_domain B st =
     (if \<not> is_sa (auth st) then fail_with ERR_NOT_AUTHORIZED 2401 st
      else case strtok TOKENS (s_rest st) of
        None \<Rightarrow> fail_with ERR_DOMAIN_REQD 2402 st
      | Some (d, r) \<Rightarrow>
          let per_page = (case strtok TOKENS r of None \<Rightarrow> 0 | Some (t, _) \<Rightarrow> atoi t) in
      (case bk_entries B (world st) [] of
        Some (e # es) \<Rightarrow>
          let s = disclose ShowDomains (say RET_OK_MORE st) in
          (case entry_index d (e # es) of
             None \<Rightarrow> reply 0 final_dot s
           | Some count \<Rightarrow>
               let page = (if per_page > 0 then int count div per_page + 1 else int count + 1)
               in reply 0 final_dot (say (line ''page'' (show_int page)) s))
      | _ \<Rightarrow> fail_with ERR_NO_OPEN_ASSIGN 2403 st))"

definition domain_count :: "'w backend \<Rightarrow> 'w session \<Rightarrow> 'w hres" where
  "domain_count B st =
     (if \<not> is_sa (auth st) then fail_with ERR_NOT_AUTHORIZED 2501 st
      else case bk_entries B (world st) [] of
        Some (e # es) \<Rightarrow>
          reply 0 final_dot
            (say (line ''count'' (show_nat (length (e # es)))) (disclose ShowDomains (say RET_OK_MORE st)))
      | _ \<Rightarrow> fail_with ERR_NO_OPEN_ASSIGN 2502 st)"

section \<open>Aliases\<close>

text \<open>The second authorisation check of the alias commands: whose domain, and the number of the error.\<close>

definition add_alias :: "'w backend \<Rightarrow> 'w session \<Rightarrow> 'w hres" where
  "add_alias B st =
     (if no_admin (auth st) then fail_with ERR_NOT_AUTHORIZED 901 st
      else case strtok TOKENS (s_rest st) of
        None \<Rightarrow> fail_with ERR_ALIAS_REQD 902 st
      | Some (alias, r) \<Rightarrow>
      (case parse_email (bk_env B) alias 256 of
        None \<Rightarrow> Fault
      | Some None \<Rightarrow> fail_with ERR_INVALID_ALIAS 903 st
      | Some (Some (email, d)) \<Rightarrow>
      if other_domain (auth st) d then fail_with ERR_NOT_AUTH_DOMAIN 904 st
      else if no_admin (auth st) then fail_with ERR_NOT_AUTHORIZED 905 st
      else case strtok TOKENS r of
        None \<Rightarrow> fail_with ERR_ALIAS_LINE_REQD 906 st
      | Some (alias_line, _) \<Rightarrow>
      (case perform B (AliasInsert email d alias_line) st of
        (ret, s) \<Rightarrow> if ret \<noteq> 0 then fail_with ERR_ALIAS_INSERT_FAIL 907 s else reply 0 RET_OK s)))"

definition remove_alias :: "'w backend \<Rightarrow> 'w session \<Rightarrow> 'w hres" where
  "remove_alias B st =
     (if no_admin (auth st) then fail_with ERR_NOT_AUTHORIZED 1001 st
      else case strtok TOKENS (s_rest st) of
        None \<Rightarrow> fail_with ERR_ALIAS_REQD 1002 st
      | Some (alias, r) \<Rightarrow>
      (case parse_email (bk_env B) alias 256 of
        None \<Rightarrow> Fault
      | Some None \<Rightarrow> fail_with ERR_INVALID_ALIAS 1003 st
      | Some (Some (email, d)) \<Rightarrow>
      if other_domain (auth st) d then fail_with ERR_NOT_AUTH_DOMAIN 1004 st
      else if no_admin (auth st) then fail_with ERR_NOT_AUTHORIZED 1005 st
      else case strtok TOKENS r of
        None \<Rightarrow> fail_with ERR_ALIAS_LINE_REQD 1006 st
      | Some (alias_line, _) \<Rightarrow>
      (case perform B (AliasRemove email d alias_line) st of
        (ret, s) \<Rightarrow> if ret \<noteq> 0 then fail_with ERR_ALIAS_REMOVE_FAIL 1007 s else reply 0 RET_OK s)))"

definition delete_alias :: "'w backend \<Rightarrow> 'w session \<Rightarrow> 'w hres" where
  "delete_alias B st =
     (if no_admin (auth st) then fail_with ERR_NOT_AUTHORIZED 1101 st
      else case strtok TOKENS (s_rest st) of
        None \<Rightarrow> fail_with ERR_ALIAS_REQD 1102 st
      | Some (alias, r) \<Rightarrow>
      (case parse_email (bk_env B) alias 256 of
        None \<Rightarrow> Fault
      | Some None \<Rightarrow> fail_with ERR_INVALID_ALIAS 1103 st
      | Some (Some (email, d)) \<Rightarrow>
      if other_domain (auth st) d then fail_with ERR_NOT_AUTH_DOMAIN 1104 st
      else if no_admin (auth st) then fail_with ERR_NOT_AUTHORIZED 1105 st
      else
      (case perform B (AliasDelete email d) st of
        (ret, s) \<Rightarrow> if ret \<noteq> 0 then fail_with ERR_ALIAS_DELETE_FAIL 1106 s else reply 0 RET_OK s)))"

text \<open>
  \<open>list_alias\<close>: the argument is compared as it is with the domain; it is split only to decide between all
  aliases of a domain and those of one address. For one address without aliases \<open>RET_OK\<close> is overwritten
  by the final dot before it is sent.
\<close>

definition list_alias :: "'w backend \<Rightarrow> 'w session \<Rightarrow> 'w hres" where
  "list_alias B st =
     (if no_admin (auth st) then fail_with ERR_NOT_AUTHORIZED 2801 st
      else case strtok TOKENS (s_rest st) of
        None \<Rightarrow> fail_with ERR_DOMAIN_REQD 2802 st
      | Some (d, _) \<Rightarrow>
          let email = snprintf_str 256 d in
      (case parse_email (bk_env B) email 256 of
        None \<Rightarrow> Fault
      | Some None \<Rightarrow> fail_with ERR_INVALID_EMAIL 2803 st
      | Some (Some (alias, ad)) \<Rightarrow>
      if other_domain (auth st) d then fail_with ERR_NOT_AUTH_DOMAIN 2804 st
      else if no_admin (auth st) then fail_with ERR_NOT_AUTHORIZED 2805 st
      else
      let e = lowerit email in
      if \<not> contains ''@'' e
      then reply 0 final_dot
             (fold say (map (\<lambda>(a, l). a @ ''@'' @ e @ '' '' @ l @ RET_CRLF) (bk_valias_all B (world st) e))
               (disclose (ShowAliases e) (say RET_OK_MORE st)))
      else (case bk_valias B (world st) alias ad of
              [] \<Rightarrow> reply 0 final_dot (set_write RET_OK st)
            | l # ls \<Rightarrow>
                reply 0 final_dot
                  (fold say (map (\<lambda>l. alias @ ''@'' @ ad @ '' '' @ l @ RET_CRLF) (l # ls))
                    (disclose (ShowAlias alias ad) (say RET_OK_MORE st))))))"


section \<open>The IP map\<close>

definition get_ip_map :: "'w backend \<Rightarrow> 'w session \<Rightarrow> 'w hres" where
  "get_ip_map B st =
     (if \<not> is_sa (auth st) then fail_with ERR_NOT_AUTHORIZED 3001 st
      else case strtok TOKENS (s_rest st) of
        None \<Rightarrow> fail_with ERR_IP_REQUIRED 3002 st
      | Some (ip, _) \<Rightarrow>
          if bk_feature B ''IP_ALIAS_DOMAINS''
          then (case bk_ip_map B (world st) ip of
                  None \<Rightarrow> reply (- 1) (err_text ''0.3003'' ''error'') st
                | Some d \<Rightarrow>
                    reply 0 final_dot
                      (say (line ip (snprintf_str 256 d)) (disclose ShowIpMap (say RET_OK_MORE st))))
          else (case show_error ERR_NOT_AVAIL 3004 st of None \<Rightarrow> Fault | Some s \<Rightarrow> Ret 0 s))"

definition add_ip_map :: "'w backend \<Rightarrow> 'w session \<Rightarrow> 'w hres" where
  "add_ip_map B st =
     (if \<not> is_sa (auth st) then fail_with ERR_NOT_AUTHORIZED 3101 st
      else case strtok TOKENS (s_rest st) of
        None \<Rightarrow> fail_with ERR_IP_REQD 3102 st
      | Some (ip, r) \<Rightarrow>
      (case strtok TOKENS r of
        None \<Rightarrow> fail_with ERR_DOMAIN_REQD 3103 st
      | Some (d, _) \<Rightarrow>
          if bk_feature B ''IP_ALIAS_DOMAINS''
          then (case bk_assign B (world st) d of
                  None \<Rightarrow> fail_with ERR_INVALID_DOMAIN 3104 st
                | Some (d', _) \<Rightarrow>
                (case perform B (AddIpMap ip (snprintf_str (MAX_PW_DOMAIN + 1) d')) st of
                  (ret, s) \<Rightarrow>
                    if ret < 0 then reply (- 1) (err_text ''0.3105'' ''error'') s else reply 0 RET_OK s))
          else (case show_error ERR_NOT_AVAIL 3106 st of None \<Rightarrow> Fault | Some s \<Rightarrow> Ret 0 s)))"

definition del_ip_map :: "'w backend \<Rightarrow> 'w session \<Rightarrow> 'w hres" where
  "del_ip_map B st =
     (if \<not> is_sa (auth st) then fail_with ERR_NOT_AUTHORIZED 3201 st
      else case strtok TOKENS (s_rest st) of
        None \<Rightarrow> fail_with ERR_IP_REQUIRED 3202 st
      | Some (ip, r) \<Rightarrow>
      (case strtok TOKENS r of
        None \<Rightarrow> fail_with ERR_DOMAIN_REQD 3203 st
      | Some (d, _) \<Rightarrow>
          if bk_feature B ''IP_ALIAS_DOMAINS''
          then (case perform B (DelIpMap ip d) st of
                  (ret, s) \<Rightarrow>
                    if ret < 0 then reply (- 1) (err_text ''0.3204'' ''error'') s else reply 0 RET_OK s)
          else (case show_error ERR_NOT_AVAIL 3205 st of None \<Rightarrow> Fault | Some s \<Rightarrow> Ret 0 s)))"

definition show_ip_map :: "'w backend \<Rightarrow> 'w session \<Rightarrow> 'w hres" where
  "show_ip_map B st =
     (if \<not> is_sa (auth st) then fail_with ERR_NOT_AUTHORIZED 3301 st
      else if bk_feature B ''IP_ALIAS_DOMAINS''
      then reply 0 final_dot
             (fold say (map (\<lambda>(ip, d). line ip d) (bk_ip_list B (world st)))
               (disclose ShowIpMap (say RET_OK_MORE st)))
      else (case show_error ERR_NOT_AVAIL 3302 st of None \<Rightarrow> Fault | Some s \<Rightarrow> Ret 0 s))"

section \<open>Limits\<close>

definition flag01 :: "string \<Rightarrow> int \<Rightarrow> string" where
  "flag01 name i = name @ (if i \<noteq> 0 then '' 1'' else '' 0'') @ RET_CRLF"

definition limits_lines :: "vlimits \<Rightarrow> string list" where
  "limits_lines l =
     [line ''max_popaccounts'' (show_int (maxpopaccounts l)),
      line ''max_aliases'' (show_int (maxaliases l)),
      line ''max_forwards'' (show_int (maxforwards l)),
      line ''max_autoresponders'' (show_int (maxautoresponders l)),
      line ''max_mailinglists'' (show_int (maxmailinglists l)),
      line ''disk_quota'' (show_int (diskquota l)),
      line ''max_msgcount'' (show_int (maxmsgcount l)),
      line ''default_quota'' (show_int (defaultquota l)),
      line ''default_maxmsgcount'' (show_int (defaultmaxmsgcount l)),
      flag01 ''disable_pop'' (disable_pop l),
      flag01 ''disable_imap'' (disable_imap l),
      flag01 ''disable_dialup'' (disable_dialup l),
      flag01 ''disable_password_changing'' (disable_passwordchanging l),
      flag01 ''disable_webmail'' (disable_webmail l),
      flag01 ''disable_external_relay'' (disable_relay l),
      flag01 ''disable_smtp'' (disable_smtp l),
      flag01 ''disable_spamassassin'' (disable_spamassassin l),
      flag01 ''delete_spam'' (delete_spam l),
      flag01 ''disable_maildrop'' (disable_maildrop l),
      line ''perm_account'' (show_int (perm_account l)),
      line ''perm_alias'' (show_int (perm_alias l)),
      line ''perm_forward'' (show_int (perm_forward l)),
      line ''perm_autoresponder'' (show_int (perm_autoresponder l)),
      line ''perm_maillist'' (show_int (perm_maillist l)),
      line ''perm_quota''
        (show_int (perm_quota l OR push_bit 3 (perm_maillist_users l) OR push_bit 6 (perm_maillist_moderators l))),
      line ''perm_defaultquota'' (show_int (perm_defaultquota l))]"

text \<open>The last line is sent twice, by a second \<open>wait_write\<close>.\<close>

definition get_limits :: "'w backend \<Rightarrow> 'w session \<Rightarrow> 'w hres" where
  "get_limits B st =
     (if \<not> is_sa (auth st) then fail_with ERR_NOT_AUTHORIZED 3401 st
      else case strtok TOKENS (s_rest st) of
        None \<Rightarrow> fail_with ERR_DOMAIN_REQD 3402 st
      | Some (d, _) \<Rightarrow>
      (case bk_limits B (world st) d of
        None \<Rightarrow> fail_with ERR_NO_GET_LIMITS 3403 st
      | Some l \<Rightarrow>
          reply 0 final_dot
            (wait_write (fold say (limits_lines l) (disclose (ShowLimits d) (say RET_OK_MORE st))))))"

text \<open>One parameter; \<open>None\<close> is an invalid option.\<close>

definition limit_param :: "string \<Rightarrow> int \<Rightarrow> vlimits \<Rightarrow> vlimits option" where
  "limit_param param v l =
     (if param = ''max_popaccounts'' then Some (l\<lparr>maxpopaccounts := v\<rparr>)
      else if param = ''max_aliases'' then Some (l\<lparr>maxaliases := v\<rparr>)
      else if param = ''max_forwards'' then Some (l\<lparr>maxforwards := v\<rparr>)
      else if param = ''max_autoresponders'' then Some (l\<lparr>maxautoresponders := v\<rparr>)
      else if param = ''max_mailinglists'' then Some (l\<lparr>maxmailinglists := v\<rparr>)
      else if param = ''disk_quota'' then Some (l\<lparr>diskquota := v\<rparr>)
      else if param = ''max_msgcount'' then Some (l\<lparr>maxmsgcount := v\<rparr>)
      else if param = ''default_quota'' then Some (l\<lparr>defaultquota := v\<rparr>)
      else if param = ''default_maxmsgcount'' then Some (l\<lparr>defaultmaxmsgcount := v\<rparr>)
      else if param = ''disable_pop'' then Some (l\<lparr>disable_pop := v\<rparr>)
      else if param = ''disable_imap'' then Some (l\<lparr>disable_imap := v\<rparr>)
      else if param = ''disable_dialup'' then Some (l\<lparr>disable_dialup := v\<rparr>)
      else if param = ''disable_password_changing'' then Some (l\<lparr>disable_passwordchanging := v\<rparr>)
      else if param = ''disable_webmail'' then Some (l\<lparr>disable_webmail := v\<rparr>)
      else if param = ''disable_external_relay'' then Some (l\<lparr>disable_relay := v\<rparr>)
      else if param = ''disable_smtp'' then Some (l\<lparr>disable_smtp := v\<rparr>)
      else if param = ''disable_spamassassin'' then Some (l\<lparr>disable_spamassassin := v\<rparr>)
      else if param = ''delete_spam'' then Some (l\<lparr>delete_spam := v\<rparr>)
      else if param = ''disable_maildrop'' then Some (l\<lparr>disable_maildrop := v\<rparr>)
      else if param = ''perm_account'' then Some (l\<lparr>perm_account := v\<rparr>)
      else if param = ''perm_alias'' then Some (l\<lparr>perm_alias := v\<rparr>)
      else if param = ''perm_forward'' then Some (l\<lparr>perm_forward := v\<rparr>)
      else if param = ''perm_autoresponder'' then Some (l\<lparr>perm_autoresponder := v\<rparr>)
      else if param = ''perm_maillist'' then Some (l\<lparr>perm_maillist := v\<rparr>)
      else if param = ''perm_maillist_users'' then Some (l\<lparr>perm_maillist_users := v\<rparr>)
      else if param = ''perm_maillist_moderators'' then Some (l\<lparr>perm_maillist_moderators := v\<rparr>)
      else if param = ''perm_quota'' then Some (l\<lparr>perm_quota := v\<rparr>)
      else if param = ''perm_defaultquota'' then Some (l\<lparr>perm_defaultquota := v\<rparr>)
      else None)"

definition limit_line :: "string \<Rightarrow> vlimits \<Rightarrow> 'w session \<Rightarrow> vlimits \<times> 'w session" where
  "limit_line b l st =
     (case strtok PARAM_TOKENS b of
        None \<Rightarrow> (l, st)
      | Some (param, t) \<Rightarrow>
      (case strtok PARAM_TOKENS t of
        None \<Rightarrow> (l, say (''  Warning: missing value'' @ RET_CRLF) st)
      | Some (v, _) \<Rightarrow>
      (case limit_param param (atoi v) l of
        None \<Rightarrow> (l, say (''  Warning: invalid option'' @ RET_CRLF) st)
      | Some l' \<Rightarrow> (l', st))))"

lemma stdin_limit_line [simp]: "stdin (snd (limit_line b l st)) = stdin st"
  by (auto simp: limit_line_def split: option.splits)

function limits_input :: "vlimits \<Rightarrow> 'w session \<Rightarrow> vlimits \<times> 'w session" where
  "limits_input l st =
     (case fgets_buf MAX_TMP_BUFF (stdin st) of
        None \<Rightarrow> (l, st)
      | Some (x, r) \<Rightarrow>
          let s = st\<lparr>stdin := r\<rparr>; b = c_str x; y = limit_line b l s
          in if b \<noteq> [] \<and> hd b = CHR ''.'' then (l, s) else limits_input (fst y) (snd y))"
  by pat_completeness auto

termination
  by (relation "measure (\<lambda>(l, st). length (stdin st))")
    (auto dest: fgets_buf_shorter simp: MAX_TMP_BUFF_def case_prod_beta)

declare limits_input.simps [simp del]

definition set_limits :: "'w backend \<Rightarrow> 'w session \<Rightarrow> 'w hres" where
  "set_limits B st =
     (if \<not> is_sa (auth st) then fail_with ERR_NOT_AUTHORIZED 3501 st
      else case strtok TOKENS (s_rest st) of
        None \<Rightarrow> fail_with ERR_DOMAIN_REQD 3502 st
      | Some (param, _) \<Rightarrow>
          let d = snprintf_str 156 param in
      (case bk_limits B (world st) d of
        None \<Rightarrow> fail_with ERR_NO_GET_LIMITS 3505 st
      | Some l \<Rightarrow>
      (case limits_input l (say RET_OK st) of
        (l', s) \<Rightarrow>
      (case perform B (SetLimits d l') s of
        (ret, s') \<Rightarrow>
          if ret < 0
          then (case show_error ERR_NO_SET_LIMITS 3504 s' of None \<Rightarrow> Fault | Some s \<Rightarrow> Ret 0 s)
          else reply 0 RET_OK s'))))"

definition del_limits :: "'w backend \<Rightarrow> 'w session \<Rightarrow> 'w hres" where
  "del_limits B st =
     (if \<not> is_sa (auth st) then fail_with ERR_NOT_AUTHORIZED 3601 st
      else case strtok TOKENS (s_rest st) of
        None \<Rightarrow> fail_with ERR_DOMAIN_REQD 3602 st
      | Some (d, _) \<Rightarrow>
      (case perform B (DelLimits d) st of
        (ret, s) \<Rightarrow>
          if ret \<noteq> 0 then reply (- 1) (err_text ''0.3603'' (bk_strerror B (world s) @ ''.'')) s
          else reply 0 RET_OK s))"

section \<open>Files\<close>

text \<open>What every file command does with its path: \<open>if (validate_path(..)) return(-1);\<close>.\<close>

definition with_path :: "'w backend \<Rightarrow> 'w session \<Rightarrow> string \<Rightarrow> (string \<Rightarrow> 'w hres) \<Rightarrow> 'w hres" where
  "with_path B st path k =
     (case validate_path B st path of
        VFault \<Rightarrow> Fault
      | VErr r major minor \<Rightarrow> fail_with major minor st
      | VPath p \<Rightarrow> k p)"

definition os_error :: "'w backend \<Rightarrow> string \<Rightarrow> 'w session \<Rightarrow> 'w hres" where
  "os_error B num st = reply (- 1) (err_text num (bk_strerror B (world st))) st"

definition mk_dir :: "'w backend \<Rightarrow> 'w session \<Rightarrow> 'w hres" where
  "mk_dir B st =
     (case bk_uidgid B of
        None \<Rightarrow> fail_with ERR_UNKNOWN_UIDGID 2002 st
      | Some (uid, gid) \<Rightarrow>
      (case strtok TOKENS (s_rest st) of
        None \<Rightarrow> fail_with ERR_DIR_REQD 1601 st
      | Some (olddir, _) \<Rightarrow>
          with_path B st olddir (\<lambda>dir.
            case perform B (Mkdir dir) st of
              (ret, s) \<Rightarrow>
                if ret < 0 then os_error B ''0.1602'' s
                else case perform B (Chown dir uid gid) s of
                  (ret', s') \<Rightarrow>
                    if ret' = - 1 then os_error B ''0.1603'' s' else reply 0 RET_OK s')))"

definition rm_dir :: "'w backend \<Rightarrow> 'w session \<Rightarrow> 'w hres" where
  "rm_dir B st =
     (case strtok TOKENS (s_rest st) of
        None \<Rightarrow> fail_with ERR_DIR_REQD 1701 st
      | Some (olddir, _) \<Rightarrow>
          with_path B st olddir (\<lambda>dir.
            case perform B (DelFiles dir) st of
              (ret, s) \<Rightarrow> if ret < 0 then os_error B ''0.1702'' s else reply 0 RET_OK s))"

fun ftype_text :: "ftype \<Rightarrow> string" where
  "ftype_text RegFile = '' file''"
| "ftype_text Dir = '' dir''"
| "ftype_text CharDev = '' chardev''"
| "ftype_text BlkDev = '' blkdev''"
| "ftype_text Fifo = '' fifo''"
| "ftype_text Link = '' link''"
| "ftype_text Sock = '' sock''"
| "ftype_text OtherType = '' unknown''"

text \<open>The entries one by one; an \<open>lstat\<close> that fails ends the process.\<close>

fun dir_loop :: "(string \<times> ftype option) list \<Rightarrow> 'w session \<Rightarrow> 'w hres" where
  "dir_loop [] st = reply 0 final_dot st"
| "dir_loop ((name, t) # es) st =
     (if name = ''.'' \<or> name = ''..'' then dir_loop es st
      else case t of
        None \<Rightarrow> Exit (- 1) (st\<lparr>s_out := s_out st @ [''error on stat of '' @ name @ [LF]]\<rparr>)
      | Some ft \<Rightarrow> dir_loop es (say (name @ ftype_text ft @ RET_CRLF) st))"

definition list_dir :: "'w backend \<Rightarrow> 'w session \<Rightarrow> 'w hres" where
  "list_dir B st =
     (case strtok TOKENS (s_rest st) of
        None \<Rightarrow> fail_with ERR_DIR_REQD 1801 st
      | Some (olddir, _) \<Rightarrow>
          with_path B st olddir (\<lambda>dir.
            if \<not> bk_chdir B (world st) dir then os_error B ''0.1802'' st
            else case bk_dir B (world st) dir of
              None \<Rightarrow> os_error B ''0.1803'' st
            | Some es \<Rightarrow> dir_loop es (disclose (ShowDir dir) (say RET_OK_MORE st))))"

definition rename_file :: "'w backend \<Rightarrow> 'w session \<Rightarrow> 'w hres" where
  "rename_file B st =
     (case strtok TOKENS (s_rest st) of
        None \<Rightarrow> fail_with ERR_SOURCE_REQD 3801 st
      | Some (source, r) \<Rightarrow>
      (case strtok TOKENS r of
        None \<Rightarrow> fail_with ERR_DEST_REQD 3801 st
      | Some (dest, _) \<Rightarrow>
          with_path B st source (\<lambda>sourcename.
          with_path B st dest (\<lambda>destname.
            case perform B (RenameFile sourcename destname) st of
              (ret, s) \<Rightarrow> if ret < 0 then os_error B ''0.3803'' s else reply 0 RET_OK s))))"

definition rm_file :: "'w backend \<Rightarrow> 'w session \<Rightarrow> 'w hres" where
  "rm_file B st =
     (case strtok TOKENS (s_rest st) of
        None \<Rightarrow> fail_with ERR_FNAME_REQD 1901 st
      | Some (oldfilename, _) \<Rightarrow>
          with_path B st oldfilename (\<lambda>filename.
            case perform B (Unlink filename) st of
              (ret, s) \<Rightarrow> if ret < 0 then os_error B ''0.1902'' s else reply 0 RET_OK s))"

text \<open>The data lines of \<open>write_file\<close>: what is written, and the input after the line with the dot.\<close>

definition dot_line :: "string \<Rightarrow> bool" where
  "dot_line l \<longleftrightarrow> l = final_dot \<or> l = [CHR ''.'', LF]"

function data_lines :: "char list \<Rightarrow> char list \<times> char list" where
  "data_lines input =
     (case fgets_buf 1024 input of
        None \<Rightarrow> ([], input)
      | Some (l, r) \<Rightarrow>
          if dot_line (c_str l) then ([], r)
          else case data_lines r of (d, r') \<Rightarrow> (c_str l @ d, r'))"
  by pat_completeness auto

termination
  by (relation "measure length") (auto dest: fgets_buf_shorter)

declare data_lines.simps [simp del]

definition write_file :: "'w backend \<Rightarrow> 'w session \<Rightarrow> 'w hres" where
  "write_file B st =
     (case strtok TOKENS (s_rest st) of
        None \<Rightarrow> fail_with ERR_FNAME_REQD 2001 st
      | Some (oldfilename, _) \<Rightarrow>
          with_path B st oldfilename (\<lambda>filename.
            if \<not> bk_writable B (world st) filename then os_error B ''0.2002'' st
            else case data_lines (stdin st) of
              (d, r) \<Rightarrow> reply 0 RET_OK (snd (perform B (WriteFile filename d) (st\<lparr>stdin := r\<rparr>)))))"

text \<open>The lines of a file: what is sent, and the buffer at the end.\<close>

function file_lines :: "char list \<Rightarrow> char list \<Rightarrow> string list \<times> char list" where
  "file_lines input tmpbuf =
     (case fgets_buf 1024 input of
        None \<Rightarrow> ([], tmpbuf)
      | Some (l, r) \<Rightarrow>
          case file_lines r l of
            (ls, b) \<Rightarrow> ((if dot_line (c_str l) then ''.'' @ c_str l else c_str l) # ls, b))"
  by pat_completeness auto

termination
  by (relation "measure (\<lambda>(i, b). length i)") (auto dest: fgets_buf_shorter)

declare file_lines.simps [simp del]

definition read_file :: "'w backend \<Rightarrow> 'w session \<Rightarrow> 'w hres" where
  "read_file B st =
     (case strtok TOKENS (s_rest st) of
        None \<Rightarrow> fail_with ERR_FNAME_REQD 2101 st
      | Some (oldfilename, _) \<Rightarrow>
          with_path B st oldfilename (\<lambda>filename.
            case bk_file B (world st) filename of
              None \<Rightarrow> os_error B ''0.2102'' st
            | Some bytes \<Rightarrow>
                (case file_lines bytes (rf_tmpbuf st) of
                   (ls, b) \<Rightarrow>
                     let s = (fold say ls (disclose (ShowFile filename) (say RET_OK_MORE st)))\<lparr>rf_tmpbuf := b\<rparr>
                     in if c_str b \<noteq> [] \<and> last (c_str b) \<noteq> LF
                        then reply 0 (RET_CRLF @ final_dot) s else reply 0 final_dot s)))"

definition stat_file :: "'w backend \<Rightarrow> 'w session \<Rightarrow> 'w hres" where
  "stat_file B st =
     (case strtok TOKENS (s_rest st) of
        None \<Rightarrow> fail_with ERR_FNAME_REQD 2201 st
      | Some (oldfilename, _) \<Rightarrow>
          with_path B st oldfilename (\<lambda>filename.
            case bk_stat B (world st) filename of
              None \<Rightarrow> os_error B ''0.2202'' st
            | Some uid \<Rightarrow>
                reply 0 final_dot
                  (say (''uid: '' @ show_id uid @ [LF]) (disclose (ShowStat filename) (say RET_OK_MORE st)))))"

section \<open>Mailing lists\<close>

text \<open>\<open>qa_sort\<close>: the order of \<open>strcasecmp\<close>, and the sorted directory of \<open>bkscandir\<close>.\<close>

fun strcasecmp_le :: "string \<Rightarrow> string \<Rightarrow> bool" where
  "strcasecmp_le [] b = True"
| "strcasecmp_le (x # a) [] = False"
| "strcasecmp_le (x # a) (y # b) =
     (let m = (of_char (tolower_c x) :: nat); n = of_char (tolower_c y)
      in m < n \<or> (m = n \<and> strcasecmp_le a b))"

fun insert_name :: "string \<Rightarrow> string list \<Rightarrow> string list" where
  "insert_name x [] = [x]"
| "insert_name x (y # ys) = (if strcasecmp_le x y then x # y # ys else y # insert_name x ys)"

definition bkscandir :: "(string \<times> ftype option) list option \<Rightarrow> string list" where
  "bkscandir es = (case es of None \<Rightarrow> [] | Some xs \<Rightarrow> foldr insert_name (map fst xs) [])"

text \<open>
  One file: \<open>None\<close> when it is passed over, otherwise the first line in the buffer, which an empty file
  leaves as it was.
\<close>

definition list_probe :: "'w backend \<Rightarrow> 'w \<Rightarrow> string \<Rightarrow> string \<Rightarrow> char list \<Rightarrow> char list option" where
  "list_probe B w dir name buf =
     (if \<not> starts_with ''.qmail-'' name then None
      else case bk_file B w (dir @ ''/'' @ name) of
        None \<Rightarrow> None
      | Some bytes \<Rightarrow> (case fgets_buf 1024 bytes of None \<Rightarrow> Some buf | Some (l, _) \<Rightarrow> Some l))"

fun lists_loop ::
  "'w backend \<Rightarrow> string \<Rightarrow> int \<Rightarrow> int \<Rightarrow> int \<Rightarrow> string list \<Rightarrow> 'w session \<Rightarrow> 'w session" where
  "lists_loop B dir start stop count [] st = st"
| "lists_loop B dir start stop count (n # ns) st =
     (case list_probe B (world st) dir n (ll_tmpbuf st) of
        None \<Rightarrow> lists_loop B dir start stop count ns st
      | Some buf \<Rightarrow>
          let s = st\<lparr>ll_tmpbuf := buf\<rparr>
          in if \<not> contains ''ezmlm-reject'' (c_str buf) then lists_loop B dir start stop count ns s
             else if stop > 0 \<and> \<not> (count \<ge> start \<and> count < stop) \<and> count \<ge> stop then s
             else lists_loop B dir start stop (count + 1) ns
                    (if stop > 0 \<and> \<not> (count \<ge> start \<and> count < stop) then s else say (n @ RET_CRLF) s))"

text \<open>
  \<open>vget_assign\<close> writes the real domain over the token of the alias; when it is longer it runs into the
  arguments that follow, which \<open>strtok\<close> then reads.
\<close>

definition after_assign :: "string \<Rightarrow> string \<Rightarrow> string \<Rightarrow> string" where
  "after_assign token realdomain r =
     (let d = snprintf_str (MAX_PW_DOMAIN + 1) realdomain @ [NUL]; n = length token + 1
      in if length d \<le> n then r else c_str (drop n d @ drop (length d - n) r))"

definition list_lists :: "'w backend \<Rightarrow> 'w session \<Rightarrow> 'w hres" where
  "list_lists B st =
     (if no_admin (auth st) then fail_with ERR_NOT_AUTHORIZED 2901 st
      else case strtok TOKENS (s_rest st) of
        None \<Rightarrow> fail_with ERR_EMAIL_REQD 2902 st
      | Some (d, r) \<Rightarrow>
          if other_domain (auth st) d then fail_with ERR_NOT_AUTH_DOMAIN 2903 st
          else case bk_assign B (world st) d of
            None \<Rightarrow> fail_with ERR_NOT_AUTH_DOMAIN 2904 st
          | Some (d', dir, _) \<Rightarrow>
          (case page_window (after_assign d d' r) of
            (start, stop) \<Rightarrow>
              let thedir = snprintf_str 256 dir in
              if \<not> bk_chdir B (world st) thedir then os_error B ''0.2905'' st
              else reply 0 final_dot
                     (lists_loop B thedir start stop 0 (bkscandir (bk_dir B (world st) thedir))
                       (disclose (ShowLists d') (say RET_OK_MORE st)))))"

definition add_list :: "'w backend \<Rightarrow> 'w session \<Rightarrow> 'w hres" where
  "add_list B st = fail_with ERR_NOT_IMPLEMENT 4001 st"

definition del_list :: "'w backend \<Rightarrow> 'w session \<Rightarrow> 'w hres" where
  "del_list B st = fail_with ERR_NOT_IMPLEMENT 4101 st"

definition mod_list :: "'w backend \<Rightarrow> 'w session \<Rightarrow> 'w hres" where
  "mod_list B st = fail_with ERR_NOT_IMPLEMENT 4201 st"


section \<open>Confinement\<close>

text \<open>The directory that \<open>validate_path\<close> compares a path with.\<close>

lemma permitted_file:
  assumes "scope_of e = Files" "list_all (below_or_sibling (home_dir i)) (paths_of e)" "0 < logged_in i"
  shows "permitted i e"
  using assms by (auto simp: permitted_def home_dir_def split: if_splits)

lemma confined_with_path:
  assumes "\<And>p. below_or_sibling (home_dir (auth st)) p \<Longrightarrow> confined st (k p)"
    "dotless_dirs B" "dotless (home_dir (auth st))"
  shows "confined st (with_path B st path k)"
  using assms(1) validate_path_below [OF _ assms(2,3), of path] by (simp add: with_path_def split: vpath.splits)

text \<open>Whatever the directories are, the commands on files keep the identity.\<close>

definition keeps_auth :: "'w session \<Rightarrow> 'w hres \<Rightarrow> bool" where
  "keeps_auth st r \<longleftrightarrow> (case r of Ret x s \<Rightarrow> auth s = auth st | Exit x s \<Rightarrow> auth s = auth st | Fault \<Rightarrow> True)"

lemma keeps_auth_simps [simp]:
  "keeps_auth st (Ret x s) = (auth s = auth st)" "keeps_auth st (Exit x s) = (auth s = auth st)"
  "keeps_auth st Fault" "keeps_auth st (reply r m s) = (auth s = auth st)"
  "keeps_auth st (os_error B n s) = (auth s = auth st)"
  by (simp_all add: keeps_auth_def reply_def os_error_def)

lemma keeps_auth_fail [simp]: "auth s = auth st \<Longrightarrow> keeps_auth st (fail_with m n s)"
  by (simp add: fail_with_def show_error_def)

lemma confined_keeps_auth: "confined st r \<Longrightarrow> keeps_auth st r"
  by (simp add: confined_def keeps_auth_def grown_def split: hres.splits)

lemma keeps_auth_with_path: "(\<And>p. keeps_auth st (k p)) \<Longrightarrow> keeps_auth st (with_path B st path k)"
  by (simp add: with_path_def split: vpath.splits)

lemma keeps_auth_dir_loop: "auth s = auth st \<Longrightarrow> keeps_auth st (dir_loop es s)"
  by (induction es s rule: dir_loop.induct) (auto split: option.splits)

lemma fold_say_auth [simp]: "auth (fold say ms st) = auth st"
  by (induction ms arbitrary: st) simp_all

lemma perform_auth: "perform B e s = (r, s') \<Longrightarrow> auth s' = auth s"
  by (metis perform_fields(1) snd_conv)

lemma keeps_auth_files:
  "keeps_auth st (mk_dir B st)" "keeps_auth st (rm_dir B st)" "keeps_auth st (list_dir B st)"
  "keeps_auth st (rename_file B st)" "keeps_auth st (rm_file B st)" "keeps_auth st (write_file B st)"
  "keeps_auth st (read_file B st)" "keeps_auth st (stat_file B st)"
  unfolding mk_dir_def rm_dir_def list_dir_def rename_file_def rm_file_def write_file_def read_file_def stat_file_def
  by (auto simp: Let_def split: option.splits prod.splits
      intro!: keeps_auth_with_path keeps_auth_dir_loop dest!: perform_auth)

lemma confined_os_error [simp]: "confined st (os_error B n s) = grown st s"
  by (simp add: os_error_def)

lemma confined_mk_dir:
  assumes "0 < logged_in (auth st)" "dotless_dirs B" "dotless (home_dir (auth st))"
  shows "confined st (mk_dir B st)"
  using assms unfolding mk_dir_def
  by (auto split: option.splits prod.splits intro!: confined_with_path permitted_file elim!: grown_performI)

lemma confined_rm_dir:
  assumes "0 < logged_in (auth st)" "dotless_dirs B" "dotless (home_dir (auth st))"
  shows "confined st (rm_dir B st)"
  using assms unfolding rm_dir_def
  by (auto split: option.splits prod.splits intro!: confined_with_path permitted_file elim!: grown_performI)

lemma confined_dir_loop: "grown st s \<Longrightarrow> confined st (dir_loop es s)"
proof (induction es s rule: dir_loop.induct)
  case (2 name t es s)
  then show ?case by (auto simp: grown_def split: option.splits)
qed simp

lemma confined_list_dir:
  assumes "0 < logged_in (auth st)" "dotless_dirs B" "dotless (home_dir (auth st))"
  shows "confined st (list_dir B st)"
  using assms unfolding list_dir_def
  by (auto split: option.splits intro!: confined_with_path permitted_file confined_dir_loop grown_disclose)

lemma confined_rename_file:
  assumes "0 < logged_in (auth st)" "dotless_dirs B" "dotless (home_dir (auth st))"
  shows "confined st (rename_file B st)"
  using assms unfolding rename_file_def
  by (auto split: option.splits prod.splits intro!: confined_with_path permitted_file elim!: grown_performI)

lemma confined_rm_file:
  assumes "0 < logged_in (auth st)" "dotless_dirs B" "dotless (home_dir (auth st))"
  shows "confined st (rm_file B st)"
  using assms unfolding rm_file_def
  by (auto split: option.splits prod.splits intro!: confined_with_path permitted_file elim!: grown_performI)

lemma confined_write_file:
  assumes "0 < logged_in (auth st)" "dotless_dirs B" "dotless (home_dir (auth st))"
  shows "confined st (write_file B st)"
  using assms unfolding write_file_def
  by (auto split: option.splits prod.splits intro!: confined_with_path permitted_file grown_perform)

lemma confined_read_file:
  assumes "0 < logged_in (auth st)" "dotless_dirs B" "dotless (home_dir (auth st))"
  shows "confined st (read_file B st)"
  using assms unfolding read_file_def
  by (auto simp: Let_def split: option.splits prod.splits
      intro!: confined_with_path permitted_file grown_disclose)

lemma confined_stat_file:
  assumes "0 < logged_in (auth st)" "dotless_dirs B" "dotless (home_dir (auth st))"
  shows "confined st (stat_file B st)"
  using assms unfolding stat_file_def
  by (auto split: option.splits prod.splits intro!: confined_with_path permitted_file grown_disclose)

lemma confined_add_domain:
  assumes "0 < logged_in (auth st)"
  shows "confined st (add_domain B st)"
  using assms unfolding add_domain_def
  by (auto split: option.splits prod.splits intro!: permitted_system grown_perform elim!: grown_performI)

lemma confined_add_alias_domain:
  assumes "0 < logged_in (auth st)"
  shows "confined st (add_alias_domain B st)"
  using assms unfolding add_alias_domain_def
  by (auto split: option.splits prod.splits intro!: permitted_system elim!: grown_performI)

lemma confined_del_domain:
  assumes "0 < logged_in (auth st)"
  shows "confined st (del_domain B st)"
  using assms unfolding del_domain_def
  by (auto split: option.splits prod.splits intro!: permitted_system elim!: grown_performI)

lemma confined_dom_info:
  assumes "0 < logged_in (auth st)"
  shows "confined st (dom_info B st)"
  using assms unfolding dom_info_def
  by (auto simp: Let_def split: option.splits list.splits intro!: permitted_system grown_disclose)

lemma grown_domains_loop [simp]: "grown st (domains_loop a b c es s) = grown st s"
  by (induction a b c es s rule: domains_loop.induct) simp_all

lemma confined_list_domains:
  assumes "0 < logged_in (auth st)"
  shows "confined st (list_domains B st)"
  using assms unfolding list_domains_def
  by (auto split: option.splits list.splits prod.splits intro!: permitted_system grown_disclose
      simp del: domains_loop.simps)

lemma confined_find_domain:
  assumes "0 < logged_in (auth st)"
  shows "confined st (find_domain B st)"
  using assms unfolding find_domain_def
  by (auto simp: Let_def split: option.splits list.splits intro!: permitted_system grown_disclose
      simp del: entry_index.simps)

lemma confined_domain_count:
  assumes "0 < logged_in (auth st)"
  shows "confined st (domain_count B st)"
  using assms unfolding domain_count_def
  by (auto split: option.splits list.splits intro!: permitted_system grown_disclose)

lemma confined_add_alias:
  assumes "0 < logged_in (auth st)"
  shows "confined st (add_alias B st)"
  using assms unfolding add_alias_def
  by (auto split: option.splits prod.splits intro!: permitted_admin confined_fail elim!: grown_performI)

lemma confined_remove_alias:
  assumes "0 < logged_in (auth st)"
  shows "confined st (remove_alias B st)"
  using assms unfolding remove_alias_def
  by (auto split: option.splits prod.splits intro!: permitted_admin confined_fail elim!: grown_performI)

lemma confined_delete_alias:
  assumes "0 < logged_in (auth st)"
  shows "confined st (delete_alias B st)"
  using assms unfolding delete_alias_def
  by (auto split: option.splits prod.splits intro!: permitted_admin confined_fail elim!: grown_performI)

lemma confined_list_lists:
  assumes "session_ok real (auth st)" "backend_ok real B"
  shows "confined st (list_lists B st)"
proof -
  have loop: "grown st (lists_loop C dir a b c ns s) = grown st s" for C dir a b c ns s
    by (induction C dir a b c ns s rule: lists_loop.induct) (auto simp: Let_def split: option.splits)
  have "permitted (auth st) (ShowLists d')"
    if "bk_assign B w d = Some (d', x)" "\<not> no_admin (auth st)" "\<not> other_domain (auth st) d" for w d d' x
  proof -
    have "d' = real d" using that(1) assms(2) unfolding backend_ok_def by blast
    with that(2,3) assms(1) show ?thesis
      by (auto simp: session_ok_def permitted_def no_admin_def other_domain_def)
  qed
  then show ?thesis unfolding list_lists_def
    by (auto simp: Let_def loop split: option.splits prod.splits intro!: grown_disclose)
qed

lemma confined_get_ip_map:
  assumes "0 < logged_in (auth st)"
  shows "confined st (get_ip_map B st)"
  using assms unfolding get_ip_map_def
  by (auto split: option.splits intro!: permitted_system grown_disclose simp: show_error_def)

lemma confined_add_ip_map:
  assumes "0 < logged_in (auth st)"
  shows "confined st (add_ip_map B st)"
  using assms unfolding add_ip_map_def
  by (auto split: option.splits prod.splits intro!: permitted_system elim!: grown_performI simp: show_error_def)

lemma confined_del_ip_map:
  assumes "0 < logged_in (auth st)"
  shows "confined st (del_ip_map B st)"
  using assms unfolding del_ip_map_def
  by (auto split: option.splits prod.splits intro!: permitted_system elim!: grown_performI simp: show_error_def)

lemma confined_show_ip_map:
  assumes "0 < logged_in (auth st)"
  shows "confined st (show_ip_map B st)"
  using assms unfolding show_ip_map_def
  by (auto split: option.splits intro!: permitted_system grown_disclose simp: show_error_def)

lemma confined_get_limits:
  assumes "0 < logged_in (auth st)"
  shows "confined st (get_limits B st)"
  using assms unfolding get_limits_def
  by (auto split: option.splits intro!: permitted_system grown_disclose)

lemma grown_limit_line [simp]: "grown st (snd (limit_line b l s)) = grown st s"
  by (auto simp: limit_line_def split: option.splits)

lemma grown_limits_input [simp]: "grown st (snd (limits_input l s)) = grown st s"
proof (induction "length (stdin s)" arbitrary: l s rule: less_induct)
  case less
  show ?case
  proof (cases "fgets_buf MAX_TMP_BUFF (stdin s)")
    case (Some x)
    obtain y r where x: "x = (y, r)" by fastforce
    have "length r < length (stdin s)" using Some x by (auto dest: fgets_buf_shorter simp: MAX_TMP_BUFF_def)
    then show ?thesis using less Some x by (simp add: limits_input.simps [of l s] Let_def)
  qed (simp add: limits_input.simps [of l s])
qed

lemma confined_set_limits:
  assumes "0 < logged_in (auth st)"
  shows "confined st (set_limits B st)"
proof -
  have "grown st s'" if "limits_input l (say RET_OK st) = (l', s)" "perform B (SetLimits d l') s = (ret, s')"
    "is_sa (auth st)" for l l' s d ret s'
    using that assms grown_limits_input [of st l "say RET_OK st"]
    by (intro grown_performI [OF that(2)] permitted_system) simp_all
  then show ?thesis unfolding set_limits_def
    by (auto simp: Let_def show_error_def split: option.splits prod.splits)
qed

lemma confined_del_limits:
  assumes "0 < logged_in (auth st)"
  shows "confined st (del_limits B st)"
  using assms unfolding del_limits_def
  by (auto split: option.splits prod.splits intro!: permitted_system elim!: grown_performI)

lemma confined_lists [simp]:
  "confined st (add_list B st)" "confined st (del_list B st)" "confined st (mod_list B st)"
  by (simp_all add: add_list_def del_list_def mod_list_def)

lemma contains_char: "contains [c] s \<longleftrightarrow> c \<in> set s"
  by (induction s) (auto simp: starts_with_def)

lemma confined_list_alias:
  assumes "session_ok real (auth st)"
  shows "confined st (list_alias B st)"
proof -
  let ?d = "TheDomain (auth st)"
  have d: "lowerit ?d = ?d" "CHR ''@'' \<notin> set ?d" "0 < logged_in (auth st)"
    using assms domain_char_not(1) by (auto simp: session_ok_def is_domain_valid_def list_all_iff)
  then have "length ?d \<le> 156" using lowerit_simps(1) [of ?d] by simp
  then have e: "lowerit (snprintf_str 256 ?d) = ?d" using d by (simp add: snprintf_str_def)
  show ?thesis unfolding list_alias_def using d e
    by (auto simp: Let_def contains_char no_admin_def other_domain_def permitted_def
        split: option.splits list.splits intro!: grown_disclose)
qed


section \<open>Limits sent and read back\<close>

definition param_name :: "string \<Rightarrow> bool" where
  "param_name s \<longleftrightarrow> s \<noteq> [] \<and> hd s \<noteq> CHR ''.'' \<and> length s < 100 \<and> NUL \<notin> set s \<and> (\<forall>c \<in> set PARAM_TOKENS. c \<notin> set s)"

lemma strtok_word:
  assumes "w \<noteq> []" "\<forall>c \<in> set ds. c \<notin> set w" "d \<in> set ds"
  shows "strtok ds (w @ d # r) = Some (w, r)"
proof -
  obtain c t where w: "w = c # t" using assms(1) by (cases w) auto
  have "dropWhile (\<lambda>c. c \<in> set ds) (w @ d # r) = w @ d # r" using assms(2) w by auto
  moreover have "takeWhile (\<lambda>c. c \<notin> set ds) (w @ d # r) = w" "dropWhile (\<lambda>c. c \<notin> set ds) (w @ d # r) = d # r"
    using assms(2,3) by (auto simp: takeWhile_append dropWhile_append)
  ultimately show ?thesis using w by (simp add: strtok_def Let_def)
qed

lemma show_int_tokens: "\<forall>c \<in> set PARAM_TOKENS. c \<notin> set (show_int i)"
proof -
  have "is_digit c \<or> c = CHR ''-''" if "c \<in> set (show_int i)" for c
    using that show_nat_digits by (auto simp: show_int_def split: if_splits)
  then have "c \<notin> set PARAM_TOKENS" if "c \<in> set (show_int i)" for c
    using that by (force simp: PARAM_TOKENS_def is_digit_def)
  then show ?thesis by blast
qed

lemma length_show_int32: "int32 i \<Longrightarrow> length (show_int i) \<le> 11"
  by (rule length_show_int) (simp_all add: int32_def)

lemma limit_line_show:
  assumes "param_name n" "int32 v" "limit_param n v l = Some l'"
  shows "limit_line (line n (show_int v)) l st = (l', st)"
proof -
  have a: "strtok PARAM_TOKENS (line n (show_int v)) = Some (n, show_int v @ RET_CRLF)"
    using assms(1) strtok_word [of n PARAM_TOKENS "CHR '' ''"]
    by (simp add: line_def param_name_def PARAM_TOKENS_def)
  have b: "strtok PARAM_TOKENS (show_int v @ RET_CRLF) = Some (show_int v, [LF])"
    using strtok_word [of "show_int v" PARAM_TOKENS "CHR 0x0D" "[LF]"] show_int_tokens [of v]
    by (simp add: RET_CRLF_def PARAM_TOKENS_def show_int_def)
  have "atoi (show_int v) = v" using assms(2) atoi_show_int [of "[]" v] by (simp add: int32_def)
  with a b assms(3) show ?thesis by (simp add: limit_line_def)
qed

lemma limits_input_line:
  assumes "param_name n" "int32 v" "limit_param n v l = Some l'" "stdin st = line n (show_int v) @ r"
  shows "limits_input l st = limits_input l' (st\<lparr>stdin := r\<rparr>)"
proof -
  let ?b = "n @ '' '' @ show_int v @ [CHR 0x0D]"
  have tok: "LF \<notin> set n" "NUL \<notin> set n" using assms(1) by (auto simp: param_name_def PARAM_TOKENS_def)
  have "LF \<notin> set ?b" using tok show_int_chars [of _ v] by auto
  moreover have "length ?b + 1 < MAX_TMP_BUFF"
    using assms(1) length_show_int32 [OF assms(2)] by (simp add: param_name_def MAX_TMP_BUFF_def)
  ultimately have f: "fgets_buf MAX_TMP_BUFF (stdin st) = Some (line n (show_int v), r)"
    using fgets_buf_line [of ?b MAX_TMP_BUFF r] by (simp add: assms(4) line_def RET_CRLF_def)
  have "NUL \<notin> set (line n (show_int v))"
    using tok show_int_chars [of _ v] by (auto simp: line_def RET_CRLF_def)
  then have "c_str (line n (show_int v)) = line n (show_int v)" by (simp add: c_str_def takeWhile_all)
  moreover have "line n (show_int v) \<noteq> [] \<and> hd (line n (show_int v)) \<noteq> CHR ''.''"
    using assms(1) by (cases n) (simp_all add: line_def param_name_def)
  ultimately show ?thesis
    using f limit_line_show [OF assms(1-3), of "st\<lparr>stdin := r\<rparr>"] by (simp add: limits_input.simps [of l st] Let_def)
qed

lemma limits_input_dot:
  assumes "stdin st = final_dot @ r"
  shows "limits_input l st = (l, st\<lparr>stdin := r\<rparr>)"
proof -
  have "fgets_buf MAX_TMP_BUFF (stdin st) = Some (final_dot, r)"
    using fgets_buf_line [of "[CHR ''.'', CHR 0x0D]" MAX_TMP_BUFF r]
    by (simp add: assms final_dot_def RET_CRLF_def MAX_TMP_BUFF_def)
  then show ?thesis by (simp add: limits_input.simps [of l st] final_dot_def RET_CRLF_def c_str_def)
qed

lemma flag01_line: "i = 0 \<or> i = 1 \<Longrightarrow> flag01 n i = line n (show_int i)"
  by (auto simp: flag01_def line_def show_int_def show_nat.simps char_of_def bit_0)

definition limit_pairs :: "vlimits \<Rightarrow> (string \<times> int) list" where
  "limit_pairs l =
     [(''max_popaccounts'', maxpopaccounts l), (''max_aliases'', maxaliases l), (''max_forwards'', maxforwards l),
      (''max_autoresponders'', maxautoresponders l), (''max_mailinglists'', maxmailinglists l),
      (''disk_quota'', diskquota l), (''max_msgcount'', maxmsgcount l), (''default_quota'', defaultquota l),
      (''default_maxmsgcount'', defaultmaxmsgcount l), (''disable_pop'', disable_pop l),
      (''disable_imap'', disable_imap l), (''disable_dialup'', disable_dialup l),
      (''disable_password_changing'', disable_passwordchanging l), (''disable_webmail'', disable_webmail l),
      (''disable_external_relay'', disable_relay l), (''disable_smtp'', disable_smtp l),
      (''disable_spamassassin'', disable_spamassassin l), (''delete_spam'', delete_spam l),
      (''disable_maildrop'', disable_maildrop l), (''perm_account'', perm_account l),
      (''perm_alias'', perm_alias l), (''perm_forward'', perm_forward l),
      (''perm_autoresponder'', perm_autoresponder l), (''perm_maillist'', perm_maillist l),
      (''perm_quota'', perm_quota l OR push_bit 3 (perm_maillist_users l) OR push_bit 6 (perm_maillist_moderators l)),
      (''perm_defaultquota'', perm_defaultquota l)]"

lemma limits_lines_pairs:
  assumes "limits_ok l"
  shows "limits_lines l = map (\<lambda>(n, v). line n (show_int v)) (limit_pairs l)"
  using assms by (simp add: limits_lines_def limit_pairs_def limits_ok_def flag01_line)

fun set_pairs :: "(string \<times> int) list \<Rightarrow> vlimits \<Rightarrow> vlimits option" where
  "set_pairs [] l = Some l"
| "set_pairs ((n, v) # ps) l = (case limit_param n v l of None \<Rightarrow> None | Some l' \<Rightarrow> set_pairs ps l')"

lemma limits_input_pairs:
  assumes "list_all (\<lambda>(n, v). param_name n \<and> int32 v) ps" "set_pairs ps l = Some l'"
    "stdin st = concat (map (\<lambda>(n, v). line n (show_int v)) ps) @ final_dot @ r"
  shows "limits_input l st = (l', st\<lparr>stdin := r\<rparr>)"
  using assms
proof (induction ps arbitrary: l st)
  case (Cons p ps)
  obtain n v where p: "p = (n, v)" by fastforce
  with Cons(3) obtain l1 where l1: "limit_param n v l = Some l1" "set_pairs ps l1 = Some l'"
    by (auto split: option.splits)
  let ?r = "concat (map (\<lambda>(n, v). line n (show_int v)) ps) @ final_dot @ r"
  have "limits_input l st = limits_input l1 (st\<lparr>stdin := ?r\<rparr>)"
    using Cons(2,4) p by (intro limits_input_line [OF _ _ l1(1)]) auto
  also have "\<dots> = (l', st\<lparr>stdin := ?r, stdin := r\<rparr>)"
    using Cons(2) l1(2) by (intro Cons(1) [of l1 "st\<lparr>stdin := ?r\<rparr>", THEN trans]) auto
  finally show ?case by simp
qed (simp add: limits_input_dot)

lemma limit_pair_names: "list_all param_name (map fst (limit_pairs l))"
  by (simp add: limit_pairs_def) (simp add: param_name_def PARAM_TOKENS_def)

lemma set_pairs_limits:
  "set_pairs (limit_pairs l) l0 = Some (l\<lparr>perm_maillist_users := perm_maillist_users l0,
     perm_maillist_moderators := perm_maillist_moderators l0,
     perm_quota := perm_quota l OR push_bit 3 (perm_maillist_users l) OR push_bit 6 (perm_maillist_moderators l)\<rparr>)"
  by (simp add: limit_pairs_def limit_param_def)


lemma limits_ok_pairs:
  assumes "limits_ok l"
  shows "list_all (\<lambda>(n, v). param_name n \<and> int32 v) (limit_pairs l)"
    "perm_quota l OR push_bit 3 (perm_maillist_users l) OR push_bit 6 (perm_maillist_moderators l)
      = perm_quota l + 8 * perm_maillist_users l + 64 * perm_maillist_moderators l"
proof -
  have small: "v \<in> {0, 1, 2, 3, 4, 5, 6, 7}" if "0 \<le> v" "v < 8" for v :: int using that by auto
  have p: "a OR push_bit 3 b OR push_bit 6 c = a + 8 * b + 64 * c"
    if "0 \<le> a" "a < 8" "0 \<le> b" "b < 8" "0 \<le> c" "c < 8" for a b c :: int
    using small [OF that(1,2)] small [OF that(3,4)] small [OF that(5,6)] by (elim insertE emptyE) simp_all
  show q: "perm_quota l OR push_bit 3 (perm_maillist_users l) OR push_bit 6 (perm_maillist_moderators l)
      = perm_quota l + 8 * perm_maillist_users l + 64 * perm_maillist_moderators l"
    using assms by (intro p) (simp_all add: limits_ok_def)
  have i: "0 \<le> v \<Longrightarrow> v < 8 \<Longrightarrow> int32 v" "v = 0 \<or> v = 1 \<Longrightarrow> int32 v" for v by (auto simp: int32_def)
  have "int32 (perm_quota l + 8 * perm_maillist_users l + 64 * perm_maillist_moderators l)"
    using assms by (auto simp: limits_ok_def int32_def)
  then have "list_all (\<lambda>(n, v). int32 v) (limit_pairs l)"
    unfolding limit_pairs_def q using assms i by (simp add: limits_ok_def)
  with limit_pair_names [of l] show "list_all (\<lambda>(n, v). param_name n \<and> int32 v) (limit_pairs l)"
    by (auto simp: list_all_iff)
qed

lemma fold_say_out:
  assumes "list_all (\<lambda>m. length m < MAX_TMP_BUFF) ms" "ms \<noteq> []"
  shows "s_out (fold say ms st) = s_out st @ ms \<and> WriteBuf (fold say ms st) = last ms"
  using assms
proof (induction ms arbitrary: st)
  case (Cons m ms)
  have m: "s_out (say m st) = s_out st @ [m]" "WriteBuf (say m st) = m"
    using Cons(2) by (auto simp: say_def wait_write_def set_write_def snprintf_str_def)
  then show ?case using Cons(1) [of "say m st"] Cons(2) by (cases "ms = []") auto
qed simp

text \<open>All that the client receives from \<open>get_limits\<close>: the last line comes twice.\<close>

lemma get_limits_out:
  assumes "is_sa (auth st)" "strtok TOKENS (s_rest st) = Some (d, x)" "bk_limits B (world st) d = Some l" "limits_ok l"
  shows "\<exists>s. get_limits B st = Ret 0 s
    \<and> s_out (wait_write s) = s_out st @ RET_OK_MORE # limits_lines l @ [last (limits_lines l), final_dot]"
proof -
  let ?t = "disclose (ShowLimits d) (say RET_OK_MORE st)"
  have "length (line n (show_int v)) < MAX_TMP_BUFF" if "param_name n" "int32 v" for n v
    using that length_show_int32 [of v] by (simp add: line_def RET_CRLF_def param_name_def MAX_TMP_BUFF_def)
  then have "list_all (\<lambda>m. length m < MAX_TMP_BUFF) (limits_lines l)"
    using limits_ok_pairs(1) [OF assms(4)] by (auto simp: limits_lines_pairs [OF assms(4)] list_all_iff)
  moreover have "limits_lines l \<noteq> []" by (simp add: limits_lines_def)
  ultimately have o: "s_out (fold say (limits_lines l) ?t) = s_out ?t @ limits_lines l"
    "WriteBuf (fold say (limits_lines l) ?t) = last (limits_lines l)"
    using fold_say_out by blast+
  have "s_out ?t = s_out st @ [RET_OK_MORE]"
    by (simp add: say_def wait_write_def set_write_def snprintf_str_def RET_OK_MORE_def RET_CRLF_def MAX_TMP_BUFF_def)
  with assms o show ?thesis
    by (simp add: get_limits_def reply_def wait_write_def set_write_def snprintf_str_def final_dot_def RET_CRLF_def
        MAX_TMP_BUFF_def del: fold_simps)
qed

lemma out_limits_input [simp]:
  assumes "list_all (\<lambda>(n, v). param_name n \<and> int32 v) ps" "set_pairs ps l = Some l'"
    "stdin st = concat (map (\<lambda>(n, v). line n (show_int v)) ps) @ final_dot @ r"
  shows "s_out (snd (limits_input l st)) = s_out st"
  using limits_input_pairs [OF assms] by simp

lemma set_pairs_append:
  "set_pairs (ps @ qs) l = (case set_pairs ps l of None \<Rightarrow> None | Some l' \<Rightarrow> set_pairs qs l')"
  by (induction ps l rule: set_pairs.induct) (auto split: option.splits)


text \<open>The witness: the limits of the example's domain, with permissions for list users.\<close>

definition limits_backend :: "unit backend" where
  "limits_backend = demo_backend\<lparr>bk_limits := (\<lambda>w d. Some (vdefault_limits\<lparr>diskquota := 7, perm_maillist_users := 3\<rparr>))\<rparr>"


end
