(* ===== verification/Vpopmaild.thy ===== *)
theory Vpopmaild
  imports Vdadmin
begin

text \<open>
  The administration daemon (\<^verbatim>\<open>vpopmaild.c\<close>): the two tables of commands, the loop before the login and
  the loop after it, and the results about whole sessions.

  The outcomes of the calls of \<open>select\<close> in \<open>wait_read\<close> are a list: \<open>True\<close> when there is input (or the end
  of it), \<open>False\<close> for a time-out. A run over a list shows the session after as many reads. Writing
  succeeds.
\<close>

section \<open>Tables\<close>

type_synonym 'w handler = "'w backend \<Rightarrow> 'w session \<Rightarrow> 'w hres"
type_synonym 'w func_t = "nat \<times> string \<times> 'w handler option \<times> string option"

definition quit :: "'w handler" where
  "quit B st = Exit 0 (say RET_OK st)"

text \<open>What a help command says of a row.\<close>

definition help_line :: "string \<Rightarrow> string option \<Rightarrow> string" where
  "help_line command h =
     (case h of None \<Rightarrow> RET_CRLF @ command @ RET_CRLF | Some t \<Rightarrow> command @ '' '' @ t @ RET_CRLF)"

text \<open>The tables, with the function behind the row \<^verbatim>\<open>help\<close> as an argument, since it prints the table.\<close>

definition login_table :: "'w handler \<Rightarrow> 'w func_t list" where
  "login_table h =
     [(0, ''Login'', None, None),
      (0, ''login'', Some login, Some ''login user@domain password - expanded bitmaps''),
      (1, ''clogin'', Some login, Some ''login user@domain password - compact bitmapts''),
      (2, ''slogin'', Some login, Some ''login user@domain password - silent results''),
      (0, ''Utility'', None, None),
      (0, ''help'', Some h, Some ''help''),
      (0, ''exit'', Some quit, Some ''quit''),
      (0, ''quit'', Some quit, Some ''quit''),
      (0, ''q'', Some quit, Some ''quit'')]"

definition login_help :: "'w handler" where
  "login_help B st =
     Ret 1 (set_write final_dot
       (fold say (map (\<lambda>(l, c, f, h). help_line c h) (login_table (\<lambda>B s. Fault) :: 'w func_t list))
         (say RET_OK_MORE st)))"

definition LoginFunctions :: "'w func_t list" where
  "LoginFunctions = login_table login_help"

definition function_table :: "'w handler \<Rightarrow> 'w func_t list" where
  "function_table h =
     [(2, ''Domain'', None, None),
      (2, ''user_info'', Some user_info, Some ''user_domain<crlf>''),
      (3, ''list_domains'', Some list_domains, Some ''[page per_page]<crlf>''),
      (3, ''find_domain'', Some find_domain, Some ''domain [per-page]<crlf>''),
      (3, ''domain_count'', Some domain_count, Some ''<crlf>''),
      (3, ''add_alias_domain'', Some add_alias_domain, Some ''domain alias<crlf>''),
      (3, ''add_domain'', Some add_domain, Some ''domain postmaster-password<crlf>''),
      (3, ''del_domain'', Some del_domain, Some ''domain<crlf>''),
      (3, ''dom_info'', Some dom_info, Some ''domain<crlf>''),
      (2, ''get_limits'', Some get_limits, Some ''domain<crlf>''),
      (3, ''set_limits'', Some set_limits, Some ''domain (option lines)<crlf>.<crlf>''),
      (3, ''del_limits'', Some del_limits, Some ''domain<crlf>''),
      (2, ''get_domain_size'', Some get_domain_size, Some ''domain<crlf>''),
      (1, ''User'', None, None),
      (2, ''add_user'', Some add_user, Some ''user@domain password<crlf>''),
      (2, ''del_user'', Some del_user, Some ''user@domain<crlf>''),
      (2, ''user_count'', Some user_count, Some ''domain <crlf>''),
      (2, ''list_users'', Some list_users, Some ''domain [page per_page]<crlf>''),
      (2, ''list_users'', Some list_users, Some ''domain<crlf>''),
      (2, ''list_lists'', Some list_lists, Some ''domain<crlf>''),
      (1, ''mod_user'', Some mod_user, Some ''user@domain (option lines)<crlf>.<crlf>''),
      (1, ''get_lastauth'', Some get_lastauth, Some ''user@domain<crlf>''),
      (1, ''get_user_size'', Some get_user_size, Some ''user@domain<crlf>''),
      (2, ''Alias'', None, None),
      (2, ''add_alias'', Some add_alias, Some ''user@domain user@otherdomain<crlf>''),
      (2, ''delete_alias'', Some delete_alias, Some ''user@domain<crlf>''),
      (2, ''list_alias'', Some list_alias, Some ''domain<crlf>''),
      (2, ''remove_alias'', Some remove_alias, Some ''user@domain user@otherdomain<crlf>''),
      (1, ''File System'', None, None),
      (1, ''mk_dir'', Some mk_dir, Some ''/full/path/to/dir<crlf>''),
      (1, ''rm_dir'', Some rm_dir, Some ''/full/path/to/dir<crlf>''),
      (1, ''list_dir'', Some list_dir, Some ''/full/path/to/dir<crlf>''),
      (1, ''rm_file'', Some rm_file, Some ''/full/path/to/file<crlf>''),
      (1, ''rename_file'', Some rename_file, Some ''/full/path/to/file<crlf>''),
      (1, ''write_file'', Some write_file, Some ''/full/path (data lines)<crlf>.<crlf>''),
      (1, ''read_file'', Some read_file, Some ''/full/path<crlf>''),
      (1, ''stat_file'', Some stat_file, Some ''/full/path<crlf>''),
      (1, ''IP Map'', None, None),
      (1, ''get_ip_map'', Some get_ip_map, Some ''domain<crlf>''),
      (3, ''add_ip_map'', Some add_ip_map, Some ''ip domain<crlf>''),
      (3, ''del_ip_map'', Some del_ip_map, Some ''ip domain<crlf>''),
      (3, ''show_ip_map'', Some show_ip_map, Some ''domain<crlf>''),
      (2, ''Mailing List'', None, None),
      (2, ''add_list'', Some add_list, Some ''domain listname (command line options)<crlf>''),
      (2, ''del_list'', Some del_list, Some ''domain listname<crlf>''),
      (2, ''mod_list'', Some mod_list, Some ''domain listname (command line options)<crlf>''),
      (0, ''Utility'', None, None),
      (0, ''exit'', Some quit, Some ''quit''),
      (0, ''quit'', Some quit, Some ''quit''),
      (0, ''q'', Some quit, Some ''quit''),
      (0, ''help'', Some h, Some ''help'')]"

definition show_help :: "'w handler" where
  "show_help B st =
     Ret 1 (set_write final_dot
       (fold say
         (map (\<lambda>(l, c, f, h). help_line c h)
           (filter (\<lambda>(l, c, f, h). l \<le> logged_in (auth st)) (function_table (\<lambda>B s. Fault) :: 'w func_t list)))
         (say RET_OK_MORE st)))"

definition Functions :: "'w func_t list" where
  "Functions = function_table show_help"

text \<open>The search of the loops: the first row with the name, a function and a level that is allowed.\<close>

fun find_command :: "nat \<Rightarrow> string \<Rightarrow> 'w func_t list \<Rightarrow> (nat \<times> 'w handler) option" where
  "find_command level command [] = None"
| "find_command level command ((l, c, f, h) # rows) =
     (case f of
        Some g \<Rightarrow>
          if strcasecmp_eq c command \<and> l \<le> level then Some (l, g) else find_command level command rows
      | None \<Rightarrow> find_command level command rows)"

section \<open>The loops\<close>

definition LOGIN_FAILURES :: nat where
  "LOGIN_FAILURES = 3"

definition LOGIN_ACTIVITY :: nat where
  "LOGIN_ACTIVITY = 4"

datatype 'w outcome =
    Running "'w session"          \<comment> \<open>waiting for the next input\<close>
  | Exited int "'w session"
  | Crashed

text \<open>\<open>wait_read\<close> with input: the line, empty at the end of the input, and the first token of it.\<close>

definition read_command :: "'w session \<Rightarrow> (string \<times> string) option \<times> 'w session" where
  "read_command st =
     (case fgets_buf MAX_TMP_BUFF (stdin st) of
        None \<Rightarrow> (None, st)
      | Some (l, r) \<Rightarrow> (strtok TOKENS (c_str l), st\<lparr>stdin := r\<rparr>))"

text \<open>\<open>show_error(..); wait_write(); exit(-1);\<close>\<close>

definition die :: "nat \<Rightarrow> nat \<Rightarrow> 'w session \<Rightarrow> 'w outcome" where
  "die major minor st =
     (case show_error major minor st of None \<Rightarrow> Crashed | Some s \<Rightarrow> Exited (- 1) (wait_write s))"

fun command_loop :: "'w backend \<Rightarrow> bool list \<Rightarrow> 'w session \<Rightarrow> 'w outcome" where
  "command_loop B [] st = Running st"
| "command_loop B (ready # rs) st =
     (if \<not> ready then die ERR_RD_TIMEOUT 106 st
      else case read_command st of
        (None, s) \<Rightarrow> command_loop B rs s
      | (Some (command, r), s) \<Rightarrow>
          (case find_command (logged_in (auth s)) command Functions of
             None \<Rightarrow>
               (case show_error ERR_INVALID_COMMAND 107 s of
                  None \<Rightarrow> Crashed
                | Some s' \<Rightarrow> command_loop B rs (wait_write s'))
           | Some (l, f) \<Rightarrow>
               (case f B (s\<lparr>s_rest := r\<rparr>) of
                  Fault \<Rightarrow> Crashed
                | Exit x s' \<Rightarrow> Exited x s'
                | Ret x s' \<Rightarrow> command_loop B rs (wait_write s'))))"

fun login_loop :: "'w backend \<Rightarrow> nat \<Rightarrow> nat \<Rightarrow> bool list \<Rightarrow> 'w session \<Rightarrow> 'w outcome" where
  "login_loop B attempts failures rs st =
     (if attempts + 1 > LOGIN_ACTIVITY then die ERR_TOO_MANY_LOGIN 102 st
      else case rs of
        [] \<Rightarrow> Running st
      | ready # rs' \<Rightarrow>
          if \<not> ready then die ERR_RD_TIMEOUT 103 st
          else case read_command st of
            (None, s) \<Rightarrow> login_loop B (attempts + 1) failures rs' s
          | (Some (command, r), s) \<Rightarrow>
              (case find_command 2 command LoginFunctions of
                 None \<Rightarrow>
                   (case show_error ERR_INVALID_COMMAND 104 s of
                      None \<Rightarrow> Crashed
                    | Some s' \<Rightarrow> login_loop B (attempts + 1) failures rs' (wait_write s'))
               | Some (l, f) \<Rightarrow>
                   (case f B (s\<lparr>s_rest := r, output_type := l\<rparr>) of
                      Fault \<Rightarrow> Crashed
                    | Exit x s' \<Rightarrow> Exited x s'
                    | Ret status s' \<Rightarrow>
                        if status = - 2
                        then (if failures + 1 > LOGIN_FAILURES
                              then die ERR_TOO_MANY_LOGIN 105 (wait_write s')
                              else login_loop B (attempts + 1) (failures + 1) rs' (wait_write s'))
                        else if status = - 1 \<or> status > 0
                        then login_loop B (attempts + 1) failures rs' (wait_write s')
                        else command_loop B rs' (wait_write s'))))"

declare login_loop.simps [simp del]

text \<open>\<open>opened\<close>: \<open>vauth_open\<close> succeeds.\<close>

definition vpopmaild_main :: "'w backend \<Rightarrow> bool \<Rightarrow> bool list \<Rightarrow> 'w session \<Rightarrow> 'w outcome" where
  "vpopmaild_main B opened rs st =
     (if \<not> opened then die ERR_CANT_OPEN_AUTH 101 st else login_loop B 0 0 rs (say RET_OK st))"


section \<open>Every session stays within its permissions\<close>

lemma session_ok_level: "session_ok real i \<Longrightarrow> 0 < logged_in i"
  by (simp add: session_ok_def)

lemma confined_help [simp]: "confined st (show_help B st)"
  by (simp add: show_help_def)

lemma confined_quit [simp]: "confined st (quit B st)"
  by (simp add: quit_def)

lemmas confined_handlers =
  confined_user_info confined_list_domains confined_find_domain confined_domain_count
  confined_add_alias_domain confined_add_domain confined_del_domain confined_dom_info confined_get_limits
  confined_set_limits confined_del_limits confined_get_domain_size confined_add_user confined_del_user
  confined_user_count confined_list_users confined_list_lists confined_mod_user confined_get_lastauth
  confined_get_user_size confined_add_alias confined_delete_alias confined_list_alias confined_remove_alias
  confined_mk_dir confined_rm_dir confined_list_dir confined_rm_file confined_rename_file
  confined_write_file confined_read_file confined_stat_file confined_get_ip_map confined_add_ip_map
  confined_del_ip_map confined_show_ip_map

lemma find_command_mem:
  "find_command level c rows = Some (l, f) \<Longrightarrow> \<exists>n h. (l, n, Some f, h) \<in> set rows \<and> l \<le> level"
  by (induction level c rows rule: find_command.induct) (auto split: option.splits if_splits)

definition session_safe :: "(string \<Rightarrow> string) \<Rightarrow> identity \<Rightarrow> bool" where
  "session_safe real i \<longleftrightarrow> session_ok real i \<and> dotless (home_dir i)"

lemma confined_command:
  assumes "(l, n, Some f, h) \<in> set Functions" "session_safe real (auth st)" "backend_ok real B" "dotless_dirs B"
  shows "confined st (f B st)"
proof -
  have "session_ok real (auth st)" "dotless (home_dir (auth st))" "0 < logged_in (auth st)"
    using assms(2) session_ok_level by (auto simp: session_safe_def)
  with assms(1,3,4) show ?thesis by (auto simp: Functions_def function_table_def intro: confined_handlers)
qed

lemma keeps_auth_command:
  assumes "(l, n, Some f, h) \<in> set Functions" "session_ok real (auth st)" "backend_ok real B"
  shows "keeps_auth st (f B st)"
  using assms session_ok_level [OF assms(2)]
  by (auto simp: Functions_def function_table_def
      intro: confined_handlers keeps_auth_files confined_keeps_auth)

lemma grown_permitted:
  assumes "grown st s" "list_all (permitted (auth st)) (effects st)"
  shows "auth s = auth st" "list_all (permitted (auth s)) (effects s)"
  using assms by (auto simp: grown_def)

fun outcome_session :: "'w outcome \<Rightarrow> 'w session option" where
  "outcome_session (Running st) = Some st"
| "outcome_session (Exited x st) = Some st"
| "outcome_session Crashed = None"

lemma die_session: "outcome_session (die m n st) = Some s \<Longrightarrow> auth s = auth st \<and> effects s = effects st"
  by (auto simp: die_def show_error_def split: option.splits if_splits)

lemma read_command_fields:
  assumes "read_command st = (c, s)"
  shows "auth s = auth st" "effects s = effects st"
  using assms by (auto simp: read_command_def split: option.splits prod.splits)

definition within :: "'w session \<Rightarrow> bool" where
  "within st \<longleftrightarrow> list_all (permitted (auth st)) (effects st)"

lemma within_cong: "auth s = auth t \<Longrightarrow> effects s = effects t \<Longrightarrow> within s = within t"
  by (simp add: within_def)

lemma within_wait_write [simp]: "within (wait_write st) = within st"
  by (rule within_cong) simp_all

lemma show_error_fields:
  assumes "show_error m n st = Some s"
  shows "auth s = auth st" "effects s = effects st"
  using assms by (auto simp: show_error_def split: if_splits)

lemma command_loop_within:
  fixes B :: "'w backend"
  assumes "backend_ok real B" "dotless_dirs B" "session_safe real (auth st)" "within st"
    "outcome_session (command_loop B rs st) = Some s"
  shows "within s"
  using assms(3-5)
proof (induction rs arbitrary: st)
  case (Cons ready rs)
  obtain c t where rc: "read_command st = (c, t)" by fastforce
  have t: "session_safe real (auth t)" "within t"
    using read_command_fields [OF rc] Cons(2,3) within_cong [of t st] by auto
  show ?case
  proof (cases "ready \<and> c \<noteq> None")
    case False
    then show ?thesis
      using Cons rc t die_session [of ERR_RD_TIMEOUT 106 st s] within_cong [of s st]
      by (cases c) (auto split: if_splits)
  next
    case True
    then obtain command r where c: "c = Some (command, r)" by auto
    show ?thesis
    proof (cases "find_command (logged_in (auth t)) command (Functions :: 'w func_t list)")
      case None
      with True c rc Cons(4) obtain t' where e: "show_error ERR_INVALID_COMMAND 107 t = Some t'"
        "outcome_session (command_loop B rs (wait_write t')) = Some s"
        by (auto split: option.splits)
      then show ?thesis
        using Cons(1) [of "wait_write t'"] show_error_fields [OF e(1)] t within_cong [of t' t] by simp
    next
      case (Some lf)
      obtain l f where lf: "lf = (l, f)" by fastforce
      let ?t = "t\<lparr>s_rest := r\<rparr>"
      have "confined ?t (f B ?t)"
        using find_command_mem Some lf confined_command t(1) assms(1,2) by fastforce
      moreover have "within s'" "session_safe real (auth s')" if "grown ?t s'" for s'
        using grown_permitted [OF that] t by (simp_all add: within_def)
      ultimately show ?thesis
        using True c rc Some lf Cons(4) Cons(1) [of "wait_write _"] by (cases "f B ?t") auto
    qed
  qed
qed simp

text \<open>Logging in gives a session with a domain as the back end writes it, and has no effect.\<close>

lemma login_identity_ok:
  assumes "login_identity doms pw u d dir = Some i"
  shows "0 < logged_in i" "TheDomain i = d" "TheUser i = u"
    "home_dir i \<in> {snprintf_str 256 doms, snprintf_str 256 dir, snprintf_str 256 (pw_dir pw)}"
  using assms
  by (auto simp: login_identity_def Let_def home_dir_def is_sa_def is_qa_def snprintf_str_def split: if_splits)

lemma login_result:
  assumes "login B st = Ret x s" "backend_ok real B"
  shows "effects s = effects st \<and> x \<in> {0, - 1, - 2} \<and> (x = 0 \<longrightarrow> session_ok real (auth s))
    \<and> (x = 0 \<and> dotless_dirs B \<longrightarrow> dotless (home_dir (auth s)))
    \<and> (x \<noteq> 0 \<longrightarrow> logged_in (auth s) = logged_in (auth st))"
proof -
  have refuse: "effects s = effects st \<and> x = - 2 \<and> logged_in (auth s) = logged_in (auth st)"
    if "login_refused m u d st = Ret x s" for m u d
    using that by (auto simp: login_refused_def show_error_def split: if_splits)
  have fail: "effects s = effects st \<and> x = - 1 \<and> logged_in (auth s) = logged_in (auth st)"
    if "fail_with m n st = Ret x s" for m n
    using that by (auto simp: fail_with_def show_error_def split: if_splits)
  have rep: "effects s = effects t \<and> x = 0 \<and> auth s = auth t" if "login_reply B uid gid t = Ret x s" for uid gid t
  proof -
    have fields: "effects (fold say ms q) = effects q \<and> auth (fold say ms q) = auth q" for ms and q :: "'a session"
      by (induction ms arbitrary: q) simp_all
    show ?thesis using that
      by (auto simp: login_reply_def reply_def send_user_info_def fields simp del: fold_simps split: if_splits)
  qed
  consider "effects s = effects st \<and> (x = - 1 \<or> x = - 2) \<and> logged_in (auth s) = logged_in (auth st)"
    | d1 d2 dir uid gid pw u i v e where "bk_assign B (world st) d1 = Some (d2, dir, uid, gid)"
         "login_identity (DIR_DOMAINS B) pw u d2 dir = Some i"
         "login_reply B uid gid (st\<lparr>auth := i\<rparr>) = Ret x s" "bk_getpw B (world st) v e = Some (pw, d1)"
    using assms(1) refuse fail unfolding login_def by (auto split: option.splits prod.splits if_splits)
  then show ?thesis
  proof cases
    case 2
    have "real d2 = d2" "lowerit d2 = d2" "is_domain_valid d2"
      using assms(2) 2(1) unfolding backend_ok_def by metis+
    moreover have "dotless (home_dir i)" if "dotless_dirs B"
      using login_identity_ok(4) [OF 2(2)] dotless_dirsD [OF that] 2(1,4) by auto
    ultimately show ?thesis using rep [OF 2(3)] login_identity_ok [OF 2(2)] by (simp add: session_ok_def)
  qed auto
qed

lemma login_no_exit: "login B st \<noteq> Exit x q"
  by (auto simp: login_def login_refused_def fail_with_def login_reply_def reply_def
      split: option.splits prod.splits)

lemma login_loop_within:
  fixes B :: "'w backend"
  assumes "backend_ok real B" "dotless_dirs B" "effects st = []" "logged_in (auth st) = 0"
    "outcome_session (login_loop B a n rs st) = Some s"
  shows "within s"
  using assms(3-5)
proof (induction rs arbitrary: a n st)
  case Nil
  then show ?case
    by (auto simp: login_loop.simps [of B a n "[]"] within_def dest: die_session split: if_splits)
next
  case (Cons ready rs)
  have none: "within s" if "effects s = []" for s :: "'w session" using that by (simp add: within_def)
  obtain c t where rc: "read_command st = (c, t)" by fastforce
  have t: "effects t = []" "logged_in (auth t) = 0" using read_command_fields [OF rc] Cons(2,3) by simp_all
  note res = Cons(4) [unfolded login_loop.simps [of B a n "ready # rs" st]]
  show ?case
  proof (cases "a + 1 \<le> LOGIN_ACTIVITY \<and> ready \<and> c \<noteq> None")
    case False
    then show ?thesis
      using Cons(1) res rc t die_session none Cons(2) by (cases c) (fastforce split: if_splits)+
  next
    case True
    then obtain command r where c: "c = Some (command, r)" by auto
    show ?thesis
    proof (cases "find_command 2 command (LoginFunctions :: 'w func_t list)")
      case None
      with True c rc res obtain t' where e: "show_error ERR_INVALID_COMMAND 104 t = Some t'"
        "outcome_session (login_loop B (a + 1) n rs (wait_write t')) = Some s"
        by (auto split: option.splits)
      then show ?thesis
        using Cons(1) [of "wait_write t'"] show_error_fields [OF e(1)] t by simp
    next
      case (Some lf)
      obtain l f where lf: "lf = (l, f)" by fastforce
      let ?t = "t\<lparr>s_rest := r, output_type := l\<rparr>"
      have f: "f = login \<or> f = login_help \<or> f = quit"
        using find_command_mem [of 2 command LoginFunctions l f] Some lf
        by (auto simp: LoginFunctions_def login_table_def)
      have fields: "effects (fold say ms q) = effects q \<and> auth (fold say ms q) = auth q" for ms and q :: "'w session"
        by (induction ms arbitrary: q) simp_all
      have ex: "within q" if "f B ?t = Exit x q" for x q
        using that f t login_no_exit by (auto simp: quit_def login_help_def intro!: none)
      have ret: "effects q = [] \<and> (x \<le> 0 \<and> x \<noteq> - 2 \<and> x \<noteq> - 1 \<longrightarrow> session_safe real (auth q))
          \<and> (x = - 1 \<or> x = - 2 \<or> 0 < x \<longrightarrow> logged_in (auth q) = 0)" if "f B ?t = Ret x q" for x q
        using that f t login_result [OF _ assms(1), of ?t x q]
        by (auto simp: quit_def login_help_def fields session_safe_def assms(2) simp del: fold_simps)
      show ?thesis
      proof (cases "f B ?t")
        case (Ret x q)
        have w: "within q" using ret [OF Ret] none by simp
        have ih: "within s" if "logged_in (auth q) = 0"
          "outcome_session (login_loop B a' n' rs (wait_write q)) = Some s" for a' n'
          using Cons(1) [OF _ _ that(2)] that(1) ret [OF Ret] by simp
        show ?thesis
          using True c rc Some lf Ret res ih ret [OF Ret] w die_session [of ERR_TOO_MANY_LOGIN 105 "wait_write q" s]
            command_loop_within [OF assms(1,2), of "wait_write q" rs s] none
          by (auto split: if_splits)
      qed (use True c rc Some lf res ex in auto)
    qed
  qed
qed


lemma command_loop_level:
  fixes B :: "'w backend"
  assumes "backend_ok real B" "session_ok real (auth st)" "outcome_session (command_loop B rs st) = Some s"
  shows "0 < logged_in (auth s)"
  using assms(2,3)
proof (induction rs arbitrary: st)
  case Nil
  then show ?case by (simp add: session_ok_def)
next
  case (Cons ready rs)
  obtain c t where rc: "read_command st = (c, t)" by fastforce
  have t: "session_ok real (auth t)" using read_command_fields [OF rc] Cons(2) by simp
  show ?case
  proof (cases "ready \<and> c \<noteq> None")
    case False
    then show ?thesis
      using Cons rc t die_session [of ERR_RD_TIMEOUT 106 st s] session_ok_level
      by (cases c) (auto split: if_splits)
  next
    case True
    then obtain command r where c: "c = Some (command, r)" by auto
    show ?thesis
    proof (cases "find_command (logged_in (auth t)) command (Functions :: 'w func_t list)")
      case None
      with True c rc Cons(3) obtain t' where e: "show_error ERR_INVALID_COMMAND 107 t = Some t'"
        "outcome_session (command_loop B rs (wait_write t')) = Some s"
        by (auto split: option.splits)
      then show ?thesis using Cons(1) [of "wait_write t'"] show_error_fields [OF e(1)] t by simp
    next
      case (Some lf)
      obtain l f where lf: "lf = (l, f)" by fastforce
      let ?t = "t\<lparr>s_rest := r\<rparr>"
      have "keeps_auth ?t (f B ?t)"
        using find_command_mem Some lf keeps_auth_command t assms(1) by fastforce
      then have "session_ok real (auth (wait_write s'))" "0 < logged_in (auth s')"
        if "f B ?t = Ret x s' \<or> f B ?t = Exit x s'" for x s'
        using that t session_ok_level by auto
      then show ?thesis
        using True c rc Some lf Cons(3) Cons(1) [of "wait_write _"] by (cases "f B ?t") auto
    qed
  qed
qed

text \<open>
  C4. Over every run of the daemon, with any input and any back end that answers a look-up with the
  entry of that user and the real name of its domain: everything the session has done or shown is
  permitted to the identity that has logged in. Without a login it has done nothing; a system
  administrator has used only files of the domains directory, a domain administrator only its own
  domain and the files of the directory of that domain, a mailbox user has changed no entry but its
  own and used only files of its own directory. A file is one of a directory when its path, followed
  component by component with every \<^verbatim>\<open>..\<close> going one up, leads to the directory or below it, or to a sibling
  whose name only starts with the name of the directory, or below that: the code compares bare prefixes,
  so that bob reaches the files of bobby (\<open>sibling_directory\<close>) and the administrator of a.org those of
  a.org.uk (\<open>sibling_domain\<close>). The directories that the back end gives, and the domains directory, have no
  component \<^verbatim>\<open>..\<close> of their own in the 255 bytes that are kept of them, and no component is a symbolic link.
\<close>

theorem session_effects_permitted:
  assumes "backend_ok real B" "dotless_dirs B" "effects st = []" "logged_in (auth st) = 0"
    "outcome_session (vpopmaild_main B opened rs st) = Some s"
  shows "list_all (permitted (auth s)) (effects s)"
proof (cases opened)
  case True
  with assms login_loop_within [OF assms(1,2), of "say RET_OK st" 0 0 rs s] show ?thesis
    by (simp add: vpopmaild_main_def within_def)
next
  case False
  with assms show ?thesis by (auto simp: vpopmaild_main_def dest: die_session)
qed

lemma demo_backend_ok: "backend_ok (\<lambda>_. ''a.org'') demo_backend"
proof -
  have "lowerit ''a.org'' = ''a.org''" "is_domain_valid ''a.org''" by code_simp+
  then show ?thesis by (simp add: backend_ok_def demo_backend_def demo_pw_def)
qed

lemma lowercase_dot: "CHR ''.'' \<in> set (lowercase u) \<Longrightarrow> CHR ''.'' \<in> set u"
proof -
  have "tolower_c c = CHR ''.'' \<Longrightarrow> c = CHR ''.''" for c
    using tolower_c_code [of c] by (auto simp: tolower_c_def Let_def split: if_splits)
  then show "CHR ''.'' \<in> set (lowercase u) \<Longrightarrow> CHR ''.'' \<in> set u"
    unfolding lowercase_def by (metis imageE list.set_map)
qed

lemma components_no_dot: "CHR ''.'' \<notin> set p \<Longrightarrow> ''..'' \<notin> set (components p)"
  using component_contained by fastforce

lemma demo_dotless: "dotless_dirs demo_backend"
proof -
  have "dotless (snprintf_str 256 (''/v/a.org/'' @ lowercase u))" if "CHR ''.'' \<notin> set u" for u
  proof -
    have "CHR ''.'' \<notin> set (lowercase u)" using that lowercase_dot [of u] by blast
    then have "CHR ''.'' \<notin> set (take 246 (lowercase u))" by (meson in_set_takeD)
    then have "dotless (take 246 (lowercase u))" using components_no_dot by (simp add: dotless_def)
    moreover have "components ''/v/a.org/'' = [[], ''v'', ''a.org'', []]" by code_simp
    ultimately show ?thesis by (simp add: snprintf_str_def dotless_def)
  qed
  moreover have "dotless ''/v/a.org''" "dotless (snprintf_str 256 (DIR_DOMAINS demo_backend))" by code_simp+
  ultimately show ?thesis
    by (auto simp: dotless_dirs_def demo_backend_def demo_pw_def snprintf_str_def split: if_splits)
qed

definition demo_input :: "char list" where
  "demo_input =
     ''slogin joe@a.org secret'' @ [LF] @ ''rm_file /v/a.org/joe/x'' @ [LF] @ ''rm_file /v/a.org/bob/x'' @ [LF]"

definition demo_start :: "unit session" where
  "demo_start = demo_session [] 0 0 [] demo_input"

lemma demo_run:
  "map_option effects (outcome_session (vpopmaild_main demo_backend True [True, True, True] demo_start))
     = Some [Unlink ''/v/a.org/joe/x'']"
  by code_simp

theorem session_effects_permitted_witness:
  "\<exists>s. outcome_session (vpopmaild_main demo_backend True [True, True, True] demo_start) = Some s
     \<and> effects s = [Unlink ''/v/a.org/joe/x''] \<and> list_all (permitted (auth s)) (effects s)"
proof -
  obtain s where s: "outcome_session (vpopmaild_main demo_backend True [True, True, True] demo_start) = Some s"
    "effects s = [Unlink ''/v/a.org/joe/x'']"
    using demo_run by auto
  have "effects demo_start = []" "logged_in (auth demo_start) = 0"
    by (simp_all add: demo_start_def demo_session_def)
  from session_effects_permitted [OF demo_backend_ok demo_dotless this s(1)] s show ?thesis by blast
qed


section \<open>Logging in\<close>

lemma login_identity_level:
  assumes "login_identity doms pw u d dir = Some i"
  shows "TheUser i = u" "TheDomain i = d" "TheUserDir i = snprintf_str 256 (pw_dir pw)"
    "TheDomainDir i = snprintf_str 256 dir" "TheVpopmailDomains i = snprintf_str 256 doms"
    "logged_in i = (if has_flag pw SA_ADMIN then 3
       else if has_flag pw QA_ADMIN \<or> pw_name pw = ''postmaster'' then 2 else 1)"
    "is_sa i = (logged_in i = 3)" "logged_in i = 2 \<Longrightarrow> is_qa i" "logged_in i = 1 \<Longrightarrow> \<not> is_qa i"
proof -
  have "(w OR QA_ADMIN) AND SA_ADMIN = w AND SA_ADMIN" "(w OR QA_ADMIN) AND QA_ADMIN = QA_ADMIN" for w :: "32 word"
    by (simp_all add: bit.conj_disj_distrib2 QA_ADMIN_def SA_ADMIN_def)
  moreover have "QA_ADMIN \<noteq> 0" by (simp add: QA_ADMIN_def)
  ultimately show "TheUser i = u" "TheDomain i = d" "TheUserDir i = snprintf_str 256 (pw_dir pw)"
    "TheDomainDir i = snprintf_str 256 dir" "TheVpopmailDomains i = snprintf_str 256 doms"
    "logged_in i = (if has_flag pw SA_ADMIN then 3
       else if has_flag pw QA_ADMIN \<or> pw_name pw = ''postmaster'' then 2 else 1)"
    "is_sa i = (logged_in i = 3)" "logged_in i = 2 \<Longrightarrow> is_qa i" "logged_in i = 1 \<Longrightarrow> \<not> is_qa i"
    using assms
    by (auto simp: login_identity_def Let_def is_sa_def is_qa_def has_flag_def snprintf_str_def split: if_splits)
qed


lemma demo_login:
  "(case login demo_backend ((demo_session [] 0 0 ''postmaster@a.org secret'' [])\<lparr>output_type := 2\<rparr>) of
      Ret x s \<Rightarrow> (x, TheUser (auth s), logged_in (auth s)) | _ \<Rightarrow> (1, [], 0)) = (0, ''postmaster'', 2)"
  by code_simp


text \<open>Before the login at most \<open>LOGIN_ACTIVITY\<close> lines are read.\<close>

lemma login_loop_bound:
  fixes B :: "'w backend"
  assumes "backend_ok real B" "login_loop B a n rs st = Running s" "LOGIN_ACTIVITY \<le> a + length rs"
  shows "0 < logged_in (auth s)"
  using assms(2,3)
proof (induction rs arbitrary: a n st)
  case Nil
  then show ?case
    by (simp add: login_loop.simps [of B a n "[]"] die_def split: if_splits option.splits)
next
  case (Cons ready rs)
  obtain c t where rc: "read_command st = (c, t)" by fastforce
  note res = Cons(2) [unfolded login_loop.simps [of B a n "ready # rs" st]]
  have no_die: "die m k q \<noteq> Running s" for m k and q :: "'w session" by (simp add: die_def split: option.splits)
  show ?case
  proof (cases "a + 1 \<le> LOGIN_ACTIVITY \<and> ready \<and> c \<noteq> None")
    case False
    then show ?thesis using Cons(1,3) res rc no_die by (cases c) (fastforce split: if_splits)+
  next
    case True
    then obtain command r where c: "c = Some (command, r)" by auto
    show ?thesis
    proof (cases "find_command 2 command (LoginFunctions :: 'w func_t list)")
      case None
      with True c rc res Cons(1,3) show ?thesis by (fastforce split: option.splits)
    next
      case (Some lf)
      obtain l f where lf: "lf = (l, f)" by fastforce
      let ?t = "t\<lparr>s_rest := r, output_type := l\<rparr>"
      have f: "f = login \<or> f = login_help \<or> f = quit"
        using find_command_mem [of 2 command LoginFunctions l f] Some lf
        by (auto simp: LoginFunctions_def login_table_def)
      have ret: "session_ok real (auth q)" if "f B ?t = Ret x q" "x \<le> 0" "x \<noteq> - 1" "x \<noteq> - 2" for x q
        using that f login_result [OF _ assms(1), of ?t x q] by (auto simp: quit_def login_help_def)
      show ?thesis
      proof (cases "f B ?t")
        case (Ret x q)
        have ih: "0 < logged_in (auth s)" if "login_loop B (a + 1) n' rs (wait_write q) = Running s" for n'
          using Cons(1) [OF that] Cons(3) by simp
        have cl: "0 < logged_in (auth s)" if "command_loop B rs (wait_write q) = Running s"
          "x \<le> 0" "x \<noteq> - 1" "x \<noteq> - 2"
          using command_loop_level [OF assms(1), of "wait_write q" rs s] ret [OF Ret that(2-4)] that(1) by simp
        show ?thesis
          using True c rc Some lf Ret res ih cl no_die by (auto split: if_splits)
      qed (use True c rc Some lf res in auto)
    qed
  qed
qed

text \<open>
  C26. After four lines without a login the daemon does not read on: it has answered with an error and has
  ended, whatever the lines were.
\<close>

theorem login_lines_bounded:
  assumes "backend_ok real B" "vpopmaild_main B opened rs st = Running s" "4 \<le> length rs"
  shows "0 < logged_in (auth s)"
proof (cases opened)
  case True
  with assms login_loop_bound [OF assms(1), of 0 0 rs "say RET_OK st" s] show ?thesis
    by (simp add: vpopmaild_main_def LOGIN_ACTIVITY_def)
next
  case False
  with assms show ?thesis by (simp add: vpopmaild_main_def die_def split: option.splits)
qed

lemma demo_running:
  "(case vpopmaild_main demo_backend True [True, True, True, True]
      (demo_session [] 0 0 [] ([LF] @ ''user'' @ [LF] @ ''slogin joe@a.org secret'' @ [LF] @ [LF])) of
      Running s \<Rightarrow> True | _ \<Rightarrow> False)"
  by code_simp

theorem login_lines_bounded_witness:
  "\<exists>s. vpopmaild_main demo_backend True [True, True, True, True]
        (demo_session [] 0 0 [] ([LF] @ ''user'' @ [LF] @ ''slogin joe@a.org secret'' @ [LF] @ [LF]))
          = Running s \<and> 0 < logged_in (auth s)"
proof -
  obtain s where s: "vpopmaild_main demo_backend True [True, True, True, True]
        (demo_session [] 0 0 [] ([LF] @ ''user'' @ [LF] @ ''slogin joe@a.org secret'' @ [LF] @ [LF]))
          = Running s"
    using demo_running by (auto split: outcome.splits)
  from login_lines_bounded [OF demo_backend_ok s] s show ?thesis by simp
qed

section \<open>Behaviours worth knowing\<close>

text \<open>At the end of its input the daemon goes on reading, for ever.\<close>

lemma end_of_input_loops:
  "stdin st = [] \<Longrightarrow> command_loop B (replicate n True) st = Running st"
  by (induction n) (simp_all add: read_command_def)

text \<open>A path below a directory whose name only starts with that of the user's directory is accepted.\<close>

lemma sibling_directory:
  "validate_path demo_backend (demo_session ''bob'' 0 1 [] []) ''/v/a.org/bobby/Maildir/new/1''
     = VPath ''/v/a.org/bobby/Maildir/new/1''"
  by code_simp

text \<open>A domain administrator reaches a domain whose directory starts with the name of its own.\<close>

lemma sibling_domain:
  "validate_path demo_backend (demo_session ''postmaster'' 4096 2 [] []) ''/v/a.org.uk/joe/Maildir''
     = VPath ''/v/a.org.uk/joe/Maildir''"
  by code_simp

text \<open>Three numbers that \<open>show_error\<close> is called with are not in the table of messages, or name another one.\<close>

lemma error_table:
  "show_error m n st = None \<longleftrightarrow> 37 < m"
  "ErrorMessages ! ERR_IP_REQUIRED = ''Cannot determine my UID or GID''"
  "fail_with ERR_INVALID_DOMAIN 3104 st = Fault" "fail_with ERR_UNKNOWN_UIDGID 2000 st = Fault"
  by (auto simp: show_error_def ErrorMessages_def fail_with_def)

text \<open>For an address without aliases the answer is only the final dot.\<close>

lemma list_alias_nothing:
  assumes "is_sa (auth st)" "strtok TOKENS (s_rest st) = Some (d, r)" "length d < 156"
    "parse_email (bk_env B) d 256 = Some (Some (u, e))" "CHR ''@'' \<in> set (lowerit d)"
    "bk_valias B (world st) u e = []"
  shows "list_alias B st = Ret 0 (set_write final_dot (set_write RET_OK st))"
  using assms
  by (simp add: list_alias_def no_admin_def other_domain_def snprintf_str_def contains_char Let_def reply_def)

text \<open>The data lines after a \<open>write_file\<close> that is refused stay in the input, to be read as commands.\<close>

lemma write_file_refused:
  assumes "strtok TOKENS (s_rest st) = Some (p, r)" "validate_path B st p = VErr x m n" "write_file B st = Ret y s"
  shows "stdin s = stdin st" "y = - 1"
  using assms
  by (auto simp: write_file_def with_path_def fail_with_def show_error_def split: if_splits)

end
