(* ===== verification/Maildirquota.thy ===== *)
theory Maildirquota
  imports Vlimits Quota
begin

text \<open>
  The quota of a Maildir without the usage daemon (\<^verbatim>\<open>maildirquota.c\<close>): the file \<^verbatim>\<open>maildirsize\<close> that
  accumulates sizes and counts, the counting of a Maildir, the comparison with a quota, and the decisions
  for a delivery.

  What is on disk is the record \<open>mdfs\<close>: contents of files, names in a directory, sizes and modification
  times. A second record stands for the disk at the time of the second pass that looks for changes.
  Allocation, \<open>fstat\<close> on an open file and reading it succeed; sizes are added as \<open>off_t\<close>, counts as
  \<open>int\<close>, both with the wrap-around of the machine.
\<close>

section \<open>Numbers\<close>

definition add64 :: "int \<Rightarrow> int \<Rightarrow> int" where
  "add64 a b = sint (word_of_int (a + b) :: 64 word)"

definition add32 :: "int \<Rightarrow> int \<Rightarrow> int" where
  "add32 a b = sint (word_of_int (a + b) :: 32 word)"

definition int_of :: "int \<Rightarrow> int" where
  "int_of a = sint (word_of_int a :: 32 word)"

text \<open>One number of \<open>sscanf\<close>: its value and what follows it.\<close>

definition scan_long :: "string \<Rightarrow> (int \<times> string) option" where
  "scan_long s =
     (let t = dropWhile is_space s; u = snd (strip_sign t)
      in if u = [] \<or> \<not> is_digit (hd u) then None else Some (strtoll t, dropWhile is_digit u))"

text \<open>\<open>sscanf(q, "%ld %d", &n, &c)\<close> with both set to 0 before.\<close>

definition scan_entry :: "string \<Rightarrow> int \<times> int" where
  "scan_entry q =
     (case scan_long q of
        None \<Rightarrow> (0, 0)
      | Some (n, r) \<Rightarrow> (case scan_long r of None \<Rightarrow> (n, 0) | Some (c, _) \<Rightarrow> (n, int_of c)))"

definition imul32 :: "int \<Rightarrow> int \<Rightarrow> int" where
  "imul32 a b = sint (word_of_int (a * b) :: 32 word)"

section \<open>The file maildirsize\<close>

definition MAILDIRSIZE_BUF :: nat where
  "MAILDIRSIZE_BUF = 5120"

lemma length_next_line: "p \<noteq> [] \<Longrightarrow> length (tl (dropWhile P p)) < length p"
  using length_dropWhile_le [of P p] by (cases p) (auto simp: less_Suc_eq_le)

text \<open>The lines after the first: totals and number of lines.\<close>

function size_lines :: "string \<Rightarrow> bool \<Rightarrow> int \<Rightarrow> int \<Rightarrow> nat \<Rightarrow> int \<times> int \<times> nat" where
  "size_lines p first sz cnt nlines =
     (if p = [] then (sz, cnt, nlines)
      else let q = takeWhile (\<lambda>c. c \<noteq> LF) p; r = tl (dropWhile (\<lambda>c. c \<noteq> LF) p)
           in if first then size_lines r False sz cnt nlines
              else let (n, c) = scan_entry q in size_lines r False (add64 sz n) (add32 cnt c) (nlines + 1))"
  by pat_completeness auto

termination
  by (relation "measure (\<lambda>(p, f, s, c, n). length p)") (auto simp: length_next_line simp del: length_tl)

declare size_lines.simps [simp del]

definition maildirsize_read :: "char list option \<Rightarrow> (int \<times> int \<times> nat) option" where
  "maildirsize_read file =
     (case file of
        None \<Rightarrow> None
      | Some bytes \<Rightarrow>
          if length bytes \<ge> MAILDIRSIZE_BUF then None else Some (size_lines (c_str bytes) True 0 0 0))"

text \<open>
  The loop around \<open>writev\<close>: the results of its calls are given; a call writes at most what is left. The
  result is whether the function goes on, and the bytes written; \<open>None\<close> when the results run out.
\<close>

function writev_loop :: "int list \<Rightarrow> char list list \<Rightarrow> nat \<Rightarrow> char list \<Rightarrow> (bool \<times> char list) option" where
  "writev_loop rs [] n out = Some (True, out)"
| "writev_loop rs (b # bs) n out =
     (if n \<noteq> 0 \<and> \<not> n < length b then writev_loop rs bs (n - length b) out
      else let iov = drop n b # bs in
        (case rs of
           [] \<Rightarrow> None
         | r # rs' \<Rightarrow>
             let k = min (nat r) (length (concat iov))
             in if k = 0 then Some (False, out) else writev_loop rs' iov k (out @ take k (concat iov))))"
  by pat_completeness auto

termination
  by (relation "measures [\<lambda>(rs, iov, n, out). length rs, \<lambda>(rs, iov, n, out). length iov]") auto

declare writev_loop.simps [simp del]

definition size_entry :: "int \<Rightarrow> int \<Rightarrow> string" where
  "size_entry sz cnt = show_int sz @ '' '' @ show_int cnt @ [LF]"

text \<open>What \<open>doaddquota\<close> writes.\<close>

definition quota_iov :: "string \<Rightarrow> int \<Rightarrow> int \<Rightarrow> bool \<Rightarrow> char list list" where
  "quota_iov quota_type sz cnt isnew =
     (if isnew then [quota_type, [LF]] else []) @ [size_entry sz cnt]"


section \<open>Comparing with a quota\<close>

text \<open>
  \<open>qcalc\<close>: every number of the quota, by the character after it a limit of messages (\<^verbatim>\<open>C\<close>) or of
  bytes. The count is compared as an unsigned number. The result is whether nothing is exceeded, and the
  percentage.
\<close>

definition qcalc_percent :: "int \<Rightarrow> int \<Rightarrow> int" where
  "qcalc_percent i s =
     (let x = (if i > 20000000 then 1024 else 1)
      in if i \<noteq> 0 then int_of (((s sdiv x) * 100) sdiv (i sdiv x)) else 100)"

fun read_number :: "int \<Rightarrow> string \<Rightarrow> int \<times> string" where
  "read_number i [] = (i, [])"
| "read_number i (c # q) =
     (if is_digit c then read_number (add64 (i * 10) (int (of_char c) - 48)) q else (i, c # q))"

lemma length_read_number: "length (snd (read_number i q)) \<le> length q"
  by (induction i q rule: read_number.induct) auto

lemma read_number_shorter: "(j, r) = read_number i q \<Longrightarrow> length r < Suc (length q)"
  using length_read_number [of i q] by (metis le_imp_less_Suc snd_conv)

function qcalc_loop :: "int \<Rightarrow> int \<Rightarrow> string \<Rightarrow> int \<Rightarrow> int \<Rightarrow> bool \<times> int" where
  "qcalc_loop s n [] sp np = (True, if sp > np then sp else np)"
| "qcalc_loop s n (c # q) sp np =
     (if \<not> is_digit c then qcalc_loop s n q sp np
      else case read_number 0 (c # q) of
        (i, r) \<Rightarrow>
          if r \<noteq> [] \<and> hd r = CHR ''C''
          then (if i < n then (False, 100) else qcalc_loop s n r sp (qcalc_percent i n))
          else (if i < s then (False, 100) else qcalc_loop s n r (qcalc_percent i s) np))"
  by pat_completeness auto

termination
  by (relation "measure (\<lambda>(s, n, q, sp, np). length q)") (auto dest: read_number_shorter)

declare qcalc_loop.simps [simp del]

definition qcalc :: "int \<Rightarrow> int \<Rightarrow> string \<Rightarrow> bool \<times> int" where
  "qcalc s n quota = qcalc_loop s (uint (word_of_int n :: 32 word)) quota 0 0"

section \<open>Counting a Maildir\<close>

record mdfs =
  md_file :: "string \<Rightarrow> char list option"     \<comment> \<open>contents\<close>
  md_dir :: "string \<Rightarrow> string list option"     \<comment> \<open>names in a directory\<close>
  md_size :: "string \<Rightarrow> int option"            \<comment> \<open>\<open>st_size\<close>\<close>
  md_mtime :: "string \<Rightarrow> int option"           \<comment> \<open>\<open>st_mtime\<close> of what exists\<close>

text \<open>The size in the name of a message, as an \<open>unsigned long\<close>: the last \<^verbatim>\<open>,S=\<close> before the colon.\<close>

definition base_name :: "string \<Rightarrow> string" where
  "base_name n = (if CHR ''/'' \<in> set n then rev (takeWhile (\<lambda>c. c \<noteq> CHR ''/'') (rev n)) else n)"

fun last_size_field :: "string \<Rightarrow> string \<Rightarrow> string option" where
  "last_size_field [] full = None"
| "last_size_field (c # s) full =
     (case last_size_field s (tl full) of
        Some r \<Rightarrow> Some r
      | None \<Rightarrow> if take 3 full = '',S='' then Some (drop 3 full) else None)"

fun read_ulong :: "64 word \<Rightarrow> string \<Rightarrow> 64 word" where
  "read_ulong w [] = w"
| "read_ulong w (c # s) = (if is_digit c then read_ulong (w * 10 + (of_nat (of_char c) - 48)) s else w)"

definition maildir_parsequota :: "string \<Rightarrow> (64 word) option" where
  "maildir_parsequota n =
     (let b = base_name n
      in map_option (read_ulong 0) (last_size_field (takeWhile (\<lambda>c. c \<noteq> CHR '':'') b) b))"

text \<open>The flags of a name, after the first \<^verbatim>\<open>:2,\<close>: whether \<^verbatim>\<open>T\<close> comes in the run of capitals.\<close>

fun marked_deleted :: "string \<Rightarrow> bool" where
  "marked_deleted [] = False"
| "marked_deleted (c # s) =
     (if take 3 (c # s) = '':2,''
      then (let t = dropWhile (\<lambda>c. 65 \<le> (of_char c :: nat) \<and> (of_char c :: nat) \<le> 90 \<and> c \<noteq> CHR ''T'') (drop 3 (c # s))
            in t \<noteq> [] \<and> hd t = CHR ''T'')
      else marked_deleted s)"

text \<open>What one entry adds; \<open>None\<close> when it is passed over.\<close>

definition message_size :: "mdfs \<Rightarrow> string \<Rightarrow> string \<Rightarrow> int option" where
  "message_size fs dir n =
     (if n \<noteq> [] \<and> hd n = CHR ''.'' then None
      else if marked_deleted n then None
      else case maildir_parsequota n of
        Some w \<Rightarrow> Some (sint w)
      | None \<Rightarrow> md_size fs (dir @ ''/'' @ n))"

fun docount_loop :: "mdfs \<Rightarrow> string \<Rightarrow> string list \<Rightarrow> int \<times> int \<Rightarrow> int \<times> int" where
  "docount_loop fs dir [] t = t"
| "docount_loop fs dir (n # ns) (sz, cnt) =
     docount_loop fs dir ns
       (case message_size fs dir n of None \<Rightarrow> (sz, cnt) | Some s \<Rightarrow> (add64 sz s, add32 cnt 1))"

definition docount :: "mdfs \<Rightarrow> string \<Rightarrow> int \<Rightarrow> int \<times> int \<Rightarrow> int \<times> int \<times> int" where
  "docount fs dir stamp t =
     (case md_mtime fs dir of
        None \<Rightarrow> (stamp, t)
      | Some m \<Rightarrow>
          (max m stamp, case md_dir fs dir of None \<Rightarrow> t | Some ns \<Rightarrow> docount_loop fs dir ns t))"

definition countcurnew :: "mdfs \<Rightarrow> string \<Rightarrow> int \<Rightarrow> int \<times> int \<Rightarrow> int \<times> int \<times> int" where
  "countcurnew fs dir maxtime t =
     (case docount fs (dir @ ''/new'') maxtime t of (m, t') \<Rightarrow> docount fs (dir @ ''/cur'') m t')"

definition skip_subdir :: "string \<Rightarrow> bool" where
  "skip_subdir d \<longleftrightarrow> d = [] \<or> hd d \<noteq> CHR ''.'' \<or> d = ''.'' \<or> d = ''..'' \<or> d = ''.Trash''"

definition countsubdir :: "mdfs \<Rightarrow> string \<Rightarrow> string \<Rightarrow> int \<times> int \<times> int \<Rightarrow> int \<times> int \<times> int" where
  "countsubdir fs dir subdir a =
     (case a of (maxtime, t) \<Rightarrow>
        if skip_subdir subdir then (maxtime, t) else countcurnew fs (dir @ ''/'' @ subdir) maxtime t)"

definition statcurnew :: "mdfs \<Rightarrow> string \<Rightarrow> int \<Rightarrow> int" where
  "statcurnew fs dir maxtime =
     (let m = (case md_mtime fs (dir @ ''/cur'') of None \<Rightarrow> maxtime | Some x \<Rightarrow> max x maxtime)
      in case md_mtime fs (dir @ ''/new'') of None \<Rightarrow> m | Some x \<Rightarrow> max x m)"

definition statsubdir :: "mdfs \<Rightarrow> string \<Rightarrow> string \<Rightarrow> int \<Rightarrow> int" where
  "statsubdir fs dir subdir maxtime =
     (if skip_subdir subdir then maxtime else statcurnew fs (dir @ ''/'' @ subdir) maxtime)"

definition subdirs :: "mdfs \<Rightarrow> string \<Rightarrow> string list" where
  "subdirs fs dir = (case md_dir fs dir of None \<Rightarrow> [] | Some ns \<Rightarrow> ns)"

text \<open>Both passes: the newest time and the totals; the newest time again.\<close>

definition count_maildir :: "mdfs \<Rightarrow> string \<Rightarrow> int \<times> int \<Rightarrow> int \<times> int \<times> int" where
  "count_maildir fs dir t = foldl (\<lambda>a d. countsubdir fs dir d a) (countcurnew fs dir 0 t) (subdirs fs dir)"

definition stat_maildir :: "mdfs \<Rightarrow> string \<Rightarrow> int" where
  "stat_maildir fs dir = foldl (\<lambda>m d. statsubdir fs dir d m) (statcurnew fs dir 0) (subdirs fs dir)"

text \<open>
  \<open>wrapreaduserquota\<close>: the totals are added to what the caller passed, also when the second pass finds
  a change (\<open>False\<close>, with \<open>EAGAIN\<close>).
\<close>

definition readuserquota :: "mdfs \<Rightarrow> mdfs \<Rightarrow> string \<Rightarrow> int \<times> int \<Rightarrow> bool \<times> int \<times> int" where
  "readuserquota fs fs2 dir t =
     (case count_maildir fs dir t of (maxtime, t') \<Rightarrow> (stat_maildir fs2 dir = maxtime, t'))"

text \<open>
  The attempts for one user: the disk of the \<open>k\<close>-th attempt of the whole run is \<open>at k\<close>. The loop counts
  \<open>tries\<close> down before each attempt, so a success at the last one leaves 0 and is a failure.
\<close>

fun user_tries ::
  "(nat \<Rightarrow> mdfs \<times> mdfs) \<Rightarrow> string \<Rightarrow> nat \<Rightarrow> nat \<Rightarrow> int \<times> int \<Rightarrow> (nat \<times> int \<times> int) option" where
  "user_tries at dir 0 k t = None"
| "user_tries at dir (Suc tries) k t =
     (case readuserquota (fst (at k)) (snd (at k)) dir t of
        (True, t') \<Rightarrow> if tries = 0 then None else Some (k + 1, t')
      | (False, t') \<Rightarrow> user_tries at dir tries (k + 1) t')"

text \<open>
  \<open>readdomainquota\<close> with hashed directories (\<open>USERS_BIG_DIR\<close>); the first argument bounds the depth of the
  recursion, and every call starts its totals at 0. \<open>None\<close> outside is a depth that does not suffice.
\<close>

fun readdomainquota ::
  "nat \<Rightarrow> (nat \<Rightarrow> mdfs \<times> mdfs) \<Rightarrow> string \<Rightarrow> nat \<Rightarrow> (nat \<times> int \<times> int) option option" where
  "readdomainquota 0 at dir k = None"
| "readdomainquota (Suc fuel) at dir k =
     foldl (\<lambda>a n.
         case a of
           Some (Some (k', t)) \<Rightarrow>
             if n = ''.'' \<or> n = ''..'' then Some (Some (k', t))
             else if length n = 1
             then readdomainquota fuel at (snprintf_str 256 (dir @ ''/'' @ n)) k'
             else Some (user_tries at (snprintf_str 256 (dir @ ''/'' @ n @ ''/Maildir/'')) 5 k' t)
         | _ \<Rightarrow> a)
       (Some (Some (k, 0, 0))) (subdirs (fst (at k)) dir)"

section \<open>Adding to the file and checking\<close>

text \<open>
  \<open>doaddquota\<close> on an open file: the bytes that reach it, or the failure of \<open>writev\<close>.
\<close>

definition addquota_bytes :: "int list \<Rightarrow> string \<Rightarrow> int \<Rightarrow> int \<Rightarrow> bool \<Rightarrow> (bool \<times> char list) option" where
  "addquota_bytes rs quota_type sz cnt isnew = writev_loop rs (quota_iov quota_type sz cnt isnew) 0 []"

definition append_file :: "mdfs \<Rightarrow> string \<Rightarrow> char list \<Rightarrow> mdfs" where
  "append_file fs p d =
     fs\<lparr>md_file := (md_file fs)(p := Some ((case md_file fs p of None \<Rightarrow> [] | Some b \<Rightarrow> b) @ d))\<rparr>"

text \<open>
  \<open>doaddquota\<close> without an open file: the file of the directory, or of its parent when it is a folder. A
  missing file is created in \<^verbatim>\<open>tmp\<close> and renamed. \<open>None\<close> outside: the results of \<open>writev\<close>, or the depth for
  folders, run out. What \<open>makenewmaildirsizename\<close> meets is \<open>Created\<close>, a new file and its descriptor;
  \<open>NotOpened\<close>, the file cannot be opened and the descriptor is negative; \<open>Taken b\<close>, at each of the three
  attempts there is a file of that name, with contents \<open>b\<close>: the descriptor is then left as it was and
  \<open>doaddquota\<close> goes on with that file.
\<close>

datatype newfile = Created | NotOpened | Taken "char list"

fun doaddquota ::
  "nat \<Rightarrow> newfile \<Rightarrow> int list \<Rightarrow> mdfs \<Rightarrow> string \<Rightarrow> string \<Rightarrow> int \<Rightarrow> int \<Rightarrow> bool \<Rightarrow> (bool \<times> mdfs) option" where
  "doaddquota 0 mk rs fs dir quota_type sz cnt isnew = None"
| "doaddquota (Suc fuel) mk rs fs dir quota_type sz cnt isnew =
     (if md_mtime fs (dir @ ''/maildirfolder'') \<noteq> None
      then doaddquota fuel mk rs fs (dir @ ''/..'') quota_type sz cnt isnew
      else let p = dir @ ''/maildirsize''
      in if md_file fs p \<noteq> None
         then map_option (\<lambda>(ok, d). (ok, append_file fs p d)) (addquota_bytes rs quota_type sz cnt isnew)
         else (case mk of
             NotOpened \<Rightarrow> Some (False, fs)
           | Created \<Rightarrow>
               map_option (\<lambda>(ok, d). if ok then (True, append_file fs p d) else (False, fs))
                 (addquota_bytes rs quota_type sz cnt True)
           | Taken b \<Rightarrow>
               map_option (\<lambda>(ok, d). if ok then (True, append_file fs p (b @ d)) else (False, fs))
                 (addquota_bytes rs quota_type sz cnt True)))"

text \<open>The result of \<open>docheckquota\<close>: its return value, whether \<open>errno\<close> is \<open>EAGAIN\<close>, the percentage.\<close>

record check_result =
  ck_ret :: int
  ck_again :: bool
  ck_percent :: int
  ck_fs :: mdfs

definition of_qcalc :: "bool \<times> int \<Rightarrow> mdfs \<Rightarrow> check_result" where
  "of_qcalc r fs = \<lparr>ck_ret = (if fst r then 0 else - 1), ck_again = False, ck_percent = snd r, ck_fs = fs\<rparr>"

text \<open>
  The part that rebuilds the file: the disk now, and at the time of the second pass. \<open>old\<close> says that the old
  file was read, so that \<open>maildirsize_fd\<close> is its descriptor, which has been closed; otherwise the variable
  is not set. A negative descriptor makes \<open>doaddquota\<close> open the old file again. When all names are taken, it
  is given the closed descriptor, and writing to it fails, or the variable that is not set (\<open>None\<close>).
\<close>

definition rebuild ::
  "bool \<Rightarrow> newfile \<Rightarrow> int list \<Rightarrow> mdfs \<Rightarrow> mdfs \<Rightarrow> string \<Rightarrow> string \<Rightarrow> int \<Rightarrow> int \<Rightarrow> int \<Rightarrow> check_result option" where
  "rebuild old mk rs fs fs2 dir quota_type xtra_size xtra_cnt percentage =
     (case count_maildir fs dir (0, 0) of
        (maxtime, sz, cnt) \<Rightarrow>
          (case (case mk of
                   Created \<Rightarrow>
                     map_option (\<lambda>(ok, d).
                        (ok, if ok then fs\<lparr>md_file := (md_file fs)(dir @ ''/maildirsize'' \<mapsto> d)\<rparr> else fs))
                        (addquota_bytes rs quota_type sz cnt True)
                 | NotOpened \<Rightarrow> doaddquota 1 mk rs fs dir quota_type sz cnt True
                 | Taken b \<Rightarrow> if old then Some (False, fs) else None) of
             None \<Rightarrow> None
           | Some (False, fs') \<Rightarrow> Some \<lparr>ck_ret = - 1, ck_again = False, ck_percent = percentage, ck_fs = fs'\<rparr>
           | Some (True, fs') \<Rightarrow>
               if stat_maildir fs2 dir \<noteq> maxtime
               then Some \<lparr>ck_ret = - 1, ck_again = True, ck_percent = percentage, ck_fs = fs'\<rparr>
               else Some (of_qcalc (qcalc (add64 sz xtra_size) (add32 cnt xtra_cnt) quota_type) fs')))"

fun docheckquota ::
  "nat \<Rightarrow> bool \<Rightarrow> newfile \<Rightarrow> int list \<Rightarrow> int \<Rightarrow> mdfs \<Rightarrow> mdfs \<Rightarrow> string \<Rightarrow> string \<Rightarrow> int \<Rightarrow> int \<Rightarrow> int
     \<Rightarrow> check_result option" where
  "docheckquota 0 ids mk rs tm fs fs2 dir quota_type xtra_size xtra_cnt percentage = None"
| "docheckquota (Suc fuel) ids mk rs tm fs fs2 dir quota_type xtra_size xtra_cnt percentage =
     (if \<not> ids then Some \<lparr>ck_ret = - 67, ck_again = False, ck_percent = percentage, ck_fs = fs\<rparr>
      else if md_mtime fs (dir @ ''/maildirfolder'') \<noteq> None
      then docheckquota fuel ids mk rs tm fs fs2 (dir @ ''/..'') quota_type xtra_size xtra_cnt percentage
      else if quota_type = [] then Some \<lparr>ck_ret = 0, ck_again = False, ck_percent = percentage, ck_fs = fs\<rparr>
      else case maildirsize_read (md_file fs (dir @ ''/maildirsize'')) of
        None \<Rightarrow> rebuild False mk rs fs fs2 dir quota_type xtra_size xtra_cnt percentage
      | Some (sz, cnt, nlines) \<Rightarrow>
          let n = qcalc (add64 sz xtra_size) (add32 cnt xtra_cnt) quota_type
          in if fst n then Some (of_qcalc n fs)
             else if nlines = 1 \<and> (case md_mtime fs (dir @ ''/maildirsize'') of None \<Rightarrow> False | Some m \<Rightarrow> tm < m + 15 * 60)
             then Some (of_qcalc n fs)
             else rebuild True mk rs fs fs2 dir quota_type xtra_size xtra_cnt (snd n))"


section \<open>Decisions\<close>

text \<open>
  \<open>daemon\<close> is \<open>client_query_quick\<close>, \<open>to_email\<close> is \<open>maildir_to_email\<close>, \<open>percent\<close> the computation in
  \<open>long double\<close>. A session of checks has the arguments of \<open>docheckquota\<close> in the record \<open>mdenv\<close>.
\<close>

record mdenv =
  me_daemon :: "string \<Rightarrow> (storage_t \<times> storage_t) option"
  me_email :: "string \<Rightarrow> string option"
  me_percent :: "storage_t \<Rightarrow> storage_t \<Rightarrow> int"
  me_again :: bool                  \<comment> \<open>\<open>errno\<close> is \<open>EAGAIN\<close> when the daemon has answered\<close>
  me_depth :: nat
  me_ids :: bool
  me_create :: newfile
  me_writev :: "int list"
  me_now :: int
  me_disk :: mdfs
  me_later :: mdfs

definition check_here :: "mdenv \<Rightarrow> string \<Rightarrow> string \<Rightarrow> int \<Rightarrow> int \<Rightarrow> check_result option" where
  "check_here E dir quota_type xtra_size xtra_cnt =
     docheckquota (me_depth E) (me_ids E) (me_create E) (me_writev E) (me_now E) (me_disk E) (me_later E) dir
       quota_type xtra_size xtra_cnt 0"

definition clamp_percent :: "int \<Rightarrow> int" where
  "clamp_percent fd = (let fd = (if fd > 100 then 100 else fd) in if fd < 0 then 0 else fd)"

definition vmaildir_readquota :: "mdenv \<Rightarrow> string \<Rightarrow> string \<Rightarrow> int option" where
  "vmaildir_readquota E dir quota_type =
     (case (case me_email E dir of None \<Rightarrow> None | Some e \<Rightarrow> me_daemon E e) of
        Some (uusage, _) \<Rightarrow>
          if uusage \<noteq> no_usage
          then (case quota_mtos quota_type of
                  None \<Rightarrow> None
                | Some (usquota, _) \<Rightarrow> Some (clamp_percent (me_percent E uusage usquota)))
          else Some 0
      | None \<Rightarrow> map_option ck_percent (check_here E dir quota_type 0 0))"

text \<open>With the daemon running the result is a percentage, without it 0 or \<open>-1\<close>.\<close>

definition maildir_checkquota :: "mdenv \<Rightarrow> string \<Rightarrow> string \<Rightarrow> int \<Rightarrow> int \<Rightarrow> (int \<times> bool) option" where
  "maildir_checkquota E dir quota_type xtra_size xtra_cnt =
     (if me_daemon E '' '' \<noteq> None
      then map_option (\<lambda>r. (r, me_again E)) (vmaildir_readquota E dir quota_type)
      else map_option (\<lambda>c. (ck_ret c, ck_again c)) (check_here E dir quota_type xtra_size xtra_cnt))"

text \<open>\<open>message\<close>: the size of what is delivered, when it is a file that is not empty.\<close>

definition user_over_maildirquota :: "mdenv \<Rightarrow> int option \<Rightarrow> string \<Rightarrow> string \<Rightarrow> int option" where
  "user_over_maildirquota E message dir q =
     (case message of
        None \<Rightarrow> Some 0
      | Some sz \<Rightarrow>
          if q = [] then Some 0
          else map_option (\<lambda>(r, again). if r \<noteq> 0 \<and> \<not> again then 1 else 0) (maildir_checkquota E dir q sz 1))"

definition maildir_addquota :: "mdenv \<Rightarrow> string \<Rightarrow> string \<Rightarrow> int \<Rightarrow> int \<Rightarrow> (bool \<times> mdfs) option" where
  "maildir_addquota E dir quota_type sz cnt =
     (if me_daemon E '' '' \<noteq> None \<or> quota_type = [] then Some (True, me_disk E)
      else doaddquota (me_depth E) (me_create E) (me_writev E) (me_disk E) dir quota_type sz cnt False)"

text \<open>
  The quota of a domain. \<open>limits_of\<close> is \<open>vget_limits\<close>, \<open>assign\<close> is \<open>vget_assign\<close> and \<open>at\<close> gives the disk
  of the attempts. The product is computed as an \<open>int\<close>; the sums are compared as unsigned numbers.
\<close>

definition domain_over_maildirquota ::
  "mdenv \<Rightarrow> (string \<Rightarrow> vlimits option) \<Rightarrow> (string \<Rightarrow> string option) \<Rightarrow> (nat \<Rightarrow> mdfs \<times> mdfs)
     \<Rightarrow> int option \<Rightarrow> string \<Rightarrow> int option" where
  "domain_over_maildirquota E limits_of assign at message userdir =
     (case message of
        None \<Rightarrow> Some 0
      | Some msize \<Rightarrow>
      (case me_email E userdir of
        None \<Rightarrow> Some (- 1)
      | Some e \<Rightarrow>
      (case dropWhile (\<lambda>c. c \<noteq> CHR ''@'') e of
        [] \<Rightarrow> Some (- 1)
      | _ # domain \<Rightarrow>
      if length domain \<ge> 256 then None
      else case limits_of domain of
        None \<Rightarrow> Some 0
      | Some l \<Rightarrow>
          let maxsize = (word_of_int (imul32 (diskquota l) (1024 * 1024)) :: 64 word); maxcnt = maxmsgcount l
          in if maxsize = 0 \<and> maxcnt = 0 then Some 0
             else case assign domain of
               None \<Rightarrow> Some (- 1)
             | Some domdir \<Rightarrow>
                 (case (if length domain + 2 < 256 then me_daemon E (''@'' @ domain) else None) of
                    Some (susage, cusage) \<Rightarrow>
                      if susage + word_of_int msize > maxsize then Some 1
                      else if maxcnt \<noteq> 0 \<and> cusage \<ge> word_of_int maxcnt then Some 1
                      else Some 0
                  | None \<Rightarrow>
                      if length domdir \<ge> MAX_PW_DIR then None else
                      (case readdomainquota (me_depth E) at domdir 0 of
                         None \<Rightarrow> None
                       | Some None \<Rightarrow> Some (- 1)
                       | Some (Some (_, sz, cnt)) \<Rightarrow>
                           if maxsize > 0 \<and> (word_of_int (sz + msize) :: 64 word) > maxsize then Some 1
                           else if maxcnt > 0 \<and> cnt \<ge> maxcnt then Some 1
                           else Some 0)))))"


section \<open>A quota file as the list of its entries\<close>

definition long_int :: "int \<Rightarrow> bool" where
  "long_int i \<longleftrightarrow> - (2 ^ 63) \<le> i \<and> i < 2 ^ 63"

lemma sint_word_of_int_64: "long_int i \<Longrightarrow> sint (word_of_int i :: 64 word) = i"
  using signed_take_bit_int_eq_self [of 63 i] by (simp add: signed_of_int long_int_def)

lemma scan_long_show:
  assumes "long_int i" "r = [] \<or> \<not> is_digit (hd r)"
  shows "scan_long (dropWhile is_space (show_int i @ r)) = Some (i, r)"
    and "scan_long (show_int i @ r) = Some (i, r)" and "scan_long (CHR '' '' # show_int i @ r) = Some (i, r)"
proof -
  have skip: "dropWhile is_space (show_int i @ r) = show_int i @ r"
    by (cases "i < 0") (simp_all add: show_int_def not_space_minus)
  have d: "dropWhile is_digit (show_nat n @ r) = r" for n
    using assms(2) show_nat_digits [of _ n] by (cases r) (auto simp: dropWhile_append)
  have s: "snd (strip_sign (show_int i @ r)) = show_nat (nat \<bar>i\<bar>) @ r"
    by (cases "i < 0") (simp_all add: show_int_def strip_sign_def [of "_ # _"])
  have h: "show_nat (nat \<bar>i\<bar>) @ r \<noteq> []" "is_digit (hd (show_nat (nat \<bar>i\<bar>) @ r))"
    using show_nat_ex [of "nat \<bar>i\<bar>"] by auto
  show "scan_long (show_int i @ r) = Some (i, r)" "scan_long (dropWhile is_space (show_int i @ r)) = Some (i, r)"
      "scan_long (CHR '' '' # show_int i @ r) = Some (i, r)"
    using assms(1) strtoll_show_int [OF assms(2)] h
    by (simp_all add: scan_long_def skip s d Let_def long_int_def is_space_def [of "CHR '' ''"])
qed

lemma scan_entry_show:
  assumes "long_int sz" "int32 cnt"
  shows "scan_entry (show_int sz @ '' '' @ show_int cnt) = (sz, cnt)"
proof -
  have l: "long_int cnt" using assms(2) by (simp add: int32_def long_int_def)
  have nd: "\<not> is_digit CHR '' ''" by (simp add: is_digit_def)
  have a: "scan_long (show_int sz @ CHR '' '' # show_int cnt) = Some (sz, CHR '' '' # show_int cnt)"
    using scan_long_show(2) [OF assms(1), of "CHR '' '' # show_int cnt"] nd by simp
  have b: "scan_long (CHR '' '' # show_int cnt) = Some (cnt, [])"
    using scan_long_show(3) [OF l, of "[]"] by simp
  show ?thesis using assms(2) by (simp add: scan_entry_def a b int_of_def sint_word_of_int_32 int32_def)
qed

text \<open>The totals a list of entries stands for.\<close>

fun entry_totals :: "(int \<times> int) list \<Rightarrow> int \<times> int \<times> nat \<Rightarrow> int \<times> int \<times> nat" where
  "entry_totals [] t = t"
| "entry_totals ((n, c) # es) (sz, cnt, l) = entry_totals es (add64 sz n, add32 cnt c, l + 1)"

definition entries_file :: "string \<Rightarrow> (int \<times> int) list \<Rightarrow> char list" where
  "entries_file q es = q @ LF # concat (map (\<lambda>(n, c). size_entry n c) es)"

definition entry_ok :: "int \<times> int \<Rightarrow> bool" where
  "entry_ok e \<longleftrightarrow> long_int (fst e) \<and> int32 (snd e)"

lemma size_lines_line:
  assumes "LF \<notin> set q"
  shows "size_lines (q @ LF # r) first sz cnt l =
    (if first then size_lines r False sz cnt l
     else let (n, c) = scan_entry q in size_lines r False (add64 sz n) (add32 cnt c) (l + 1))"
proof -
  have "takeWhile (\<lambda>c. c \<noteq> LF) (q @ LF # r) = q" "dropWhile (\<lambda>c. c \<noteq> LF) (q @ LF # r) = LF # r"
    using assms by (auto simp: takeWhile_append dropWhile_append)
  then show ?thesis by (subst size_lines.simps) (simp add: Let_def)
qed

lemma LF_show_int: "LF \<notin> set (show_int i)"
  using show_int_chars(2) [of _ i] by auto

lemma size_lines_entries:
  assumes "list_all entry_ok es"
  shows "size_lines (concat (map (\<lambda>(n, c). size_entry n c) es)) False sz cnt l = entry_totals es (sz, cnt, l)"
  using assms
proof (induction es arbitrary: sz cnt l)
  case Nil
  show ?case by (subst size_lines.simps) simp
next
  case (Cons e es)
  obtain n c where e: "e = (n, c)" by fastforce
  have "LF \<notin> set (show_int n @ '' '' @ show_int c)" using LF_show_int by simp
  note line = size_lines_line [OF this, of "concat (map (\<lambda>(n, c). size_entry n c) es)" False sz cnt l]
  have "scan_entry (show_int n @ '' '' @ show_int c) = (n, c)"
    using Cons.prems e by (intro scan_entry_show) (simp_all add: entry_ok_def)
  with line have "size_lines (size_entry n c @ concat (map (\<lambda>(n, c). size_entry n c) es)) False sz cnt l
      = size_lines (concat (map (\<lambda>(n, c). size_entry n c) es)) False (add64 sz n) (add32 cnt c) (l + 1)"
    by (simp add: size_entry_def [of n c])
  with Cons e show ?case by simp
qed

lemma nul_free_size_entry: "nul_free (size_entry n c)"
  using show_int_chars(1) [of _ n] show_int_chars(1) [of _ c] by (auto simp: size_entry_def nul_free_def)

lemma nul_free_entries: "nul_free q \<Longrightarrow> nul_free (entries_file q es)"
  using nul_free_size_entry by (fastforce simp: entries_file_def nul_free_def)

lemma maildirsize_read_entries:
  assumes "nul_free q" "LF \<notin> set q" "list_all entry_ok es" "length (entries_file q es) < MAILDIRSIZE_BUF"
  shows "maildirsize_read (Some (entries_file q es)) = Some (entry_totals es (0, 0, 0))"
proof -
  have "c_str (entries_file q es) = entries_file q es"
    using nul_free_entries [OF assms(1)] by (simp add: c_str_nul_free)
  then show ?thesis
    using assms size_lines_line [OF assms(2)] size_lines_entries [OF assms(3)]
    by (simp add: maildirsize_read_def entries_file_def)
qed

section \<open>Writing\<close>

lemma writev_skip: "n \<noteq> 0 \<and> \<not> n < length b \<Longrightarrow> writev_loop rs (b # bs) n out = writev_loop rs bs (n - length b) out"
  by (subst writev_loop.simps(2)) simp

lemma writev_out: "\<not> (n \<noteq> 0 \<and> \<not> n < length b) \<Longrightarrow> writev_loop [] (b # bs) n out = None"
  by (subst writev_loop.simps(2), subst if_not_P, assumption) (simp add: Let_def)

lemma writev_call:
  assumes "\<not> (n \<noteq> 0 \<and> \<not> n < length b)"
  shows "writev_loop (r # rs) (b # bs) n out =
    (if min (nat r) (length (concat (drop n b # bs))) = 0 then Some (False, out)
     else writev_loop rs (drop n b # bs) (min (nat r) (length (concat (drop n b # bs))))
       (out @ take (min (nat r) (length (concat (drop n b # bs)))) (concat (drop n b # bs))))"
  by (subst writev_loop.simps(2), subst if_not_P [OF assms]) (simp only: Let_def list.case)

lemma writev_done: "writev_loop rs [] n out = Some (True, out)"
  by (simp add: writev_loop.simps)

lemma writev_complete:
  "writev_loop rs iov n out = Some (True, out') \<Longrightarrow> n \<le> length (concat iov) \<Longrightarrow> out' = out @ drop n (concat iov)"
proof (induction rs iov n out rule: writev_loop.induct)
  case (1 rs n out)
  then show ?case by (simp add: writev_done)
next
  case (2 rs b bs n out)
  show ?case
  proof (cases "n \<noteq> 0 \<and> \<not> n < length b")
    case True
    with 2 show ?thesis by (simp add: writev_skip)
  next
    case False
    let ?iov = "drop n b # bs"
    have cc: "concat ?iov = drop n (concat (b # bs))" using False by auto
    obtain r rs' where rs: "rs = r # rs'" using 2(3) writev_out [OF False] by (cases rs) auto
    let ?k = "min (nat r) (length (concat ?iov))"
    have k: "?k \<noteq> 0" and w: "writev_loop rs' ?iov ?k (out @ take ?k (concat ?iov)) = Some (True, out')"
      using 2(3) unfolding rs writev_call [OF False] by (auto simp del: concat.simps split: if_splits)
    have "out' = (out @ take ?k (concat ?iov)) @ drop ?k (concat ?iov)"
      by (rule 2(2) [OF False refl rs refl k w]) simp
    then show ?thesis by (simp only: cc append_assoc append_take_drop_id)
  qed
qed

text \<open>A failure leaves a beginning of what was to be written.\<close>

lemma writev_prefix:
  "writev_loop rs iov n out = Some (ok, out') \<Longrightarrow> n \<le> length (concat iov) \<Longrightarrow>
     \<exists>k. out' = out @ take k (drop n (concat iov))"
proof (induction rs iov n out rule: writev_loop.induct)
  case (1 rs n out)
  then show ?case by (simp add: writev_done)
next
  case (2 rs b bs n out)
  show ?case
  proof (cases "n \<noteq> 0 \<and> \<not> n < length b")
    case True
    with 2 show ?thesis by (simp add: writev_skip)
  next
    case False
    let ?iov = "drop n b # bs"
    have cc: "concat ?iov = drop n (concat (b # bs))" using False by auto
    obtain r rs' where rs: "rs = r # rs'" using 2(3) writev_out [OF False] by (cases rs) auto
    let ?k = "min (nat r) (length (concat ?iov))"
    show ?thesis
    proof (cases "?k = 0")
      case True
      with 2(3) have "out' = out" unfolding rs writev_call [OF False] by simp
      then show ?thesis by (auto intro: exI [of _ 0])
    next
      case k: False
      have "writev_loop rs' ?iov ?k (out @ take ?k (concat ?iov)) = Some (ok, out')"
        using 2(3) unfolding rs writev_call [OF False] if_not_P [OF k] .
      with 2(2) [OF False refl rs refl k] obtain j
        where "out' = (out @ take ?k (concat ?iov)) @ take j (drop ?k (concat ?iov))" by auto
      then have "out' = out @ take (?k + j) (concat ?iov)" by (simp only: append_assoc take_add)
      then show ?thesis unfolding cc by blast
    qed
  qed
qed

text \<open>When every call writes something, as many calls as there are bytes suffice.\<close>

lemma writev_returns:
  "[] \<notin> set iov \<Longrightarrow> \<forall>r \<in> set rs. 0 < r \<Longrightarrow> n \<le> length (concat iov) \<Longrightarrow> length (concat iov) - n \<le> length rs \<Longrightarrow>
     \<exists>out'. writev_loop rs iov n out = Some (True, out')"
proof (induction rs iov n out rule: writev_loop.induct)
  case (1 rs n out)
  then show ?case by (simp add: writev_done)
next
  case (2 rs b bs n out)
  show ?case
  proof (cases "n \<noteq> 0 \<and> \<not> n < length b")
    case True
    with 2 show ?thesis by (simp add: writev_skip)
  next
    case False
    let ?iov = "drop n b # bs"
    have b: "drop n b \<noteq> []" using False 2(3) by auto
    have len: "length (concat ?iov) = length (concat (b # bs)) - n" using False by auto
    have pos: "0 < length (concat ?iov)" using b by simp
    obtain r rs' where rs: "rs = r # rs'" using 2(6) pos unfolding len by (cases rs) auto
    let ?k = "min (nat r) (length (concat ?iov))"
    have k: "?k \<noteq> 0" using pos 2(4) rs by auto
    have "\<exists>out'. writev_loop rs' ?iov ?k (out @ take ?k (concat ?iov)) = Some (True, out')"
    proof (rule 2(2) [OF False refl rs refl k])
      show "[] \<notin> set ?iov" using b 2(3) by simp
      show "\<forall>r\<in>set rs'. 0 < r" using 2(4) rs by simp
      show "?k \<le> length (concat ?iov)" by simp
      have "length (concat ?iov) \<le> Suc (length rs')" using 2(6) rs by (simp only: len) simp
      then show "length (concat ?iov) - ?k \<le> length rs'" using k by linarith
    qed
    then show ?thesis unfolding rs writev_call [OF False] using k by (simp del: concat.simps)
  qed
qed


section \<open>A run of additions\<close>

lemma entry_totals_append:
  "entry_totals (es @ fs) t = entry_totals fs (entry_totals es t)"
  by (induction es t rule: entry_totals.induct) auto

lemma entry_totals_sum:
  "entry_totals es (sint (a :: 64 word), sint (b :: 32 word), l) =
     (sint (a + word_of_int (sum_list (map fst es))), sint (b + word_of_int (sum_list (map snd es))), l + length es)"
proof (induction es arbitrary: a b l)
  case (Cons e es)
  obtain n c where e: "e = (n, c)" by fastforce
  have "add64 (sint a) n = sint (a + word_of_int n)" "add32 (sint b) c = sint (b + word_of_int c)"
    by (simp_all add: add64_def add32_def)
  with Cons [of "a + word_of_int n" "b + word_of_int c" "l + 1"] show ?case
    by (simp add: e add.assoc)
qed simp

lemma entry_totals_exact:
  assumes "long_int (sum_list (map fst es))" "int32 (sum_list (map snd es))"
  shows "entry_totals es (0, 0, 0) = (sum_list (map fst es), sum_list (map snd es), length es)"
  using entry_totals_sum [of es 0 0 0] assms
  by (simp add: sint_word_of_int_64 sint_word_of_int_32 int32_def)

definition writev_ok :: "int list \<Rightarrow> char list list \<Rightarrow> bool" where
  "writev_ok rs iov \<longleftrightarrow> (\<forall>r \<in> set rs. 0 < r) \<and> length (concat iov) \<le> length rs"

lemma quota_iov_bytes:
  "concat (quota_iov q sz cnt True) = entries_file q [(sz, cnt)]" "concat (quota_iov q sz cnt False) = size_entry sz cnt"
  by (simp_all add: quota_iov_def entries_file_def)

lemma addquota_bytes_ok:
  assumes "q \<noteq> []" "writev_ok rs (quota_iov q sz cnt isnew)"
  shows "addquota_bytes rs q sz cnt isnew = Some (True, concat (quota_iov q sz cnt isnew))"
proof -
  have "[] \<notin> set (quota_iov q sz cnt isnew)" using assms(1) by (simp add: quota_iov_def size_entry_def)
  with assms(2) obtain d where d: "addquota_bytes rs q sz cnt isnew = Some (True, d)"
    using writev_returns [of "quota_iov q sz cnt isnew" rs 0 "[]"]
    by (auto simp: writev_ok_def addquota_bytes_def)
  with writev_complete [of rs _ 0 "[]" d] show ?thesis by (simp add: addquota_bytes_def)
qed

text \<open>
  Deliveries to one Maildir, each with the success of creating a file, the results of its \<open>writev\<close> calls
  and what it adds. The run stops at the first failure.
\<close>

fun addquota_run ::
  "nat \<Rightarrow> mdfs \<Rightarrow> string \<Rightarrow> string \<Rightarrow> (newfile \<times> int list \<times> int \<times> int) list \<Rightarrow> mdfs option" where
  "addquota_run fuel fs dir q [] = Some fs"
| "addquota_run fuel fs dir q ((mk, rs, sz, cnt) # ops) =
     (case doaddquota fuel mk rs fs dir q sz cnt False of
        Some (True, fs') \<Rightarrow> addquota_run fuel fs' dir q ops
      | _ \<Rightarrow> None)"

definition op_entry :: "newfile \<times> int list \<times> int \<times> int \<Rightarrow> int \<times> int" where
  "op_entry = (\<lambda>(mk, rs, e). e)"

definition op_ok :: "string \<Rightarrow> newfile \<times> int list \<times> int \<times> int \<Rightarrow> bool" where
  "op_ok q = (\<lambda>(mk, rs, sz, cnt). mk = Created \<and> long_int sz \<and> int32 cnt \<and> writev_ok rs (quota_iov q sz cnt True))"

text \<open>The file of a Maildir holds these entries; without entries there is no file.\<close>

definition holds_entries :: "mdfs \<Rightarrow> string \<Rightarrow> string \<Rightarrow> (int \<times> int) list \<Rightarrow> bool" where
  "holds_entries fs dir q es \<longleftrightarrow>
     md_mtime fs (dir @ ''/maildirfolder'') = None
     \<and> md_file fs (dir @ ''/maildirsize'') = (if es = [] then None else Some (entries_file q es))"

lemma addquota_step:
  assumes "holds_entries fs dir q es" "q \<noteq> []" "op_ok q (mk, rs, sz, cnt)"
  shows "\<exists>fs'. doaddquota (Suc fuel) mk rs fs dir q sz cnt False = Some (True, fs')
    \<and> holds_entries fs' dir q (es @ [(sz, cnt)])"
proof -
  have w: "writev_ok rs (quota_iov q sz cnt True)" "writev_ok rs (quota_iov q sz cnt False)" and mk: "mk = Created"
    using assms(3) by (auto simp: op_ok_def writev_ok_def quota_iov_def)
  show ?thesis
  proof (cases "es = []")
    case True
    with assms addquota_bytes_ok [OF assms(2) w(1)] mk show ?thesis
      by (simp add: holds_entries_def append_file_def quota_iov_bytes)
  next
    case False
    with assms addquota_bytes_ok [OF assms(2) w(2)] show ?thesis
      by (simp add: holds_entries_def append_file_def quota_iov_bytes entries_file_def)
  qed
qed

lemma addquota_run_entries:
  assumes "holds_entries fs dir q es" "q \<noteq> []" "list_all (op_ok q) ops"
  shows "\<exists>fs'. addquota_run (Suc fuel) fs dir q ops = Some fs' \<and> holds_entries fs' dir q (es @ map op_entry ops)"
  using assms
proof (induction ops arbitrary: fs es)
  case (Cons x ops)
  obtain mk rs sz cnt where x: "x = (mk, rs, sz, cnt)" by (metis prod_cases4)
  obtain fs1 where "doaddquota (Suc fuel) mk rs fs dir q sz cnt False = Some (True, fs1)"
      "holds_entries fs1 dir q (es @ [(sz, cnt)])"
    using addquota_step [OF Cons.prems(1,2), of mk rs sz cnt fuel] Cons.prems(3) x by auto
  with Cons.IH [of fs1 "es @ [(sz, cnt)]"] Cons.prems x show ?case by (simp add: op_entry_def)
qed simp

lemma op_ok_entry: "list_all (op_ok q) ops \<Longrightarrow> list_all entry_ok (map op_entry ops)"
  by (auto simp: op_ok_def entry_ok_def op_entry_def list_all_iff)

text \<open>
  C17. Refinement of the sums: deliveries whose writes make progress all succeed, and the file they leave is
  read back as the sum of the sizes, the sum of the counts and the number of deliveries, when the file
  stays below the buffer and the sums below the range of their types. So the file is the running total
  of the log of deliveries.
\<close>

theorem maildirsize_refines_sums:
  assumes "md_mtime fs (dir @ ''/maildirfolder'') = None" "md_file fs (dir @ ''/maildirsize'') = None"
    and "q \<noteq> []" "nul_free q" "LF \<notin> set q"
    and "ops \<noteq> []" "list_all (op_ok q) ops" "length (entries_file q (map op_entry ops)) < MAILDIRSIZE_BUF"
    and "long_int (sum_list (map (fst \<circ> op_entry) ops))" "int32 (sum_list (map (snd \<circ> op_entry) ops))"
  shows "\<exists>fs'. addquota_run (Suc fuel) fs dir q ops = Some fs'
    \<and> maildirsize_read (md_file fs' (dir @ ''/maildirsize'')) =
        Some (sum_list (map (fst \<circ> op_entry) ops), sum_list (map (snd \<circ> op_entry) ops), length ops)"
proof -
  have "holds_entries fs dir q []" using assms(1,2) by (simp add: holds_entries_def)
  from addquota_run_entries [OF this assms(3,7)] obtain fs'
    where run: "addquota_run (Suc fuel) fs dir q ops = Some fs'"
      and h: "md_file fs' (dir @ ''/maildirsize'') = Some (entries_file q (map op_entry ops))"
    using assms(6) by (auto simp: holds_entries_def)
  moreover have "entry_totals (map op_entry ops) (0, 0, 0) =
      (sum_list (map (fst \<circ> op_entry) ops), sum_list (map (snd \<circ> op_entry) ops), length ops)"
    using entry_totals_exact [of "map op_entry ops"] assms(9,10) by simp
  ultimately show ?thesis
    using maildirsize_read_entries [OF assms(4,5) op_ok_entry [OF assms(7)] assms(8)] by simp
qed

definition fs_empty :: mdfs where
  "fs_empty = \<lparr>md_file = (\<lambda>_. None), md_dir = (\<lambda>_. None), md_size = (\<lambda>_. None), md_mtime = (\<lambda>_. None)\<rparr>"

definition ops_example :: "(newfile \<times> int list \<times> int \<times> int) list" where
  "ops_example = [(Created, [2, 1, 1, 1, 1, 1, 1, 1, 1, 1], 700, 1), (Created, [9, 9, 9, 9, 9, 9, 9, 9, 9, 9, 9], - 200, - 1)]"

lemma ops_example_ok: "list_all (op_ok ''5S'') ops_example"
  by (simp add: ops_example_def op_ok_def writev_ok_def quota_iov_def size_entry_def show_int_def show_nat.simps
      long_int_def int32_def)

theorem maildirsize_refines_sums_witness:
  "\<exists>fs'. addquota_run (Suc 0) fs_empty ''/m'' ''5S'' ops_example = Some fs'
    \<and> maildirsize_read (md_file fs' (''/m'' @ ''/maildirsize'')) = Some (500, 0, 2)"
proof -
  have "sum_list (map (fst \<circ> op_entry) ops_example) = 500" "sum_list (map (snd \<circ> op_entry) ops_example) = 0"
    "length ops_example = 2" by (simp_all add: ops_example_def op_entry_def)
  moreover have "length (entries_file ''5S'' (map op_entry ops_example)) < MAILDIRSIZE_BUF"
    by (simp add: ops_example_def op_entry_def entries_file_def size_entry_def show_int_def show_nat.simps MAILDIRSIZE_BUF_def)
  ultimately show ?thesis
    using maildirsize_refines_sums [of fs_empty "''/m''" "''5S''" ops_example 0] ops_example_ok
    by (simp add: fs_empty_def nul_free_def long_int_def int32_def ops_example_def [THEN arg_cong [where f = "\<lambda>x. x \<noteq> []"]])
qed


section \<open>The verdict\<close>

lemma read_number_digits:
  assumes "\<forall>c \<in> set ds. is_digit c" "r = [] \<or> \<not> is_digit (hd r)"
  shows "read_number (sint (of_nat a :: 64 word)) (ds @ r) = (sint (of_nat (digits_val a ds) :: 64 word), r)"
  using assms(1)
proof (induction ds arbitrary: a)
  case Nil
  show ?case using assms(2) by (cases r) auto
next
  case (Cons c ds)
  have c: "48 \<le> (of_char c :: nat)" using Cons.prems by (simp add: is_digit_def)
  then have "(of_nat (10 * a + (of_char c - 48)) :: 64 word) = of_nat a * 10 + word_of_int (int (of_char c) - 48)"
    by (simp add: of_nat_diff)
  then have "add64 (sint (of_nat a :: 64 word) * 10) (int (of_char c) - 48) = sint (of_nat (10 * a + (of_char c - 48)) :: 64 word)"
    by (simp add: add64_def mult.commute)
  with Cons.prems Cons.IH [of "10 * a + (of_char c - 48)"] show ?case by simp
qed

lemma read_number_show:
  assumes "n < 2 ^ 63" "r = [] \<or> \<not> is_digit (hd r)"
  shows "read_number 0 (show_nat n @ r) = (int n, r)"
proof -
  have "sint (of_nat n :: 64 word) = int n"
    using assms(1) sint_word_of_int_64 [of "int n"] by (simp add: long_int_def)
  then show ?thesis
    using read_number_digits [of "show_nat n" r 0] show_nat_digits [of _ n] assms(2) digits_val_show [of n "[]"] by simp
qed

lemma qcalc_skip: "\<not> is_digit c \<Longrightarrow> qcalc_loop s n (c # q) sp np = qcalc_loop s n q sp np"
  by (subst qcalc_loop.simps) simp

lemma qcalc_end: "qcalc_loop s n [] sp np = (True, max sp np)"
  by (subst qcalc_loop.simps) (auto simp: max_def)

lemma qcalc_number:
  assumes "k < 2 ^ 63" "\<not> is_digit x"
  shows "qcalc_loop s n (show_nat k @ x # r) sp np =
    (if x = CHR ''C'' then (if int k < n then (False, 100) else qcalc_loop s n r sp (qcalc_percent (int k) n))
     else (if int k < s then (False, 100) else qcalc_loop s n r (qcalc_percent (int k) s) np))"
proof -
  obtain c t where c: "show_nat k = c # t" "is_digit c" using show_nat_ex by blast
  have "read_number 0 (c # t @ x # r) = (int k, x # r)"
    using read_number_show [OF assms(1), of "x # r"] assms(2) c by simp
  then show ?thesis
    using c assms(2) by (auto simp: qcalc_loop.simps(2) [of s n c] qcalc_skip)
qed

text \<open>A printed quota: the verdict, and the larger of the two percentages.\<close>

lemma qcalc_print:
  assumes "S < 2 ^ 63" "C < 2 ^ 63"
  shows "qcalc s n (print_quota S C) =
    (if s \<le> int S \<and> uint (word_of_int n :: 32 word) \<le> int C
     then (True, max (qcalc_percent (int S) s) (qcalc_percent (int C) (uint (word_of_int n :: 32 word))))
     else (False, 100))"
  using qcalc_number [OF assms(1), of "CHR ''S''"] qcalc_number [OF assms(2), of "CHR ''C''"]
  by (simp add: qcalc_def print_quota_def is_digit_def qcalc_skip qcalc_end)

lemma qcalc_fst:
  assumes "S < 2 ^ 63" "C < 2 ^ 63"
  shows "fst (qcalc s n (print_quota S C)) \<longleftrightarrow> s \<le> int S \<and> uint (word_of_int n :: 32 word) \<le> int C"
  by (simp add: qcalc_print [OF assms])

text \<open>A daemon's quota of 0 is no limit; here nothing fits into it.\<close>

lemma qcalc_zero: "C < 2 ^ 63 \<Longrightarrow> 0 < s \<Longrightarrow> \<not> fst (qcalc s n (print_quota 0 C))"
  by (simp add: qcalc_print)

text \<open>A negative count, as one left by a message removed twice, is over every quota below 4294967295.\<close>

lemma qcalc_negative_count:
  "S < 2 ^ 63 \<Longrightarrow> C < 4294967295 \<Longrightarrow> \<not> fst (qcalc s (- 1) (print_quota S C))"
  by (simp add: qcalc_print unsigned_minus_1_eq_mask mask_eq_exp_minus_1)

lemma print_quota_clean: "nul_free (print_quota S C)" "LF \<notin> set (print_quota S C)" "print_quota S C \<noteq> []"
proof -
  have d: "c \<in> set (show_nat k) \<Longrightarrow> c \<noteq> NUL \<and> c \<noteq> LF" for c k
    using show_nat_digits [of c k] by (auto simp: is_digit_def)
  show "nul_free (print_quota S C)" "LF \<notin> set (print_quota S C)" "print_quota S C \<noteq> []"
    using d [of NUL] d [of LF] by (auto simp: print_quota_def nul_free_def)
qed

text \<open>What a message of \<open>sz\<close> bytes may do to a Maildir of size \<open>s\<close> and count \<open>n\<close>.\<close>

definition fits :: "nat \<Rightarrow> nat \<Rightarrow> int \<Rightarrow> int \<Rightarrow> int \<Rightarrow> int \<Rightarrow> bool" where
  "fits S C s n sz cnt \<longleftrightarrow>
     add64 s sz \<le> int S \<and> uint (word_of_int (add32 n cnt) :: 32 word) \<le> int C"

lemma rebuild_result:
  assumes "S < 2 ^ 63" "C < 2 ^ 63" "q = print_quota S C"
    and "count_maildir fs dir (0, 0) = (maxtime, s, n)" "stat_maildir fs2 dir = maxtime"
    and "writev_ok rs (quota_iov q s n True)" "long_int s" "int32 n"
  shows "\<exists>r. rebuild old Created rs fs fs2 dir q sz cnt p = Some r
    \<and> ck_ret r = (if fits S C s n sz cnt then 0 else - 1) \<and> \<not> ck_again r
    \<and> md_file (ck_fs r) (dir @ ''/maildirsize'') = Some (entries_file q [(s, n)])"
  using assms addquota_bytes_ok [OF _ assms(6)] print_quota_clean(3) [of S C] qcalc_fst [OF assms(1,2)]
  by (simp add: rebuild_def of_qcalc_def quota_iov_bytes fits_def)

lemma docheckquota_read:
  assumes "holds_entries fs dir q es" "es \<noteq> []" "q \<noteq> []" "nul_free q" "LF \<notin> set q" "list_all entry_ok es"
    and "length (entries_file q es) < MAILDIRSIZE_BUF" "entry_totals es (0, 0, 0) = (s, n, l)"
  shows "docheckquota (Suc fuel) True mk rs tm fs fs2 dir q sz cnt p =
    (let v = qcalc (add64 s sz) (add32 n cnt) q
     in if fst v then Some (of_qcalc v fs)
        else if l = 1 \<and> (case md_mtime fs (dir @ ''/maildirsize'') of None \<Rightarrow> False | Some m \<Rightarrow> tm < m + 15 * 60)
        then Some (of_qcalc v fs)
        else rebuild True mk rs fs fs2 dir q sz cnt (snd v))"
  using assms maildirsize_read_entries [OF assms(4,5,6,7)] by (simp add: holds_entries_def)

text \<open>
  C18. A delivery without the daemon, to a Maildir with a file of entries and a printed quota: the message is
  refused (1) exactly when it does not fit. When the entries say that it fits, nothing is counted; when
  they say it does not and the file is a single line less than 15 minutes old, that is believed;
  otherwise the Maildir is counted, and the count decides.
\<close>

theorem user_over_verdict:
  assumes "me_daemon E '' '' = None" "me_depth E = Suc d" "me_ids E" "me_create E = Created"
    and "S < 2 ^ 63" "C < 2 ^ 63" "q = print_quota S C"
    and "holds_entries (me_disk E) dir q es" "es \<noteq> []" "list_all entry_ok es"
    and "length (entries_file q es) < MAILDIRSIZE_BUF" "entry_totals es (0, 0, 0) = (s, n, l)"
    and "count_maildir (me_disk E) dir (0, 0) = (maxtime, cs, cn)" "stat_maildir (me_later E) dir = maxtime"
    and "writev_ok (me_writev E) (quota_iov q cs cn True)" "long_int cs" "int32 cn"
    and "recent \<longleftrightarrow> l = 1 \<and> (\<exists>m. md_mtime (me_disk E) (dir @ ''/maildirsize'') = Some m \<and> me_now E < m + 15 * 60)"
  shows "user_over_maildirquota E (Some sz) dir q =
    Some (if fits S C s n sz 1 \<or> \<not> recent \<and> fits S C cs cn sz 1 then 0 else 1)"
proof -
  note qc = print_quota_clean [of S C, folded assms(7)]
  note v = qcalc_fst [OF assms(5,6), folded assms(7)]
  let ?v = "qcalc (add64 s sz) (add32 n 1) q"
  have f: "fst ?v \<longleftrightarrow> fits S C s n sz 1" by (simp add: v fits_def)
  obtain r where r: "rebuild True Created (me_writev E) (me_disk E) (me_later E) dir q sz 1 (snd ?v) = Some r"
      "ck_ret r = (if fits S C cs cn sz 1 then 0 else - 1)" "\<not> ck_again r"
    using rebuild_result [OF assms(5-7,13-17)] by blast
  have rec: "(case md_mtime (me_disk E) (dir @ ''/maildirsize'') of None \<Rightarrow> False | Some m \<Rightarrow> me_now E < m + 15 * 60)
      \<longleftrightarrow> (\<exists>m. md_mtime (me_disk E) (dir @ ''/maildirsize'') = Some m \<and> me_now E < m + 900)"
    by (auto split: option.split)
  have "check_here E dir q sz 1 =
      (if fst ?v \<or> recent then Some (of_qcalc ?v (me_disk E)) else Some r)"
    unfolding check_here_def eqTrueI [OF assms(3)] assms(2,4)
      docheckquota_read [OF assms(8,9) qc(3,1,2) assms(10-12)] Let_def rec assms(18) r(1)
    by auto
  then show ?thesis
    using r(2,3) f qc(3) assms(1)
    by (auto simp: user_over_maildirquota_def maildir_checkquota_def of_qcalc_def)
qed

definition env_example :: mdenv where
  "env_example = \<lparr>me_daemon = (\<lambda>_. None), me_email = (\<lambda>_. None), me_percent = (\<lambda>_ _. 0), me_again = False, me_depth = 1,
     me_ids = True, me_create = Created, me_writev = replicate 40 1, me_now = 1000,
     me_disk = fs_empty\<lparr>md_file := [''/m'' @ ''/maildirsize'' \<mapsto> entries_file (print_quota 1000 5) [(700, 1), (200, 1)]],
                        md_mtime := [''/m'' @ ''/maildirsize'' \<mapsto> 900]\<rparr>,
     me_later = fs_empty\<rparr>"

theorem user_over_verdict_witness:
  "user_over_maildirquota env_example (Some 90) ''/m'' (print_quota 1000 5) = Some 0"
proof -
  let ?q = "print_quota 1000 5" and ?es = "[(700, 1), (200, 1)] :: (int \<times> int) list"
  have c: "count_maildir (me_disk env_example) ''/m'' (0, 0) = (0, 0, 0)" "stat_maildir (me_later env_example) ''/m'' = 0"
    by (simp_all add: env_example_def fs_empty_def count_maildir_def countcurnew_def docount_def subdirs_def
        stat_maildir_def statcurnew_def)
  have h: "holds_entries (me_disk env_example) ''/m'' ?q ?es" by (simp add: holds_entries_def env_example_def)
  have t: "entry_totals ?es (0, 0, 0) = (900, 2, 2)" by (simp add: add64_def add32_def)
  have l: "length (entries_file ?q ?es) < MAILDIRSIZE_BUF"
    by (simp add: entries_file_def print_quota_def size_entry_def show_int_def show_nat.simps MAILDIRSIZE_BUF_def)
  have w: "writev_ok (me_writev env_example) (quota_iov ?q 0 0 True)"
    by (simp add: env_example_def writev_ok_def quota_iov_def print_quota_def size_entry_def show_int_def show_nat.simps)
  have f: "fits 1000 5 900 2 90 1" by (simp add: fits_def add64_def add32_def)
  have d: "me_daemon env_example '' '' = None" "me_depth env_example = Suc 0" "me_ids env_example" "me_create env_example = Created"
    by (simp_all add: env_example_def)
  have n: "(1000 :: nat) < 2 ^ 63" "(5 :: nat) < 2 ^ 63" "list_all entry_ok ?es" "long_int 0" "int32 0" "?es \<noteq> []"
    by (simp_all add: entry_ok_def long_int_def int32_def)
  show ?thesis
    using user_over_verdict [OF d n(1,2) refl h n(6,3) l t c w n(4,5) refl, of 90] f by simp
qed

section \<open>What the callers make of it\<close>

text \<open>
  With the daemon running \<open>maildir_checkquota\<close> returns a percentage, and any but 0 is taken for a quota
  exceeded: who uses 1% of his quota gets no more mail.
\<close>

lemma user_over_with_daemon:
  assumes "me_daemon E '' '' = Some x" "me_email E dir = Some e" "me_daemon E e = Some (u, c)" "u \<noteq> no_usage"
    and "quota_mtos q = Some (sq, cq)" "1 \<le> me_percent E u sq" "\<not> me_again E" "q \<noteq> []"
  shows "user_over_maildirquota E (Some sz) dir q = Some 1"
  using assms by (simp add: user_over_maildirquota_def maildir_checkquota_def vmaildir_readquota_def clamp_percent_def)

text \<open>A count that succeeds at the fifth attempt is a failure.\<close>

lemma user_tries_fifth:
  assumes "\<And>i t. i < 4 \<Longrightarrow> \<not> fst (readuserquota (fst (at i)) (snd (at i)) dir t)"
  shows "user_tries at dir 5 0 t = None"
proof -
  have st: "user_tries at dir (Suc k) i t = (if fst (readuserquota (fst (at i)) (snd (at i)) dir t) then
      if k = 0 then None else Some (i + 1, snd (readuserquota (fst (at i)) (snd (at i)) dir t))
      else user_tries at dir k (i + 1) (snd (readuserquota (fst (at i)) (snd (at i)) dir t)))" for k i t
    by (simp split: prod.split bool.split)
  have skip: "user_tries at dir (Suc k) i t = user_tries at dir k (i + 1) (snd (readuserquota (fst (at i)) (snd (at i)) dir t))"
    if "i < 4" for k i t
    using assms [OF that] by (simp add: st del: user_tries.simps(2))
  have last: "user_tries at dir (Suc 0) i t = None" for i t
    by (simp add: st del: user_tries.simps(2))
  have five: "(5 :: nat) = Suc (Suc (Suc (Suc (Suc 0))))" by simp
  show ?thesis
    unfolding five by (simp add: skip last del: user_tries.simps(2))
qed

text \<open>Every attempt counts the Maildir again on top of the attempt before.\<close>

lemma user_tries_twice:
  assumes "count_maildir fs dir t = (m, t1)" "stat_maildir fs2 dir \<noteq> m"
    and "count_maildir fs dir t1 = (m, t2)" "stat_maildir fs dir = m"
  shows "user_tries (\<lambda>k. (fs, if k = 0 then fs2 else fs)) dir 5 0 t = Some (2, t2)"
  using assms by (simp add: numeral_eq_Suc readuserquota_def)

text \<open>A hashed directory discards what was counted before it.\<close>

lemma readdomainquota_forgets:
  assumes "subdirs (fst (at k)) dir = ns @ [d]" "length d = 1" "d \<noteq> ''.''"
    and "readdomainquota (Suc f) at dir k = Some (Some (k'', t))"
  shows "\<exists>k'. readdomainquota f at (snprintf_str 256 (dir @ ''/'' @ d)) k' = Some (Some (k'', t))"
proof -
  have "d \<noteq> ''..''" using assms(2) by auto
  with assms show ?thesis
    by (simp only: readdomainquota.simps foldl_append foldl.simps) (simp split: option.splits prod.splits, blast)
qed

text \<open>A domain with a limit of messages only is over its quota with the daemon running.\<close>

lemma domain_over_count_only:
  assumes "me_email E dir = Some (u @ ''@'' @ domain)" "CHR ''@'' \<notin> set u" "length domain < 200"
    and "limits_of domain = Some l" "diskquota l = 0" "maxmsgcount l \<noteq> 0" "assign domain = Some dd"
    and "me_daemon E (''@'' @ domain) = Some (s, c)" "s + word_of_int sz \<noteq> 0"
  shows "domain_over_maildirquota E limits_of assign at (Some sz) dir = Some 1"
proof -
  have "dropWhile (\<lambda>c. c \<noteq> CHR ''@'') (u @ ''@'' @ domain) = CHR ''@'' # domain"
    using assms(2) by (auto simp: dropWhile_append)
  moreover have "0 < s + word_of_int sz" using assms(9) by (simp add: word_gt_0)
  ultimately show ?thesis
    using assms by (simp add: domain_over_maildirquota_def Let_def imul32_def)
qed

end
