(* ===== verification/Assign.thy ===== *)
theory Assign
  imports Session "HOL-Library.Multiset" "HOL-Library.List_Lexorder" "HOL-Library.Char_ord"
begin

text \<open>
  The files that tell the mail server which domains there are (\<^verbatim>\<open>vpopmail.c\<close>): \<^verbatim>\<open>users/assign\<close> and the four
  files of \<^verbatim>\<open>control\<close>, their editing line by line, the reading of the entries of \<^verbatim>\<open>users/assign\<close>, and the
  look-up of a domain in its compiled form.

  The state \<open>ctl\<close> holds the contents of the files, the file that was compiled last, and the static
  variables of \<open>vget_assign\<close>. Outside of the sources and in the record \<open>cenv\<close> are: which files can be
  written, \<open>qsort\<close> (the order of lines with equal keys is its own), and what \<^verbatim>\<open>qmail-newu\<close> makes of the file.
  Locks are granted, files are read completely and allocations succeed.
\<close>

section \<open>Lists of strings\<close>

record string_list =
  sl_values :: "string list"      \<comment> \<open>\<open>count\<close> is their number\<close>
  sl_size :: nat

definition string_list_init :: "nat \<Rightarrow> string_list" where
  "string_list_init initial =
     (let s = ((initial + 3) div 4) * 4 in \<lparr>sl_values = [], sl_size = (if s = 0 then 4 else s)\<rparr>)"

definition string_list_add :: "string_list \<Rightarrow> string \<Rightarrow> string_list \<times> nat" where
  "string_list_add a v =
     (if length (sl_values a) + 2 \<ge> sl_size a
      then (a\<lparr>sl_size := sl_size a + 8\<rparr>, sl_size a + 8)
      else (a\<lparr>sl_values := sl_values a @ [v]\<rparr>, 1))"

definition string_list_of :: "nat \<Rightarrow> string list \<Rightarrow> string list" where
  "string_list_of initial vs = sl_values (foldl (\<lambda>a v. fst (string_list_add a v)) (string_list_init initial) vs)"

section \<open>The key of a line\<close>

lemma strtok_shorter: "strtok d s = Some (t, r) \<Longrightarrow> length r < length s"
proof -
  assume a: "strtok d s = Some (t, r)"
  let ?u = "dropWhile (\<lambda>c. c \<in> set d) s"
  have "?u \<noteq> []" "r = tl (dropWhile (\<lambda>c. c \<notin> set d) ?u)"
    using a by (auto simp: strtok_def Let_def split: if_splits)
  moreover have "length (tl ys) < length ?u" if "?u \<noteq> []" "length ys \<le> length ?u" for ys :: string
    using that by (cases ys; cases ?u) auto
  ultimately have "length r < length ?u" using length_dropWhile_le [of "\<lambda>c. c \<notin> set d" ?u] by blast
  then show ?thesis using length_dropWhile_le [of "\<lambda>c. c \<in> set d" s] by simp
qed

function labels :: "string \<Rightarrow> string list" where
  "labels s = (case strtok ''.'' s of None \<Rightarrow> [] | Some (t, r) \<Rightarrow> t # labels r)"
  by pat_completeness auto

termination
  by (relation "measure length") (auto dest: strtok_shorter)

declare labels.simps [simp del]

text \<open>
  The last two labels in front. The loop that moves the others two places up runs upwards, so from the
  third on it copies what it has just written.
\<close>

definition shuffle :: "string list \<Rightarrow> string list" where
  "shuffle parts =
     (let i = length parts - 2
      in (foldl (\<lambda>p j. p[j + 2 := p ! j]) parts [0..<i])[0 := parts ! i, 1 := parts ! (i + 1)])"

fun join_dots :: "string list \<Rightarrow> string" where
  "join_dots [] = []"
| "join_dots [p] = p"
| "join_dots (p # ps) = p @ ''.'' @ join_dots ps"

definition arrange :: "string \<Rightarrow> string option" where
  "arrange d =
     (let parts = take 10 (labels d)
      in if length parts > 1
         then let r = join_dots (shuffle parts) in if length r \<ge> MAX_BUFF then None else Some r
         else Some d)"

text \<open>
  \<open>extract_domain\<close> into a buffer that holds \<open>old\<close> (\<open>None\<close> is not set). The result \<open>None\<close> is a string that is not
  terminated or an access behind a buffer of \<open>MAX_BUFF\<close> bytes. The type 1 is \<^verbatim>\<open>users/assign\<close>, whose lines start
  with a plus sign and have a minus sign behind the domain.
\<close>

definition extract_domain :: "string option \<Rightarrow> string \<Rightarrow> nat \<Rightarrow> string option" where
  "extract_domain old update_line file_type =
     (if file_type = 1 \<and> update_line = [] then None
      else let f = takeWhile (\<lambda>c. c \<noteq> CHR '':'') (if file_type = 1 then tl update_line else update_line)
      in if length f \<ge> MAX_BUFF then None
         else case (if file_type \<noteq> 1 then Some f else if f \<noteq> [] then Some (butlast f) else old) of
           None \<Rightarrow> None
         | Some d \<Rightarrow> arrange d)"

section \<open>Editing a file\<close>

definition trim_newline :: "char list \<Rightarrow> string" where
  "trim_newline l = takeWhile (\<lambda>c. c \<noteq> LF) (c_str l)"

text \<open>The first pass of \<open>update_file\<close>: what it writes, whether the line is in, and whether it has to sort.\<close>

function update_loop ::
  "string \<Rightarrow> string \<Rightarrow> nat \<Rightarrow> char list \<Rightarrow> string option \<Rightarrow> string \<Rightarrow> bool \<Rightarrow> nat \<Rightarrow> bool \<Rightarrow> char list
     \<Rightarrow> (char list \<times> bool \<times> nat \<times> bool) option" where
  "update_loop update_line new_domain file_type s cur prv hit cnt needsort out =
     (case fgets_buf MAX_BUFF s of
        None \<Rightarrow> Some (out, hit, cnt, needsort)
      | Some (l, r) \<Rightarrow>
          let l = trim_newline l
          in if file_type = 1 \<and> l = ''.''
             then update_loop update_line new_domain file_type r cur prv hit (cnt + 1) needsort out
             else case extract_domain cur l file_type of
               None \<Rightarrow> None
             | Some cur' \<Rightarrow>
                 let ins = \<not> hit \<and> new_domain < cur'
                 in update_loop update_line new_domain file_type r (Some cur') cur' (hit \<or> ins) (cnt + 1)
                      (needsort \<or> cur' < prv)
                      (out @ (if ins then update_line @ [LF] else []) @ l @ [LF]))"
  by pat_completeness auto

termination
  by (relation "measure (\<lambda>(u, n, f, s, rest). length s)") (auto dest: fgets_buf_shorter simp: MAX_BUFF_def)

declare update_loop.simps [simp del]

text \<open>The lines \<open>sort_file\<close> collects, with their keys; \<open>None\<close> inside when there are more than \<open>file_lines\<close>.\<close>

function sort_loop ::
  "nat \<Rightarrow> nat \<Rightarrow> char list \<Rightarrow> string option \<Rightarrow> (string \<times> string) list \<Rightarrow> (string \<times> string) list option option" where
  "sort_loop file_lines file_type s cur data =
     (case fgets_buf MAX_BUFF s of
        None \<Rightarrow> Some (Some data)
      | Some (l, r) \<Rightarrow>
          let l = trim_newline l
          in if file_type = 1 \<and> l = ''.'' then sort_loop file_lines file_type r cur data
             else if length data = file_lines then Some None
             else case extract_domain cur l file_type of
               None \<Rightarrow> None
             | Some d \<Rightarrow> sort_loop file_lines file_type r (Some d) (data @ [(d, l)]))"
  by pat_completeness auto

termination
  by (relation "measure (\<lambda>(n, f, s, rest). length s)") (auto dest: fgets_buf_shorter simp: MAX_BUFF_def)

declare sort_loop.simps [simp del]

function remove_loop :: "string list \<Rightarrow> char list \<Rightarrow> nat \<Rightarrow> char list \<Rightarrow> nat \<times> char list" where
  "remove_loop aliases s removed out =
     (case fgets_buf MAX_BUFF s of
        None \<Rightarrow> (removed, out)
      | Some (l, r) \<Rightarrow>
          let l = trim_newline l
          in if l \<in> set aliases then remove_loop aliases r (removed + 1) out
             else remove_loop aliases r removed (out @ l @ [LF]))"
  by pat_completeness auto

termination
  by (relation "measure (\<lambda>(a, s, rest). length s)") (auto dest: fgets_buf_shorter simp: MAX_BUFF_def)

declare remove_loop.simps [simp del]

section \<open>The files\<close>

datatype cfile = Assign_file | Rcpthosts | Morercpthosts | Virtualdomains | Locals

record assigned =
  as_domain :: string
  as_dir :: string
  as_uid :: nat
  as_gid :: nat

record ctl =
  ct_file :: "cfile \<Rightarrow> char list option"
  ct_cdb :: "char list option"            \<comment> \<open>\<^verbatim>\<open>users/assign\<close> when it was compiled\<close>
  ct_more :: "char list option"           \<comment> \<open>the same for \<^verbatim>\<open>morercpthosts\<close>\<close>
  ct_cache :: "assigned option"           \<comment> \<open>\<open>in_domain\<close> and so on\<close>

record cenv =
  ce_writable :: "cfile \<Rightarrow> bool"
  ce_qsort :: "(string \<times> string) list \<Rightarrow> (string \<times> string) list"
  ce_newu :: "char list \<Rightarrow> string \<Rightarrow> char list option"
  ce_optimize :: bool                     \<comment> \<open>\<open>OptimizeAddDomain\<close>\<close>

abbreviation (input) VA_COULD_NOT_UPDATE_FILE :: va where
  "VA_COULD_NOT_UPDATE_FILE \<equiv> - 17"

abbreviation (input) VA_MEMORY_ALLOC_ERR :: va where
  "VA_MEMORY_ALLOC_ERR \<equiv> - 24"

definition contents :: "ctl \<Rightarrow> cfile \<Rightarrow> char list" where
  "contents c f = (case ct_file c f of None \<Rightarrow> [] | Some b \<Rightarrow> b)"

definition put_file :: "cfile \<Rightarrow> char list \<Rightarrow> ctl \<Rightarrow> ctl" where
  "put_file f b c = c\<lparr>ct_file := (ct_file c)(f \<mapsto> b)\<rparr>"

definition remove_lines :: "cenv \<Rightarrow> cfile \<Rightarrow> string list \<Rightarrow> ctl \<Rightarrow> va \<times> ctl" where
  "remove_lines E f aliases c =
     (if \<not> ce_writable E f then (VA_COULD_NOT_UPDATE_FILE, c)
      else case remove_loop aliases (contents c f) 0 [] of (removed, out) \<Rightarrow> (int removed, put_file f out c))"

definition sort_file :: "cenv \<Rightarrow> cfile \<Rightarrow> nat \<Rightarrow> nat \<Rightarrow> ctl \<Rightarrow> (va \<times> ctl) option" where
  "sort_file E f file_lines file_type c =
     (if \<not> ce_writable E f then Some (VA_COULD_NOT_UPDATE_FILE, c)
      else case sort_loop file_lines file_type (contents c f) None [] of
        None \<Rightarrow> None
      | Some None \<Rightarrow> Some (VA_MEMORY_ALLOC_ERR, c)
      | Some (Some data) \<Rightarrow>
          Some (0, put_file f (concat (map (\<lambda>(k, l). l @ [LF]) (ce_qsort E data)) @
                     (if file_type = 1 then ''.'' @ [LF] else [])) c))"

definition update_file :: "cenv \<Rightarrow> cfile \<Rightarrow> string \<Rightarrow> nat \<Rightarrow> ctl \<Rightarrow> (va \<times> ctl) option" where
  "update_file E f update_line file_type c =
     (case extract_domain None update_line file_type of
        None \<Rightarrow> None
      | Some new_domain \<Rightarrow>
          if \<not> ce_writable E f then Some (VA_COULD_NOT_UPDATE_FILE, c)
          else case update_loop update_line new_domain file_type (contents c f) None [] False 0 False [] of
            None \<Rightarrow> None
          | Some (out, hit, cnt, needsort) \<Rightarrow>
              let c' = put_file f (out @ (if hit then [] else update_line @ [LF]) @
                         (if file_type = 1 then ''.'' @ [LF] else [])) c
              in if needsort then map_option (\<lambda>(_, c'). (0, c')) (sort_file E f (cnt + 1) file_type c')
                 else Some (0, c'))"


section \<open>Compiling and looking up\<close>

definition update_newu :: "ctl \<Rightarrow> ctl" where
  "update_newu c = c\<lparr>ct_cdb := ct_file c Assign_file\<rparr>"

definition compile_morercpthosts :: "ctl \<Rightarrow> ctl" where
  "compile_morercpthosts c = c\<lparr>ct_more := ct_file c Morercpthosts\<rparr>"

text \<open>A record of the compiled file: four strings, each with its NUL.\<close>

definition nul_field :: "char list \<Rightarrow> (string \<times> char list) option" where
  "nul_field d = (if NUL \<in> set d then Some (c_str d, tl (dropWhile (\<lambda>c. c \<noteq> NUL) d)) else None)"

definition assign_record :: "char list \<Rightarrow> assigned option" where
  "assign_record d =
     (case nul_field d of None \<Rightarrow> None | Some (real, d1) \<Rightarrow>
      (case nul_field d1 of None \<Rightarrow> None | Some (uid, d2) \<Rightarrow>
       (case nul_field d2 of None \<Rightarrow> None | Some (gid, d3) \<Rightarrow>
        (case nul_field d3 of None \<Rightarrow> None | Some (dir, _) \<Rightarrow>
        Some \<lparr>as_domain = real, as_dir = dir, as_uid = unat (word_of_int (atoi uid) :: 32 word),
              as_gid = unat (word_of_int (atoi gid) :: 32 word)\<rparr>))))"

text \<open>
  \<open>vget_assign\<close>: the domain as it stands in the argument afterwards and what was found. \<open>None\<close> outside is a record
  without its four strings. A domain in the cache is compared with the real name of the last one found.
\<close>

definition vget_assign ::
  "cenv \<Rightarrow> string \<Rightarrow> ctl \<Rightarrow> ((string \<times> assigned option) \<times> ctl) option" where
  "vget_assign E domain0 c =
     (if domain0 = [] then Some (([], None), c\<lparr>ct_cache := None\<rparr>)
      else let domain = lowerit domain0
      in case (case ct_cache c of None \<Rightarrow> None | Some a \<Rightarrow> if as_domain a = domain then Some a else None) of
        Some a \<Rightarrow> Some ((domain, Some a), c)
      | None \<Rightarrow>
          (case (case ct_cdb c of None \<Rightarrow> None
                 | Some bytes \<Rightarrow> ce_newu E bytes (snprintf_str MAX_BUFF (''!'' @ domain @ ''-''))) of
             None \<Rightarrow> Some ((domain, None), c\<lparr>ct_cache := None\<rparr>)
           | Some d \<Rightarrow>
               (case assign_record d of
                  None \<Rightarrow> None
                | Some a \<Rightarrow>
                    Some ((snprintf_str (MAX_PW_DOMAIN + 1) (as_domain a), Some a), c\<lparr>ct_cache := Some a\<rparr>))))"

section \<open>Entries\<close>

text \<open>
  One line. Between the domain and the real domain there is exactly one colon with a minus sign in front of
  it: the code looks two characters before the second token.
\<close>

definition parse_entry :: "char list \<Rightarrow> domain_entry option" where
  "parse_entry linebuf =
     (case c_str linebuf of
        [] \<Rightarrow> None
      | p # rest \<Rightarrow>
          if p \<noteq> CHR ''+'' then None
          else (case strtok '':'' rest of None \<Rightarrow> None | Some (dm, r1) \<Rightarrow>
            if CHR ''.'' \<notin> set dm then None
            else (case strtok '':'' r1 of None \<Rightarrow> None | Some (real, r2) \<Rightarrow>
              if length dm < 2 \<or> hd r1 = CHR '':'' \<or> last dm \<noteq> CHR ''-'' then None
              else (case strtok '':'' r2 of None \<Rightarrow> None | Some (uid, r3) \<Rightarrow>
                (case strtok '':'' r3 of None \<Rightarrow> None | Some (gid, r4) \<Rightarrow>
                (case strtok '':'' r4 of None \<Rightarrow> None | Some (path, r5) \<Rightarrow>
                  Some \<lparr>e_domain = butlast dm, e_realdomain = real,
                        e_uid = atoi uid, e_gid = atoi gid,
                        e_path = path\<rparr>))))))"

text \<open>The next call on the open file; the stream behind the entry. \<open>None\<close> is the end of the file.\<close>

function next_entry :: "string \<Rightarrow> char list \<Rightarrow> (domain_entry \<times> char list) option" where
  "next_entry match_buffer s =
     (case fgets_buf MAX_BUFF s of
        None \<Rightarrow> None
      | Some (l, r) \<Rightarrow>
          (case parse_entry l of
             None \<Rightarrow> next_entry match_buffer r
           | Some e \<Rightarrow>
               if match_buffer = [] \<or> match_buffer = e_realdomain e then Some (e, r)
               else next_entry match_buffer r))"
  by pat_completeness auto

termination
  by (relation "measure (\<lambda>(m, s). length s)") (auto dest: fgets_buf_shorter simp: MAX_BUFF_def)

declare next_entry.simps [simp del]

lemma next_entry_shorter: "next_entry m s = Some (e, r) \<Longrightarrow> length r < length s"
proof (induction m s rule: next_entry.induct)
  case (1 m s)
  then show ?case
    by (subst (asm) next_entry.simps)
      (fastforce split: option.splits if_splits dest: fgets_buf_shorter simp: MAX_BUFF_def)
qed

function entries_from :: "string \<Rightarrow> char list \<Rightarrow> domain_entry list" where
  "entries_from match_buffer s =
     (case next_entry match_buffer s of None \<Rightarrow> [] | Some (e, r) \<Rightarrow> e # entries_from match_buffer r)"
  by pat_completeness auto

termination
  by (relation "measure (\<lambda>(m, s). length s)") (auto dest: next_entry_shorter)

declare entries_from.simps [simp del]

text \<open>
  All calls of \<open>get_domain_entries\<close> for one domain, from the first to the one that returns no entry. The
  argument is replaced by the name of the real domain; \<open>None\<close> inside: the file cannot be read.
\<close>

definition get_domain_entries :: "cenv \<Rightarrow> string \<Rightarrow> ctl \<Rightarrow> (domain_entry list option \<times> ctl) option" where
  "get_domain_entries E match_real c =
     (case vget_assign E (snprintf_str MAX_PW_DOMAIN match_real) c of
        None \<Rightarrow> None
      | Some ((match_buffer, _), c') \<Rightarrow>
          if length match_buffer \<ge> MAX_PW_DOMAIN then None
          else Some (map_option (entries_from match_buffer) (ct_file c' Assign_file), c'))"

section \<open>Adding and deleting a domain\<close>

definition assign_line :: "string \<Rightarrow> string \<Rightarrow> nat \<Rightarrow> nat \<Rightarrow> string \<Rightarrow> string" where
  "assign_line alias real uid gid dir =
     snprintf_str MAX_BUFF (''+'' @ alias @ ''-:'' @ real @ '':'' @ show_nat uid @ '':'' @ show_nat gid @ '':'' @ dir @ '':-::'')"

function count_lines :: "char list \<Rightarrow> nat" where
  "count_lines s = (case fgets_buf MAX_BUFF s of None \<Rightarrow> 0 | Some (l, r) \<Rightarrow> Suc (count_lines r))"
  by pat_completeness auto

termination
  by (relation "measure length") (auto dest: fgets_buf_shorter simp: MAX_BUFF_def)

declare count_lines.simps [simp del]

definition count_rcpthosts :: "ctl \<Rightarrow> nat" where
  "count_rcpthosts c = count_lines (contents c Rcpthosts)"

text \<open>The last three files; the result 0 or \<open>-1\<close>.\<close>

definition add_control :: "cenv \<Rightarrow> string \<Rightarrow> ctl \<Rightarrow> (int \<times> ctl) option" where
  "add_control E domain c =
     (case (if count_rcpthosts c \<ge> 50
            then map_option (\<lambda>(r, c'). (r, if r = 0 \<and> \<not> ce_optimize E then compile_morercpthosts c' else c'))
                   (update_file E Morercpthosts domain 2 c)
            else update_file E Rcpthosts domain 2 c) of
        None \<Rightarrow> None
      | Some (r, c1) \<Rightarrow>
          if r \<noteq> 0 then Some (- 1, c1)
          else case update_file E Virtualdomains (snprintf_str MAX_BUFF (domain @ '':'' @ domain)) 3 c1 of
            None \<Rightarrow> None
          | Some (r, c2) \<Rightarrow>
              if r \<noteq> 0 then Some (- 1, c2)
              else case remove_lines E Locals (string_list_of 1 [domain]) c2 of
                (r, c3) \<Rightarrow> Some (if r < 0 then - 1 else 0, c3))"

definition add_domain_assign ::
  "cenv \<Rightarrow> string \<Rightarrow> string \<Rightarrow> string \<Rightarrow> nat \<Rightarrow> nat \<Rightarrow> ctl \<Rightarrow> (int \<times> ctl) option" where
  "add_domain_assign E alias real dir uid gid c =
     (if ct_file c Assign_file = None \<and> \<not> ce_writable E Assign_file then Some (- 1, c)
      else let c0 = (if ct_file c Assign_file = None then put_file Assign_file (''.'' @ [LF]) c else c)
      in case update_file E Assign_file (assign_line alias real uid gid dir) 1 c0 of
        None \<Rightarrow> None
      | Some (r, c1) \<Rightarrow> if r \<noteq> 0 then Some (- 1, c1) else add_control E alias (update_newu c1))"

text \<open>
  \<open>del_control\<close> looks at the results \<open>-1\<close>, 0 and 1 of \<open>remove_lines\<close> only. Removing the compiled file with an
  empty \<^verbatim>\<open>morercpthosts\<close> makes both missing.
\<close>

definition del_morercpthosts :: "cenv \<Rightarrow> string list \<Rightarrow> ctl \<Rightarrow> bool \<times> ctl" where
  "del_morercpthosts E aliases c =
     (case remove_lines E Morercpthosts aliases c of
        (r, c1) \<Rightarrow>
          if r = - 1 then (True, c1)
          else if r = 1
          then (False, if contents c1 Morercpthosts = []
                       then c1\<lparr>ct_file := (ct_file c1)(Morercpthosts := None), ct_more := None\<rparr>
                       else compile_morercpthosts c1)
          else (False, c1))"

definition del_control :: "cenv \<Rightarrow> string list \<Rightarrow> ctl \<Rightarrow> int \<times> ctl" where
  "del_control E aliases c =
     (case remove_lines E Rcpthosts aliases c of
        (r, c1) \<Rightarrow>
          (case (if r = - 1 then (True, c1) else if r = 0 then del_morercpthosts E aliases c1 else (False, c1)) of
             (problem, c2) \<Rightarrow>
               (case remove_lines E Virtualdomains
                       (string_list_of 10 (map (\<lambda>a. snprintf_str MAX_BUFF (a @ '':'' @ a)) aliases)) c2 of
                  (r, c3) \<Rightarrow> (if problem \<or> r < 0 then - 1 else 0, c3))))"

definition del_domain_assign ::
  "cenv \<Rightarrow> string list \<Rightarrow> string \<Rightarrow> string \<Rightarrow> nat \<Rightarrow> nat \<Rightarrow> ctl \<Rightarrow> int \<times> ctl" where
  "del_domain_assign E aliases real dir uid gid c =
     (case remove_lines E Assign_file (string_list_of 10 (map (\<lambda>a. assign_line a real uid gid dir) aliases)) c of
        (r, c1) \<Rightarrow> if r < 0 then (- 1, c1) else (0, (update_newu c1)\<lparr>ct_cache := None\<rparr>))"


section \<open>Files of lines\<close>

definition print_lines :: "string list \<Rightarrow> char list" where
  "print_lines ls = concat (map (\<lambda>l. l @ [LF]) ls)"

text \<open>A file of the given type with these lines; \<^verbatim>\<open>users/assign\<close> ends with a dot.\<close>

definition print_file :: "nat \<Rightarrow> string list \<Rightarrow> char list" where
  "print_file ft ls = print_lines ls @ (if ft = 1 then ''.'' @ [LF] else [])"

definition line_key :: "nat \<Rightarrow> string \<Rightarrow> string" where
  "line_key ft l = the (extract_domain None l ft)"

definition plain_line :: "string \<Rightarrow> bool" where
  "plain_line l \<longleftrightarrow> LF \<notin> set l \<and> nul_free l \<and> length l + 1 < MAX_BUFF"

definition good_line :: "nat \<Rightarrow> string \<Rightarrow> bool" where
  "good_line ft l \<longleftrightarrow> plain_line l \<and> \<not> (ft = 1 \<and> l = ''.'') \<and> extract_domain None l ft \<noteq> None"

lemma print_lines_simps [simp]:
  "print_lines [] = []" "print_lines (l # ls) = l @ LF # print_lines ls" "print_lines (ls @ ms) = print_lines ls @ print_lines ms"
  by (simp_all add: print_lines_def)

lemma fgets_plain:
  assumes "plain_line l"
  shows "fgets_buf MAX_BUFF (l @ LF # s) = Some (l @ [LF], s)" "trim_newline (l @ [LF]) = l"
proof -
  have "c_str (l @ [LF]) = l @ [LF]" using assms by (intro c_str_nul_free) (auto simp: plain_line_def nul_free_def)
  then show "trim_newline (l @ [LF]) = l" using assms by (simp add: trim_newline_def plain_line_def takeWhile_stop)
qed (use assms in \<open>simp add: plain_line_def\<close>)

lemma plain_dot: "plain_line ''.''"
  by (simp add: plain_line_def nul_free_def MAX_BUFF_def)

lemma extract_domain_any: "extract_domain None l ft = Some d \<Longrightarrow> extract_domain old l ft = Some d"
  by (auto simp: extract_domain_def Let_def split: if_split_asm)

lemma good_line_key: "good_line ft l \<Longrightarrow> extract_domain old l ft = Some (line_key ft l)"
  by (simp add: good_line_def line_key_def) (metis extract_domain_any option.sel)

lemma good_line_plain: "good_line ft l \<Longrightarrow> plain_line l"
  by (simp add: good_line_def)

text \<open>The line goes in front of the first one with a greater key.\<close>

fun insert_line :: "nat \<Rightarrow> string \<Rightarrow> string list \<Rightarrow> string list" where
  "insert_line ft u [] = [u]"
| "insert_line ft u (l # ls) = (if line_key ft u < line_key ft l then u # l # ls else l # insert_line ft u ls)"

lemma mset_insert_line [simp]: "mset (insert_line ft u ls) = add_mset u (mset ls)"
  by (induction ls) auto

lemma set_insert_line [simp]: "set (insert_line ft u ls) = insert u (set ls)"
  by (induction ls) auto

lemma length_insert_line [simp]: "length (insert_line ft u ls) = Suc (length ls)"
  by (induction ls) auto

lemma sorted_insert_line:
  "sorted (map (line_key ft) ls) \<Longrightarrow> sorted (map (line_key ft) (insert_line ft u ls))"
  by (induction ls) (auto intro: order.trans less_imp_le)

lemma insert_line_last: "\<forall>l \<in> set ls. \<not> line_key ft u < line_key ft l \<Longrightarrow> insert_line ft u ls = ls @ [u]"
  by (induction ls) auto

definition ends_file :: "nat \<Rightarrow> char list" where
  "ends_file ft = (if ft = 1 then ''.'' @ [LF] else [])"

lemma update_loop_end:
  "update_loop u k ft (ends_file ft) cur prv hit cnt ns out = Some (out, hit, cnt + (if ft = 1 then 1 else 0), ns)"
  using fgets_plain(1) [OF plain_dot, of "[]"] fgets_plain(2) [OF plain_dot]
  by (simp add: ends_file_def update_loop.simps [of u k _ "[]"] update_loop.simps [of u k _ "[CHR ''.'', LF]"] Let_def)

lemma update_loop_step:
  assumes "good_line ft l"
  shows "update_loop u k ft (l @ LF # s) cur prv hit cnt ns out =
    (let ins = \<not> hit \<and> k < line_key ft l
     in update_loop u k ft s (Some (line_key ft l)) (line_key ft l) (hit \<or> ins) (cnt + 1) (ns \<or> line_key ft l < prv)
          (out @ (if ins then u @ [LF] else []) @ l @ [LF]))"
  using assms fgets_plain [OF good_line_plain [OF assms]] good_line_key [OF assms, of cur]
  by (subst update_loop.simps) (auto simp: Let_def good_line_def)

lemma update_loop_lines:
  assumes "list_all (good_line ft) ls"
  shows "\<exists>n. update_loop u (line_key ft u) ft (print_lines ls @ ends_file ft) cur prv hit cnt ns out =
    Some (out @ (if \<not> hit \<and> (\<exists>l \<in> set ls. line_key ft u < line_key ft l) then print_lines (insert_line ft u ls) else print_lines ls),
      hit \<or> (\<exists>l \<in> set ls. line_key ft u < line_key ft l), n, ns \<or> \<not> sorted (prv # map (line_key ft) ls))
    \<and> cnt + length ls \<le> n"
  using assms
proof (induction ls arbitrary: cur prv hit cnt ns out)
  case Nil
  show ?case by (simp add: update_loop_end)
next
  case (Cons l ls)
  let ?k = "line_key ft"
  let ?ins = "\<not> hit \<and> ?k u < ?k l"
  from Cons.IH [of "Some (?k l)" "?k l" "hit \<or> ?ins" "cnt + 1" "ns \<or> ?k l < prv" "out @ (if ?ins then u @ [LF] else []) @ l @ [LF]"]
    Cons.prems
  obtain n where n: "update_loop u (?k u) ft (print_lines ls @ ends_file ft) (Some (?k l)) (?k l) (hit \<or> ?ins) (cnt + 1)
      (ns \<or> ?k l < prv) (out @ (if ?ins then u @ [LF] else []) @ l @ [LF]) =
    Some ((out @ (if ?ins then u @ [LF] else []) @ l @ [LF]) @
        (if \<not> (hit \<or> ?ins) \<and> (\<exists>l \<in> set ls. ?k u < ?k l) then print_lines (insert_line ft u ls) else print_lines ls),
      (hit \<or> ?ins) \<or> (\<exists>l \<in> set ls. ?k u < ?k l), n, (ns \<or> ?k l < prv) \<or> \<not> sorted (?k l # map ?k ls))" "cnt + 1 + length ls \<le> n"
    by auto
  have s: "(ns \<or> ?k l < prv) \<or> \<not> sorted (?k l # map ?k ls) \<longleftrightarrow> ns \<or> \<not> sorted (prv # map ?k (l # ls))"
    by (auto simp: not_less intro: order.trans)
  have st: "update_loop u (?k u) ft (print_lines (l # ls) @ ends_file ft) cur prv hit cnt ns out =
      update_loop u (?k u) ft (print_lines ls @ ends_file ft) (Some (?k l)) (?k l) (hit \<or> ?ins) (cnt + 1)
      (ns \<or> ?k l < prv) (out @ (if ?ins then u @ [LF] else []) @ l @ [LF])"
    using update_loop_step [of ft l] Cons.prems by (simp add: Let_def)
  show ?case unfolding st n(1) s using n(2) by (intro exI [of _ n]) auto
qed

lemma sort_loop_lines:
  assumes "list_all (good_line ft) ls" "length data + length ls \<le> n"
  shows "sort_loop n ft (print_lines ls @ ends_file ft) cur data = Some (Some (data @ map (\<lambda>l. (line_key ft l, l)) ls))"
  using assms
proof (induction ls arbitrary: cur data)
  case Nil
  show ?case
    using fgets_plain(1) [OF plain_dot, of "[]"] fgets_plain(2) [OF plain_dot]
    by (simp add: ends_file_def sort_loop.simps [of n _ "[]"] sort_loop.simps [of n _ "[CHR ''.'', LF]"] Let_def)
next
  case (Cons l ls)
  have g: "good_line ft l" and len: "length data \<noteq> n" using Cons.prems by auto
  have "sort_loop n ft (print_lines (l # ls) @ ends_file ft) cur data =
      sort_loop n ft (print_lines ls @ ends_file ft) (Some (line_key ft l)) (data @ [(line_key ft l, l)])"
    using g fgets_plain [OF good_line_plain [OF g]] good_line_key [OF g, of cur] len
    by (subst sort_loop.simps) (auto simp: Let_def good_line_def)
  also have "\<dots> = Some (Some ((data @ [(line_key ft l, l)]) @ map (\<lambda>l. (line_key ft l, l)) ls))"
    using Cons.prems by (intro Cons.IH) auto
  finally show ?case by simp
qed

lemma remove_loop_lines:
  assumes "list_all plain_line ls"
  shows "remove_loop as (print_lines ls @ r) n out =
    remove_loop as r (n + length (filter (\<lambda>l. l \<in> set as) ls)) (out @ print_lines (filter (\<lambda>l. l \<notin> set as) ls))"
  using assms
proof (induction ls arbitrary: n out)
  case (Cons l ls)
  have p: "plain_line l" using Cons.prems by simp
  have "remove_loop as (print_lines (l # ls) @ r) n out =
      (if l \<in> set as then remove_loop as (print_lines ls @ r) (n + 1) out
       else remove_loop as (print_lines ls @ r) n (out @ l @ [LF]))"
    using fgets_plain [OF p] by (subst remove_loop.simps) (simp add: Let_def)
  with Cons show ?case by simp
qed simp

lemma remove_loop_file:
  assumes "list_all plain_line ls" "''.'' \<notin> set as"
  shows "remove_loop as (print_file ft ls) 0 [] =
    (length (filter (\<lambda>l. l \<in> set as) ls), print_file ft (filter (\<lambda>l. l \<notin> set as) ls))"
proof -
  have "remove_loop as [] n out = (n, out)" for n out by (subst remove_loop.simps) simp
  moreover have "remove_loop as (''.'' @ LF # []) n out = (n, out @ ''.'' @ [LF])" for n out
    using fgets_plain(1) [OF plain_dot, of "[]"] fgets_plain(2) [OF plain_dot] assms(2)
    by (subst remove_loop.simps) (simp add: Let_def calculation)
  ultimately show ?thesis using remove_loop_lines [OF assms(1), of as _ 0 "[]"] by (simp add: print_file_def)
qed

section \<open>What the editing does\<close>

definition sorts :: "((string \<times> string) list \<Rightarrow> (string \<times> string) list) \<Rightarrow> bool" where
  "sorts qs \<longleftrightarrow> (\<forall>xs. mset (qs xs) = mset xs \<and> sorted (map fst (qs xs)))"

lemma keyed_lines:
  assumes "mset (qs (map (\<lambda>l. (line_key ft l, l)) ls)) = mset (map (\<lambda>l. (line_key ft l, l)) ls)"
  shows "mset (map snd (qs (map (\<lambda>l. (line_key ft l, l)) ls))) = mset ls"
    and "map (line_key ft) (map snd (qs (map (\<lambda>l. (line_key ft l, l)) ls))) = map fst (qs (map (\<lambda>l. (line_key ft l, l)) ls))"
proof -
  let ?d = "qs (map (\<lambda>l. (line_key ft l, l)) ls)"
  have "mset (map snd ?d) = mset (map snd (map (\<lambda>l. (line_key ft l, l)) ls))"
    by (simp only: mset_map [of snd] assms)
  also have "map snd (map (\<lambda>l. (line_key ft l, l)) ls) = ls" by (simp add: comp_def)
  finally show "mset (map snd ?d) = mset ls" .
  have "set ?d = set (map (\<lambda>l. (line_key ft l, l)) ls)" by (rule mset_eq_setD [OF assms])
  then show "map (line_key ft) (map snd ?d) = map fst ?d" by auto
qed

lemma sort_file_lines:
  assumes "ce_writable E f" "contents c f = print_file ft ls" "list_all (good_line ft) ls" "length ls \<le> n" "sorts (ce_qsort E)"
  shows "\<exists>ls'. sort_file E f n ft c = Some (0, put_file f (print_file ft ls') c) \<and> mset ls' = mset ls
    \<and> sorted (map (line_key ft) ls')"
proof -
  let ?d = "ce_qsort E (map (\<lambda>l. (line_key ft l, l)) ls)"
  have m: "mset ?d = mset (map (\<lambda>l. (line_key ft l, l)) ls)" and s: "sorted (map fst ?d)"
    using assms(5) by (simp_all add: sorts_def)
  have "sort_loop n ft (print_file ft ls) None [] = Some (Some (map (\<lambda>l. (line_key ft l, l)) ls))"
    using sort_loop_lines [OF assms(3), of "[]" n None] assms(4) by (simp add: print_file_def ends_file_def)
  moreover have "concat (map (\<lambda>(k, l). l @ [LF]) ?d) = print_lines (map snd ?d)"
    by (simp add: print_lines_def comp_def case_prod_unfold)
  ultimately have "sort_file E f n ft c = Some (0, put_file f (print_file ft (map snd ?d)) c)"
    using assms(1,2) by (simp add: sort_file_def) (simp add: print_file_def)
  moreover have "sorted (map (line_key ft) (map snd ?d))"
    unfolding keyed_lines(2) [of "ce_qsort E", OF m] by (rule s)
  ultimately show ?thesis using keyed_lines(1) [of "ce_qsort E", OF m] by blast
qed

lemma put_file_simps [simp]:
  "contents (put_file f b c) f = b" "g \<noteq> f \<Longrightarrow> contents (put_file f b c) g = contents c g"
  "put_file f b (put_file f b' c) = put_file f b c"
  "ct_cdb (put_file f b c) = ct_cdb c" "ct_more (put_file f b c) = ct_more c" "ct_cache (put_file f b c) = ct_cache c"
  "ct_file (put_file f b c) f = Some b" "g \<noteq> f \<Longrightarrow> ct_file (put_file f b c) g = ct_file c g"
  by (simp_all add: contents_def put_file_def)

text \<open>
  C22. \<open>update_file\<close> on a file of lines: afterwards the file holds the lines it had and the new one, sorted by
  their keys, whether it was sorted before or not; and when it was, the old lines keep their order and
  the new one stands behind those with the same key.
\<close>

theorem update_file_sorted:
  assumes "ce_writable E f" "contents c f = print_file ft ls" "list_all (good_line ft) (u # ls)" "sorts (ce_qsort E)"
  shows "\<exists>ls'. update_file E f u ft c = Some (0, put_file f (print_file ft ls') c) \<and> mset ls' = mset (u # ls)
    \<and> sorted (map (line_key ft) ls') \<and> (sorted (map (line_key ft) ls) \<longrightarrow> ls' = insert_line ft u ls)"
proof -
  have g: "list_all (good_line ft) ls" "good_line ft u" using assms(3) by simp_all
  have key: "extract_domain None u ft = Some (line_key ft u)" by (rule good_line_key [OF g(2)])
  let ?h = "\<exists>l \<in> set ls. line_key ft u < line_key ft l"
  obtain n where n: "update_loop u (line_key ft u) ft (print_file ft ls) None [] False 0 False [] =
      Some (if ?h then print_lines (insert_line ft u ls) else print_lines ls, ?h, n, \<not> sorted (map (line_key ft) ls))"
      "length ls \<le> n"
    using update_loop_lines [OF g(1), of u None "[]" False 0 False "[]"]
    by (auto simp: print_file_def ends_file_def)
  let ?c = "put_file f (print_file ft (insert_line ft u ls)) c"
  have out: "(if ?h then print_lines (insert_line ft u ls) else print_lines ls) @ (if ?h then [] else u @ [LF]) =
      print_lines (insert_line ft u ls)"
    using insert_line_last [of ls ft u] by auto
  have upd: "update_file E f u ft c = (if sorted (map (line_key ft) ls) then Some (0, ?c)
      else map_option (\<lambda>(_, c'). (0, c')) (sort_file E f (n + 1) ft ?c))"
    using assms(1,2) n(1) key out
    by (simp add: update_file_def Let_def print_file_def ends_file_def del: append_assoc flip: append_assoc)
  show ?thesis
  proof (cases "sorted (map (line_key ft) ls)")
    case True
    with upd show ?thesis using sorted_insert_line [of ft ls u] by (intro exI [of _ "insert_line ft u ls"]) simp
  next
    case False
    have "list_all (good_line ft) (insert_line ft u ls)" using g by (simp add: list_all_iff)
    with sort_file_lines [of E f ?c ft "insert_line ft u ls" "n + 1"] assms(1,4) n(2) obtain ls'
      where "sort_file E f (n + 1) ft ?c = Some (0, put_file f (print_file ft ls') ?c)"
        "mset ls' = mset (insert_line ft u ls)" "sorted (map (line_key ft) ls')"
      by auto
    with False upd show ?thesis by (intro exI [of _ ls']) simp
  qed
qed


section \<open>Entries of the file\<close>

lemma c_str_plain: "plain_line l \<Longrightarrow> c_str (l @ [LF]) = l @ [LF]"
  by (intro c_str_nul_free) (auto simp: plain_line_def nul_free_def)

definition line_entry :: "string \<Rightarrow> domain_entry option" where
  "line_entry l = parse_entry (l @ [LF])"

lemma next_entry_line:
  assumes "plain_line l"
  shows "next_entry m (l @ LF # s) =
    (case line_entry l of
       None \<Rightarrow> next_entry m s
     | Some e \<Rightarrow> if m = [] \<or> m = e_realdomain e then Some (e, s) else next_entry m s)"
  using fgets_plain(1) [OF assms, of s] by (subst next_entry.simps) (simp add: line_entry_def)

lemma line_entry_dot: "line_entry ''.'' = None"
  by (simp add: line_entry_def parse_entry_def c_str_def)

text \<open>\<open>get_domain_entries\<close> reads the entries of the lines, in their order.\<close>

lemma entries_from_lines:
  assumes "list_all plain_line ls"
  shows "entries_from m (print_lines ls) =
    filter (\<lambda>e. m = [] \<or> m = e_realdomain e) (List.map_filter line_entry ls)"
  using assms
proof (induction ls)
  case Nil
  show ?case by (simp add: entries_from.simps next_entry.simps map_filter_simps)
next
  case (Cons l ls)
  have p: "plain_line l" using Cons.prems by simp
  have "entries_from m (l @ LF # print_lines ls) =
      (case line_entry l of
         None \<Rightarrow> entries_from m (print_lines ls)
       | Some e \<Rightarrow> if m = [] \<or> m = e_realdomain e then e # entries_from m (print_lines ls) else entries_from m (print_lines ls))"
    by (subst entries_from.simps, subst next_entry_line [OF p])
      (simp add: entries_from.simps [of m "print_lines ls"] split: option.split)
  with Cons show ?case by (simp add: map_filter_simps split: option.split)
qed

lemma entries_from_file:
  assumes "list_all plain_line ls"
  shows "entries_from m (print_file 1 ls) =
    filter (\<lambda>e. m = [] \<or> m = e_realdomain e) (List.map_filter line_entry ls)"
proof -
  have "print_file 1 ls = print_lines (ls @ [''.''])" by (simp add: print_file_def)
  moreover have "list_all plain_line (ls @ [''.''])" using assms plain_dot by simp
  ultimately show ?thesis
    using entries_from_lines [of "ls @ [''.'']" m] by (simp add: map_filter_def line_entry_dot)
qed

text \<open>The fields of an entry, and its line read back.\<close>

definition field_ok :: "string \<Rightarrow> bool" where
  "field_ok s \<longleftrightarrow> s \<noteq> [] \<and> CHR '':'' \<notin> set s \<and> LF \<notin> set s \<and> nul_free s"

definition name_ok :: "string \<Rightarrow> bool" where
  "name_ok a \<longleftrightarrow> field_ok a \<and> CHR ''.'' \<in> set a \<and> arrange a \<noteq> None \<and> 2 \<le> length a \<and> 2 * length a + 2 < MAX_BUFF"

definition fields_ok :: "string \<Rightarrow> string \<Rightarrow> nat \<Rightarrow> nat \<Rightarrow> string \<Rightarrow> bool" where
  "fields_ok a real uid gid dir \<longleftrightarrow>
     name_ok a \<and> field_ok real \<and> field_ok dir \<and> uid < 2 ^ 31 \<and> gid < 2 ^ 31
     \<and> length a + length real + length dir + 32 < MAX_BUFF"

lemma strtok_field:
  assumes "field_ok t"
  shows "strtok '':'' (t @ CHR '':'' # r) = Some (t, r)"
proof -
  obtain c t' where t: "t = c # t'" "c \<noteq> CHR '':''" using assms by (cases t) (auto simp: field_ok_def)
  have "dropWhile (\<lambda>c. c \<in> set '':'') (t @ CHR '':'' # r) = t @ CHR '':'' # r" using t by simp
  moreover have "takeWhile (\<lambda>c. c \<notin> set '':'') (t @ CHR '':'' # r) = t" "dropWhile (\<lambda>c. c \<notin> set '':'') (t @ CHR '':'' # r) = CHR '':'' # r"
    using assms by (auto simp: field_ok_def takeWhile_append dropWhile_append)
  ultimately show ?thesis using t by (simp add: strtok_def Let_def)
qed

lemma field_show: "field_ok (show_nat n)"
proof -
  have "CHR '':'' \<notin> set (show_nat n)" "LF \<notin> set (show_nat n)" "NUL \<notin> set (show_nat n)"
    using show_nat_digits [of "CHR '':''" n] show_nat_digits [of LF n] show_nat_digits [of NUL n]
    by (auto simp: is_digit_def)
  then show ?thesis using show_nat_ex [of n] by (auto simp: field_ok_def nul_free_def)
qed

lemma uid_back: "n < 2 ^ 31 \<Longrightarrow> atoi (show_nat n) = int n"
  using atoi_show_int [of "[]" "int n"] by (simp add: show_int_def)

lemma assign_line_eq:
  assumes "fields_ok a real uid gid dir"
  shows "assign_line a real uid gid dir =
      ''+'' @ a @ ''-:'' @ real @ '':'' @ show_nat uid @ '':'' @ show_nat gid @ '':'' @ dir @ '':-::''"
    and "plain_line (assign_line a real uid gid dir)" "assign_line a real uid gid dir \<noteq> ''.''"
proof -
  have len: "length (show_nat uid) \<le> 10" "length (show_nat gid) \<le> 10"
    using assms by (auto intro!: length_show_nat simp: fields_ok_def)
  let ?l = "''+'' @ a @ ''-:'' @ real @ '':'' @ show_nat uid @ '':'' @ show_nat gid @ '':'' @ dir @ '':-::''"
  have l: "length ?l + 1 < MAX_BUFF" using len assms by (simp add: fields_ok_def)
  then show e: "assign_line a real uid gid dir = ?l" by (simp add: assign_line_def snprintf_str_def)
  have "field_ok (show_nat uid)" "field_ok (show_nat gid)" by (rule field_show)+
  with l assms show "plain_line (assign_line a real uid gid dir)"
    unfolding e by (auto simp: plain_line_def fields_ok_def name_ok_def field_ok_def nul_free_def)
  show "assign_line a real uid gid dir \<noteq> ''.''" unfolding e by simp
qed

lemma line_entry_assign:
  assumes "fields_ok a real uid gid dir"
  shows "line_entry (assign_line a real uid gid dir) =
    Some \<lparr>e_domain = a, e_realdomain = real, e_uid = int uid, e_gid = int gid, e_path = dir\<rparr>"
proof -
  let ?l = "assign_line a real uid gid dir"
  have f: "field_ok (a @ ''-'')" "field_ok real" "field_ok dir" "a \<noteq> []" "CHR ''.'' \<in> set a"
    using assms by (auto simp: fields_ok_def name_ok_def field_ok_def nul_free_def)
  have r: "hd (real @ s) \<noteq> CHR '':''" for s using f(2) by (cases real) (auto simp: field_ok_def)
  have "c_str (?l @ [LF]) = ?l @ [LF]" using assign_line_eq(2) [OF assms] by (rule c_str_plain)
  then have c: "c_str (?l @ [LF]) = CHR ''+'' # a @ CHR ''-'' # CHR '':'' # real @ CHR '':'' # show_nat uid @ CHR '':'' #
      show_nat gid @ CHR '':'' # dir @ CHR '':'' # ''-::'' @ [LF]"
    unfolding assign_line_eq(1) [OF assms] by simp
  have s: "strtok '':'' (a @ CHR ''-'' # CHR '':'' # R) = Some (a @ ''-'', R)" for R
    using strtok_field [OF f(1), of R] by simp
  have "\<not> length (a @ ''-'') < 2" using f(4) by (cases a) simp_all
  then show ?thesis
    unfolding line_entry_def parse_entry_def c
    using f assms r by (simp add: s strtok_field field_show uid_back fields_ok_def)
qed

section \<open>Adding and deleting\<close>

lemma extract_domain_name:
  assumes "name_ok a"
  shows "extract_domain None a 2 = arrange a" "extract_domain None (a @ '':'' @ a) 3 = arrange a"
    "extract_domain None (CHR ''+'' # a @ ''-:'' @ r) 1 = arrange a"
proof -
  have t: "takeWhile (\<lambda>c. c \<noteq> CHR '':'') a = a" "takeWhile (\<lambda>c. c \<noteq> CHR '':'') (a @ CHR '':'' # s) = a"
      "takeWhile (\<lambda>c. c \<noteq> CHR '':'') (a @ CHR ''-'' # CHR '':'' # s) = a @ ''-''" for s
    using assms by (auto simp: name_ok_def field_ok_def takeWhile_append takeWhile_eq_all_conv)
  have "length a + 1 < MAX_BUFF" using assms by (simp add: name_ok_def)
  then show "extract_domain None a 2 = arrange a" "extract_domain None (a @ '':'' @ a) 3 = arrange a"
    "extract_domain None (CHR ''+'' # a @ ''-:'' @ r) 1 = arrange a"
    by (simp_all add: extract_domain_def t Let_def)
qed

lemma name_lines:
  assumes "name_ok a"
  shows "good_line 2 a" "good_line 3 (a @ '':'' @ a)" "plain_line a" "snprintf_str MAX_BUFF (a @ '':'' @ a) = a @ '':'' @ a"
  using assms extract_domain_name [OF assms]
  by (auto simp: good_line_def plain_line_def name_ok_def field_ok_def nul_free_def snprintf_str_def)

lemma assign_good: "fields_ok a real uid gid dir \<Longrightarrow> good_line 1 (assign_line a real uid gid dir)"
  using assign_line_eq [of a real uid gid dir] extract_domain_name(3) [of a "real @ '':'' @ show_nat uid @ '':'' @ show_nat gid @ '':'' @ dir @ '':-::''"]
  by (auto simp: good_line_def fields_ok_def name_ok_def)

lemma string_list_small: "string_list_of 1 [v] = [v]" "string_list_of 10 [v] = [v]"
  by (simp_all add: string_list_of_def string_list_init_def string_list_add_def)

text \<open>The files of a system: sorted lines.\<close>

definition holds :: "ctl \<Rightarrow> cfile \<Rightarrow> nat \<Rightarrow> string list \<Rightarrow> bool" where
  "holds c f ft ls \<longleftrightarrow>
     contents c f = print_file ft ls \<and> list_all (good_line ft) ls \<and> sorted (map (line_key ft) ls)"

lemma update_holds:
  assumes "ce_writable E f" "sorts (ce_qsort E)" "holds c f ft ls" "good_line ft u"
  shows "update_file E f u ft c = Some (0, put_file f (print_file ft (insert_line ft u ls)) c)"
  using update_file_sorted [of E f c ft ls u] assms by (auto simp: holds_def)

lemma holds_put [simp]:
  "g \<noteq> f \<Longrightarrow> holds (put_file f b c) g ft ls = holds c g ft ls"
  "g \<noteq> Assign_file \<or> True \<Longrightarrow> holds (update_newu c) g ft ls = holds c g ft ls"
  "holds (compile_morercpthosts c) g ft ls = holds c g ft ls"
  by (simp_all add: holds_def update_newu_def compile_morercpthosts_def contents_def)

lemma holds_insert: "holds c f ft ls \<Longrightarrow> good_line ft u \<Longrightarrow>
    holds (put_file f (print_file ft (insert_line ft u ls)) c) f ft (insert_line ft u ls)"
  by (auto simp: holds_def sorted_insert_line list_all_iff)

lemma count_lines_print: "list_all plain_line ls \<Longrightarrow> count_lines (print_lines ls) = length ls"
proof (induction ls)
  case (Cons l ls)
  then show ?case using fgets_plain(1) [of l "print_lines ls"] by (subst count_lines.simps) simp
qed (simp add: count_lines.simps)

lemma holds_plain: "holds c f ft ls \<Longrightarrow> list_all plain_line ls"
  using good_line_plain by (auto simp: holds_def list_all_iff)

lemma remove_holds:
  assumes "ce_writable E f" "holds c f ft ls" "''.'' \<notin> set as"
  shows "remove_lines E f as c =
    (int (length (filter (\<lambda>l. l \<in> set as) ls)), put_file f (print_file ft (filter (\<lambda>l. l \<notin> set as) ls)) c)"
  using assms remove_loop_file [OF holds_plain [OF assms(2)] assms(3), of ft]
  by (simp add: remove_lines_def holds_def)

lemma filter_insert_line: "u \<notin> set ls \<Longrightarrow> filter (\<lambda>l. l \<noteq> u) (insert_line ft u ls) = ls"
  "u \<notin> set ls \<Longrightarrow> filter (\<lambda>l. l = u) (insert_line ft u ls) = [u]"
  by (induction ls) (auto simp: filter_empty_conv filter_id_conv)
text \<open>A system without the domain: its name in none of the files, fewer lines in none of them.\<close>

definition absent :: "ctl \<Rightarrow> string \<Rightarrow> bool" where
  "absent c a \<longleftrightarrow>
     (\<exists>las lrc lmr lvd lls. holds c Assign_file 1 las \<and> holds c Rcpthosts 2 lrc \<and> holds c Morercpthosts 2 lmr
       \<and> holds c Virtualdomains 3 lvd \<and> contents c Locals = print_lines lls \<and> list_all plain_line lls
       \<and> ct_file c Assign_file \<noteq> None \<and> a \<notin> set lrc \<and> a \<notin> set lmr \<and> a @ '':'' @ a \<notin> set lvd \<and> a \<notin> set lls
       \<and> (\<forall>l \<in> set las. case line_entry l of None \<Rightarrow> True | Some e \<Rightarrow> e_domain e \<noteq> a))"

lemma name_not_dot: "name_ok a \<Longrightarrow> a @ '':'' @ a \<noteq> ''.''"
  by (cases a) (auto simp: name_ok_def field_ok_def)

lemma remove_locals:
  assumes "ce_writable E Locals" "contents c Locals = print_lines ls" "list_all plain_line ls" "a \<notin> set ls"
  shows "remove_lines E Locals [a] c = (0, put_file Locals (print_lines ls) c)"
proof -
  have "remove_loop [a] [] n out = (n, out)" for n out by (subst remove_loop.simps) simp
  moreover have "filter (\<lambda>l. l \<in> set [a]) ls = []" "filter (\<lambda>l. l \<notin> set [a]) ls = ls"
    using assms(4) by (auto simp: filter_empty_conv filter_id_conv)
  ultimately show ?thesis
    using assms(1,2) remove_loop_lines [OF assms(3), of "[a]" "[]" 0 "[]"] by (simp add: remove_lines_def)
qed

text \<open>The file of hosts a domain is added to.\<close>

definition host_file :: "ctl \<Rightarrow> cfile" where
  "host_file c = (if count_rcpthosts c \<ge> 50 then Morercpthosts else Rcpthosts)"

lemma contents_put: "contents (put_file g b c) f = (if f = g then b else contents c f)"
  by simp

lemma add_control_files:
  assumes "\<forall>f. ce_writable E f" "sorts (ce_qsort E)" "name_ok a"
    and "holds c (host_file c) 2 lh" "holds c Virtualdomains 3 lvd"
    and "contents c Locals = print_lines lls" "list_all plain_line lls" "a \<notin> set lls"
  shows "\<exists>c'. add_control E a c = Some (0, c')
    \<and> contents c' (host_file c) = print_file 2 (insert_line 2 a lh)
    \<and> contents c' Virtualdomains = print_file 3 (insert_line 3 (a @ '':'' @ a) lvd)
    \<and> (\<forall>f. f \<noteq> host_file c \<and> f \<noteq> Virtualdomains \<longrightarrow> contents c' f = contents c f) \<and> ct_cdb c' = ct_cdb c
    \<and> ct_cache c' = ct_cache c"
proof -
  note n = name_lines [OF assms(3)]
  let ?c1 = "put_file (host_file c) (print_file 2 (insert_line 2 a lh)) c"
  define c1 where "c1 = (if host_file c = Morercpthosts \<and> \<not> ce_optimize E then compile_morercpthosts ?c1 else ?c1)"
  have h: "host_file c \<noteq> Virtualdomains" "host_file c \<noteq> Locals" by (simp_all add: host_file_def)
  have v: "holds c1 Virtualdomains 3 lvd" using assms(5) h by (simp add: c1_def)
  have l: "contents c1 Locals = print_lines lls"
    using assms(6) h by (simp add: c1_def compile_morercpthosts_def contents_def put_file_def)
  let ?c2 = "put_file Virtualdomains (print_file 3 (insert_line 3 (a @ '':'' @ a) lvd)) c1"
  have u1: "(if count_rcpthosts c \<ge> 50
      then map_option (\<lambda>(r, c'). (r, if r = 0 \<and> \<not> ce_optimize E then compile_morercpthosts c' else c'))
             (update_file E Morercpthosts a 2 c)
      else update_file E Rcpthosts a 2 c) = Some (0, c1)"
    using assms(1,4) update_holds [of E "host_file c" c 2 lh a] assms(2) n(1)
    by (auto simp: host_file_def c1_def split: if_splits)
  have u2: "update_file E Virtualdomains (snprintf_str MAX_BUFF (a @ '':'' @ a)) 3 c1 = Some (0, ?c2)"
    unfolding n(4) using assms(1,2) update_holds [OF _ _ v n(2)] by simp
  have u3: "remove_lines E Locals [a] ?c2 = (0, put_file Locals (print_lines lls) ?c2)"
    using assms(1,7,8) l by (intro remove_locals) simp_all
  have "add_control E a c = Some (0, put_file Locals (print_lines lls) ?c2)"
    unfolding add_control_def u1 by (simp only: option.case prod.case u2 string_list_small u3) simp
  moreover have "contents c1 f = contents ?c1 f" "ct_cdb c1 = ct_cdb c" "ct_cache c1 = ct_cache c" for f
    by (simp_all add: c1_def compile_morercpthosts_def contents_def)
  ultimately show ?thesis
    using h assms(6) l by (intro exI [of _ "put_file Locals (print_lines lls) ?c2"])
      (simp add: contents_put)
qed
lemma holds_contents: "contents c' f = contents c f \<Longrightarrow> holds c' f ft ls = holds c f ft ls"
  by (simp add: holds_def)

lemma remove_one:
  assumes "ce_writable E f" "contents c f = print_file ft (insert_line ft u ls)" "list_all (good_line ft) (u # ls)"
    "u \<notin> set ls" "u \<noteq> ''.''"
  shows "remove_lines E f [u] c = (1, put_file f (print_file ft ls) c)"
proof -
  have "list_all plain_line (insert_line ft u ls)" using assms(3) by (auto simp: list_all_iff good_line_plain)
  note this and loop = remove_loop_file [OF this, of "[u]" ft]
  then show ?thesis using assms by (simp add: remove_lines_def filter_insert_line)
qed

lemma remove_none:
  assumes "ce_writable E f" "holds c f ft ls" "u \<notin> set ls" "u \<noteq> ''.''"
  shows "remove_lines E f [u] c = (0, put_file f (print_file ft ls) c)"
proof -
  have "filter (\<lambda>l. l \<in> set [u]) ls = []" "filter (\<lambda>l. l \<notin> set [u]) ls = ls"
    using assms(3) by (auto simp: filter_empty_conv filter_id_conv)
  then show ?thesis using remove_holds [OF assms(1,2), of "[u]"] assms(4) by simp
qed

lemma del_control_files:
  assumes "\<forall>f. ce_writable E f" "name_ok a" "a \<notin> set lrc" "a \<notin> set lmr" "a @ '':'' @ a \<notin> set lvd"
    and "h = Rcpthosts \<or> h = Morercpthosts"
    and "list_all (good_line 2) lrc" "list_all (good_line 2) lmr" "list_all (good_line 3) lvd"
    and "contents c Rcpthosts = print_file 2 (if h = Rcpthosts then insert_line 2 a lrc else lrc)"
    and "contents c Morercpthosts = print_file 2 (if h = Morercpthosts then insert_line 2 a lmr else lmr)"
    and "contents c Virtualdomains = print_file 3 (insert_line 3 (a @ '':'' @ a) lvd)"
  shows "\<exists>c'. del_control E [a] c = (0, c') \<and> contents c' Rcpthosts = print_file 2 lrc
    \<and> contents c' Morercpthosts = print_file 2 lmr \<and> contents c' Virtualdomains = print_file 3 lvd
    \<and> ct_file c' Assign_file = ct_file c Assign_file \<and> ct_file c' Locals = ct_file c Locals
    \<and> ct_cdb c' = ct_cdb c \<and> ct_cache c' = ct_cache c"
proof -
  note n = name_lines [OF assms(2)]
  have dot: "a \<noteq> ''.''" "a @ '':'' @ a \<noteq> ''.''"
    using assms(2) name_not_dot [OF assms(2)] by (auto simp: name_ok_def)
  have vd: "string_list_of 10 (map (\<lambda>a. snprintf_str MAX_BUFF (a @ '':'' @ a)) [a]) = [a @ '':'' @ a]"
    by (simp only: list.map n(4) string_list_small)
  have w: "ce_writable E f" for f using assms(1) by simp
  have V: "remove_lines E Virtualdomains [a @ '':'' @ a] c2 = (1, put_file Virtualdomains (print_file 3 lvd) c2)"
    if "contents c2 Virtualdomains = contents c Virtualdomains" for c2
    using remove_one [OF w, of c2 Virtualdomains 3 "a @ '':'' @ a" lvd] that assms(5,9,12) n(2) dot by simp
  show ?thesis
  proof (cases "h = Rcpthosts")
    case True
    let ?c1 = "put_file Rcpthosts (print_file 2 lrc) c"
    have "remove_lines E Rcpthosts [a] c = (1, ?c1)"
      using True remove_one [OF w, of c Rcpthosts 2 a lrc] assms(3,7,10) n(1) dot by simp
    note r1 = this
    have "del_control E [a] c = (0, put_file Virtualdomains (print_file 3 lvd) ?c1)"
      unfolding del_control_def r1 prod.case vd using V [of ?c1] by simp
    then show ?thesis using assms(11) True by simp
  next
    case False
    with assms(6) have h: "h = Morercpthosts" by simp
    let ?c1 = "put_file Rcpthosts (print_file 2 lrc) c"
    let ?c2 = "put_file Morercpthosts (print_file 2 lmr) ?c1"
    have "remove_loop [a] (print_file 2 lrc) 0 [] = (0, print_file 2 lrc)"
    proof -
      have "list_all plain_line lrc" using assms(7) good_line_plain by (auto simp: list_all_iff)
      moreover have "filter (\<lambda>l. l \<in> set [a]) lrc = []" "filter (\<lambda>l. l \<notin> set [a]) lrc = lrc"
        using assms(3) by (auto simp: filter_empty_conv filter_id_conv)
      ultimately show ?thesis using remove_loop_file [of lrc "[a]" 2] dot by simp
    qed
    then have r1: "remove_lines E Rcpthosts [a] c = (0, ?c1)"
      using h w assms(10) by (simp add: remove_lines_def)
    have r2: "remove_lines E Morercpthosts [a] ?c1 = (1, ?c2)"
      using h remove_one [OF w, of ?c1 Morercpthosts 2 a lmr] assms(4,8,11) n(1) dot by simp
    define c3 where "c3 = (if contents ?c2 Morercpthosts = []
        then ?c2\<lparr>ct_file := (ct_file ?c2)(Morercpthosts := None), ct_more := None\<rparr>
        else compile_morercpthosts ?c2)"
    have c3: "contents c3 Rcpthosts = print_file 2 lrc" "contents c3 Morercpthosts = print_file 2 lmr"
        "contents c3 Virtualdomains = contents c Virtualdomains" "ct_file c3 Assign_file = ct_file c Assign_file"
        "ct_file c3 Locals = ct_file c Locals" "ct_cdb c3 = ct_cdb c" "ct_cache c3 = ct_cache c"
      by (auto simp: c3_def contents_def compile_morercpthosts_def put_file_def)
    have "del_morercpthosts E [a] ?c1 = (False, c3)"
      unfolding del_morercpthosts_def r2 prod.case c3_def by simp
    then have "del_control E [a] c = (0, put_file Virtualdomains (print_file 3 lvd) c3)"
      unfolding del_control_def r1 prod.case vd using V [OF c3(3)] by simp
    then show ?thesis using c3 by simp
  qed
qed

text \<open>
  What adding leaves behind: the entry \<open>u\<close> in \<^verbatim>\<open>users/assign\<close>, the name in one of the files of hosts and in
  \<^verbatim>\<open>virtualdomains\<close>, in files that otherwise hold the lines they had.
\<close>

definition added :: "ctl \<Rightarrow> ctl \<Rightarrow> string \<Rightarrow> string \<Rightarrow> bool" where
  "added c c1 a u \<longleftrightarrow>
     (\<exists>las lrc lmr lvd h. (h = Rcpthosts \<or> h = Morercpthosts) \<and> u \<notin> set las \<and> u \<noteq> ''.'' \<and> list_all (good_line 1) (u # las)
       \<and> (\<forall>l \<in> set las. \<forall>e. line_entry l = Some e \<longrightarrow> e_domain e \<noteq> a)
       \<and> a \<notin> set lrc \<and> a \<notin> set lmr \<and> a @ '':'' @ a \<notin> set lvd
       \<and> list_all (good_line 2) lrc \<and> list_all (good_line 2) lmr \<and> list_all (good_line 3) lvd
       \<and> contents c Assign_file = print_file 1 las \<and> contents c Rcpthosts = print_file 2 lrc
       \<and> contents c Morercpthosts = print_file 2 lmr \<and> contents c Virtualdomains = print_file 3 lvd
       \<and> ct_file c1 Assign_file = Some (print_file 1 (insert_line 1 u las))
       \<and> contents c1 Rcpthosts = print_file 2 (if h = Rcpthosts then insert_line 2 a lrc else lrc)
       \<and> contents c1 Morercpthosts = print_file 2 (if h = Morercpthosts then insert_line 2 a lmr else lmr)
       \<and> contents c1 Virtualdomains = print_file 3 (insert_line 3 (a @ '':'' @ a) lvd)
       \<and> contents c1 Locals = contents c Locals)"

lemma add_domain_added:
  assumes "\<forall>f. ce_writable E f" "sorts (ce_qsort E)" "absent c a" "fields_ok a real uid gid dir"
  shows "\<exists>c1. add_domain_assign E a real dir uid gid c = Some (0, c1)
    \<and> added c c1 a (assign_line a real uid gid dir) \<and> ct_cdb c1 = ct_file c1 Assign_file \<and> ct_cache c1 = ct_cache c"
proof -
  from assms(3) obtain las lrc lmr lvd lls where
    h: "holds c Assign_file 1 las" "holds c Rcpthosts 2 lrc" "holds c Morercpthosts 2 lmr" "holds c Virtualdomains 3 lvd"
      "contents c Locals = print_lines lls" "list_all plain_line lls" "ct_file c Assign_file \<noteq> None"
    and a: "a \<notin> set lrc" "a \<notin> set lmr" "a @ '':'' @ a \<notin> set lvd" "a \<notin> set lls"
      "\<forall>l \<in> set las. case line_entry l of None \<Rightarrow> True | Some e \<Rightarrow> e_domain e \<noteq> a"
    unfolding absent_def by blast
  have name: "name_ok a" using assms(4) by (simp add: fields_ok_def)
  let ?u = "assign_line a real uid gid dir"
  note u = assign_good [OF assms(4)] assign_line_eq(2,3) [OF assms(4)] line_entry_assign [OF assms(4)]
  have new: "?u \<notin> set las" using a(5) u(4) by force
  have w: "ce_writable E f" for f using assms(1) by simp
  let ?las = "insert_line 1 ?u las"
  let ?c1 = "update_newu (put_file Assign_file (print_file 1 ?las) c)"
  have s1: "add_domain_assign E a real dir uid gid c = add_control E a ?c1"
  proof -
    obtain b where "ct_file c Assign_file = Some b" using h(7) by blast
    then show ?thesis using update_holds [OF w assms(2) h(1) u(1)] by (simp add: add_domain_assign_def)
  qed
  have eq: "contents ?c1 f = contents c f" if "f \<noteq> Assign_file" for f
    using that by (simp add: update_newu_def contents_def put_file_def)
  have hf: "host_file ?c1 = host_file c" using eq [of Rcpthosts] by (simp add: host_file_def count_rcpthosts_def)
  let ?lh = "if host_file c = Rcpthosts then lrc else lmr"
  have hc: "host_file c = Rcpthosts \<or> host_file c = Morercpthosts" by (simp add: host_file_def)
  have hh: "holds ?c1 (host_file ?c1) 2 ?lh"
    unfolding hf using h(2,3) holds_contents [OF eq, of Rcpthosts] holds_contents [OF eq, of Morercpthosts] hc by auto
  have hv: "holds ?c1 Virtualdomains 3 lvd" using holds_contents [OF eq] h(4) by simp
  have hl: "contents ?c1 Locals = print_lines lls" using eq h(5) by simp
  from add_control_files [OF assms(1,2) name hh hv hl h(6) a(4)] obtain c1
    where c1: "add_control E a ?c1 = Some (0, c1)" "contents c1 (host_file c) = print_file 2 (insert_line 2 a ?lh)"
      "contents c1 Virtualdomains = print_file 3 (insert_line 3 (a @ '':'' @ a) lvd)"
      "\<forall>f. f \<noteq> host_file c \<and> f \<noteq> Virtualdomains \<longrightarrow> contents c1 f = contents ?c1 f" "ct_cdb c1 = ct_cdb ?c1"
      "ct_cache c1 = ct_cache ?c1"
    unfolding hf by blast
  have "contents c1 Assign_file = print_file 1 ?las"
    using c1(4) hc by (auto simp: update_newu_def contents_def put_file_def)
  then have cA: "ct_file c1 Assign_file = Some (print_file 1 ?las)"
    by (auto simp: contents_def print_file_def split: option.splits)
  have rest: "contents c1 f = contents c f" if "f \<noteq> Assign_file" "f \<noteq> host_file c" "f \<noteq> Virtualdomains" for f
    using that c1(4) eq by simp
  have f1: "contents c1 Rcpthosts = print_file 2 (if host_file c = Rcpthosts then insert_line 2 a lrc else lrc)"
    "contents c1 Morercpthosts = print_file 2 (if host_file c = Morercpthosts then insert_line 2 a lmr else lmr)"
    "contents c1 Locals = contents c Locals"
    using c1(2) rest [of Rcpthosts] rest [of Morercpthosts] rest [of Locals] hc h(2,3) by (auto simp: holds_def)
  have "\<forall>l \<in> set las. \<forall>e. line_entry l = Some e \<longrightarrow> e_domain e \<noteq> a" using a(5) by fastforce
  then have "added c c1 a ?u"
    unfolding added_def
    using hc new u(1,3) a(1-3) h(1-4) cA f1 c1(3)
    by (intro exI [of _ las] exI [of _ lrc] exI [of _ lmr] exI [of _ lvd] exI [of _ "host_file c"]) (simp add: holds_def)
  moreover have "ct_cdb c1 = ct_file c1 Assign_file" "ct_cache c1 = ct_cache c"
    using c1(5,6) cA by (simp_all add: update_newu_def)
  ultimately show ?thesis unfolding s1 using c1(1) by blast
qed

lemma del_control_added:
  assumes "\<forall>f. ce_writable E f" "name_ok a" "added c c1 a u"
    and "contents c1' Rcpthosts = contents c1 Rcpthosts" "contents c1' Morercpthosts = contents c1 Morercpthosts"
    "contents c1' Virtualdomains = contents c1 Virtualdomains"
  shows "\<exists>c2. del_control E [a] c1' = (0, c2)
    \<and> (\<forall>f \<in> {Rcpthosts, Morercpthosts, Virtualdomains}. contents c2 f = contents c f)
    \<and> ct_file c2 Assign_file = ct_file c1' Assign_file \<and> contents c2 Locals = contents c1' Locals
    \<and> ct_cdb c2 = ct_cdb c1' \<and> ct_cache c2 = ct_cache c1'"
proof -
  from assms(3) obtain las lrc lmr lvd h where
    d: "h = Rcpthosts \<or> h = Morercpthosts" "a \<notin> set lrc" "a \<notin> set lmr" "a @ '':'' @ a \<notin> set lvd"
      "list_all (good_line 2) lrc" "list_all (good_line 2) lmr" "list_all (good_line 3) lvd"
    and c: "contents c Rcpthosts = print_file 2 lrc" "contents c Morercpthosts = print_file 2 lmr"
      "contents c Virtualdomains = print_file 3 lvd"
    and c1: "contents c1 Rcpthosts = print_file 2 (if h = Rcpthosts then insert_line 2 a lrc else lrc)"
      "contents c1 Morercpthosts = print_file 2 (if h = Morercpthosts then insert_line 2 a lmr else lmr)"
      "contents c1 Virtualdomains = print_file 3 (insert_line 3 (a @ '':'' @ a) lvd)"
    unfolding added_def by blast
  from del_control_files [OF assms(1,2) d(2-4) d(1) d(5-7), of c1'] c1 assms(4-6) obtain c2
    where "del_control E [a] c1' = (0, c2)" "contents c2 Rcpthosts = print_file 2 lrc"
      "contents c2 Morercpthosts = print_file 2 lmr" "contents c2 Virtualdomains = print_file 3 lvd"
      "ct_file c2 Assign_file = ct_file c1' Assign_file" "ct_file c2 Locals = ct_file c1' Locals"
      "ct_cdb c2 = ct_cdb c1'" "ct_cache c2 = ct_cache c1'"
    by auto
  then show ?thesis using c by (intro exI [of _ c2]) (simp add: contents_def)
qed

lemma del_assign_added:
  assumes "\<forall>f. ce_writable E f" "added c c1 a (assign_line a real uid gid dir)"
    and "ct_file c1' Assign_file = ct_file c1 Assign_file"
  shows "del_domain_assign E [a] real dir uid gid c1' =
    (0, (update_newu (put_file Assign_file (contents c Assign_file) c1'))\<lparr>ct_cache := None\<rparr>)"
proof -
  let ?u = "assign_line a real uid gid dir"
  from assms(2) obtain las where l: "?u \<notin> set las" "?u \<noteq> ''.''" "list_all (good_line 1) (?u # las)"
      "contents c Assign_file = print_file 1 las" "ct_file c1 Assign_file = Some (print_file 1 (insert_line 1 ?u las))"
    unfolding added_def by blast
  have "remove_lines E Assign_file [?u] c1' = (1, put_file Assign_file (print_file 1 las) c1')"
    using assms(1,3) l by (intro remove_one) (simp_all add: contents_def)
  then show ?thesis unfolding del_domain_assign_def l(4) by (simp only: list.map string_list_small prod.case) simp
qed

lemma contents_restored:
  assumes "\<forall>f \<in> {Rcpthosts, Morercpthosts, Virtualdomains}. contents c2 f = contents c f"
    "contents c2 Locals = contents c Locals" "contents c2 Assign_file = contents c Assign_file"
  shows "\<forall>f. contents c2 f = contents c f"
proof
  fix f
  show "contents c2 f = contents c f" using assms by (cases f) auto
qed

lemma added_entries:
  assumes "added c c1 a u" "line_entry u = Some e" "e_realdomain e = real"
  shows "set (entries_from real (contents c1 Assign_file)) = insert e (set (entries_from real (contents c Assign_file)))"
proof -
  from assms(1) obtain las where l: "list_all (good_line 1) (u # las)"
      "contents c Assign_file = print_file 1 las" "ct_file c1 Assign_file = Some (print_file 1 (insert_line 1 u las))"
    unfolding added_def by blast
  have "list_all plain_line las" "list_all plain_line (insert_line 1 u las)"
    using l(1) by (auto simp: list_all_iff good_line_plain)
  moreover have "contents c1 Assign_file = print_file 1 (insert_line 1 u las)" using l(3) by (simp add: contents_def)
  moreover have "set (List.map_filter line_entry (insert_line 1 u las)) = insert e (set (List.map_filter line_entry las))"
  proof -
    have "set (List.map_filter line_entry xs) = {e. \<exists>l \<in> set xs. line_entry l = Some e}" for xs
      by (force simp: map_filter_def)
    then show ?thesis using assms(2) by auto
  qed
  ultimately show ?thesis using l(2) assms(3) by (simp only: entries_from_file) auto
qed

text \<open>
  C21. Adding a domain and deleting it again: with files of sorted lines in which the domain does not
  occur, both succeed; after adding, the entries of the real domain are those before and the new one, and
  the file is compiled; after deleting, every file has the contents it had.
\<close>

theorem add_del_domain:
  assumes "\<forall>f. ce_writable E f" "sorts (ce_qsort E)" "absent c a" "fields_ok a real uid gid dir"
  shows "\<exists>c1 c2 c3. add_domain_assign E a real dir uid gid c = Some (0, c1)
    \<and> set (entries_from real (contents c1 Assign_file)) =
        insert \<lparr>e_domain = a, e_realdomain = real, e_uid = int uid, e_gid = int gid, e_path = dir\<rparr>
          (set (entries_from real (contents c Assign_file)))
    \<and> ct_cdb c1 = ct_file c1 Assign_file
    \<and> del_control E [a] c1 = (0, c2) \<and> del_domain_assign E [a] real dir uid gid c2 = (0, c3)
    \<and> (\<forall>f. contents c3 f = contents c f) \<and> ct_cdb c3 = ct_file c3 Assign_file"
proof -
  obtain c1 where c1: "add_domain_assign E a real dir uid gid c = Some (0, c1)"
      "added c c1 a (assign_line a real uid gid dir)" "ct_cdb c1 = ct_file c1 Assign_file"
    using add_domain_added [OF assms] by blast
  have name: "name_ok a" using assms(4) by (simp add: fields_ok_def)
  obtain c2 where c2: "del_control E [a] c1 = (0, c2)"
      "\<forall>f \<in> {Rcpthosts, Morercpthosts, Virtualdomains}. contents c2 f = contents c f"
      "ct_file c2 Assign_file = ct_file c1 Assign_file" "contents c2 Locals = contents c1 Locals"
    using del_control_added [OF assms(1) name c1(2), of c1] by auto
  let ?c3 = "(update_newu (put_file Assign_file (contents c Assign_file) c2))\<lparr>ct_cache := None\<rparr>"
  have "contents c1 Locals = contents c Locals" using c1(2) by (auto simp: added_def)
  then have "\<forall>f. contents ?c3 f = contents c f"
    using c2(2,4) by (intro contents_restored) (simp_all add: update_newu_def contents_def put_file_def)
  moreover have "ct_cdb ?c3 = ct_file ?c3 Assign_file" by (simp add: update_newu_def)
  ultimately show ?thesis
    using c1(1,3) c2(1) del_assign_added [OF assms(1) c1(2) c2(3)]
      added_entries [OF c1(2) line_entry_assign [OF assms(4)]] by auto
qed

definition cenv_example :: cenv where
  "cenv_example = \<lparr>ce_writable = (\<lambda>_. True), ce_qsort = sort_key fst, ce_newu = (\<lambda>_ _. None), ce_optimize = False\<rparr>"

definition ctl_example :: ctl where
  "ctl_example = \<lparr>ct_file = (\<lambda>_. None)(Assign_file \<mapsto> print_file 1 [assign_line ''b.org'' ''b.org'' 89 89 ''/v/b.org''],
       Rcpthosts \<mapsto> print_file 2 [''b.org''], Virtualdomains \<mapsto> print_file 3 [''b.org:b.org''], Locals \<mapsto> ''localhost'' @ [LF]),
     ct_cdb = None, ct_more = None, ct_cache = None\<rparr>"

lemma sorts_example: "sorts (sort_key fst)"
  by (simp add: sorts_def)

lemma names_example: "fields_ok ''b.org'' ''b.org'' 89 89 ''/v/b.org''" "fields_ok ''a.com'' ''b.org'' 89 89 ''/v/b.org''"
proof -
  have a: "arrange ''b.org'' = Some ''b.org''" "arrange ''a.com'' = Some ''a.com''" by code_simp+
  show "fields_ok ''b.org'' ''b.org'' 89 89 ''/v/b.org''" "fields_ok ''a.com'' ''b.org'' 89 89 ''/v/b.org''"
    by (simp_all add: fields_ok_def name_ok_def field_ok_def nul_free_def MAX_BUFF_def a)
qed

lemma absent_example: "absent ctl_example ''a.com''"
proof -
  note f = names_example(1)
  have n: "name_ok ''b.org''" using f by (simp add: fields_ok_def)
  have "holds ctl_example Assign_file 1 [assign_line ''b.org'' ''b.org'' 89 89 ''/v/b.org'']"
    using assign_good [OF f] by (simp add: holds_def ctl_example_def contents_def)
  moreover have "holds ctl_example Rcpthosts 2 [''b.org'']" "holds ctl_example Morercpthosts 2 []"
      "holds ctl_example Virtualdomains 3 [''b.org:b.org'']"
    using name_lines(1,2) [OF n] by (simp_all add: holds_def ctl_example_def contents_def print_file_def)
  moreover have "contents ctl_example Locals = print_lines [''localhost'']" "list_all plain_line [''localhost'']"
    by (simp_all add: ctl_example_def contents_def plain_line_def nul_free_def MAX_BUFF_def)
  moreover have "ct_file ctl_example Assign_file \<noteq> None" by (simp add: ctl_example_def)
  moreover have "\<forall>l \<in> set [assign_line ''b.org'' ''b.org'' 89 89 ''/v/b.org'']. case line_entry l of None \<Rightarrow> True | Some e \<Rightarrow> e_domain e \<noteq> ''a.com''"
    using line_entry_assign [OF f] by simp
  moreover have "''a.com'' \<notin> set [''b.org'']" "''a.com'' \<notin> set []" "''a.com'' @ '':'' @ ''a.com'' \<notin> set [''b.org:b.org'']" "''a.com'' \<notin> set [''localhost'']"
    by simp_all
  ultimately show ?thesis unfolding absent_def by blast
qed

theorem add_del_domain_witness:
  "\<exists>c1 c2 c3. add_domain_assign cenv_example ''a.com'' ''b.org'' ''/v/b.org'' 89 89 ctl_example = Some (0, c1)
    \<and> set (entries_from ''b.org'' (contents c1 Assign_file)) =
        insert \<lparr>e_domain = ''a.com'', e_realdomain = ''b.org'', e_uid = int 89, e_gid = int 89, e_path = ''/v/b.org''\<rparr>
          (set (entries_from ''b.org'' (contents ctl_example Assign_file)))
    \<and> ct_cdb c1 = ct_file c1 Assign_file
    \<and> del_control cenv_example [''a.com''] c1 = (0, c2)
    \<and> del_domain_assign cenv_example [''a.com''] ''b.org'' ''/v/b.org'' 89 89 c2 = (0, c3)
    \<and> (\<forall>f. contents c3 f = contents ctl_example f) \<and> ct_cdb c3 = ct_file c3 Assign_file"
  using add_del_domain [OF _ _ absent_example names_example(2), of cenv_example] sorts_example
  by (simp add: cenv_example_def)

theorem update_file_sorted_witness:
  "\<exists>ls'. update_file cenv_example Rcpthosts ''a.com'' 2 ctl_example = Some (0, put_file Rcpthosts (print_file 2 ls') ctl_example)
    \<and> mset ls' = mset [''a.com'', ''b.org''] \<and> sorted (map (line_key 2) ls')
    \<and> (sorted (map (line_key 2) [''b.org'']) \<longrightarrow> ls' = insert_line 2 ''a.com'' [''b.org''])"
proof (rule update_file_sorted)
  have n: "name_ok ''a.com''" "name_ok ''b.org''" using names_example by (simp_all add: fields_ok_def)
  show "list_all (good_line 2) [''a.com'', ''b.org'']" using name_lines(1) [OF n(1)] name_lines(1) [OF n(2)] by simp
qed (simp_all add: cenv_example_def ctl_example_def contents_def sorts_def)

section \<open>Where it goes wrong\<close>

text \<open>A \<open>string_list\<close> started for 10 strings takes 10; the eleventh is lost when the list grows.\<close>

lemma string_list_takes:
  assumes "length (sl_values a) + length vs + 2 \<le> sl_size a"
  shows "foldl (\<lambda>a v. fst (string_list_add a v)) a vs = a\<lparr>sl_values := sl_values a @ vs\<rparr>"
  using assms
proof (induction vs arbitrary: a)
  case (Cons v vs)
  then have "fst (string_list_add a v) = a\<lparr>sl_values := sl_values a @ [v]\<rparr>" by (simp add: string_list_add_def)
  with Cons show ?case by simp
qed simp

lemma string_list_ten: "length vs \<le> 10 \<Longrightarrow> string_list_of 10 vs = vs"
  using string_list_takes [of "string_list_init 10" vs] by (simp add: string_list_of_def string_list_init_def)

lemma string_list_eleventh: "length vs = 10 \<Longrightarrow> string_list_of 10 (vs @ [v]) = vs"
  using string_list_takes [of "string_list_init 10" vs]
  by (simp add: string_list_of_def string_list_init_def string_list_add_def)

text \<open>So the entry of the eleventh alias stays in \<^verbatim>\<open>users/assign\<close> when the domain is deleted.\<close>

lemma eleventh_alias_stays:
  assumes "ce_writable E Assign_file" "contents c Assign_file = print_file 1 ls" "list_all plain_line ls"
    "length as = 10" "assign_line a real uid gid dir \<in> set ls"
    "assign_line a real uid gid dir \<notin> set (map (\<lambda>a. assign_line a real uid gid dir) as)"
    "''.'' \<notin> set (map (\<lambda>a. assign_line a real uid gid dir) as)"
  shows "\<exists>c' ls'. del_domain_assign E (as @ [a]) real dir uid gid c = (0, c') \<and> contents c' Assign_file = print_file 1 ls'
    \<and> assign_line a real uid gid dir \<in> set ls'"
proof -
  let ?f = "\<lambda>a. assign_line a real uid gid dir"
  have l: "string_list_of 10 (map ?f (as @ [a])) = map ?f as"
    using string_list_eleventh [of "map ?f as" "?f a"] assms(4) by simp
  have "remove_lines E Assign_file (map ?f as) c =
      (int (length (filter (\<lambda>l. l \<in> set (map ?f as)) ls)), put_file Assign_file (print_file 1 (filter (\<lambda>l. l \<notin> set (map ?f as)) ls)) c)"
    using remove_loop_file [OF assms(3,7), of 1] assms(1,2) by (simp only: remove_lines_def prod.case) simp
  then show ?thesis unfolding del_domain_assign_def l
    by (intro exI [of _ "_\<lparr>ct_cache := None\<rparr>"] exI [of _ "filter (\<lambda>l. l \<notin> set (map ?f as)) ls"])
      (use assms(5,6) in \<open>auto simp: update_newu_def contents_def put_file_def\<close>)
qed

text \<open>\<open>del_control\<close> takes no notice of a file it could not change: \<open>VA_COULD_NOT_UPDATE_FILE\<close> is not \<open>-1\<close>.\<close>

lemma del_control_unwritable:
  assumes "\<not> ce_writable E Rcpthosts" "ce_writable E Virtualdomains"
  shows "fst (del_control E as c) = 0" "contents (snd (del_control E as c)) Rcpthosts = contents c Rcpthosts"
  using assms by (auto simp: del_control_def remove_lines_def split: prod.split)

text \<open>Two aliases removed from \<^verbatim>\<open>morercpthosts\<close>, and its compiled form keeps both.\<close>

lemma morercpthosts_not_compiled:
  assumes "remove_lines E Morercpthosts as c = (2, c1)"
  shows "ct_more (snd (del_morercpthosts E as c)) = ct_more c"
  using assms by (auto simp: del_morercpthosts_def remove_lines_def split: if_splits prod.splits)

text \<open>The labels behind the last two: the third is replaced by the first. A long name overruns the buffer.\<close>

lemma extract_domain_example: "extract_domain None ''a.b.c.example.com'' 2 = Some ''example.com.a.b.a''"
  by code_simp

lemma extract_domain_overrun:
  "is_domain_valid (replicate 37 CHR ''a'' @ ''.'' @ replicate 37 CHR ''b'' @ ''.1.2.3.4.5.6.7.8'')"
  "length (replicate 37 CHR ''a'' @ ''.'' @ replicate 37 CHR ''b'' @ ''.1.2.3.4.5.6.7.8'') \<le> MAX_PW_DOMAIN"
  "extract_domain None (replicate 37 CHR ''a'' @ ''.'' @ replicate 37 CHR ''b'' @ ''.1.2.3.4.5.6.7.8'') 2 = None"
  by code_simp+


end
