(* ===== verification/Domains.thy ===== *)
theory Domains
  imports Assign
begin

text \<open>
  Adding and deleting domains (\<^verbatim>\<open>vpopmail.c\<close>): \<open>vadddomain\<close> with its steps back after a failure, \<open>vdeldomain\<close>,
  which also deletes the aliases of a domain, and \<open>vaddaliasdomain\<close>.

  The state extends that of the control files by the directories that exist, the counts of the directory
  control, the domains of the authentication back end and the signals sent to the mail server. The record
  \<open>denv\<close> holds what the outside decides: whether directories and files can be made, the name \<open>next_big_dir\<close>
  gives (\<^verbatim>\<open>Bigdir.thy\<close>), and whether the back end accepts a domain. Working directories, owners and modes
  of files are left out.
\<close>

section \<open>State\<close>

record dsys = ctl +
  dy_dirs :: "string list"             \<comment> \<open>directories that exist\<close>
  dy_count :: "nat \<Rightarrow> int"            \<comment> \<open>domains in the directory control \<^verbatim>\<open>dom_<uid>\<close>\<close>
  dy_auth :: "string list"             \<comment> \<open>domains of the back end\<close>
  dy_limits :: "string list"           \<comment> \<open>domains with limits\<close>
  dy_signals :: nat                    \<comment> \<open>how often the mail server was told to read its files\<close>

record denv = cenv +
  de_domains :: string                 \<comment> \<open>\<open>VPOPMAIL_DIR_DOMAINS\<close>\<close>
  de_mkdir :: "string \<Rightarrow> bool"
  de_chdir :: "string \<Rightarrow> bool"          \<comment> \<open>an existing directory can be entered\<close>
  de_open :: "string \<Rightarrow> bool"
  de_delfiles :: "string \<Rightarrow> bool"
  de_symlink :: "string \<Rightarrow> bool"
  de_hash :: "nat \<Rightarrow> int \<Rightarrow> string"
  de_adddomain :: "string \<Rightarrow> bool"

definition in_dir :: "denv \<Rightarrow> string \<Rightarrow> dsys \<Rightarrow> bool" where
  "in_dir E d s \<longleftrightarrow> d \<in> set (dy_dirs s) \<and> de_chdir E d"

text \<open>The tree below a directory.\<close>

definition below_dir :: "string \<Rightarrow> string \<Rightarrow> bool" where
  "below_dir d p \<longleftrightarrow> p = d \<or> take (length d + 1) p = d @ ''/''"

definition vdelfiles :: "denv \<Rightarrow> string \<Rightarrow> dsys \<Rightarrow> dsys" where
  "vdelfiles E d s =
     (if de_delfiles E d then s\<lparr>dy_dirs := filter (\<lambda>p. \<not> below_dir d p) (dy_dirs s)\<rparr> else s)"

definition add_dir :: "string \<Rightarrow> dsys \<Rightarrow> dsys" where
  "add_dir d s = s\<lparr>dy_dirs := dy_dirs s @ [d]\<rparr>"

definition count_dir :: "nat \<Rightarrow> int \<Rightarrow> dsys \<Rightarrow> dsys" where
  "count_dir uid n s = s\<lparr>dy_count := (dy_count s)(uid := dy_count s uid + n)\<rparr>"

definition signal_send :: "dsys \<Rightarrow> dsys" where
  "signal_send s = s\<lparr>dy_signals := dy_signals s + 1\<rparr>"

text \<open>An operation on the control files.\<close>

definition on_ctl :: "dsys \<Rightarrow> ctl \<Rightarrow> dsys" where
  "on_ctl s c = s\<lparr>ct_file := ct_file c, ct_cdb := ct_cdb c, ct_more := ct_more c, ct_cache := ct_cache c\<rparr>"

definition ctl_of :: "dsys \<Rightarrow> ctl" where
  "ctl_of s = \<lparr>ct_file = ct_file s, ct_cdb = ct_cdb s, ct_more = ct_more s, ct_cache = ct_cache s\<rparr>"

definition cenv_of :: "denv \<Rightarrow> cenv" where
  "cenv_of E = \<lparr>ce_writable = ce_writable E, ce_qsort = ce_qsort E, ce_newu = ce_newu E, ce_optimize = ce_optimize E\<rparr>"

section \<open>vadddomain\<close>

definition is_alnum :: "char \<Rightarrow> bool" where
  "is_alnum c \<longleftrightarrow> is_digit c \<or> 65 \<le> (of_char c :: nat) \<and> (of_char c :: nat) \<le> 90
     \<or> 97 \<le> (of_char c :: nat) \<and> (of_char c :: nat) \<le> 122"

definition domain_name_ok :: "string \<Rightarrow> bool" where
  "domain_name_ok d \<longleftrightarrow>
     list_all (\<lambda>c. is_alnum c \<or> c = CHR ''-'' \<or> c = CHR ''.'') d \<and> hd d \<noteq> CHR ''-'' \<and> last d \<noteq> CHR ''-'' \<and> CHR ''.'' \<in> set d"

text \<open>The steps back that most failures share.\<close>

definition back_out :: "denv \<Rightarrow> string \<Rightarrow> nat \<Rightarrow> dsys \<Rightarrow> dsys" where
  "back_out E sub uid s = count_dir uid (- 1) (vdelfiles E sub s)"

text \<open>
  When the back end refuses the domain. \<open>None\<close>: the domain that was just added is not found, and the code
  goes on with a buffer that is not set.
\<close>

definition undo_domain :: "denv \<Rightarrow> string \<Rightarrow> string \<Rightarrow> nat \<Rightarrow> dsys \<Rightarrow> (va \<times> dsys) option" where
  "undo_domain E domain sub uid s =
     (let s1 = back_out E sub uid s
      in case vget_assign (cenv_of E) domain (ctl_of s1) of
           Some ((domain', Some a), c2) \<Rightarrow>
             (case del_domain_assign (cenv_of E) [domain'] domain' (snprintf_str MAX_BUFF (as_dir a)) (as_uid a) (as_gid a) c2 of
                (_, c3) \<Rightarrow> Some (VA_NO_AUTH_CONNECTION, signal_send (on_ctl s1 (snd (del_control (cenv_of E) [domain'] c3)))))
         | _ \<Rightarrow> None)"

text \<open>From the name of the directory of the domain on.\<close>

definition make_domain :: "denv \<Rightarrow> string \<Rightarrow> string \<Rightarrow> string \<Rightarrow> nat \<Rightarrow> nat \<Rightarrow> dsys \<Rightarrow> (va \<times> dsys) option" where
  "make_domain E domain dir sub uid gid s =
     (if length dir + length sub > MAX_PW_DIR then Some (VA_DIR_TOO_LONG, count_dir uid (- 1) s)
      else if \<not> de_mkdir E sub then Some (VA_COULD_NOT_MAKE_DOMAIN_DIR, count_dir uid (- 1) s)
      else let s1 = add_dir sub s
      in if \<not> in_dir E sub s1 then Some (VA_BAD_D_DIR, back_out E sub uid s1)
      else if \<not> de_open E (snprintf_str MAX_BUFF (sub @ ''/.qmail-default''))
      then Some (VA_COULD_NOT_OPEN_QMAIL_DEFAULT, back_out E sub uid s1)
      else case add_domain_assign (cenv_of E) domain domain sub uid gid (ctl_of s1) of
        None \<Rightarrow> None
      | Some (r, c2) \<Rightarrow>
          let s2 = on_ctl s1 c2
          in if r \<noteq> 0 then Some (VA_COULD_NOT_UPDATE_FILE, back_out E sub uid s2)
             else if \<not> de_adddomain E domain then undo_domain E domain sub uid s2
             else let s3 = s2\<lparr>dy_auth := dy_auth s2 @ [domain]\<rparr>
                  in Some (VA_SUCCESS, if ce_optimize E then s3 else signal_send s3))"

text \<open>\<open>dir0\<close> is \<open>None\<close> for a null pointer and for \<open>VPOPMAIL_DIR_DOMAINS\<close> itself.\<close>

definition domain_home :: "denv \<Rightarrow> string \<Rightarrow> string option \<Rightarrow> string" where
  "domain_home E domain dir0 =
     (case dir0 of
        Some d \<Rightarrow> if d \<noteq> [] then d else snprintf_str 512 (de_domains E @ ''/'' @ domain)
      | None \<Rightarrow> snprintf_str 512 (de_domains E @ ''/'' @ domain))"

definition domain_sub_dir :: "string \<Rightarrow> string \<Rightarrow> string \<Rightarrow> string" where
  "domain_sub_dir dir hash domain =
     snprintf_str MAX_BUFF (if hash \<noteq> [] then dir @ ''/'' @ hash @ ''/'' @ domain else dir @ ''/'' @ domain)"

definition vadddomain :: "denv \<Rightarrow> string \<Rightarrow> string option \<Rightarrow> nat \<Rightarrow> nat \<Rightarrow> dsys \<Rightarrow> (va \<times> dsys) option" where
  "vadddomain E domain0 dir0 uid gid s =
     (let domain = lowerit domain0
      in if length domain < 3 then Some (VA_INVALID_DOMAIN_NAME, s)
         else if length domain > MAX_PW_DOMAIN then Some (VA_DOMAIN_NAME_TOO_LONG, s)
         else if \<not> domain_name_ok domain then Some (VA_INVALID_DOMAIN_NAME, s)
         else case vget_assign (cenv_of E) domain (ctl_of s) of
           None \<Rightarrow> None
         | Some ((_, Some _), c) \<Rightarrow> Some (VA_DOMAIN_ALREADY_EXISTS, on_ctl s c)
         | Some ((_, None), c) \<Rightarrow>
             let s0 = on_ctl s c; dir = domain_home E domain dir0
             in if \<not> in_dir E dir s0 \<and> \<not> de_mkdir E dir then Some (VA_CAN_NOT_MAKE_DOMAINS_DIR, s0)
                else let s1 = (if in_dir E dir s0 then s0 else add_dir dir s0)
                in if \<not> in_dir E dir s1 then Some (VA_BAD_D_DIR, s1)
                   else make_domain E domain dir (domain_sub_dir dir (de_hash E uid (dy_count s1 uid)) domain) uid gid
                          (count_dir uid 1 s1))"

section \<open>vdeldomain and aliases\<close>

text \<open>The part for a real domain: back end, limits, files.\<close>

definition del_real_domain :: "denv \<Rightarrow> string \<Rightarrow> assigned \<Rightarrow> dsys \<Rightarrow> dsys" where
  "del_real_domain E domain a s =
     (let dir = snprintf_str MAX_BUFF (as_dir a);
          s1 = s\<lparr>dy_auth := removeAll domain (dy_auth s), dy_limits := removeAll domain (dy_limits s)\<rparr>;
          s2 = (if de_symlink E dir then s1\<lparr>dy_dirs := removeAll dir (dy_dirs s1)\<rparr> else vdelfiles E dir s1)
      in count_dir (as_uid a) (- 1) s2)"

definition vdeldomain :: "denv \<Rightarrow> string \<Rightarrow> dsys \<Rightarrow> (va \<times> dsys) option" where
  "vdeldomain E domain0 s =
     (let domain = lowerit domain0
      in if length domain > MAX_PW_DOMAIN then Some (VA_DOMAIN_NAME_TOO_LONG, s)
         else case vget_assign (cenv_of E) domain (ctl_of s) of
           None \<Rightarrow> None
         | Some ((_, None), c) \<Rightarrow> Some (VA_DOMAIN_DOES_NOT_EXIST, on_ctl s c)
         | Some ((real, Some a), c) \<Rightarrow>
             let s0 = on_ctl s c
             in case (if domain \<noteq> real then Some (string_list_of 1 [domain], s0)
                      else case get_domain_entries (cenv_of E) real c of
                        None \<Rightarrow> None
                      | Some (es, c1) \<Rightarrow>
                          Some (string_list_of 10 (map e_domain (case es of None \<Rightarrow> [] | Some es \<Rightarrow> es)),
                                del_real_domain E real a (on_ctl s0 c1))) of
                  None \<Rightarrow> None
                | Some (aliases, s1) \<Rightarrow>
                    (case del_control (cenv_of E) aliases (ctl_of s1) of
                       (_, c2) \<Rightarrow>
                       (case del_domain_assign (cenv_of E) aliases real (snprintf_str MAX_BUFF (as_dir a)) (as_uid a) (as_gid a) c2 of
                          (_, c3) \<Rightarrow> Some (VA_SUCCESS, signal_send (on_ctl s1 c3)))))"

definition vaddaliasdomain :: "denv \<Rightarrow> string \<Rightarrow> string \<Rightarrow> dsys \<Rightarrow> (va \<times> dsys) option" where
  "vaddaliasdomain E alias0 real0 s =
     (let alias = lowerit alias0; real = lowerit real0
      in if \<not> is_domain_valid real \<or> \<not> is_domain_valid alias then Some (VA_INVALID_DOMAIN_NAME, s)
         else if length alias > MAX_PW_DOMAIN then Some (VA_DOMAIN_NAME_TOO_LONG, s)
         else case vget_assign (cenv_of E) alias (ctl_of s) of
           None \<Rightarrow> None
         | Some ((_, Some _), c) \<Rightarrow> Some (VA_DOMAIN_ALREADY_EXISTS, on_ctl s c)
         | Some ((alias', None), c) \<Rightarrow>
           (case vget_assign (cenv_of E) real c of
              None \<Rightarrow> None
            | Some ((_, None), c) \<Rightarrow> Some (VA_DOMAIN_DOES_NOT_EXIST, on_ctl s c)
            | Some ((real', Some a), c) \<Rightarrow>
                if alias' = real' then Some (VA_DOMAIN_ALREADY_EXISTS, on_ctl s c)
                else map_option (\<lambda>(_, c). (VA_SUCCESS, signal_send (on_ctl s c)))
                       (add_domain_assign (cenv_of E) alias' real' (snprintf_str MAX_BUFF (as_dir a)) (as_uid a) (as_gid a) c)))"


section \<open>Looking up what was added\<close>

text \<open>
  What \<^verbatim>\<open>qmail-newu\<close> promises: the record of a domain that has exactly one entry holds the fields of that
  entry, and a domain without an entry has none.
\<close>

definition entry_record :: "domain_entry \<Rightarrow> assigned" where
  "entry_record e = \<lparr>as_domain = e_realdomain e, as_dir = e_path e, as_uid = unat (word_of_int (e_uid e) :: 32 word),
     as_gid = unat (word_of_int (e_gid e) :: 32 word)\<rparr>"

definition newu_reads :: "(char list \<Rightarrow> string \<Rightarrow> char list option) \<Rightarrow> bool" where
  "newu_reads newu \<longleftrightarrow>
     (\<forall>ls a. list_all plain_line ls \<and> (\<forall>l \<in> set ls. line_entry l \<noteq> None) \<longrightarrow>
        (\<forall>e. filter (\<lambda>e. e_domain e = a) (map (the \<circ> line_entry) ls) = [e] \<longrightarrow>
           (\<exists>d. newu (print_file 1 ls) (''!'' @ a @ ''-'') = Some d \<and> assign_record d = Some (entry_record e)))
        \<and> (filter (\<lambda>e. e_domain e = a) (map (the \<circ> line_entry) ls) = [] \<longrightarrow>
             newu (print_file 1 ls) (''!'' @ a @ ''-'') = None))"

text \<open>Every line of the file is an entry.\<close>

definition known :: "ctl \<Rightarrow> bool" where
  "known c \<longleftrightarrow>
     (\<exists>las. contents c Assign_file = print_file 1 las \<and> list_all plain_line las \<and> (\<forall>l \<in> set las. line_entry l \<noteq> None))"

lemma print_lines_inj:
  "print_lines ls = print_lines ms \<Longrightarrow> list_all plain_line ls \<Longrightarrow> list_all plain_line ms \<Longrightarrow> ls = ms"
proof (induction ls arbitrary: ms)
  case Nil
  then show ?case by (cases ms) simp_all
next
  case (Cons l ls)
  then obtain m ms' where ms: "ms = m # ms'" by (cases ms) simp_all
  have n: "LF \<notin> set l" "LF \<notin> set m" using Cons.prems ms by (simp_all add: plain_line_def)
  have e: "l @ LF # print_lines ls = m @ LF # print_lines ms'" using Cons.prems(1) ms by simp
  have "takeWhile (\<lambda>c. c \<noteq> LF) (l @ LF # print_lines ls) = l" "takeWhile (\<lambda>c. c \<noteq> LF) (m @ LF # print_lines ms') = m"
    using n by (simp_all add: takeWhile_stop)
  with e have "l = m" by simp
  then have "print_lines ls = print_lines ms'" using e by simp
  then have "ls = ms'" using Cons.prems(2,3) ms by (intro Cons.IH) simp_all
  then show ?case using \<open>l = m\<close> ms by simp
qed

lemma print_file_inj:
  "print_file ft ls = print_file ft ms \<Longrightarrow> list_all plain_line ls \<Longrightarrow> list_all plain_line ms \<Longrightarrow> ls = ms"
  using print_lines_inj by (simp add: print_file_def)

lemma key_name: "name_ok a \<Longrightarrow> snprintf_str MAX_BUFF (''!'' @ a @ ''-'') = ''!'' @ a @ ''-''" "name_ok a \<Longrightarrow> a \<noteq> []"
  by (auto simp: name_ok_def field_ok_def snprintf_str_def)

lemma vget_found:
  assumes "ct_cache c = None" "ct_cdb c = Some (print_file 1 ls)" "list_all plain_line ls" "\<forall>l \<in> set ls. line_entry l \<noteq> None"
    and "newu_reads (ce_newu E)" "filter (\<lambda>e. e_domain e = a) (map (the \<circ> line_entry) ls) = [e]"
    and "lowerit a = a" "name_ok a" "length (e_realdomain e) \<le> MAX_PW_DOMAIN"
  shows "vget_assign E a c = Some ((e_realdomain e, Some (entry_record e)), c\<lparr>ct_cache := Some (entry_record e)\<rparr>)"
proof -
  obtain d where "ce_newu E (print_file 1 ls) (''!'' @ a @ ''-'') = Some d" "assign_record d = Some (entry_record e)"
    using assms(3-6) unfolding newu_reads_def by blast
  then show ?thesis
    using assms(1,2,7,9) key_name [OF assms(8)] by (simp add: vget_assign_def entry_record_def snprintf_str_def)
qed

lemma vget_missing:
  assumes "ct_cache c = None" "ct_cdb c = Some (print_file 1 ls)" "list_all plain_line ls" "\<forall>l \<in> set ls. line_entry l \<noteq> None"
    and "newu_reads (ce_newu E)" "filter (\<lambda>e. e_domain e = a) (map (the \<circ> line_entry) ls) = []"
    and "lowerit a = a" "name_ok a"
  shows "vget_assign E a c = Some ((a, None), c)"
proof -
  have "ce_newu E (print_file 1 ls) (''!'' @ a @ ''-'') = None"
    using assms(3-6) unfolding newu_reads_def by blast
  then show ?thesis
    using assms(1,2,7) key_name [OF assms(8)] by (simp add: vget_assign_def)
qed

lemma lookup_absent:
  assumes "absent c a" "known c" "ct_cdb c = ct_file c Assign_file" "ct_cache c = None" "newu_reads (ce_newu E)"
    "lowerit a = a" "name_ok a"
  shows "vget_assign E a c = Some ((a, None), c)"
proof -
  from assms(1) obtain las where l: "contents c Assign_file = print_file 1 las" "list_all plain_line las" "ct_file c Assign_file \<noteq> None"
      "\<forall>l \<in> set las. case line_entry l of None \<Rightarrow> True | Some e \<Rightarrow> e_domain e \<noteq> a"
    unfolding absent_def using holds_plain by (fastforce simp: holds_def)
  moreover from assms(2) obtain las' where "contents c Assign_file = print_file 1 las'" "list_all plain_line las'"
      "\<forall>l \<in> set las'. line_entry l \<noteq> None" unfolding known_def by blast
  ultimately have k: "\<forall>l \<in> set las. line_entry l \<noteq> None" using print_file_inj [of 1 las las'] by simp
  have f: "filter (\<lambda>e. e_domain e = a) (map (the \<circ> line_entry) las) = []"
    using l(4) k by (fastforce simp: filter_empty_conv)
  have "ct_cdb c = Some (print_file 1 las)" using assms(3) l(1,3) by (auto simp: contents_def)
  then show ?thesis by (rule vget_missing [OF assms(4) _ l(2) k assms(5) f assms(6,7)])
qed

lemma filter_insert:
  assumes "line_entry u = Some e" "e_domain e = a" "\<forall>l \<in> set ls. \<forall>e. line_entry l = Some e \<longrightarrow> e_domain e \<noteq> a"
    "\<forall>l \<in> set ls. line_entry l \<noteq> None"
  shows "filter (\<lambda>e. e_domain e = a) (map (the \<circ> line_entry) (insert_line ft u ls)) = [e]"
  using assms by (induction ls) (auto simp: filter_empty_conv)

lemma lookup_added:
  assumes "added c c1 a (assign_line a real uid gid dir)" "known c" "fields_ok a real uid gid dir"
    and "ct_cdb c1' = ct_file c1 Assign_file" "ct_cache c1' = None" "newu_reads (ce_newu E)"
    and "lowerit a = a" "length real \<le> MAX_PW_DOMAIN"
  shows "vget_assign E a c1' =
    Some ((real, Some \<lparr>as_domain = real, as_dir = dir, as_uid = uid, as_gid = gid\<rparr>),
      c1'\<lparr>ct_cache := Some \<lparr>as_domain = real, as_dir = dir, as_uid = uid, as_gid = gid\<rparr>\<rparr>)"
proof -
  let ?u = "assign_line a real uid gid dir"
  let ?e = "\<lparr>e_domain = a, e_realdomain = real, e_uid = int uid, e_gid = int gid, e_path = dir\<rparr>"
  from assms(1) obtain las where l: "list_all (good_line 1) (?u # las)" "contents c Assign_file = print_file 1 las"
      "\<forall>l \<in> set las. \<forall>e. line_entry l = Some e \<longrightarrow> e_domain e \<noteq> a"
      "ct_file c1 Assign_file = Some (print_file 1 (insert_line 1 ?u las))"
    unfolding added_def by blast
  have p: "list_all plain_line las" "list_all plain_line (insert_line 1 ?u las)"
    using l(1) by (auto simp: list_all_iff good_line_plain)
  from assms(2) obtain las' where "contents c Assign_file = print_file 1 las'" "list_all plain_line las'"
      "\<forall>l \<in> set las'. line_entry l \<noteq> None" unfolding known_def by blast
  then have k: "\<forall>l \<in> set las. line_entry l \<noteq> None" using l(2) p(1) print_file_inj [of 1 las las'] by simp
  note ue = line_entry_assign [OF assms(3)]
  have "filter (\<lambda>e. e_domain e = a) (map (the \<circ> line_entry) (insert_line 1 ?u las)) = [?e]"
    using filter_insert [OF ue _ l(3) k, of 1] by simp
  moreover have "\<forall>l \<in> set (insert_line 1 ?u las). line_entry l \<noteq> None" using k ue by simp
  moreover have "entry_record ?e = \<lparr>as_domain = real, as_dir = dir, as_uid = uid, as_gid = gid\<rparr>"
    using assms(3) by (simp add: entry_record_def fields_ok_def unsigned_of_nat take_bit_nat_eq_self)
  moreover have "name_ok a" using assms(3) by (simp add: fields_ok_def)
  ultimately show ?thesis
    using vget_found [OF assms(5) _ p(2) _ assms(6) _ assms(7), of ?e] assms(4,8) l(4) by simp
qed
section \<open>Adding and deleting\<close>

lemma ctl_of_simps [simp]:
  "ctl_of (on_ctl s c) = c" "ctl_of (add_dir d s) = ctl_of s" "ctl_of (count_dir u n s) = ctl_of s"
  "ctl_of (signal_send s) = ctl_of s" "ctl_of (vdelfiles E d s) = ctl_of s" "ctl_of (back_out E d u s) = ctl_of s"
  "ctl_of (s\<lparr>dy_auth := x\<rparr>) = ctl_of s" "ctl_of (s\<lparr>dy_limits := x\<rparr>) = ctl_of s"
  by (simp_all add: ctl_of_def on_ctl_def add_dir_def count_dir_def signal_send_def vdelfiles_def back_out_def)

text \<open>The rest of the state.\<close>

definition outside :: "dsys \<Rightarrow> string list \<times> (nat \<Rightarrow> int) \<times> string list \<times> string list" where
  "outside s = (dy_dirs s, dy_count s, dy_auth s, dy_limits s)"

lemma outside_simps [simp]:
  "outside (on_ctl s c) = outside s" "outside (signal_send s) = outside s"
  by (simp_all add: outside_def on_ctl_def signal_send_def)

text \<open>
  A system ready for a new domain \<open>d\<close>: its files hold sorted lines without \<open>d\<close>, all lines of \<^verbatim>\<open>users/assign\<close> are
  entries and the file is compiled; the home is there and nothing is in the place of the new directory.
\<close>

definition ready :: "denv \<Rightarrow> string \<Rightarrow> string option \<Rightarrow> nat \<Rightarrow> nat \<Rightarrow> dsys \<Rightarrow> string \<Rightarrow> bool" where
  "ready E d dir0 uid gid s sub \<longleftrightarrow>
     (\<forall>f. ce_writable E f) \<and> sorts (ce_qsort E) \<and> newu_reads (ce_newu E)
     \<and> absent (ctl_of s) d \<and> known (ctl_of s) \<and> ct_cdb s = ct_file s Assign_file \<and> ct_cache s = None
     \<and> lowerit d = d \<and> 3 \<le> length d \<and> length d \<le> MAX_PW_DOMAIN \<and> domain_name_ok d
     \<and> in_dir E (domain_home E d dir0) s
     \<and> sub = domain_sub_dir (domain_home E d dir0) (de_hash E uid (dy_count s uid)) d
     \<and> fields_ok d d uid gid sub \<and> length (domain_home E d dir0) + length sub \<le> MAX_PW_DIR
     \<and> de_mkdir E sub \<and> de_chdir E sub \<and> de_open E (snprintf_str MAX_BUFF (sub @ ''/.qmail-default'')) \<and> de_delfiles E sub
     \<and> \<not> de_symlink E sub \<and> (\<forall>p \<in> set (dy_dirs s). \<not> below_dir sub p) \<and> d \<notin> set (dy_auth s) \<and> d \<notin> set (dy_limits s)
     \<and> entries_from d (contents (ctl_of s) Assign_file) = []"

lemma vadddomain_steps:
  assumes "ready E d dir0 uid gid s sub"
  shows "\<exists>c1. vadddomain E d dir0 uid gid s =
      (let s2 = on_ctl (add_dir sub (count_dir uid 1 s)) c1
       in if \<not> de_adddomain E d then undo_domain E d sub uid s2
          else let s3 = s2\<lparr>dy_auth := dy_auth s @ [d]\<rparr>
               in Some (VA_SUCCESS, if ce_optimize E then s3 else signal_send s3))
    \<and> added (ctl_of s) c1 d (assign_line d d uid gid sub) \<and> ct_cdb c1 = ct_file c1 Assign_file \<and> ct_cache c1 = None"
proof -
  note a = assms [unfolded ready_def]
  have c: "\<forall>f. ce_writable (cenv_of E) f" "sorts (ce_qsort (cenv_of E))" "newu_reads (ce_newu (cenv_of E))"
    using a by (simp_all add: cenv_of_def)
  have name: "name_ok d" using a by (simp add: fields_ok_def)
  obtain c1 where c1: "add_domain_assign (cenv_of E) d d sub uid gid (ctl_of s) = Some (0, c1)"
      "added (ctl_of s) c1 d (assign_line d d uid gid sub)" "ct_cdb c1 = ct_file c1 Assign_file" "ct_cache c1 = ct_cache (ctl_of s)"
    using add_domain_added [OF c(1,2), of "ctl_of s" d d uid gid sub] a by blast
  have l: "vget_assign (cenv_of E) d (ctl_of s) = Some ((d, None), ctl_of s)"
  proof (rule lookup_absent [OF _ _ _ _ c(3) _ name])
    show "absent (ctl_of s) d" "known (ctl_of s)" "lowerit d = d" using a by blast+
    show "ct_cdb (ctl_of s) = ct_file (ctl_of s) Assign_file" "ct_cache (ctl_of s) = None" using a by (simp_all add: ctl_of_def)
  qed
  have o: "on_ctl s (ctl_of s) = s" by (simp add: on_ctl_def ctl_of_def)
  have g: "length (domain_home E d dir0) + length sub \<le> MAX_PW_DIR" "de_mkdir E sub" "de_chdir E sub"
      "de_open E (snprintf_str MAX_BUFF (sub @ ''/.qmail-default''))" "in_dir E (domain_home E d dir0) s"
      "domain_sub_dir (domain_home E d dir0) (de_hash E uid (dy_count s uid)) d = sub"
      "lowerit d = d" "3 \<le> length d" "length d \<le> MAX_PW_DOMAIN" "domain_name_ok d" "ct_cache s = None"
    using a by blast+
  have i: "in_dir E sub (add_dir sub (count_dir uid 1 s))" using g(3) by (simp add: in_dir_def add_dir_def)
  have m: "make_domain E d (domain_home E d dir0) sub uid gid (count_dir uid 1 s) =
      (let s2 = on_ctl (add_dir sub (count_dir uid 1 s)) c1
       in if \<not> de_adddomain E d then undo_domain E d sub uid s2
          else let s3 = s2\<lparr>dy_auth := dy_auth s @ [d]\<rparr>
               in Some (VA_SUCCESS, if ce_optimize E then s3 else signal_send s3))"
    using g i c1(1) by (simp add: make_domain_def Let_def) (simp add: on_ctl_def add_dir_def count_dir_def)
  have "vadddomain E d dir0 uid gid s = make_domain E d (domain_home E d dir0) sub uid gid (count_dir uid 1 s)"
    using g by (simp add: vadddomain_def l o Let_def)
  then show ?thesis using m c1(2-4) g(11) by (intro exI [of _ c1]) (simp add: ctl_of_def)
qed
lemma entries_added:
  assumes "added c c1 a u" "line_entry u = Some e" "e_realdomain e = r" "entries_from r (contents c Assign_file) = []"
  shows "entries_from r (contents c1 Assign_file) = [e]"
proof -
  from assms(1) obtain las where l: "list_all (good_line 1) (u # las)"
      "contents c Assign_file = print_file 1 las" "ct_file c1 Assign_file = Some (print_file 1 (insert_line 1 u las))"
    unfolding added_def by blast
  have p: "list_all plain_line las" "list_all plain_line (insert_line 1 u las)"
    using l(1) by (auto simp: list_all_iff good_line_plain)
  let ?P = "\<lambda>e. r = [] \<or> r = e_realdomain e"
  have "filter ?P (List.map_filter line_entry las) = []" using assms(4) l(2) entries_from_file [OF p(1)] by simp
  then have "filter ?P (List.map_filter line_entry (insert_line 1 u las)) = [e]"
    using assms(2,3) by (induction las) (auto simp: map_filter_simps split: option.splits if_splits)
  then show ?thesis using entries_from_file [OF p(2), of r] l(3) by (simp add: contents_def)
qed

lemma dirs_back:
  "\<forall>p \<in> set ds. \<not> below_dir sub p \<Longrightarrow> filter (\<lambda>p. \<not> below_dir sub p) (ds @ [sub]) = ds"
  by (simp add: below_dir_def filter_id_conv)

lemma short_sub: "fields_ok d d uid gid sub \<Longrightarrow> snprintf_str MAX_BUFF sub = sub"
  by (simp add: fields_ok_def snprintf_str_def MAX_BUFF_def)




text \<open>A model of \<^verbatim>\<open>qmail-newu\<close> that keeps the promise.\<close>

definition newu_model :: "char list \<Rightarrow> string \<Rightarrow> char list option" where
  "newu_model bytes key =
     (case filter (\<lambda>e. ''!'' @ e_domain e @ ''-'' = key) (entries_from [] bytes) of
        [] \<Rightarrow> None
      | e # _ \<Rightarrow> Some (e_realdomain e @ [NUL] @ show_int (e_uid e) @ [NUL] @ show_int (e_gid e) @ [NUL] @ e_path e @ [NUL]))"

lemma strtok_subset: "strtok d s = Some (t, r) \<Longrightarrow> set t \<subseteq> set s \<and> set r \<subseteq> set s"
proof -
  assume a: "strtok d s = Some (t, r)"
  let ?u = "dropWhile (\<lambda>c. c \<in> set d) s"
  have "t = takeWhile (\<lambda>c. c \<notin> set d) ?u" "r = tl (dropWhile (\<lambda>c. c \<notin> set d) ?u)"
    using a by (auto simp: strtok_def Let_def split: if_splits)
  moreover have "set ?u \<subseteq> set s" by (auto dest: set_dropWhileD)
  moreover have "set (tl xs) \<subseteq> set xs" for xs :: string by (cases xs) auto
  moreover have "set (takeWhile P xs) \<subseteq> set xs" "set (dropWhile P xs) \<subseteq> set xs" for P and xs :: string
    by (auto dest: set_takeWhileD set_dropWhileD)
  ultimately show ?thesis by blast
qed

lemma nul_free_strtok: "strtok d s = Some (t, r) \<Longrightarrow> nul_free s \<Longrightarrow> nul_free t \<and> nul_free r"
  using strtok_subset [of d s t r] by (auto simp: nul_free_def)

lemma line_entry_fields:
  assumes "line_entry l = Some e" "plain_line l"
  shows "nul_free (e_realdomain e)" "nul_free (e_path e)" "int32 (e_uid e)" "int32 (e_gid e)"
proof -
  have "nul_free (l @ [LF])" using assms(2) by (auto simp: plain_line_def nul_free_def)
  then obtain p rest where r: "c_str (l @ [LF]) = p # rest" "nul_free rest"
    using c_str_plain [OF assms(2)] by (cases "l @ [LF]") (auto simp: nul_free_def)
  obtain dm r1 real r2 uid r3 gid r4 path r5 where
    t: "strtok '':'' rest = Some (dm, r1)" "strtok '':'' r1 = Some (real, r2)" "strtok '':'' r2 = Some (uid, r3)"
      "strtok '':'' r3 = Some (gid, r4)" "strtok '':'' r4 = Some (path, r5)"
    and e: "e = \<lparr>e_domain = butlast dm, e_realdomain = real, e_uid = atoi uid, e_gid = atoi gid, e_path = path\<rparr>"
    using assms(1) r(1) unfolding line_entry_def parse_entry_def by (auto split: if_splits option.splits)
  show "nul_free (e_realdomain e)" "nul_free (e_path e)" "int32 (e_uid e)" "int32 (e_gid e)"
    using nul_free_strtok [OF t(1) r(2)] nul_free_strtok [OF t(2)] nul_free_strtok [OF t(3)]
      nul_free_strtok [OF t(4)] nul_free_strtok [OF t(5)] atoi_bounds by (simp_all add: e int32_def)
qed

lemma nul_field_step: "nul_free s \<Longrightarrow> nul_field (s @ NUL # r) = Some (s, r)"
  by (auto simp: nul_field_def nul_free_def dropWhile_append)

lemma newu_model_reads: "newu_reads newu_model"
  unfolding newu_reads_def
proof (intro allI impI, elim conjE)
  fix ls a
  assume p: "list_all plain_line ls" and k: "\<forall>l \<in> set ls. line_entry l \<noteq> None"
  have m: "List.map_filter line_entry ls = map (the \<circ> line_entry) ls"
    using k by (induction ls) (auto simp: map_filter_simps)
  have es: "entries_from [] (print_file 1 ls) = map (the \<circ> line_entry) ls"
    using entries_from_file [OF p, of "[]"] m by simp
  have key: "(\<lambda>e. ''!'' @ e_domain e @ ''-'' = ''!'' @ a @ ''-'') = (\<lambda>e. e_domain e = a)" by simp
  have rec: "\<exists>d. newu_model (print_file 1 ls) (''!'' @ a @ ''-'') = Some d \<and> assign_record d = Some (entry_record e)"
    if f: "filter (\<lambda>e. e_domain e = a) (map (the \<circ> line_entry) ls) = [e]" for e
  proof -
    have "e \<in> set (map (the \<circ> line_entry) ls)" using arg_cong [OF f, of set] by auto
    then obtain l where "l \<in> set ls" "line_entry l = Some e" using k by auto
    with p have n: "nul_free (e_realdomain e)" "nul_free (e_path e)" "int32 (e_uid e)" "int32 (e_gid e)"
      using line_entry_fields [of l e] by (auto simp: list_all_iff)
    have s: "nul_free (show_int i)" for i using show_int_chars(1) [of NUL i] by (auto simp: nul_free_def)
    have a: "atoi (show_int i) = i" if "int32 i" for i
      using that atoi_show_int [of "[]" i] by (simp add: int32_def)
    have "assign_record (e_realdomain e @ [NUL] @ show_int (e_uid e) @ [NUL] @ show_int (e_gid e) @ [NUL] @ e_path e @ [NUL])
        = Some (entry_record e)"
      using n s by (simp add: assign_record_def entry_record_def nul_field_step a)
    then show ?thesis using f unfolding newu_model_def es key by simp
  qed
  have none: "newu_model (print_file 1 ls) (''!'' @ a @ ''-'') = None"
    if f: "filter (\<lambda>e. e_domain e = a) (map (the \<circ> line_entry) ls) = []"
    unfolding newu_model_def es key f by simp
  show "(\<forall>e. filter (\<lambda>e. e_domain e = a) (map (the \<circ> line_entry) ls) = [e] \<longrightarrow>
           (\<exists>d. newu_model (print_file 1 ls) (''!'' @ a @ ''-'') = Some d \<and> assign_record d = Some (entry_record e)))
        \<and> (filter (\<lambda>e. e_domain e = a) (map (the \<circ> line_entry) ls) = [] \<longrightarrow>
             newu_model (print_file 1 ls) (''!'' @ a @ ''-'') = None)"
    using rec none by blast
qed

definition denv_example :: "bool \<Rightarrow> denv" where
  "denv_example accept = \<lparr>ce_writable = (\<lambda>_. True), ce_qsort = sort_key fst, ce_newu = newu_model, ce_optimize = False,
     de_domains = ''/v'', de_mkdir = (\<lambda>_. True), de_chdir = (\<lambda>_. True), de_open = (\<lambda>_. True), de_delfiles = (\<lambda>_. True),
     de_symlink = (\<lambda>_. False), de_hash = (\<lambda>_ _. []), de_adddomain = (\<lambda>_. accept)\<rparr>"

definition dsys_example :: dsys where
  "dsys_example = \<lparr>ct_file = ct_file ctl_example, ct_cdb = ct_file ctl_example Assign_file, ct_more = None, ct_cache = None,
     dy_dirs = [''/v'', ''/v/b.org''], dy_count = (\<lambda>_. 1), dy_auth = [''b.org''], dy_limits = [], dy_signals = 0\<rparr>"

lemma contents_example: "contents (ctl_of dsys_example) f = contents ctl_example f"
  by (simp add: contents_def dsys_example_def ctl_of_def)

lemma absent_dsys_example: "absent (ctl_of dsys_example) ''a.com''" "known (ctl_of dsys_example)"
proof -
  have "ct_file (ctl_of dsys_example) Assign_file = ct_file ctl_example Assign_file" by (simp add: dsys_example_def ctl_of_def)
  then show "absent (ctl_of dsys_example) ''a.com''"
    using absent_example unfolding absent_def holds_def contents_example by simp
  show "known (ctl_of dsys_example)"
    unfolding known_def contents_example
    using line_entry_assign [OF names_example(1)] assign_line_eq(2) [OF names_example(1)]
    by (intro exI [of _ "[assign_line ''b.org'' ''b.org'' 89 89 ''/v/b.org'']"]) (simp add: ctl_example_def contents_def)
qed

lemma ready_example: "ready (denv_example b) ''a.com'' (Some ''/v'') 89 89 dsys_example ''/v/a.com''"
proof -
  have a: "arrange ''a.com'' = Some ''a.com''" "domain_name_ok ''a.com''" "lowerit ''a.com'' = ''a.com''" by code_simp+
  have f: "fields_ok ''a.com'' ''a.com'' 89 89 ''/v/a.com''"
    by (simp add: fields_ok_def name_ok_def field_ok_def nul_free_def MAX_BUFF_def a)
  have h: "domain_home (denv_example b) ''a.com'' (Some ''/v'') = ''/v''" by (simp add: domain_home_def)
  have s: "domain_sub_dir ''/v'' [] ''a.com'' = ''/v/a.com''" by (simp add: domain_sub_dir_def snprintf_str_def MAX_BUFF_def)
  have e: "entries_from ''a.com'' (contents (ctl_of dsys_example) Assign_file) = []"
    unfolding contents_example
    using entries_from_file [of "[assign_line ''b.org'' ''b.org'' 89 89 ''/v/b.org'']" "''a.com''"]
      line_entry_assign [OF names_example(1)] assign_line_eq(2) [OF names_example(1)]
    by (simp add: ctl_example_def contents_def map_filter_simps)
  show ?thesis
    unfolding ready_def h
    using a f e absent_dsys_example newu_model_reads sorts_example s
    by (simp add: denv_example_def in_dir_def MAX_PW_DOMAIN_def MAX_PW_DIR_def below_dir_def dsys_example_def)
qed



section \<open>Where it goes wrong\<close>

text \<open>
  A file that cannot be written after \<^verbatim>\<open>users/assign\<close> was: the failure is reported, and the entry stays there
  although \<open>vadddomain\<close> then deletes the directory of the domain.
\<close>

lemma add_domain_half:
  assumes "ce_writable E Assign_file" "\<not> ce_writable E Rcpthosts" "sorts (ce_qsort E)" "absent c a" "fields_ok a real uid gid dir"
    "count_rcpthosts c < 50"
  shows "\<exists>c' ls. add_domain_assign E a real dir uid gid c = Some (- 1, c') \<and> ct_file c' Assign_file = Some (print_file 1 ls)
    \<and> assign_line a real uid gid dir \<in> set ls"
proof -
  let ?u = "assign_line a real uid gid dir"
  from assms(4) obtain las b where h: "holds c Assign_file 1 las" "ct_file c Assign_file = Some b"
    unfolding absent_def by blast
  let ?c1 = "update_newu (put_file Assign_file (print_file 1 (insert_line 1 ?u las)) c)"
  have "count_rcpthosts ?c1 < 50" using assms(6) by (simp add: count_rcpthosts_def update_newu_def contents_def put_file_def)
  moreover have "extract_domain None a 2 \<noteq> None"
    using name_lines(1) [of a] assms(5) by (simp add: good_line_def fields_ok_def)
  ultimately have "add_control E a ?c1 = Some (- 1, ?c1)"
    using assms(2) by (auto simp: add_control_def update_file_def)
  then show ?thesis
    using update_holds [OF assms(1,3) h(1) assign_good [OF assms(5)]] h(2)
    by (intro exI [of _ ?c1] exI [of _ "insert_line 1 ?u las"]) (simp add: add_domain_assign_def update_newu_def)
qed

text \<open>\<open>vaddaliasdomain\<close> reports success also when \<open>add_domain_assign\<close> failed.\<close>

lemma vaddaliasdomain_unchecked:
  assumes "is_domain_valid (lowerit r)" "is_domain_valid (lowerit a)" "length (lowerit a) \<le> MAX_PW_DOMAIN"
    "vget_assign (cenv_of E) (lowerit a) (ctl_of s) = Some ((a', None), c)"
    "vget_assign (cenv_of E) (lowerit r) c = Some ((r', Some x), c')" "a' \<noteq> r'"
    "add_domain_assign (cenv_of E) a' r' (snprintf_str MAX_BUFF (as_dir x)) (as_uid x) (as_gid x) c' = Some (- 1, c'')"
  shows "\<exists>s'. vaddaliasdomain E a r s = Some (VA_SUCCESS, s')"
  using assms by (simp add: vaddaliasdomain_def Let_def)


end
