(* ===== verification/Vcdb.thy ===== *)
theory Vcdb
  imports Assign Vdb
begin

text \<open>
  The account back end on files (\<^verbatim>\<open>backends/cdb/vcdb.c\<close>) with the readers of its entries in \<^verbatim>\<open>vpopmail.c\<close>.

  A domain has a file \<^verbatim>\<open>vpasswd\<close> with one line for every account and an index of it, \<^verbatim>\<open>vpasswd.cdb\<close>, which
  \<open>make_vpasswd_cdb\<close> builds anew after every change; \<open>auth_getpw\<close> reads the index only. The state \<open>accts\<close> holds
  both by the directory they are in, next to the control files through which a domain is found. The format of
  the index is that of a third-party library: here it is the list of its keys and data, and the search
  \<open>cdb_seek\<close> is a parameter. \<open>None\<close> as the result of an operation is an access outside of a buffer or to
  memory that is not set.
\<close>

section \<open>State\<close>

record vcenv =
  vc_ctl :: cenv
  vc_domains :: string                     \<comment> \<open>\<open>VPOPMAIL_DIR_DOMAINS\<close>\<close>
  vc_default :: domenv                     \<comment> \<open>for \<open>vset_default_domain\<close>\<close>
  vc_euid :: nat
  vc_clear :: bool                         \<comment> \<open>\<open>CLEAR_PASS\<close>\<close>
  vc_noindex :: bool                       \<comment> \<open>\<open>NoMakeIndex\<close>\<close>
  vc_lock :: "string \<Rightarrow> bool"             \<comment> \<open>the lock file of a directory can be opened\<close>
  vc_bak :: "string \<Rightarrow> bool"              \<comment> \<open>the file for the new contents can be made\<close>
  vc_pass :: "string \<Rightarrow> bool"             \<comment> \<open>\<^verbatim>\<open>vpasswd\<close> can be opened, or made when it is missing\<close>
  vc_tmp :: "string \<Rightarrow> bool"              \<comment> \<open>the file for the new index can be made and written\<close>
  vc_seek :: "(string \<times> string) list \<Rightarrow> string \<Rightarrow> string option"
  vc_crypt :: "string \<Rightarrow> string option"
  vc_limits :: "string \<Rightarrow> char list option"
  vc_limits_default :: string

record accts =
  ac_ctl :: ctl
  ac_vpasswd :: "string \<Rightarrow> char list option"
  ac_index :: "string \<Rightarrow> (string \<times> string) list option"
  ac_sizes :: "string \<Rightarrow> char list option"   \<comment> \<open>\<^verbatim>\<open>maildirsize\<close> by the directory of the account\<close>

definition MAX_PW_NAME :: nat where
  "MAX_PW_NAME = 32"

definition MAX_PW_CLEAR_PASSWD :: nat where
  "MAX_PW_CLEAR_PASSWD = 128"

definition MAX_PW_QUOTA :: nat where
  "MAX_PW_QUOTA = 20"

section \<open>The index\<close>

text \<open>
  A line is split at its first colon. Without one, or without a newline, the code runs on past what it has
  read.
\<close>

definition index_entry :: "char list \<Rightarrow> (string \<times> string) option" where
  "index_entry l =
     (if CHR '':'' \<notin> set l \<or> LF \<notin> set l then None
      else Some (c_str (takeWhile (\<lambda>c. c \<noteq> CHR '':'') l),
                 c_str (takeWhile (\<lambda>c. c \<noteq> LF) (tl (dropWhile (\<lambda>c. c \<noteq> CHR '':'') l)))))"

lemma fgets_256: "fgets_buf 256 s = Some (l, r) \<Longrightarrow> length r < length s"
  by (auto dest: fgets_buf_shorter)

text \<open>\<open>feof\<close> is set by a read that stops at the end of the file: a last line without a newline is dropped.\<close>

function index_loop :: "char list \<Rightarrow> (string \<times> string) list option" where
  "index_loop s =
     (case fgets_buf 256 s of
        None \<Rightarrow> Some []
      | Some (l, r) \<Rightarrow>
          if LF \<notin> set l \<and> length l < 255 then Some []
          else case index_entry l of
            None \<Rightarrow> None
          | Some e \<Rightarrow> map_option (Cons e) (index_loop r))"
  by pat_completeness auto

termination
  by (relation "measure length") (auto dest: fgets_256)

declare index_loop.simps [simp del]

definition make_vpasswd_cdb :: "vcenv \<Rightarrow> string \<Rightarrow> string \<Rightarrow> accts \<Rightarrow> (int \<times> accts) option" where
  "make_vpasswd_cdb E dir domain s =
     (if vc_noindex E then Some (0, s)
      else case (if vc_pass E dir then ac_vpasswd s dir else None) of
        None \<Rightarrow> Some (- 1, s)
      | Some bytes \<Rightarrow>
          if \<not> vc_tmp E dir then Some (- 1, s)
          else case index_loop bytes of
            None \<Rightarrow> None
          | Some kvs \<Rightarrow>
              (case vget_assign (vc_ctl E) domain (ac_ctl s) of
                 None \<Rightarrow> None
               | Some (_, c) \<Rightarrow> Some (0, s\<lparr>ac_ctl := c, ac_index := (ac_index s)(dir \<mapsto> kvs)\<rparr>)))"

section \<open>Finding the files of a domain\<close>

text \<open>
  The directory \<open>vget_assign\<close> stores in a buffer of \<open>n\<close> bytes: from the cache with \<open>snprintf\<close>, otherwise with
  \<open>strncpy\<close>, which leaves a long one unterminated (\<open>None\<close> inside).
\<close>

definition assign_dir ::
  "nat \<Rightarrow> cenv \<Rightarrow> string \<Rightarrow> ctl \<Rightarrow> ((string \<times> (string option \<times> assigned) option) \<times> ctl) option" where
  "assign_dir n E domain c =
     (let hit = (case ct_cache c of None \<Rightarrow> False | Some a \<Rightarrow> as_domain a = lowerit domain)
      in map_option (\<lambda>((d, r), c').
           ((d, map_option (\<lambda>a. (if hit then Some (snprintf_str n (as_dir a))
                                 else if length (as_dir a) < n then Some (as_dir a) else None, a)) r), c'))
         (vget_assign E domain c))"

definition set_vpasswd_files :: "vcenv \<Rightarrow> string \<Rightarrow> accts \<Rightarrow> ((string \<times> string) \<times> accts) option" where
  "set_vpasswd_files E domain s =
     (case vset_default_domain (vc_default E) domain of
        None \<Rightarrow> None
      | Some d \<Rightarrow>
          (case assign_dir 156 (vc_ctl E) d (ac_ctl s) of
             None \<Rightarrow> None
           | Some ((d', r), c) \<Rightarrow>
               if d' = [] then Some (([], snprintf_str MAX_BUFF (vc_domains E @ ''/users'')), s\<lparr>ac_ctl := c\<rparr>)
               else case r of
                 Some (Some dir, _) \<Rightarrow> Some ((d', snprintf_str MAX_BUFF dir), s\<lparr>ac_ctl := c\<rparr>)
               | _ \<Rightarrow> None))"

section \<open>Reading an entry\<close>

text \<open>Cutting a string at its first \<open>n\<close> colons.\<close>

fun split_colons :: "nat \<Rightarrow> string \<Rightarrow> string list" where
  "split_colons 0 s = [s]"
| "split_colons (Suc n) s =
     (case dropWhile (\<lambda>c. c \<noteq> CHR '':'') s of
        [] \<Rightarrow> [s]
      | _ # r \<Rightarrow> takeWhile (\<lambda>c. c \<noteq> CHR '':'') s # split_colons n r)"

definition field_at :: "nat \<Rightarrow> string list \<Rightarrow> string" where
  "field_at i fs = (if i < length fs then fs ! i else [])"

definition id_of :: "string \<Rightarrow> nat" where
  "id_of s = unat (word_of_int (atoi s) :: 32 word)"

text \<open>\<open>auth_getpw\<close> on the line: without the fields of uid and gid it follows a null pointer.\<close>

definition parse_pw :: "string \<Rightarrow> vqpasswd option" where
  "parse_pw line =
     (let fs = split_colons 7 line
      in if length fs < 4 then None
         else Some \<lparr>pw_name = field_at 0 fs, pw_passwd = field_at 1 fs,
                    pw_uid = (if field_at 2 fs = [] then 0 else id_of (field_at 2 fs)),
                    pw_gid = (if field_at 3 fs = [] then 0 else id_of (field_at 3 fs)), pw_flags = 0,
                    pw_gecos = field_at 4 fs, pw_dir = field_at 5 fs, pw_shell = field_at 6 fs,
                    pw_clear_passwd = field_at 7 fs\<rparr>)"

text \<open>\<open>vgetent\<close>: the line still has its newline.\<close>

definition parse_ent :: "bool \<Rightarrow> string \<Rightarrow> vqpasswd option" where
  "parse_ent clear line =
     (let fs = split_colons 6 line; rest = field_at 6 fs;
          shell = takeWhile (\<lambda>c. c \<noteq> CHR '':'' \<and> c \<noteq> LF) rest;
          after = tl (dropWhile (\<lambda>c. c \<noteq> CHR '':'' \<and> c \<noteq> LF) rest)
      in if length fs < 7 then None
         else Some \<lparr>pw_name = field_at 0 fs, pw_passwd = field_at 1 fs, pw_uid = id_of (field_at 2 fs),
                    pw_gid = id_of (field_at 3 fs), pw_flags = 0, pw_gecos = field_at 4 fs, pw_dir = field_at 5 fs,
                    pw_shell = shell,
                    pw_clear_passwd = (if clear then takeWhile (\<lambda>c. c \<noteq> LF) after else [])\<rparr>)"

definition vgetent :: "vcenv \<Rightarrow> char list \<Rightarrow> (vqpasswd \<times> char list) option" where
  "vgetent E s =
     (case fgets_buf MAX_BUFF s of
        None \<Rightarrow> None
      | Some (l, r) \<Rightarrow> map_option (\<lambda>p. (p, r)) (parse_ent (vc_clear E) (c_str l)))"

lemma vgetent_shorter: "vgetent E s = Some (p, r) \<Longrightarrow> length r < length s"
  by (auto simp: vgetent_def MAX_BUFF_def dest: fgets_buf_shorter split: option.splits)

text \<open>
  The flags of an entry: its own and those of the limits of its domain, which are looked up unless the entry
  overrides them.
\<close>

definition home_of :: "cenv \<Rightarrow> ctl \<Rightarrow> string \<Rightarrow> string option" where
  "home_of E c domain =
     (case vget_assign E domain c of
        Some ((_, Some a), _) \<Rightarrow> Some (snprintf_str MAX_BUFF (as_dir a))
      | _ \<Rightarrow> None)"

definition set_flags :: "vcenv \<Rightarrow> string \<Rightarrow> vqpasswd \<Rightarrow> accts \<Rightarrow> (vqpasswd \<times> accts) option" where
  "set_flags E domain pw s =
     (let gid = (word_of_nat (pw_gid pw) :: 32 word)
      in case vlimits_setflags (home_of (vc_ctl E) (ac_ctl s)) (vc_limits_default E) (vc_limits E) gid domain of
           None \<Rightarrow> None
         | Some f \<Rightarrow>
             (case (if gid AND V_OVERRIDE = 0
                    then map_option snd (vget_assign (vc_ctl E) (snprintf_str MAX_BUFF domain) (ac_ctl s))
                    else Some (ac_ctl s)) of
                None \<Rightarrow> None
              | Some c \<Rightarrow> Some (pw\<lparr>pw_flags := unat f\<rparr>, s\<lparr>ac_ctl := c\<rparr>)))"

section \<open>Reading accounts\<close>

definition open_index ::
  "vcenv \<Rightarrow> string \<Rightarrow> string \<Rightarrow> accts \<Rightarrow> ((string \<times> string) list option \<times> accts) option" where
  "open_index E dir domain s =
     (case ac_index s dir of
        Some kvs \<Rightarrow> Some (Some kvs, s)
      | None \<Rightarrow>
          if \<not> vc_lock E dir then Some (None, s)
          else map_option (\<lambda>(_, s'). (ac_index s' dir, s')) (make_vpasswd_cdb E dir domain s))"

text \<open>The name, a colon and the data read behind it, in a buffer of 2048 bytes.\<close>

definition find_pw :: "vcenv \<Rightarrow> (string \<times> string) list \<Rightarrow> string \<Rightarrow> vqpasswd option option" where
  "find_pw E kvs user =
     (if length user \<ge> 2047 then None
      else case vc_seek E kvs user of
        None \<Rightarrow> Some None
      | Some data \<Rightarrow>
          if CHR '':'' \<in> set user \<or> length user + 1 + length data \<ge> 2048 then None
          else map_option Some (parse_pw (c_str (user @ '':'' @ data))))"

text \<open>The domain as it stands in the argument afterwards, and the entry.\<close>

definition auth_getpw :: "vcenv \<Rightarrow> string \<Rightarrow> string \<Rightarrow> accts \<Rightarrow> ((string \<times> vqpasswd option) \<times> accts) option" where
  "auth_getpw E user0 domain0 s =
     (let user = lowerit user0; domain = lowerit domain0
      in case vget_assign (vc_ctl E) domain (ac_ctl s) of
        None \<Rightarrow> None
      | Some ((d, None), c) \<Rightarrow> Some ((d, None), s\<lparr>ac_ctl := c\<rparr>)
      | Some ((d, Some a), c) \<Rightarrow>
          let s1 = s\<lparr>ac_ctl := c\<rparr>
          in if vc_euid E \<noteq> 0 \<and> vc_euid E \<noteq> as_uid a then Some ((d, None), s1)
             else case set_vpasswd_files E (take 155 d) s1 of
               None \<Rightarrow> None
             | Some ((in_domain, dir), s2) \<Rightarrow>
                 (case open_index E dir d s2 of
                    None \<Rightarrow> None
                  | Some (None, s3) \<Rightarrow> Some ((d, None), s3)
                  | Some (Some kvs, s3) \<Rightarrow>
                      (case find_pw E kvs user of
                         None \<Rightarrow> None
                       | Some None \<Rightarrow> Some ((d, None), s3)
                       | Some (Some pw) \<Rightarrow>
                           map_option (\<lambda>(pw', s4). ((d, Some pw'), s4)) (set_flags E in_domain pw s3))))"

text \<open>All calls of \<open>auth_getall\<close> from the first to the one that returns no entry.\<close>

function getall_loop :: "vcenv \<Rightarrow> string \<Rightarrow> char list \<Rightarrow> accts \<Rightarrow> (vqpasswd list \<times> accts) option" where
  "getall_loop E domain bytes s =
     (case vgetent E bytes of
        None \<Rightarrow> Some ([], s)
      | Some (pw, r) \<Rightarrow>
          (case set_flags E domain pw s of
             None \<Rightarrow> None
           | Some (pw', s') \<Rightarrow> map_option (\<lambda>(ps, s''). (pw' # ps, s'')) (getall_loop E domain r s')))"
  by pat_completeness auto

termination
  by (relation "measure (\<lambda>(E, d, b, s). length b)") (auto dest: vgetent_shorter)

declare getall_loop.simps [simp del]

definition auth_getall :: "vcenv \<Rightarrow> string \<Rightarrow> accts \<Rightarrow> (vqpasswd list \<times> accts) option" where
  "auth_getall E domain s =
     (case set_vpasswd_files E domain s of
        None \<Rightarrow> None
      | Some ((d, dir), s1) \<Rightarrow>
          (case (if vc_pass E dir then ac_vpasswd s1 dir else None) of
             None \<Rightarrow> Some ([], s1)
           | Some bytes \<Rightarrow> getall_loop E d bytes s1))"

section \<open>Changing accounts\<close>

text \<open>
  The character behind a colon is copied without looking at it, be it the end of the string (\<open>None\<close>: the loop
  goes on behind it), and what is left of the old string stays behind the new one.
\<close>

fun strip_colons :: "string \<Rightarrow> string option" where
  "strip_colons [] = Some []"
| "strip_colons (c # s) =
     (if c = CHR '':''
      then (case s of [] \<Rightarrow> None | d # s' \<Rightarrow> map_option (Cons d) (strip_colons s'))
      else map_option (Cons c) (strip_colons s))"

definition vcdb_strip_char :: "string \<Rightarrow> string option" where
  "vcdb_strip_char s = map_option (\<lambda>t. t @ drop (length t) s) (strip_colons s)"

text \<open>
  What \<open>auth_adduser\<close>, \<open>auth_deluser\<close> and \<open>auth_setpw\<close> share: a new file is written from the old one and takes its
  place, and the index is built again, whose failure is not looked at.
\<close>

definition rewrite_vpasswd ::
  "vcenv \<Rightarrow> string \<Rightarrow> string \<Rightarrow> (char list \<Rightarrow> ctl \<Rightarrow> (char list \<times> ctl) option) \<Rightarrow> accts \<Rightarrow> (int \<times> accts) option" where
  "rewrite_vpasswd E domain dir f s =
     (if \<not> vc_lock E dir then Some (- 2, s)
      else let old = (case ac_vpasswd s dir of None \<Rightarrow> [] | Some b \<Rightarrow> b)
      in if \<not> vc_pass E dir then Some (- 1, s)
      else if \<not> vc_bak E dir then Some (- 1, s\<lparr>ac_vpasswd := (ac_vpasswd s)(dir \<mapsto> old)\<rparr>)
      else case f old (ac_ctl s) of
        None \<Rightarrow> None
      | Some (bytes, c) \<Rightarrow>
          map_option (\<lambda>(_, s'). (0, s'))
            (make_vpasswd_cdb E dir domain (s\<lparr>ac_ctl := c, ac_vpasswd := (ac_vpasswd s)(dir \<mapsto> bytes)\<rparr>)))"

definition USE_POP :: nat where
  "USE_POP = 0"

text \<open>\<open>mkpasswd3\<close> stores the password with \<open>strncpy\<close> in a buffer of 100 bytes, and its failure is not looked at.\<close>

definition crypt_pass :: "vcenv \<Rightarrow> string \<Rightarrow> string option" where
  "crypt_pass E pass =
     (if pass = [] then Some []
      else case vc_crypt E pass of None \<Rightarrow> None | Some t \<Rightarrow> if length t < 100 then Some t else None)"

definition user_home :: "string \<Rightarrow> string \<Rightarrow> string \<Rightarrow> string \<Rightarrow> string" where
  "user_home base domain dir user =
     (if domain = [] then (if dir \<noteq> [] then base @ ''/users/'' @ dir @ ''/'' @ user else base @ ''/users/'' @ user)
      else (if dir \<noteq> [] then base @ ''/'' @ dir @ ''/'' @ user else base @ ''/'' @ user))"

definition auth_adduser_line ::
  "vcenv \<Rightarrow> string \<Rightarrow> string \<Rightarrow> string \<Rightarrow> string \<Rightarrow> string \<Rightarrow> nat \<Rightarrow> ctl \<Rightarrow> (char list \<times> ctl) option" where
  "auth_adduser_line E user pass domain0 gecos dir apop c =
     (case assign_dir 156 (vc_ctl E) domain0 c of
        None \<Rightarrow> None
      | Some ((domain, r), c') \<Rightarrow>
          (case (case r of None \<Rightarrow> Some (vc_domains E) | Some (d, _) \<Rightarrow> d) of
             None \<Rightarrow> None
           | Some base \<Rightarrow>
               (case crypt_pass E pass of
                  None \<Rightarrow> None
                | Some crypted \<Rightarrow>
                    Some (user @ '':'' @ crypted @ (if apop = USE_POP then '':1:'' else '':2:'') @ ''0:'' @ gecos @ '':''
                          @ user_home base domain dir user @ '':'' @ ''NOQUOTA''
                          @ (if vc_clear E then '':'' @ pass else []) @ [LF], c'))))"

text \<open>The new line goes in front of the first line with a greater name.\<close>

function add_loop :: "string \<Rightarrow> char list \<Rightarrow> char list \<Rightarrow> bool \<Rightarrow> char list option" where
  "add_loop user line s done1 =
     (case fgets_buf MAX_BUFF s of
        None \<Rightarrow> Some (if done1 then [] else line)
      | Some (l, r) \<Rightarrow>
          (case (if done1 then Some False else map_option (\<lambda>(t, _). user < t) (strtok '':'' (c_str l))) of
             None \<Rightarrow> None
           | Some ins \<Rightarrow>
               map_option (\<lambda>o'. (if ins then line else []) @ c_str l @ o') (add_loop user line r (done1 \<or> ins))))"
  by pat_completeness auto

termination
  by (relation "measure (\<lambda>(u, n, s, a). length s)") (auto dest: fgets_buf_shorter simp: MAX_BUFF_def)

declare add_loop.simps [simp del]

definition auth_adduser ::
  "vcenv \<Rightarrow> string \<Rightarrow> string \<Rightarrow> string \<Rightarrow> string \<Rightarrow> string \<Rightarrow> nat \<Rightarrow> accts \<Rightarrow> (int \<times> accts) option" where
  "auth_adduser E user0 domain0 pass gecos0 dir apop s =
     (if user0 = ''vpasswd'' then Some (VA_ILLEGAL_USERNAME, s)
      else case set_vpasswd_files E domain0 s of
        None \<Rightarrow> None
      | Some ((domain, vdir), s1) \<Rightarrow>
          (case (if gecos0 = [] then map_option (\<lambda>u. (u, u)) (vcdb_strip_char user0)
                 else map_option (Pair user0) (vcdb_strip_char gecos0)) of
             None \<Rightarrow> None
           | Some (user, gecos) \<Rightarrow>
               rewrite_vpasswd E domain vdir
                 (\<lambda>old c. case auth_adduser_line E user pass domain gecos dir apop c of
                            None \<Rightarrow> None
                          | Some (line, c') \<Rightarrow> map_option (\<lambda>b. (b, c')) (add_loop user line old False)) s1))"

text \<open>Every line whose first token is the name is left out, or replaced by a new one.\<close>

function name_loop :: "string \<Rightarrow> string \<Rightarrow> char list \<Rightarrow> char list \<Rightarrow> char list option" where
  "name_loop delims user line s =
     (case fgets_buf MAX_BUFF s of
        None \<Rightarrow> Some []
      | Some (l, r) \<Rightarrow>
          (case strtok delims (c_str l) of
             None \<Rightarrow> None
           | Some (t, _) \<Rightarrow>
               map_option (\<lambda>o'. (if t = user then line else c_str l) @ o') (name_loop delims user line r)))"
  by pat_completeness auto

termination
  by (relation "measure (\<lambda>(d, u, n, s). length s)") (auto dest: fgets_buf_shorter simp: MAX_BUFF_def)

declare name_loop.simps [simp del]

definition auth_deluser :: "vcenv \<Rightarrow> string \<Rightarrow> string \<Rightarrow> accts \<Rightarrow> (int \<times> accts) option" where
  "auth_deluser E user domain0 s =
     (case set_vpasswd_files E domain0 s of
        None \<Rightarrow> None
      | Some ((domain, dir), s1) \<Rightarrow>
          rewrite_vpasswd E domain dir (\<lambda>old c. map_option (\<lambda>b. (b, c)) (name_loop '':'' user [] old)) s1)"

definition show_uid :: "nat \<Rightarrow> string" where
  "show_uid n = show_int (sint (word_of_nat n :: 32 word))"

definition print_pw :: "bool \<Rightarrow> vqpasswd \<Rightarrow> char list" where
  "print_pw clear p =
     pw_name p @ '':'' @ pw_passwd p @ '':'' @ show_uid (pw_uid p) @ '':'' @ show_uid (pw_gid p) @ '':'' @ pw_gecos p
       @ '':'' @ pw_dir p @ '':'' @ pw_shell p @ (if clear then '':'' @ pw_clear_passwd p else []) @ [LF]"

definition vcheck_vqpw :: "bool \<Rightarrow> vqpasswd \<Rightarrow> string \<Rightarrow> va" where
  "vcheck_vqpw clear p domain =
     (if length (pw_name p) > MAX_PW_NAME then VA_USER_NAME_TOO_LONG
      else if length (pw_name p) = 1 then VA_ILLEGAL_USERNAME
      else if length domain > MAX_PW_DOMAIN then VA_DOMAIN_NAME_TOO_LONG
      else if length (pw_passwd p) > MAX_PW_PASS then VA_PASSWD_TOO_LONG
      else if length (pw_gecos p) > MAX_PW_GECOS then VA_GECOS_TOO_LONG
      else if length (pw_dir p) > MAX_PW_DIR then VA_DIR_TOO_LONG
      else if length (pw_shell p) > MAX_PW_QUOTA then VA_QUOTA_TOO_LONG
      else if clear \<and> length (pw_clear_passwd p) > MAX_PW_CLEAR_PASSWD then VA_CLEAR_PASSWD_TOO_LONG
      else VA_SUCCESS)"

definition remove_maildirsize :: "string \<Rightarrow> accts \<Rightarrow> accts" where
  "remove_maildirsize dir s =
     s\<lparr>ac_sizes := (ac_sizes s)(snprintf_str MAX_BUFF (dir @ ''/Maildir/maildirsize'') := None)\<rparr>"

text \<open>For a domain that is not found the code compares with a uid that is not set, unless it runs as root.\<close>

definition auth_setpw :: "vcenv \<Rightarrow> vqpasswd \<Rightarrow> string \<Rightarrow> accts \<Rightarrow> (int \<times> accts) option" where
  "auth_setpw E inpw domain0 s =
     (if vcheck_vqpw (vc_clear E) inpw domain0 \<noteq> VA_SUCCESS then Some (vcheck_vqpw (vc_clear E) inpw domain0, s)
      else case vget_assign (vc_ctl E) domain0 (ac_ctl s) of
        None \<Rightarrow> None
      | Some ((d, r), c) \<Rightarrow>
          (case (if vc_euid E = 0 then Some True else map_option (\<lambda>a. vc_euid E = as_uid a) r) of
             None \<Rightarrow> None
           | Some False \<Rightarrow> Some (VA_BAD_UID, s\<lparr>ac_ctl := c\<rparr>)
           | Some True \<Rightarrow>
               (case set_vpasswd_files E d (s\<lparr>ac_ctl := c\<rparr>) of
                  None \<Rightarrow> None
                | Some ((domain, dir), s1) \<Rightarrow>
                    (case (vcdb_strip_char (pw_gecos inpw),
                           if vc_clear E then Some (pw_clear_passwd inpw) else vcdb_strip_char (pw_clear_passwd inpw)) of
                       (Some gecos, Some clear) \<Rightarrow>
                         map_option (\<lambda>(r, s2). (r, if r = 0 \<and> strcasecmp_eq (pw_shell inpw) ''NOQUOTA''
                                                    then remove_maildirsize (pw_dir inpw) s2 else s2))
                           (rewrite_vpasswd E domain dir
                              (\<lambda>old c. map_option (\<lambda>b. (b, c))
                                 (name_loop ('':'' @ [LF]) (pw_name inpw)
                                    (print_pw (vc_clear E) (inpw\<lparr>pw_gecos := gecos, pw_clear_passwd := clear\<rparr>)) old)) s1)
                     | _ \<Rightarrow> None))))"

definition auth_setquota :: "vcenv \<Rightarrow> string \<Rightarrow> string \<Rightarrow> string \<Rightarrow> accts \<Rightarrow> (int \<times> accts) option" where
  "auth_setquota E username domain quota s =
     (if length username > MAX_PW_NAME then Some (VA_USER_NAME_TOO_LONG, s)
      else if length username = 1 then Some (VA_ILLEGAL_USERNAME, s)
      else if length domain > MAX_PW_DOMAIN then Some (VA_DOMAIN_NAME_TOO_LONG, s)
      else if length quota > MAX_PW_QUOTA then Some (VA_QUOTA_TOO_LONG, s)
      else case auth_getpw E username domain s of
        None \<Rightarrow> None
      | Some ((_, None), s1) \<Rightarrow> Some (VA_USER_DOES_NOT_EXIST, s1)
      | Some ((d, Some pw), s1) \<Rightarrow> auth_setpw E (pw\<lparr>pw_shell := quota\<rparr>) d s1)"

text \<open>A password is right when encrypting it with the stored one as salt gives the stored one; a failing \<open>crypt\<close> is a null pointer.\<close>

definition auth_crypt :: "(string \<Rightarrow> string \<Rightarrow> string option) \<Rightarrow> string \<Rightarrow> vqpasswd \<Rightarrow> bool option" where
  "auth_crypt crypt clear_pass vpw = map_option (\<lambda>t. t = pw_passwd vpw) (crypt clear_pass (pw_passwd vpw))"

definition mkpasswd :: "vcenv \<Rightarrow> (string \<Rightarrow> bool) \<Rightarrow> string \<Rightarrow> accts \<Rightarrow> (int \<times> accts) option" where
  "mkpasswd E chdir domain0 s =
     (case assign_dir 156 (vc_ctl E) domain0 (ac_ctl s) of
        Some ((d, Some (Some dir, _)), c) \<Rightarrow>
          if \<not> chdir dir then Some (VA_BAD_DIR, s\<lparr>ac_ctl := c\<rparr>)
          else (case set_vpasswd_files E (lowerit d) (s\<lparr>ac_ctl := c\<rparr>) of
                  None \<Rightarrow> None
                | Some ((d', vdir), s1) \<Rightarrow>
                    if \<not> vc_lock E vdir then Some (- 2, s1)
                    else map_option (\<lambda>(_, s2). (0, s2)) (make_vpasswd_cdb E vdir d' s1))
      | _ \<Rightarrow> None)"

section \<open>Entries on a line\<close>

definition plain_field :: "string \<Rightarrow> bool" where
  "plain_field s \<longleftrightarrow> CHR '':'' \<notin> set s \<and> LF \<notin> set s \<and> NUL \<notin> set s"

text \<open>The part of the line behind the name.\<close>

definition pw_data :: "bool \<Rightarrow> vqpasswd \<Rightarrow> string" where
  "pw_data clear p =
     pw_passwd p @ '':'' @ show_uid (pw_uid p) @ '':'' @ show_uid (pw_gid p) @ '':'' @ pw_gecos p
       @ '':'' @ pw_dir p @ '':'' @ pw_shell p @ (if clear then '':'' @ pw_clear_passwd p else [])"

definition pw_line :: "bool \<Rightarrow> vqpasswd \<Rightarrow> string" where
  "pw_line clear p = pw_name p @ '':'' @ pw_data clear p"

text \<open>An entry the file can hold: \<open>make_vpasswd_cdb\<close> reads lines of at most 255 characters.\<close>

definition good_pw :: "bool \<Rightarrow> vqpasswd \<Rightarrow> bool" where
  "good_pw clear p \<longleftrightarrow>
     plain_field (pw_name p) \<and> pw_name p \<noteq> [] \<and> plain_field (pw_passwd p) \<and> plain_field (pw_gecos p) \<and> plain_field (pw_dir p)
     \<and> plain_field (pw_shell p) \<and> LF \<notin> set (pw_clear_passwd p) \<and> NUL \<notin> set (pw_clear_passwd p)
     \<and> (clear \<or> pw_clear_passwd p = []) \<and> pw_uid p < 2 ^ 32 \<and> pw_gid p < 2 ^ 32 \<and> pw_flags p = 0
     \<and> length (pw_line clear p) < 255"

lemma print_pw_line: "print_pw clear p = pw_line clear p @ [LF]"
  by (simp add: print_pw_def pw_line_def pw_data_def)

lemma show_uid_chars: "plain_field (show_uid n)" "show_uid n \<noteq> []"
  using show_int_chars(1,2,6) [of _ "sint (word_of_nat n :: 32 word)"]
  by (fastforce simp: plain_field_def show_uid_def, simp add: show_uid_def show_int_def)

lemma uid_word: "n < 2 ^ 32 \<Longrightarrow> unat (word_of_int (sint (word_of_nat n :: 32 word)) :: 32 word) = n"
  by (simp add: unat_of_nat)

lemma id_of_show: "n < 2 ^ 32 \<Longrightarrow> id_of (show_uid n) = n"
proof -
  assume n: "n < 2 ^ 32"
  let ?i = "sint (word_of_nat n :: 32 word)"
  have "- (2 ^ 31) \<le> ?i" "?i < 2 ^ 31"
    using sint_ge [of "word_of_nat n :: 32 word"] sint_lt [of "word_of_nat n :: 32 word"] by simp_all
  then have "atoi (show_uid n) = ?i" using atoi_show_int [of "[]" ?i] by (simp add: show_uid_def)
  then show ?thesis using uid_word [OF n] by (simp add: id_of_def)
qed

lemma good_pw_data: "good_pw clear p \<Longrightarrow> LF \<notin> set (pw_data clear p) \<and> NUL \<notin> set (pw_data clear p)"
  using show_uid_chars(1) [of "pw_uid p"] show_uid_chars(1) [of "pw_gid p"]
  by (auto simp: good_pw_def pw_data_def plain_field_def)

lemma good_pw_plain: "good_pw clear p \<Longrightarrow> plain_line (pw_line clear p)"
  using good_pw_data [of clear p]
  by (auto simp: good_pw_def pw_line_def plain_line_def plain_field_def nul_free_def MAX_BUFF_def)

lemma split_colons_field:
  "CHR '':'' \<notin> set t \<Longrightarrow> 0 < n \<Longrightarrow> split_colons n (t @ CHR '':'' # r) = t # split_colons (n - 1) r"
  by (cases n) (simp_all add: takeWhile_stop dropWhile_append)

lemma split_colons_last: "CHR '':'' \<notin> set t \<Longrightarrow> split_colons n t = [t]"
proof (cases n)
  case (Suc k)
  assume "CHR '':'' \<notin> set t"
  then have "dropWhile (\<lambda>c. c \<noteq> CHR '':'') t = []" unfolding dropWhile_eq_Nil_conv by blast
  then show ?thesis unfolding Suc split_colons.simps(2) by (simp only: list.case)
qed simp

lemma parse_pw_line: "good_pw clear p \<Longrightarrow> parse_pw (pw_line clear p) = Some p"
proof -
  assume g: "good_pw clear p"
  have f: "CHR '':'' \<notin> set (pw_name p)" "CHR '':'' \<notin> set (pw_passwd p)" "CHR '':'' \<notin> set (pw_gecos p)" "CHR '':'' \<notin> set (pw_dir p)"
      "CHR '':'' \<notin> set (pw_shell p)" "CHR '':'' \<notin> set (show_uid (pw_uid p))" "CHR '':'' \<notin> set (show_uid (pw_gid p))"
    using g show_uid_chars(1) [of "pw_uid p"] show_uid_chars(1) [of "pw_gid p"] by (auto simp: good_pw_def plain_field_def)
  have "split_colons 7 (pw_line clear p) = pw_name p # pw_passwd p # show_uid (pw_uid p) # show_uid (pw_gid p) # pw_gecos p
      # pw_dir p # pw_shell p # (if clear then [pw_clear_passwd p] else [])"
    unfolding pw_line_def pw_data_def using f by (cases clear) (simp_all add: split_colons_field split_colons_last del: split_colons.simps(2))
  then show ?thesis
    using g show_uid_chars(2) by (cases p) (auto simp: parse_pw_def field_at_def good_pw_def id_of_show)
qed

lemma parse_ent_line: "good_pw clear p \<Longrightarrow> parse_ent clear (pw_line clear p @ [LF]) = Some p"
proof -
  assume g: "good_pw clear p"
  have f: "CHR '':'' \<notin> set (pw_name p)" "CHR '':'' \<notin> set (pw_passwd p)" "CHR '':'' \<notin> set (pw_gecos p)" "CHR '':'' \<notin> set (pw_dir p)"
      "CHR '':'' \<notin> set (show_uid (pw_uid p))" "CHR '':'' \<notin> set (show_uid (pw_gid p))"
    using g show_uid_chars(1) [of "pw_uid p"] show_uid_chars(1) [of "pw_gid p"] by (auto simp: good_pw_def plain_field_def)
  let ?rest = "pw_shell p @ (if clear then CHR '':'' # pw_clear_passwd p else []) @ [LF]"
  have "split_colons 6 (pw_line clear p @ [LF]) = [pw_name p, pw_passwd p, show_uid (pw_uid p), show_uid (pw_gid p), pw_gecos p,
      pw_dir p, ?rest]"
    unfolding pw_line_def pw_data_def
    using f by (cases clear) (simp_all add: split_colons_field del: split_colons.simps(2))
  moreover have "takeWhile (\<lambda>c. c \<noteq> CHR '':'' \<and> c \<noteq> LF) ?rest = pw_shell p"
      "dropWhile (\<lambda>c. c \<noteq> CHR '':'' \<and> c \<noteq> LF) ?rest = (if clear then CHR '':'' # pw_clear_passwd p else []) @ [LF]"
    using g by (auto simp: good_pw_def plain_field_def takeWhile_append dropWhile_append)
  moreover have "takeWhile (\<lambda>c. c \<noteq> LF) (pw_clear_passwd p @ [LF]) = pw_clear_passwd p"
    using g by (simp add: good_pw_def takeWhile_stop)
  ultimately show ?thesis
    using g by (cases p) (auto simp: parse_ent_def Let_def field_at_def good_pw_def id_of_show)
qed

lemma index_entry_line:
  assumes "good_pw clear p"
  shows "index_entry (pw_line clear p @ [LF]) = Some (pw_name p, pw_data clear p)"
proof -
  have f: "CHR '':'' \<notin> set (pw_name p)" "nul_free (pw_name p)" "LF \<notin> set (pw_data clear p)" "nul_free (pw_data clear p)"
    using assms good_pw_data [OF assms] by (auto simp: good_pw_def plain_field_def nul_free_def)
  then show ?thesis
    by (simp add: index_entry_def pw_line_def takeWhile_stop dropWhile_append c_str_nul_free)
qed

definition vpasswd_of :: "bool \<Rightarrow> vqpasswd list \<Rightarrow> char list" where
  "vpasswd_of clear ps = print_lines (map (pw_line clear) ps)"

definition index_of_pws :: "bool \<Rightarrow> vqpasswd list \<Rightarrow> (string \<times> string) list" where
  "index_of_pws clear ps = map (\<lambda>p. (pw_name p, pw_data clear p)) ps"

lemma vpasswd_of_simps [simp]:
  "vpasswd_of clear [] = []" "vpasswd_of clear (p # ps) = pw_line clear p @ LF # vpasswd_of clear ps"
  by (simp_all add: vpasswd_of_def)

lemma index_loop_file:
  "list_all (good_pw clear) ps \<Longrightarrow> index_loop (vpasswd_of clear ps) = Some (index_of_pws clear ps)"
proof (induction ps)
  case Nil
  then show ?case by (simp add: index_loop.simps index_of_pws_def)
next
  case (Cons p ps)
  then have g: "good_pw clear p" by simp
  have "fgets_buf 256 (pw_line clear p @ LF # vpasswd_of clear ps) = Some (pw_line clear p @ [LF], vpasswd_of clear ps)"
    using g good_pw_plain [OF g] by (intro fgets_buf_line) (auto simp: good_pw_def plain_line_def)
  then show ?case
    using Cons g by (subst index_loop.simps) (simp add: index_entry_line index_of_pws_def)
qed

lemma pw_line_first:
  assumes "good_pw clear p" "set delims \<subseteq> {CHR '':'', LF}" "CHR '':'' \<in> set delims"
  shows "strtok delims (c_str (pw_line clear p @ [LF])) = Some (pw_name p, pw_data clear p @ [LF])"
proof -
  have c: "c_str (pw_line clear p @ [LF]) = pw_name p @ CHR '':'' # pw_data clear p @ [LF]"
    using c_str_plain [OF good_pw_plain [OF assms(1)]] by (simp add: pw_line_def)
  have n: "\<forall>c \<in> set (pw_name p). c \<notin> set delims" "pw_name p \<noteq> []"
    using assms(1,2) by (auto simp: good_pw_def plain_field_def)
  then have "dropWhile (\<lambda>c. c \<in> set delims) (pw_name p @ r) = pw_name p @ r" for r by (cases "pw_name p") simp_all
  moreover have "takeWhile (\<lambda>c. c \<notin> set delims) (pw_name p @ CHR '':'' # r) = pw_name p"
      "dropWhile (\<lambda>c. c \<notin> set delims) (pw_name p @ CHR '':'' # r) = CHR '':'' # r" for r
    using n assms(3) by (simp_all add: takeWhile_append dropWhile_append)
  ultimately show ?thesis unfolding c strtok_def Let_def using n(2) by simp
qed

text \<open>The sorted list the file holds.\<close>

fun insert_pw :: "vqpasswd \<Rightarrow> vqpasswd list \<Rightarrow> vqpasswd list" where
  "insert_pw p [] = [p]"
| "insert_pw p (q # qs) = (if pw_name p < pw_name q then p # q # qs else q # insert_pw p qs)"

lemma c_str_line: "good_pw clear p \<Longrightarrow> c_str (pw_line clear p @ [LF]) = pw_line clear p @ [LF]"
  by (rule c_str_plain [OF good_pw_plain])

lemma add_loop_rest:
  "list_all (good_pw clear) ps \<Longrightarrow> add_loop user line (vpasswd_of clear ps) True = Some (vpasswd_of clear ps)"
proof (induction ps)
  case (Cons p ps)
  then have g: "good_pw clear p" by simp
  show ?case
    using Cons fgets_plain(1) [OF good_pw_plain [OF g]] c_str_line [OF g] by (subst add_loop.simps) simp
qed (simp add: add_loop.simps)

lemma add_loop_file:
  "list_all (good_pw clear) ps \<Longrightarrow>
   add_loop (pw_name p) (pw_line clear p @ [LF]) (vpasswd_of clear ps) False = Some (vpasswd_of clear (insert_pw p ps))"
proof (induction ps)
  case (Cons q ps)
  then have g: "good_pw clear q" by simp
  show ?case
    using Cons fgets_plain(1) [OF good_pw_plain [OF g]] c_str_line [OF g] pw_line_first [OF g, of "'':''"]
      add_loop_rest [of clear ps "pw_name p" "pw_line clear p @ [LF]"]
    by (subst add_loop.simps) simp
qed (simp add: add_loop.simps)

lemma name_loop_file:
  assumes "set delims \<subseteq> {CHR '':'', LF}" "CHR '':'' \<in> set delims" "list_all (good_pw clear) ps"
  shows "name_loop delims user line (vpasswd_of clear ps) =
    Some (concat (map (\<lambda>p. if pw_name p = user then line else pw_line clear p @ [LF]) ps))"
  using assms(3)
proof (induction ps)
  case (Cons q ps)
  then have g: "good_pw clear q" by simp
  show ?case
    using Cons fgets_plain(1) [OF good_pw_plain [OF g]] c_str_line [OF g] pw_line_first [OF g assms(1,2)]
    by (subst name_loop.simps) simp
qed (simp add: name_loop.simps)

lemma vpasswd_of_changed:
  "vpasswd_of clear (filter (\<lambda>p. pw_name p \<noteq> user) ps)
     = concat (map (\<lambda>p. if pw_name p = user then [] else pw_line clear p @ [LF]) ps)"
  "vpasswd_of clear (map (\<lambda>q. if pw_name q = user then p else q) ps)
     = concat (map (\<lambda>q. if pw_name q = user then pw_line clear p @ [LF] else pw_line clear q @ [LF]) ps)"
  by (induction ps) auto

lemma name_loop_del:
  "list_all (good_pw clear) ps \<Longrightarrow>
   name_loop '':'' user [] (vpasswd_of clear ps) = Some (vpasswd_of clear (filter (\<lambda>p. pw_name p \<noteq> user) ps))"
  unfolding vpasswd_of_changed by (rule name_loop_file) simp_all

lemma name_loop_set:
  "list_all (good_pw clear) ps \<Longrightarrow>
   name_loop ('':'' @ [LF]) (pw_name p) (pw_line clear p @ [LF]) (vpasswd_of clear ps)
     = Some (vpasswd_of clear (map (\<lambda>q. if pw_name q = pw_name p then p else q) ps))"
  unfolding vpasswd_of_changed by (rule name_loop_file) simp_all

section \<open>The contract of an account store\<close>

text \<open>
  What the programs rely on: a map from names to entries. \<open>made\<close> is the entry that adding an account makes,
  \<open>view\<close> what a reader sees of a stored entry, \<open>base\<close> what is stored of an entry, \<open>key\<close> the spelling of a name
  that is looked up.
\<close>

datatype ('x, 'e) account_op = Look string | Add 'x | Put 'e | Del string

datatype 'e account_result = Found "'e option" | Code int

fun account_step ::
  "(string \<Rightarrow> 's \<Rightarrow> ('e option \<times> 's) option) \<Rightarrow> ('x \<Rightarrow> 's \<Rightarrow> (int \<times> 's) option) \<Rightarrow> ('e \<Rightarrow> 's \<Rightarrow> (int \<times> 's) option)
    \<Rightarrow> (string \<Rightarrow> 's \<Rightarrow> (int \<times> 's) option) \<Rightarrow> ('x, 'e) account_op \<Rightarrow> 's \<Rightarrow> ('e account_result \<times> 's) option" where
  "account_step look add put del (Look u) s = map_option (\<lambda>(r, s'). (Found r, s')) (look u s)"
| "account_step look add put del (Add x) s = map_option (\<lambda>(r, s'). (Code r, s')) (add x s)"
| "account_step look add put del (Put e) s = map_option (\<lambda>(r, s'). (Code r, s')) (put e s)"
| "account_step look add put del (Del u) s = map_option (\<lambda>(r, s'). (Code r, s')) (del u s)"

fun run_steps :: "('o \<Rightarrow> 's \<Rightarrow> ('r \<times> 's) option) \<Rightarrow> 'o list \<Rightarrow> 's \<Rightarrow> ('r list \<times> 's) option" where
  "run_steps step [] s = Some ([], s)"
| "run_steps step (x # xs) s =
     (case step x s of
        None \<Rightarrow> None
      | Some (r, s') \<Rightarrow> map_option (\<lambda>(rs, s''). (r # rs, s'')) (run_steps step xs s'))"

text \<open>The same operations on a map.\<close>

fun spec_step ::
  "('x \<Rightarrow> 'e) \<Rightarrow> ('e \<Rightarrow> string) \<Rightarrow> (string \<Rightarrow> string) \<Rightarrow> ('e \<Rightarrow> 'e) \<Rightarrow> ('e \<Rightarrow> 'e)
    \<Rightarrow> ('x, 'e) account_op \<Rightarrow> (string \<rightharpoonup> 'e) \<Rightarrow> 'e account_result \<times> (string \<rightharpoonup> 'e)" where
  "spec_step made name key view base (Look u) m = (Found (map_option view (m (key u))), m)"
| "spec_step made name key view base (Add x) m = (Code 0, m(name (made x) \<mapsto> made x))"
| "spec_step made name key view base (Put e) m = (Code 0, if m (name e) = None then m else m(name e \<mapsto> base e))"
| "spec_step made name key view base (Del u) m = (Code 0, m(u := None))"

fun spec_run :: "('o \<Rightarrow> 'm \<Rightarrow> 'r \<times> 'm) \<Rightarrow> 'o list \<Rightarrow> 'm \<Rightarrow> 'r list \<times> 'm" where
  "spec_run step [] m = ([], m)"
| "spec_run step (x # xs) m = (case step x m of (r, m') \<Rightarrow> case spec_run step xs m' of (rs, m'') \<Rightarrow> (r # rs, m''))"

text \<open>Accounts are added under new names only: the caller looks first.\<close>

fun admissible :: "('x \<Rightarrow> bool) \<Rightarrow> ('e \<Rightarrow> bool) \<Rightarrow> ('x \<Rightarrow> string) \<Rightarrow> ('x, 'e) account_op \<Rightarrow> (string \<rightharpoonup> 'e) \<Rightarrow> bool" where
  "admissible fits_new fits new_name (Add x) m \<longleftrightarrow> fits_new x \<and> m (new_name x) = None"
| "admissible fits_new fits new_name (Put e) m \<longleftrightarrow> fits e"
| "admissible fits_new fits new_name (Look u) m \<longleftrightarrow> True"
| "admissible fits_new fits new_name (Del u) m \<longleftrightarrow> True"

fun all_admissible :: "('o \<Rightarrow> 'm \<Rightarrow> bool) \<Rightarrow> ('o \<Rightarrow> 'm \<Rightarrow> 'r \<times> 'm) \<Rightarrow> 'o list \<Rightarrow> 'm \<Rightarrow> bool" where
  "all_admissible ok step [] m \<longleftrightarrow> True"
| "all_admissible ok step (x # xs) m \<longleftrightarrow> ok x m \<and> all_admissible ok step xs (snd (step x m))"

locale account_store =
  fixes holds :: "'s \<Rightarrow> (string \<rightharpoonup> 'e) \<Rightarrow> bool"
    and look :: "string \<Rightarrow> 's \<Rightarrow> ('e option \<times> 's) option"
    and add :: "'x \<Rightarrow> 's \<Rightarrow> (int \<times> 's) option"
    and put :: "'e \<Rightarrow> 's \<Rightarrow> (int \<times> 's) option"
    and del :: "string \<Rightarrow> 's \<Rightarrow> (int \<times> 's) option"
    and made :: "'x \<Rightarrow> 'e"
    and name :: "'e \<Rightarrow> string"
    and key :: "string \<Rightarrow> string"
    and view :: "'e \<Rightarrow> 'e"
    and base :: "'e \<Rightarrow> 'e"
    and fits_new :: "'x \<Rightarrow> bool"
    and fits :: "'e \<Rightarrow> bool"
  assumes look_ok: "holds s m \<Longrightarrow> look u s = Some (map_option view (m (key u)), s)"
    and add_ok: "holds s m \<Longrightarrow> fits_new x \<Longrightarrow> m (name (made x)) = None \<Longrightarrow>
      \<exists>s'. add x s = Some (0, s') \<and> holds s' (m(name (made x) \<mapsto> made x))"
    and put_ok: "holds s m \<Longrightarrow> fits e \<Longrightarrow>
      \<exists>s'. put e s = Some (0, s') \<and> holds s' (if m (name e) = None then m else m(name e \<mapsto> base e))"
    and del_ok: "holds s m \<Longrightarrow> \<exists>s'. del u s = Some (0, s') \<and> holds s' (m(u := None))"
begin

lemma step_refines:
  assumes "holds s m" "admissible fits_new fits (\<lambda>x. name (made x)) x m" "spec_step made name key view base x m = (r, m')"
  shows "\<exists>s'. account_step look add put del x s = Some (r, s') \<and> holds s' m'"
  using assms
  by (cases x) (use look_ok [of s m] add_ok [of s m] put_ok [of s m] del_ok [of s m] in force)+

lemma run_refines:
  assumes "holds s m"
    "all_admissible (admissible fits_new fits (\<lambda>x. name (made x))) (spec_step made name key view base) xs m"
    "spec_run (spec_step made name key view base) xs m = (rs, m')"
  shows "\<exists>s'. run_steps (account_step look add put del) xs s = Some (rs, s') \<and> holds s' m'"
  using assms
proof (induction xs arbitrary: s m rs)
  case (Cons x xs)
  obtain r m1 where step: "spec_step made name key view base x m = (r, m1)" by fastforce
  obtain rs' where run: "spec_run (spec_step made name key view base) xs m1 = (rs', m')" "rs = r # rs'"
    using Cons.prems(3) step by (auto split: prod.splits)
  obtain s1 where s1: "account_step look add put del x s = Some (r, s1)" "holds s1 m1"
    using step_refines [OF Cons.prems(1) _ step] Cons.prems(2) by auto
  then show ?case using Cons.IH [OF s1(2) _ run(1)] Cons.prems(2) step run(2) by auto
qed simp

lemma look_after_add:
  assumes "holds s m" "fits_new x" "m (name (made x)) = None" "key u = name (made x)"
  shows "\<exists>s'. add x s = Some (0, s') \<and> look u s' = Some (Some (view (made x)), s')"
  using add_ok [OF assms(1-3)] assms(4) look_ok by fastforce

end

section \<open>The files as an account store\<close>

text \<open>A domain that was looked up and may be changed.\<close>

definition settled :: "vcenv \<Rightarrow> assigned \<Rightarrow> accts \<Rightarrow> bool" where
  "settled E a s \<longleftrightarrow>
     ct_cache (ac_ctl s) = Some a \<and> lowerit (as_domain a) = as_domain a \<and> as_domain a \<noteq> [] \<and> length (as_domain a) \<le> MAX_PW_DOMAIN
     \<and> length (as_dir a) < 156 \<and> (vc_euid E = 0 \<or> vc_euid E = as_uid a)"

text \<open>What the environment has to allow, and what \<open>cdb_seek\<close> promises: the data of the first record of the key.\<close>

definition usable :: "vcenv \<Rightarrow> assigned \<Rightarrow> bool" where
  "usable E a \<longleftrightarrow>
     \<not> vc_noindex E \<and> vc_lock E (as_dir a) \<and> vc_bak E (as_dir a) \<and> vc_pass E (as_dir a) \<and> vc_tmp E (as_dir a)
     \<and> (\<forall>kvs k. vc_seek E kvs k = map_of kvs k)
     \<and> (\<forall>g. vlimits_setflags (\<lambda>_. Some (as_dir a)) (vc_limits_default E) (vc_limits E) g (as_domain a) \<noteq> None)"

definition flagged :: "vcenv \<Rightarrow> assigned \<Rightarrow> vqpasswd \<Rightarrow> vqpasswd" where
  "flagged E a p = p\<lparr>pw_flags := unat (the (vlimits_setflags (\<lambda>_. Some (as_dir a)) (vc_limits_default E) (vc_limits E)
     (word_of_nat (pw_gid p)) (as_domain a)))\<rparr>"

definition unflagged :: "vqpasswd \<Rightarrow> vqpasswd" where
  "unflagged p = p\<lparr>pw_flags := 0\<rparr>"

definition stores :: "vcenv \<Rightarrow> assigned \<Rightarrow> accts \<Rightarrow> vqpasswd list \<Rightarrow> bool" where
  "stores E a s ps \<longleftrightarrow>
     settled E a s \<and> ac_vpasswd s (as_dir a) = Some (vpasswd_of (vc_clear E) ps)
     \<and> ac_index s (as_dir a) = Some (index_of_pws (vc_clear E) ps) \<and> list_all (good_pw (vc_clear E)) ps
     \<and> sorted_wrt (<) (map pw_name ps)"

definition pw_map :: "vqpasswd list \<Rightarrow> string \<rightharpoonup> vqpasswd" where
  "pw_map ps = map_of (map (\<lambda>p. (pw_name p, p)) ps)"

definition vcdb_holds :: "vcenv \<Rightarrow> assigned \<Rightarrow> accts \<Rightarrow> (string \<rightharpoonup> vqpasswd) \<Rightarrow> bool" where
  "vcdb_holds E a s m \<longleftrightarrow> usable E a \<and> (\<exists>ps. stores E a s ps \<and> m = pw_map ps)"

lemma settled_vget: "settled E a s \<Longrightarrow> vget_assign C (as_domain a) (ac_ctl s) = Some ((as_domain a, Some a), ac_ctl s)"
  by (simp add: settled_def vget_assign_def)

lemma settled_dir:
  "settled E a s \<Longrightarrow> assign_dir 156 C (as_domain a) (ac_ctl s) = Some ((as_domain a, Some (Some (as_dir a), a)), ac_ctl s)"
  using settled_vget [of E a s C] by (simp add: assign_dir_def settled_def snprintf_str_def)

lemma settled_files: "settled E a s \<Longrightarrow> set_vpasswd_files E (as_domain a) s = Some ((as_domain a, as_dir a), s)"
  using settled_dir [of E a s "vc_ctl E"]
  by (simp add: set_vpasswd_files_def vset_default_domain_def settled_def snprintf_str_def MAX_BUFF_def)

lemma vlimits_setflags_cong:
  "f (snprintf_str MAX_BUFF d) = g (snprintf_str MAX_BUFF d) \<Longrightarrow> vlimits_setflags f def fs w d = vlimits_setflags g def fs w d"
  by (simp add: vlimits_setflags_def vget_limits_def limits_path_def)

lemma set_flags_settled:
  assumes "settled E a s" "usable E a"
  shows "set_flags E (as_domain a) p s = Some (flagged E a p, s)"
proof -
  have d: "snprintf_str MAX_BUFF (as_domain a) = as_domain a"
    using assms(1) by (simp add: settled_def snprintf_str_def MAX_BUFF_def MAX_PW_DOMAIN_def)
  have "home_of (vc_ctl E) (ac_ctl s) (as_domain a) = Some (as_dir a)"
    using settled_vget [OF assms(1)] assms(1) by (simp add: home_of_def settled_def snprintf_str_def MAX_BUFF_def)
  then have "vlimits_setflags (home_of (vc_ctl E) (ac_ctl s)) (vc_limits_default E) (vc_limits E) w (as_domain a)
      = vlimits_setflags (\<lambda>_. Some (as_dir a)) (vc_limits_default E) (vc_limits E) w (as_domain a)" for w
    by (intro vlimits_setflags_cong) (simp add: d)
  moreover obtain f where
    "vlimits_setflags (\<lambda>_. Some (as_dir a)) (vc_limits_default E) (vc_limits E) (word_of_nat (pw_gid p)) (as_domain a) = Some f"
    using assms(2) unfolding usable_def by blast
  ultimately show ?thesis
    using settled_vget [OF assms(1)] by (simp add: set_flags_def flagged_def Let_def d)
qed

lemma map_of_index: "map_of (index_of_pws clear ps) u = map_option (pw_data clear) (pw_map ps u)"
  by (induction ps) (auto simp: index_of_pws_def pw_map_def)

lemma pw_map_in: "pw_map ps u = Some p \<Longrightarrow> p \<in> set ps \<and> pw_name p = u"
  by (auto simp: pw_map_def dest!: map_of_SomeD)

lemma length_lowerit: "length (lowerit u) \<le> 156"
  by (simp add: lowerit_def)

lemma find_pw_stored:
  assumes "usable E a" "list_all (good_pw (vc_clear E)) ps" "length u \<le> 156"
  shows "find_pw E (index_of_pws (vc_clear E) ps) u = Some (pw_map ps u)"
proof (cases "pw_map ps u")
  case None
  then show ?thesis using assms by (simp add: find_pw_def usable_def map_of_index)
next
  case (Some p)
  then have p: "good_pw (vc_clear E) p" "pw_name p = u" using assms(2) pw_map_in [of ps u p] by (auto simp: list_all_iff)
  have line: "u @ CHR '':'' # pw_data (vc_clear E) p = pw_line (vc_clear E) p" using p(2) by (simp add: pw_line_def)
  have "nul_free (pw_line (vc_clear E) p)" using good_pw_plain [OF p(1)] by (simp add: plain_line_def)
  moreover have "CHR '':'' \<notin> set u" using p by (auto simp: good_pw_def plain_field_def)
  moreover have "length u + 1 + length (pw_data (vc_clear E) p) < 255"
    using p by (auto simp: good_pw_def pw_line_def)
  ultimately show ?thesis
    using assms Some parse_pw_line [OF p(1)]
    by (simp add: find_pw_def usable_def map_of_index line c_str_nul_free)
qed

lemma getpw_stored:
  assumes "usable E a" "stores E a s ps"
  shows "auth_getpw E u (as_domain a) s = Some ((as_domain a, map_option (flagged E a) (pw_map ps (lowerit u))), s)"
proof -
  have s: "settled E a s" and i: "ac_index s (as_dir a) = Some (index_of_pws (vc_clear E) ps)" "list_all (good_pw (vc_clear E)) ps"
    using assms(2) by (auto simp: stores_def)
  have d: "lowerit (as_domain a) = as_domain a" "take 155 (as_domain a) = as_domain a" "vc_euid E = 0 \<or> vc_euid E = as_uid a"
    using s by (auto simp: settled_def MAX_PW_DOMAIN_def)
  have "s\<lparr>ac_ctl := ac_ctl s\<rparr> = s" by simp
  then show ?thesis
    using settled_vget [OF s] settled_files [OF s] d i find_pw_stored [OF assms(1) i(2) length_lowerit]
    by (auto simp: auth_getpw_def Let_def open_index_def set_flags_settled [OF s assms(1)] split: option.split)
qed

lemma getall_stored:
  assumes "usable E a" "settled E a s" "list_all (good_pw (vc_clear E)) ps"
  shows "getall_loop E (as_domain a) (vpasswd_of (vc_clear E) ps) s = Some (map (flagged E a) ps, s)"
  using assms(3)
proof (induction ps)
  case Nil
  then show ?case by (simp add: getall_loop.simps vgetent_def)
next
  case (Cons p ps)
  then have g: "good_pw (vc_clear E) p" by simp
  have "vgetent E (pw_line (vc_clear E) p @ LF # vpasswd_of (vc_clear E) ps) = Some (p, vpasswd_of (vc_clear E) ps)"
    using fgets_plain(1) [OF good_pw_plain [OF g]] c_str_line [OF g] parse_ent_line [OF g] by (simp add: vgetent_def)
  then show ?case
    using Cons set_flags_settled [OF assms(2,1)] by (subst getall_loop.simps) simp
qed

lemma rewrite_settled:
  assumes "usable E a" "settled E a s" "ac_vpasswd s (as_dir a) = Some old" "f old (ac_ctl s) = Some (vpasswd_of (vc_clear E) ps, ac_ctl s)"
    and "list_all (good_pw (vc_clear E)) ps" "sorted_wrt (<) (map pw_name ps)"
  shows "\<exists>s'. rewrite_vpasswd E (as_domain a) (as_dir a) f s = Some (0, s') \<and> stores E a s' ps"
proof -
  let ?s = "s\<lparr>ac_ctl := ac_ctl s, ac_vpasswd := (ac_vpasswd s)(as_dir a \<mapsto> vpasswd_of (vc_clear E) ps)\<rparr>"
  have s: "settled E a ?s" using assms(2) by (simp add: settled_def)
  have "make_vpasswd_cdb E (as_dir a) (as_domain a) ?s
      = Some (0, ?s\<lparr>ac_index := (ac_index ?s)(as_dir a \<mapsto> index_of_pws (vc_clear E) ps)\<rparr>)"
    using assms(1) settled_vget [OF assms(2)] index_loop_file [OF assms(5)] by (simp add: make_vpasswd_cdb_def usable_def)
  then show ?thesis
    using assms s by (simp add: rewrite_vpasswd_def usable_def stores_def settled_def)
qed

lemma set_insert_pw: "set (insert_pw p ps) = insert p (set ps)"
  by (induction ps) auto

lemma sorted_insert_pw:
  "sorted_wrt (<) (map pw_name ps) \<Longrightarrow> pw_name p \<notin> pw_name ` set ps \<Longrightarrow> sorted_wrt (<) (map pw_name (insert_pw p ps))"
proof (induction ps)
  case (Cons q ps)
  then show ?case by (auto simp: set_insert_pw dest: order.strict_trans)
qed simp

lemma pw_map_None: "pw_map ps u = None \<longleftrightarrow> u \<notin> pw_name ` set ps"
  by (simp add: pw_map_def map_of_eq_None_iff image_image)

lemma pw_map_insert: "pw_name p \<notin> pw_name ` set ps \<Longrightarrow> pw_map (insert_pw p ps) = (pw_map ps)(pw_name p \<mapsto> p)"
  by (induction ps) (auto simp: pw_map_def)

lemma pw_map_del: "pw_map (filter (\<lambda>p. pw_name p \<noteq> u) ps) = (pw_map ps)(u := None)"
  by (induction ps) (auto simp: pw_map_def)

lemma pw_map_set:
  "pw_map (map (\<lambda>q. if pw_name q = pw_name p then p else q) ps)
     = (if pw_map ps (pw_name p) = None then pw_map ps else (pw_map ps)(pw_name p \<mapsto> p))"
proof (induction ps)
  case (Cons q ps)
  then show ?case by (auto simp: pw_map_def fun_eq_iff)
qed (simp add: pw_map_def)

lemma names_set: "map pw_name (map (\<lambda>q. if pw_name q = pw_name p then p else q) ps) = map pw_name ps"
  by simp

lemma strip_colons_plain: "CHR '':'' \<notin> set s \<Longrightarrow> vcdb_strip_char s = Some s"
proof -
  assume "CHR '':'' \<notin> set s"
  then have "strip_colons s = Some s" by (induction s) auto
  then show ?thesis by (simp add: vcdb_strip_char_def)
qed

text \<open>The entry that \<open>auth_adduser\<close> makes of user, password, gecos, directory and the kind of service.\<close>

type_synonym new_account = "string \<times> string \<times> string \<times> string \<times> nat"

definition new_pw :: "vcenv \<Rightarrow> assigned \<Rightarrow> new_account \<Rightarrow> vqpasswd" where
  "new_pw E a x =
     (case x of (user, pass, gecos, dir, apop) \<Rightarrow>
        \<lparr>pw_name = user, pw_passwd = the (crypt_pass E pass), pw_uid = (if apop = USE_POP then 1 else 2), pw_gid = 0, pw_flags = 0,
         pw_gecos = (if gecos = [] then user else gecos), pw_dir = user_home (as_dir a) (as_domain a) dir user,
         pw_shell = ''NOQUOTA'', pw_clear_passwd = (if vc_clear E then pass else [])\<rparr>)"

definition new_fits :: "vcenv \<Rightarrow> assigned \<Rightarrow> new_account \<Rightarrow> bool" where
  "new_fits E a x \<longleftrightarrow>
     fst x \<noteq> ''vpasswd'' \<and> crypt_pass E (fst (snd x)) \<noteq> None \<and> good_pw (vc_clear E) (new_pw E a x)"

definition put_fits :: "vcenv \<Rightarrow> assigned \<Rightarrow> vqpasswd \<Rightarrow> bool" where
  "put_fits E a p \<longleftrightarrow> good_pw (vc_clear E) (unflagged p) \<and> vcheck_vqpw (vc_clear E) p (as_domain a) = VA_SUCCESS"

definition getpw_of :: "vcenv \<Rightarrow> assigned \<Rightarrow> string \<Rightarrow> accts \<Rightarrow> (vqpasswd option \<times> accts) option" where
  "getpw_of E a u s = map_option (\<lambda>((d, r), s'). (r, s')) (auth_getpw E u (as_domain a) s)"

definition adduser_of :: "vcenv \<Rightarrow> assigned \<Rightarrow> new_account \<Rightarrow> accts \<Rightarrow> (int \<times> accts) option" where
  "adduser_of E a x s =
     (case x of (user, pass, gecos, dir, apop) \<Rightarrow> auth_adduser E user (as_domain a) pass gecos dir apop s)"

lemma show_uid_small: "show_uid (Suc 0) = ''1''" "show_uid 2 = ''2''" "show_uid 0 = ''0''"
  by code_simp+

lemma adduser_line_new:
  assumes "settled E a s" "crypt_pass E pass = Some cr" "x = (user, pass, gecos, dir, apop)"
  shows "auth_adduser_line E user pass (as_domain a) (if gecos = [] then user else gecos) dir apop (ac_ctl s)
    = Some (pw_line (vc_clear E) (new_pw E a x) @ [LF], ac_ctl s)"
  using settled_dir [OF assms(1), of "vc_ctl E"] assms(2,3)
  by (simp add: auth_adduser_line_def new_pw_def pw_line_def pw_data_def show_uid_small)

lemma stores_sizes: "stores E a (remove_maildirsize d s) ps = stores E a s ps"
  by (simp add: stores_def settled_def remove_maildirsize_def)

lemma adduser_stored:
  assumes "usable E a" "stores E a s ps" "new_fits E a x" "pw_map ps (pw_name (new_pw E a x)) = None"
  shows "\<exists>s'. adduser_of E a x s = Some (0, s') \<and> stores E a s' (insert_pw (new_pw E a x) ps)"
proof -
  obtain user pass gecos dir apop where x: "x = (user, pass, gecos, dir, apop)" by (cases x)
  have s: "settled E a s" "ac_vpasswd s (as_dir a) = Some (vpasswd_of (vc_clear E) ps)" "list_all (good_pw (vc_clear E)) ps"
      "sorted_wrt (<) (map pw_name ps)" using assms(2) by (auto simp: stores_def)
  have g: "user \<noteq> ''vpasswd''" "good_pw (vc_clear E) (new_pw E a x)" using assms(3) by (simp_all add: new_fits_def x)
  obtain cr where cr: "crypt_pass E pass = Some cr" using assms(3) by (auto simp: new_fits_def x)
  have name: "pw_name (new_pw E a x) = user" by (simp add: new_pw_def x)
  have strip: "vcdb_strip_char user = Some user" "gecos \<noteq> [] \<Longrightarrow> vcdb_strip_char gecos = Some gecos"
    using g(2) by (auto intro!: strip_colons_plain simp: good_pw_def new_pw_def x plain_field_def)
  let ?f = "\<lambda>old c. case auth_adduser_line E user pass (as_domain a) (if gecos = [] then user else gecos) dir apop c of
      None \<Rightarrow> None | Some (line, c') \<Rightarrow> map_option (\<lambda>b. (b, c')) (add_loop user line old False)"
  have "?f (vpasswd_of (vc_clear E) ps) (ac_ctl s) = Some (vpasswd_of (vc_clear E) (insert_pw (new_pw E a x) ps), ac_ctl s)"
    using add_loop_file [OF s(3), of "new_pw E a x"] by (simp add: adduser_line_new [OF s(1) cr x] name)
  moreover have "list_all (good_pw (vc_clear E)) (insert_pw (new_pw E a x) ps)" "sorted_wrt (<) (map pw_name (insert_pw (new_pw E a x) ps))"
    using s(3) g(2) sorted_insert_pw [OF s(4)] assms(4) by (auto simp: list_all_iff set_insert_pw pw_map_None)
  ultimately have "\<exists>s'. rewrite_vpasswd E (as_domain a) (as_dir a) ?f s = Some (0, s') \<and> stores E a s' (insert_pw (new_pw E a x) ps)"
    by (intro rewrite_settled [OF assms(1) s(1,2)])
  moreover have "adduser_of E a x s = rewrite_vpasswd E (as_domain a) (as_dir a) ?f s"
    using g(1) strip settled_files [OF s(1)] by (cases "gecos = []") (simp_all add: adduser_of_def x auth_adduser_def)
  ultimately show ?thesis by simp
qed

lemma deluser_stored:
  assumes "usable E a" "stores E a s ps"
  shows "\<exists>s'. auth_deluser E u (as_domain a) s = Some (0, s') \<and> stores E a s' (filter (\<lambda>p. pw_name p \<noteq> u) ps)"
proof -
  have s: "settled E a s" "ac_vpasswd s (as_dir a) = Some (vpasswd_of (vc_clear E) ps)" "list_all (good_pw (vc_clear E)) ps"
      "sorted_wrt (<) (map pw_name ps)" using assms(2) by (auto simp: stores_def)
  have "sorted_wrt (<) (map pw_name (filter (\<lambda>p. pw_name p \<noteq> u) ps))"
    using s(4) by (simp add: sorted_wrt_map sorted_wrt_filter)
  then show ?thesis
    using rewrite_settled [OF assms(1) s(1,2), of "\<lambda>old c. map_option (\<lambda>b. (b, c)) (name_loop '':'' u [] old)"] s(3)
    by (auto simp: auth_deluser_def settled_files [OF s(1)] name_loop_del [OF s(3)] list_all_iff)
qed

lemma setpw_stored:
  assumes "usable E a" "stores E a s ps" "put_fits E a p"
  shows "\<exists>s'. auth_setpw E p (as_domain a) s = Some (0, s')
    \<and> stores E a s' (map (\<lambda>q. if pw_name q = pw_name p then unflagged p else q) ps)"
proof -
  let ?ps = "map (\<lambda>q. if pw_name q = pw_name p then unflagged p else q) ps"
  have s: "settled E a s" "ac_vpasswd s (as_dir a) = Some (vpasswd_of (vc_clear E) ps)" "list_all (good_pw (vc_clear E)) ps"
      "sorted_wrt (<) (map pw_name ps)" using assms(2) by (auto simp: stores_def)
  have g: "good_pw (vc_clear E) (unflagged p)" "vcheck_vqpw (vc_clear E) p (as_domain a) = VA_SUCCESS"
    using assms(3) by (simp_all add: put_fits_def)
  have strip: "vcdb_strip_char (pw_gecos p) = Some (pw_gecos p)" "\<not> vc_clear E \<Longrightarrow> vcdb_strip_char (pw_clear_passwd p) = Some (pw_clear_passwd p)"
    using g(1) by (auto intro!: strip_colons_plain simp: good_pw_def unflagged_def plain_field_def)
  have line: "print_pw (vc_clear E) p = pw_line (vc_clear E) (unflagged p) @ [LF]"
    by (simp add: print_pw_line pw_line_def pw_data_def unflagged_def)
  let ?f = "\<lambda>old c. map_option (\<lambda>b. (b, c)) (name_loop ('':'' @ [LF]) (pw_name p) (print_pw (vc_clear E) p) old)"
  have "name_loop ('':'' @ [LF]) (pw_name p) (print_pw (vc_clear E) p) (vpasswd_of (vc_clear E) ps) = Some (vpasswd_of (vc_clear E) ?ps)"
    using name_loop_set [OF s(3), of "unflagged p"] unfolding line by (simp add: unflagged_def)
  then have f: "?f (vpasswd_of (vc_clear E) ps) (ac_ctl s) = Some (vpasswd_of (vc_clear E) ?ps, ac_ctl s)" by simp
  have n: "map pw_name ?ps = map pw_name ps" by (simp add: unflagged_def)
  have "list_all (good_pw (vc_clear E)) ?ps" using s(3) g(1) by (auto simp: list_all_iff)
  then obtain s' where s': "rewrite_vpasswd E (as_domain a) (as_dir a) ?f s = Some (0, s')" "stores E a s' ?ps"
    using rewrite_settled [where f = ?f, OF assms(1) s(1,2) f] s(4) unfolding n by blast
  have same: "p\<lparr>pw_gecos := pw_gecos p, pw_clear_passwd := pw_clear_passwd p\<rparr> = p" by simp
  have e: "vc_euid E = 0 \<or> vc_euid E = as_uid a" using s(1) by (simp add: settled_def)
  have "\<exists>t. auth_setpw E p (as_domain a) s = Some (0, t) \<and> (t = s' \<or> t = remove_maildirsize (pw_dir p) s')"
    using e g(2) strip settled_vget [OF s(1)] settled_files [OF s(1)] s'(1)
    by (cases "vc_clear E") (auto simp: auth_setpw_def same)
  then show ?thesis using s'(2) stores_sizes by auto
qed

interpretation vcdb: account_store "vcdb_holds E a" "getpw_of E a" "adduser_of E a" "\<lambda>p. auth_setpw E p (as_domain a)"
  "\<lambda>u. auth_deluser E u (as_domain a)" "new_pw E a" pw_name lowerit "flagged E a" unflagged "new_fits E a" "put_fits E a"
proof unfold_locales
  fix s m
  assume h: "vcdb_holds E a s m"
  then obtain ps where ps: "usable E a" "stores E a s ps" "m = pw_map ps" by (auto simp: vcdb_holds_def)
  show "getpw_of E a u s = Some (map_option (flagged E a) (m (lowerit u)), s)" for u
    using getpw_stored [OF ps(1,2)] ps(3) by (simp add: getpw_of_def)
  show "\<exists>s'. adduser_of E a x s = Some (0, s') \<and> vcdb_holds E a s' (m(pw_name (new_pw E a x) \<mapsto> new_pw E a x))"
    if "new_fits E a x" "m (pw_name (new_pw E a x)) = None" for x
    using adduser_stored [OF ps(1,2) that(1)] that(2) ps(1) pw_map_insert [of "new_pw E a x" ps]
    unfolding vcdb_holds_def ps(3) pw_map_None by metis
  show "\<exists>s'. auth_setpw E p (as_domain a) s = Some (0, s')
      \<and> vcdb_holds E a s' (if m (pw_name p) = None then m else m(pw_name p \<mapsto> unflagged p))" if fp: "put_fits E a p" for p
  proof -
    have n: "pw_name (unflagged p) = pw_name p" by (simp add: unflagged_def)
    let ?ps = "map (\<lambda>q. if pw_name q = pw_name p then unflagged p else q) ps"
    obtain s' where "auth_setpw E p (as_domain a) s = Some (0, s')" "stores E a s' ?ps"
      using setpw_stored [OF ps(1,2) fp] by blast
    moreover have "(if pw_map ps (pw_name p) = None then pw_map ps else (pw_map ps)(pw_name p \<mapsto> unflagged p)) = pw_map ?ps"
      using pw_map_set [of "unflagged p" ps] unfolding n by simp
    ultimately show ?thesis unfolding vcdb_holds_def ps(3) using ps(1) by blast
  qed
  show "\<exists>s'. auth_deluser E u (as_domain a) s = Some (0, s') \<and> vcdb_holds E a s' (m(u := None))" for u
    using deluser_stored [OF ps(1,2), of u] ps(1) pw_map_del [of u ps, symmetric] unfolding vcdb_holds_def ps(3) by blast
qed

section \<open>Properties\<close>

text \<open>
  C14. The back end refines a map from names to entries: for a domain whose files can be written, any sequence of
  look-ups, additions under new names, changes and deletions by \<open>auth_getpw\<close>, \<open>auth_adduser\<close>, \<open>auth_setpw\<close> and
  \<open>auth_deluser\<close> returns what the same sequence on the map returns, without touching memory it must not, and
  leaves a file and an index that hold the resulting map.
\<close>

theorem vcdb_refines_map:
  assumes "vcdb_holds E a s m"
    and "all_admissible (admissible (new_fits E a) (put_fits E a) (\<lambda>x. pw_name (new_pw E a x)))
        (spec_step (new_pw E a) pw_name lowerit (flagged E a) unflagged) ops m"
    and "spec_run (spec_step (new_pw E a) pw_name lowerit (flagged E a) unflagged) ops m = (rs, m')"
  shows "\<exists>s'. run_steps (account_step (getpw_of E a) (adduser_of E a) (\<lambda>p. auth_setpw E p (as_domain a))
        (\<lambda>u. auth_deluser E u (as_domain a))) ops s = Some (rs, s') \<and> vcdb_holds E a s' m'"
  by (rule vcdb.run_refines [OF assms])

text \<open>
  C23. For a domain in such a state \<open>auth_getall\<close> lists exactly the accounts of the map, each once, in the order
  of their names and with the flags of the limits of the domain.
\<close>

theorem auth_getall_lists:
  assumes "vcdb_holds E a s m"
  shows "\<exists>ps. auth_getall E (as_domain a) s = Some (map (flagged E a) ps, s) \<and> sorted_wrt (<) (map pw_name ps)
    \<and> (\<forall>p. p \<in> set ps \<longleftrightarrow> m (pw_name p) = Some p)"
proof -
  obtain ps where ps: "usable E a" "stores E a s ps" "m = pw_map ps" using assms by (auto simp: vcdb_holds_def)
  have s: "settled E a s" "ac_vpasswd s (as_dir a) = Some (vpasswd_of (vc_clear E) ps)" "list_all (good_pw (vc_clear E)) ps"
      "sorted_wrt (<) (map pw_name ps)" using ps(2) by (auto simp: stores_def)
  have "vc_pass E (as_dir a)" using ps(1) by (simp add: usable_def)
  then have l: "auth_getall E (as_domain a) s = Some (map (flagged E a) ps, s)"
    using s(2) by (simp add: auth_getall_def settled_files [OF s(1)] getall_stored [OF ps(1) s(1,3)])
  have "distinct (map pw_name ps)" using s(4) by (simp add: strict_sorted_iff)
  then have "distinct (map fst (map (\<lambda>p. (pw_name p, p)) ps))" by (simp add: comp_def)
  then have "\<forall>p. p \<in> set ps \<longleftrightarrow> pw_map ps (pw_name p) = Some p" unfolding pw_map_def by force
  then show ?thesis using l s(4) ps(3) by blast
qed

definition vcenv_example :: vcenv where
  "vcenv_example = \<lparr>vc_ctl = cenv_example, vc_domains = ''/v'',
     vc_default = \<lparr>de_vpopmail_domain = None, de_tcplocalip = None, de_ip_alias = False, de_ip_map = (\<lambda>_. None), de_locals = None,
       de_defaultdomain = None\<rparr>,
     vc_euid = 0, vc_clear = True, vc_noindex = False, vc_lock = (\<lambda>_. True), vc_bak = (\<lambda>_. True), vc_pass = (\<lambda>_. True),
     vc_tmp = (\<lambda>_. True), vc_seek = map_of, vc_crypt = (\<lambda>p. Some (''$1$'' @ rev p)), vc_limits = (\<lambda>_. None),
     vc_limits_default = ''/v/vlimits.default''\<rparr>"

definition domain_example :: assigned where
  "domain_example = \<lparr>as_domain = ''b.org'', as_dir = ''/v/b.org'', as_uid = 89, as_gid = 89\<rparr>"

definition accts_example :: accts where
  "accts_example = \<lparr>ac_ctl = \<lparr>ct_file = (\<lambda>_. None), ct_cdb = None, ct_more = None, ct_cache = Some domain_example\<rparr>,
     ac_vpasswd = [''/v/b.org'' \<mapsto> []], ac_index = [''/v/b.org'' \<mapsto> []], ac_sizes = Map.empty\<rparr>"

definition new_example :: new_account where
  "new_example = (''bob'', ''secret'', ''Bob'', [], 0)"

lemma holds_example: "vcdb_holds vcenv_example domain_example accts_example Map.empty"
proof -
  have "lowerit ''b.org'' = ''b.org''" by code_simp
  then have "settled vcenv_example domain_example accts_example"
    by (simp add: settled_def accts_example_def domain_example_def vcenv_example_def MAX_PW_DOMAIN_def)
  then have "stores vcenv_example domain_example accts_example []"
    by (simp add: stores_def accts_example_def domain_example_def index_of_pws_def)
  moreover have "usable vcenv_example domain_example"
    by (simp add: usable_def vcenv_example_def vlimits_setflags_def vget_limits_def limits_path_def vlimits_read_limits_file_def)
  ultimately show ?thesis by (auto simp: vcdb_holds_def pw_map_def)
qed

lemma new_fits_example: "new_fits vcenv_example domain_example new_example"
  by (simp add: new_fits_def new_example_def vcenv_example_def domain_example_def new_pw_def good_pw_def plain_field_def pw_line_def
      pw_data_def crypt_pass_def user_home_def USE_POP_def show_uid_small)

theorem vcdb_refines_map_witness:
  "\<exists>s'. run_steps (account_step (getpw_of vcenv_example domain_example) (adduser_of vcenv_example domain_example)
        (\<lambda>p. auth_setpw vcenv_example p (as_domain domain_example)) (\<lambda>u. auth_deluser vcenv_example u (as_domain domain_example)))
      [Look ''bob'', Add new_example, Look ''Bob'', Del ''bob'', Look ''bob''] accts_example
    = Some ([Found None, Code 0, Found (Some (flagged vcenv_example domain_example (new_pw vcenv_example domain_example new_example))),
        Code 0, Found None], s')
    \<and> vcdb_holds vcenv_example domain_example s' Map.empty"
proof -
  have l: "lowerit ''bob'' = ''bob''" "lowerit ''Bob'' = ''bob''" by code_simp+
  have n: "pw_name (new_pw vcenv_example domain_example new_example) = ''bob''" by (simp add: new_pw_def new_example_def)
  show ?thesis by (rule vcdb_refines_map [OF holds_example]) (simp_all add: l n new_fits_example)
qed

theorem auth_getall_lists_witness:
  "\<exists>ps. auth_getall vcenv_example (as_domain domain_example) accts_example
      = Some (map (flagged vcenv_example domain_example) ps, accts_example)
    \<and> sorted_wrt (<) (map pw_name ps) \<and> (\<forall>p. p \<in> set ps \<longleftrightarrow> (Map.empty :: string \<rightharpoonup> vqpasswd) (pw_name p) = Some p)"
  by (rule auth_getall_lists [OF holds_example])

section \<open>Where it goes wrong\<close>

text \<open>
  \<open>vcdb_strip_char\<close> does not terminate the shortened string, and runs on behind a string that ends with a colon.
\<close>

lemma strip_char_examples: "vcdb_strip_char ''a:b'' = Some ''abb''" "vcdb_strip_char ''a::b'' = Some ''a:bb''" "vcdb_strip_char ''ab:'' = None"
  by code_simp+

text \<open>A line of 255 characters or more makes \<open>make_vpasswd_cdb\<close> look for its newline behind the buffer.\<close>

lemma index_loop_long:
  assumes "255 \<le> length l" "LF \<notin> set l"
  shows "index_loop (l @ r) = None"
proof -
  have "LF \<notin> set (take 255 l)" using assms(2) by (meson in_set_takeD)
  moreover have "takeWhile (\<lambda>c. c \<noteq> LF) (l @ r) = l @ takeWhile (\<lambda>c. c \<noteq> LF) r" using assms(2) by (simp add: takeWhile_append)
  then have "fgets_buf 256 (l @ r) = Some (take 255 l, drop 255 (l @ r))"
    using assms(1) by (auto simp: fgets_buf_def Let_def min_def)
  ultimately show ?thesis using assms(1) by (subst index_loop.simps) (simp add: index_entry_def)
qed

text \<open>\<open>vcheck_vqpw\<close> lets such an entry pass.\<close>

lemma vcheck_long:
  "\<exists>p. vcheck_vqpw clear p ''b.org'' = VA_SUCCESS \<and> 255 \<le> length (pw_line clear p)"
  by (intro exI [of _ "\<lparr>pw_name = ''bob'', pw_passwd = replicate 128 CHR ''x'', pw_uid = 1, pw_gid = 0, pw_flags = 0, pw_gecos = ''Bob'',
       pw_dir = replicate 160 CHR ''d'', pw_shell = ''NOQUOTA'', pw_clear_passwd = []\<rparr>"])
    (simp add: vcheck_vqpw_def pw_line_def pw_data_def MAX_PW_NAME_def MAX_PW_DOMAIN_def MAX_PW_PASS_def MAX_PW_GECOS_def MAX_PW_DIR_def
       MAX_PW_QUOTA_def MAX_PW_CLEAR_PASSWD_def)

text \<open>An empty line has no first token, and its null pointer is compared; a record without uid and gid as well.\<close>

lemma name_loop_empty_line: "name_loop ('':'' @ [LF]) user line (LF # r) = None"
  using fgets_plain(1) [of "[]" r] by (subst name_loop.simps) (simp add: plain_line_def nul_free_def MAX_BUFF_def strtok_def c_str_def)

lemma parse_pw_short: "parse_pw ''joe:x'' = None" "parse_pw ''joe:x:1'' = None"
  by code_simp+

text \<open>A last line without a newline is not in the index.\<close>

lemma index_loop_unterminated: "LF \<notin> set l \<Longrightarrow> length l < 255 \<Longrightarrow> index_loop l = Some []"
  by (subst index_loop.simps) (auto simp: fgets_buf_def Let_def takeWhile_all min_def split: option.splits)

section \<open>The map of IP addresses to domains\<close>

text \<open>
  The contents of \<^verbatim>\<open>ip_alias_map\<close>; \<open>None\<close> for a file that cannot be opened. \<open>ip_fields\<close> are the first two words
  of a line.
\<close>

definition IP_ALIAS_TOKENS :: string where
  "IP_ALIAS_TOKENS = [CHR '' '', CHR 0x09, LF]"

definition ip_fields :: "char list \<Rightarrow> (string \<times> string) option" where
  "ip_fields l =
     (case strtok IP_ALIAS_TOKENS (c_str l) of
        None \<Rightarrow> None
      | Some (ip, r) \<Rightarrow> map_option (\<lambda>(d, _). (ip, d)) (strtok IP_ALIAS_TOKENS r))"

lemma fgets_156: "fgets_buf 156 s = Some (l, r) \<Longrightarrow> length r < length s"
  by (auto dest: fgets_buf_shorter)

text \<open>The domain of the first line with the address; \<open>None\<close> inside when there is none.\<close>

function ip_lookup :: "string \<Rightarrow> char list \<Rightarrow> string option" where
  "ip_lookup ip s =
     (case fgets_buf 156 s of
        None \<Rightarrow> None
      | Some (l, r) \<Rightarrow>
          (case ip_fields l of
             None \<Rightarrow> ip_lookup ip r
           | Some (ip', d) \<Rightarrow> if ip' = ip then Some d else ip_lookup ip r))"
  by pat_completeness auto

termination
  by (relation "measure (\<lambda>(i, s). length s)") (auto dest: fgets_156)

declare ip_lookup.simps [simp del]

text \<open>\<open>strncpy\<close> leaves a name that fills the caller's buffer without its NUL (\<open>None\<close>).\<close>

definition get_ip_map :: "string \<Rightarrow> nat \<Rightarrow> char list option \<Rightarrow> (int \<times> string) option" where
  "get_ip_map ip domain_size file =
     (if ip = [] then Some (- 1, [])
      else case file of
        None \<Rightarrow> Some (- 1, [])
      | Some bytes \<Rightarrow>
          (case ip_lookup ip bytes of
             None \<Rightarrow> Some (- 1, [])
           | Some d \<Rightarrow> if length d < domain_size then Some (0, d) else None))"

text \<open>
  The lines kept. Each is passed to \<open>fprintf\<close> as the format: a percent sign in it makes the function read
  arguments that are not there (\<open>None\<close>). A line that is not a pair is dropped.
\<close>

function ip_delete :: "string \<Rightarrow> string \<Rightarrow> char list \<Rightarrow> char list option" where
  "ip_delete ip domain s =
     (case fgets_buf 156 s of
        None \<Rightarrow> Some []
      | Some (l, r) \<Rightarrow>
          (case ip_fields l of
             None \<Rightarrow> ip_delete ip domain r
           | Some p \<Rightarrow>
               if p = (ip, domain) then ip_delete ip domain r
               else if CHR ''%'' \<in> set (c_str l) then None
               else map_option (\<lambda>o'. c_str l @ o') (ip_delete ip domain r)))"
  by pat_completeness auto

termination
  by (relation "measure (\<lambda>(i, d, s). length s)") (auto dest: fgets_156)

declare ip_delete.simps [simp del]

text \<open>\<open>tmp\<close>: the new file can be made and takes the place of the old one.\<close>

definition del_ip_map :: "bool \<Rightarrow> string \<Rightarrow> string \<Rightarrow> char list option \<Rightarrow> (int \<times> char list option) option" where
  "del_ip_map tmp ip domain file =
     (if ip = [] \<or> domain = [] then Some (- 1, file)
      else case file of
        None \<Rightarrow> Some (- 1, None)
      | Some bytes \<Rightarrow>
          if \<not> tmp then Some (- 1, file) else map_option (\<lambda>b. (0, Some b)) (ip_delete ip domain bytes))"

definition add_ip_map :: "bool \<Rightarrow> bool \<Rightarrow> string \<Rightarrow> string \<Rightarrow> char list option \<Rightarrow> (int \<times> char list option) option" where
  "add_ip_map tmp appendable ip domain file =
     (if ip = [] then Some (- 1, file)
      else if domain = [] then Some (- 10, file)
      else case del_ip_map tmp ip domain file of
        None \<Rightarrow> None
      | Some (_, file') \<Rightarrow>
          if \<not> appendable then Some (- 1, file')
          else Some (0, Some ((case file' of None \<Rightarrow> [] | Some b \<Rightarrow> b) @ ip @ '' '' @ domain @ [LF])))"

text \<open>All pairs that \<open>show_ip_map\<close> yields from the first call to the one that returns 0.\<close>

function show_ip_map :: "char list \<Rightarrow> (string \<times> string) list" where
  "show_ip_map s =
     (case fgets_buf 156 s of
        None \<Rightarrow> []
      | Some (l, r) \<Rightarrow>
          (case ip_fields l of None \<Rightarrow> show_ip_map r | Some p \<Rightarrow> p # show_ip_map r))"
  by pat_completeness auto

termination
  by (relation "measure length") (auto dest: fgets_156)

declare show_ip_map.simps [simp del]

definition ip_word :: "string \<Rightarrow> bool" where
  "ip_word w \<longleftrightarrow> w \<noteq> [] \<and> (\<forall>c \<in> set w. c \<noteq> NUL \<and> c \<noteq> LF \<and> c \<noteq> CHR '' '' \<and> c \<noteq> CHR 0x09 \<and> c \<noteq> CHR ''%'')"

definition ip_pair :: "string \<times> string \<Rightarrow> bool" where
  "ip_pair p \<longleftrightarrow> ip_word (fst p) \<and> ip_word (snd p) \<and> length (fst p) + length (snd p) < 154"

definition ip_line :: "string \<times> string \<Rightarrow> string" where
  "ip_line p = fst p @ '' '' @ snd p"

definition ip_file :: "(string \<times> string) list \<Rightarrow> char list" where
  "ip_file ps = print_lines (map ip_line ps)"

lemma ip_fields_line:
  assumes "ip_pair p"
  shows "fgets_buf 156 (ip_line p @ LF # r) = Some (ip_line p @ [LF], r)" "ip_fields (ip_line p @ [LF]) = Some p"
    "c_str (ip_line p @ [LF]) = ip_line p @ [LF]" "CHR ''%'' \<notin> set (ip_line p)"
proof -
  obtain i d where p: "p = (i, d)" by (cases p)
  have w: "ip_word i" "ip_word d" "length i + length d < 154" using assms by (simp_all add: ip_pair_def p)
  have n: "LF \<notin> set (ip_line p)" "nul_free (ip_line p @ [LF])"
    using w by (auto simp: ip_line_def p ip_word_def nul_free_def)
  show "fgets_buf 156 (ip_line p @ LF # r) = Some (ip_line p @ [LF], r)"
    using n(1) w(3) by (intro fgets_buf_line) (simp_all add: ip_line_def p)
  show c: "c_str (ip_line p @ [LF]) = ip_line p @ [LF]" using n(2) by (rule c_str_nul_free)
  show "CHR ''%'' \<notin> set (ip_line p)" using w by (auto simp: ip_line_def p ip_word_def)
  have t: "strtok IP_ALIAS_TOKENS (x @ b # y) = Some (x, y)" if "ip_word x" "b \<in> set IP_ALIAS_TOKENS" for x y b
  proof -
    have x: "\<forall>c \<in> set x. c \<notin> set IP_ALIAS_TOKENS" "x \<noteq> []" using that(1) by (auto simp: ip_word_def IP_ALIAS_TOKENS_def)
    then have "dropWhile (\<lambda>c. c \<in> set IP_ALIAS_TOKENS) (x @ b # y) = x @ b # y" by (cases x) simp_all
    moreover have "takeWhile (\<lambda>c. c \<notin> set IP_ALIAS_TOKENS) (x @ b # y) = x" "dropWhile (\<lambda>c. c \<notin> set IP_ALIAS_TOKENS) (x @ b # y) = b # y"
      using x(1) that(2) by (simp_all add: takeWhile_append dropWhile_append)
    ultimately show ?thesis by (simp add: strtok_def Let_def)
  qed
  show "ip_fields (ip_line p @ [LF]) = Some p"
    unfolding ip_fields_def c using t [OF w(1), of "CHR '' ''" "d @ [LF]"] t [OF w(2), of LF "[]"]
    by (simp add: ip_line_def p IP_ALIAS_TOKENS_def)
qed

lemma ip_file_simps [simp]: "ip_file [] = []" "ip_file (p # ps) = ip_line p @ LF # ip_file ps" "ip_file (ps @ qs) = ip_file ps @ ip_file qs"
  by (simp_all add: ip_file_def)

lemma ip_lookup_file: "list_all ip_pair ps \<Longrightarrow> ip_lookup ip (ip_file ps) = map_of ps ip"
proof (induction ps)
  case (Cons p ps)
  then show ?case using ip_fields_line(1,2) [of p] by (subst ip_lookup.simps) (cases p; simp)
qed (simp add: ip_lookup.simps)

lemma ip_delete_file:
  "list_all ip_pair ps \<Longrightarrow> ip_delete ip d (ip_file ps) = Some (ip_file (filter (\<lambda>p. p \<noteq> (ip, d)) ps))"
proof (induction ps)
  case (Cons p ps)
  then show ?case using ip_fields_line [of p] by (subst ip_delete.simps) simp
qed (simp add: ip_delete.simps)

lemma show_ip_map_file: "list_all ip_pair ps \<Longrightarrow> show_ip_map (ip_file ps) = ps"
proof (induction ps)
  case (Cons p ps)
  then show ?case using ip_fields_line(1,2) [of p] by (subst show_ip_map.simps) simp
qed (simp add: show_ip_map.simps)

text \<open>
  C24. Adding a pair of address and domain to a readable map takes an equal pair out and puts the new one at the
  end; a look-up then finds the domain that an earlier line gives the address, and the new one only when there
  is no such line, whatever the comment on removing duplicates says.
\<close>

theorem add_get_ip_map:
  assumes "list_all ip_pair ps" "ip_pair (ip, d)" "\<forall>p \<in> set ps. length (snd p) < n" "length d < n"
  shows "\<exists>file. add_ip_map True True ip d (Some (ip_file ps)) = Some (0, Some file)
    \<and> show_ip_map file = filter (\<lambda>p. p \<noteq> (ip, d)) ps @ [(ip, d)]
    \<and> get_ip_map ip n (Some file) =
        Some (0, case map_of (filter (\<lambda>p. p \<noteq> (ip, d)) ps) ip of None \<Rightarrow> d | Some d' \<Rightarrow> d')"
proof -
  let ?ps = "filter (\<lambda>p. p \<noteq> (ip, d)) ps @ [(ip, d)]"
  have g: "list_all ip_pair ?ps" using assms(1,2) by (auto simp: list_all_iff)
  have ne: "ip \<noteq> []" "d \<noteq> []" using assms(2) by (auto simp: ip_pair_def ip_word_def)
  have "add_ip_map True True ip d (Some (ip_file ps)) = Some (0, Some (ip_file ?ps))"
    using ne ip_delete_file [OF assms(1)] by (simp add: add_ip_map_def del_ip_map_def ip_line_def)
  moreover have "\<forall>d'. map_of (filter (\<lambda>p. p \<noteq> (ip, d)) ps) ip = Some d' \<longrightarrow> length d' < n"
    using assms(3) by (fastforce dest!: map_of_SomeD)
  then have "get_ip_map ip n (Some (ip_file ?ps)) =
      Some (0, case map_of (filter (\<lambda>p. p \<noteq> (ip, d)) ps) ip of None \<Rightarrow> d | Some d' \<Rightarrow> d')"
    using ne assms(4) by (auto simp: get_ip_map_def ip_lookup_file [OF g] map_add_def simp del: ip_file_simps split: option.splits)
  ultimately show ?thesis using show_ip_map_file [OF g] by blast
qed

theorem add_get_ip_map_witness:
  "\<exists>file. add_ip_map True True ''10.0.0.1'' ''b.org'' (Some (ip_file [(''10.0.0.1'', ''a.com'')])) = Some (0, Some file)
    \<and> show_ip_map file = filter (\<lambda>p. p \<noteq> (''10.0.0.1'', ''b.org'')) [(''10.0.0.1'', ''a.com'')] @ [(''10.0.0.1'', ''b.org'')]
    \<and> get_ip_map ''10.0.0.1'' 100 (Some file) = Some (0, case map_of (filter (\<lambda>p. p \<noteq> (''10.0.0.1'', ''b.org'')) [(''10.0.0.1'', ''a.com'')])
        ''10.0.0.1'' of None \<Rightarrow> ''b.org'' | Some d' \<Rightarrow> d')"
  by (rule add_get_ip_map) (simp_all add: ip_pair_def ip_word_def)
end
